(* ===== verification/Prelude.thy ===== *)
theory Prelude
  imports Main "HOL-Library.Code_Target_Numeral"
begin

text \<open>
  The prelude of the development: what the components share. It holds the model of the
  JavaScript values the source computes with (numbers that are read only by
  \<open>Number.isInteger\<close>, decimal digits and digit strings, the results of throwing functions)
  and the lemmas about them that carry the component proofs.
\<close>

section \<open>Results of functions that throw\<close>

text \<open>
  A function of the source that throws is modelled with a sum type, \<open>Inl\<close> the error. The
  errors of the language and of its validator are these; each component adds its own.
\<close>

datatype js_error = RangeError | ZodError | ErrorThrown

text \<open>
  A JavaScript number where the source asks only whether it is an integer:
  \<open>JInt\<close> for the integers, \<open>JOther\<close> for every other number (a fraction, NaN, an infinity).
\<close>

datatype js_num = JInt int | JOther

fun js_integer_in :: "js_num \<Rightarrow> int \<Rightarrow> int \<Rightarrow> bool" where
  "js_integer_in (JInt i) lo hi = (lo \<le> i \<and> i \<le> hi)"
| "js_integer_in JOther lo hi = False"

fun js_int :: "js_num \<Rightarrow> int" where
  "js_int (JInt i) = i"
| "js_int JOther = 0"

lemma js_integer_inE:
  assumes "js_integer_in n lo hi"
  obtains i where "n = JInt i" "lo \<le> i" "i \<le> hi"
  using assms by (cases n) auto

section \<open>Integer division\<close>

lemma int_le_div_iff: "0 < (b::int) \<Longrightarrow> q \<le> a div b \<longleftrightarrow> q * b \<le> a"
proof
  assume b: "0 < b" and q: "q \<le> a div b"
  have "q * b \<le> a div b * b" using b q by (simp add: mult_right_mono)
  also have "\<dots> \<le> a" using div_mult_mod_eq [of a b] pos_mod_sign [OF b, of a] by linarith
  finally show "q * b \<le> a" .
next
  assume b: "0 < b" and "q * b \<le> a"
  then have "(q * b) div b \<le> a div b" by (intro zdiv_mono1)
  then show "q \<le> a div b" using b by simp
qed

lemma int_div_less_iff: "0 < (b::int) \<Longrightarrow> a div b < q \<longleftrightarrow> a < q * b"
  using int_le_div_iff [of b q a] by (simp add: not_le [symmetric])

lemma int_ceil_div_le_iff: "0 < (b::int) \<Longrightarrow> (a + b - 1) div b \<le> q \<longleftrightarrow> a \<le> q * b"
  using int_div_less_iff [of b "a + b - 1" "q + 1"] by (simp add: algebra_simps) linarith

section \<open>Decimal digits and digit strings\<close>

definition dig_of :: "char \<Rightarrow> nat" where
  "dig_of c = of_char c - 48"

definition is_dig :: "char \<Rightarrow> bool" where
  "is_dig c \<longleftrightarrow> 48 \<le> (of_char c :: nat) \<and> (of_char c :: nat) \<le> 57"

definition dig_char :: "nat \<Rightarrow> char" where
  "dig_char n = char_of (48 + n)"

lemma of_char_dig_char: "n < 10 \<Longrightarrow> (of_char (dig_char n) :: nat) = 48 + n"
  by (simp add: dig_char_def of_char_of)

lemma is_dig_dig_char [simp]: "n < 10 \<Longrightarrow> is_dig (dig_char n)"
  by (simp add: is_dig_def of_char_dig_char)

lemma dig_of_dig_char [simp]: "n < 10 \<Longrightarrow> dig_of (dig_char n) = n"
  by (simp add: dig_of_def of_char_dig_char)

lemma dig_of_less [intro]: "is_dig c \<Longrightarrow> dig_of c < 10"
  by (auto simp: is_dig_def dig_of_def)

lemma dig_char_dig_of [simp]:
  assumes "is_dig c" shows "dig_char (dig_of c) = c"
proof -
  have "48 + ((of_char c :: nat) - 48) = of_char c" using assms by (simp add: is_dig_def)
  then show ?thesis by (simp add: dig_char_def dig_of_def)
qed

lemma dig_of_eq_iff: "is_dig c \<Longrightarrow> is_dig d \<Longrightarrow> dig_of c = dig_of d \<longleftrightarrow> c = d"
  by (metis dig_char_dig_of)

lemma is_dig_zero [simp]: "is_dig CHR ''0''" and dig_of_zero [simp]: "dig_of CHR ''0'' = 0"
  by (simp_all add: is_dig_def dig_of_def)

lemma not_is_dig_sep [simp]: "\<not> is_dig CHR ''.''" "\<not> is_dig CHR ''-''" "\<not> is_dig CHR '',''"
  by (simp_all add: is_dig_def)

lemma dig_of_0_iff: "is_dig c \<Longrightarrow> dig_of c = 0 \<longleftrightarrow> c = CHR ''0''"
  using dig_of_eq_iff [of c "CHR ''0''"] by simp

text \<open>The value of a digit string, as \<open>BigInt(text)\<close> reads it (the empty string is 0).\<close>

definition dval :: "string \<Rightarrow> nat" where
  "dval s = foldl (\<lambda>a c. 10 * a + dig_of c) 0 s"

lemma foldl_dval: "foldl (\<lambda>a c. 10 * a + dig_of c) n s = n * 10 ^ length s + dval s"
proof (induction s arbitrary: n)
  case Nil
  then show ?case by (simp add: dval_def)
next
  case (Cons c s)
  show ?case
    using Cons.IH [of "10 * n + dig_of c"] Cons.IH [of "dig_of c"]
    by (simp add: dval_def algebra_simps)
qed

lemma dval_Nil [simp]: "dval [] = 0"
  by (simp add: dval_def)

lemma dval_Cons: "dval (c # s) = dig_of c * 10 ^ length s + dval s"
  using foldl_dval [of "dig_of c" s] by (simp add: dval_def)

lemma dval_append: "dval (s @ t) = dval s * 10 ^ length t + dval t"
  using foldl_dval [of "dval s" t] by (simp add: dval_def)

lemma dval_snoc [simp]: "dval (s @ [c]) = 10 * dval s + dig_of c"
  by (simp add: dval_def)

lemma dval_zeros [simp]: "dval (replicate n CHR ''0'') = 0"
  by (induction n) (simp_all add: dval_Cons)

lemma dval_less: "list_all is_dig s \<Longrightarrow> dval s < 10 ^ length s"
proof (induction s)
  case (Cons c s)
  then have "dig_of c \<le> 9" and "dval s < 10 ^ length s"
    using dig_of_less [of c] by auto
  then have "dig_of c * 10 ^ length s + dval s < 9 * 10 ^ length s + 10 ^ length s"
    by (intro add_le_less_mono mult_right_mono) simp_all
  then show ?case by (simp add: dval_Cons)
qed simp

lemma dval_inject:
  "list_all is_dig s \<Longrightarrow> list_all is_dig t \<Longrightarrow> length s = length t \<Longrightarrow> dval s = dval t \<Longrightarrow> s = t"
proof (induction s arbitrary: t rule: rev_induct)
  case Nil
  then show ?case by simp
next
  case (snoc c s)
  obtain d t' where t: "t = t' @ [d]"
    using snoc.prems(3) by (cases t rule: rev_cases) auto
  have "dig_of c < 10" "dig_of d < 10" using snoc.prems t by auto
  moreover have "10 * dval s + dig_of c = 10 * dval t' + dig_of d" using snoc.prems t by simp
  ultimately have "dig_of c = dig_of d" "dval s = dval t'" by arith+
  then show ?case using snoc.IH [of t'] snoc.prems t dig_of_eq_iff by auto
qed

text \<open>\<open>BigInt.prototype.toString\<close> of a non-negative integer.\<close>

fun nat_str :: "nat \<Rightarrow> string" where
  "nat_str n = (if n < 10 then [dig_char n] else nat_str (n div 10) @ [dig_char (n mod 10)])"

declare nat_str.simps [simp del]

lemma nat_str_digits [simp]: "list_all is_dig (nat_str n)"
proof (induction n rule: nat_str.induct)
  case (1 n)
  then show ?case by (subst nat_str.simps) auto
qed

lemma dval_nat_str [simp]: "dval (nat_str n) = n"
proof (induction n rule: nat_str.induct)
  case (1 n)
  show ?case
  proof (cases "n < 10")
    case True
    then show ?thesis by (simp add: nat_str.simps dval_def)
  next
    case False
    then show ?thesis using 1 by (subst nat_str.simps) simp
  qed
qed

lemma nat_str_nonempty [simp]: "nat_str n \<noteq> []"
  by (subst nat_str.simps) simp

lemma nat_str_length: "n < 10 ^ k \<Longrightarrow> 0 < k \<Longrightarrow> length (nat_str n) \<le> k"
proof (induction n arbitrary: k rule: nat_str.induct)
  case (1 n)
  show ?case
  proof (cases "n < 10")
    case True
    then show ?thesis using "1.prems" by (simp add: nat_str.simps)
  next
    case False
    then obtain j where k: "k = Suc j" using "1.prems" by (cases k) auto
    with False "1.prems" have "0 < j" by (cases j) auto
    moreover have "n div 10 < 10 ^ j" using "1.prems" k by (simp add: less_mult_imp_div_less mult.commute)
    ultimately have "length (nat_str (n div 10)) \<le> j" using "1.IH" False by simp
    then show ?thesis using False k by (subst nat_str.simps) simp
  qed
qed

lemma nat_str_no_leading_zero:
  "10 \<le> n \<Longrightarrow> hd (nat_str n) \<noteq> CHR ''0''"
proof (induction n rule: nat_str.induct)
  case (1 n)
  show ?case
  proof (cases "10 \<le> n div 10")
    case True
    then have "hd (nat_str (n div 10)) \<noteq> CHR ''0''" using 1 by simp
    then show ?thesis using "1.prems" by (subst nat_str.simps) (simp add: hd_append)
  next
    case False
    have "nat_str n = [dig_char (n div 10), dig_char (n mod 10)]"
      using False "1.prems" by (subst nat_str.simps, simp, subst nat_str.simps, simp)
    moreover have "dig_of (dig_char (n div 10)) \<noteq> 0"
      using False "1.prems" by simp
    then have "dig_char (n div 10) \<noteq> CHR ''0''" by (metis dig_of_zero)
    ultimately show ?thesis by simp
  qed
qed

section \<open>Zero padding and zero stripping\<close>

text \<open>\<open>padEnd(n, '0')\<close> and \<open>padStart(n, '0')\<close>: never shorten.\<close>

definition pad_end :: "nat \<Rightarrow> string \<Rightarrow> string" where
  "pad_end n s = s @ replicate (n - length s) CHR ''0''"

definition pad_start :: "nat \<Rightarrow> string \<Rightarrow> string" where
  "pad_start n s = replicate (n - length s) CHR ''0'' @ s"

lemma pad_digits [simp]:
  "list_all is_dig (pad_end n s) = list_all is_dig s"
  "list_all is_dig (pad_start n s) = list_all is_dig s"
  by (auto simp: pad_end_def pad_start_def list_all_iff)

lemma length_pad [simp]:
  "length (pad_end n s) = max n (length s)" "length (pad_start n s) = max n (length s)"
  by (simp_all add: pad_end_def pad_start_def)

lemma dval_pad_start [simp]: "dval (pad_start n s) = dval s"
  by (simp add: pad_start_def dval_append)

lemma dval_pad_end: "dval (pad_end n s) = dval s * 10 ^ (n - length s)"
  by (simp add: pad_end_def dval_append)

text \<open>\<open>replace(/0+$/, '')\<close>.\<close>

definition strip_end :: "string \<Rightarrow> string" where
  "strip_end s = rev (dropWhile (\<lambda>c. c = CHR ''0'') (rev s))"

text \<open>
  \<open>replace(/^0+(?=\d)/, '')\<close>: the greedy run of zeros backtracks until a digit follows, so a
  leading zero goes exactly while the next character is a digit.
\<close>

fun strip_start :: "string \<Rightarrow> string" where
  "strip_start (z # c # s) = (if z = CHR ''0'' \<and> is_dig c then strip_start (c # s) else z # c # s)"
| "strip_start s = s"

lemma strip_end_decomp: "\<exists>k. s = strip_end s @ replicate k CHR ''0''"
proof -
  have "rev s = takeWhile (\<lambda>c. c = CHR ''0'') (rev s) @ dropWhile (\<lambda>c. c = CHR ''0'') (rev s)"
    by simp
  then have "s = strip_end s @ rev (takeWhile (\<lambda>c. c = CHR ''0'') (rev s))"
    unfolding strip_end_def by (metis rev_append rev_rev_ident)
  moreover have "rev (takeWhile (\<lambda>c. c = CHR ''0'') (rev s))
      = replicate (length (takeWhile (\<lambda>c. c = CHR ''0'') (rev s))) CHR ''0''"
    by (rule replicate_eqI) (auto dest: set_takeWhileD)
  ultimately show ?thesis by metis
qed

lemma strip_end_last: "strip_end s \<noteq> [] \<Longrightarrow> last (strip_end s) \<noteq> CHR ''0''"
  using hd_dropWhile [of "\<lambda>c. c = CHR ''0''" "rev s"] by (simp add: strip_end_def last_rev)

lemma strip_end_digits [simp]: "list_all is_dig s \<Longrightarrow> list_all is_dig (strip_end s)"
  by (auto simp: strip_end_def list_all_iff dest: set_dropWhileD)

lemma strip_end_zeros [simp]: "strip_end (s @ replicate k CHR ''0'') = strip_end s"
proof -
  have "dropWhile (\<lambda>c. c = CHR ''0'') (replicate k CHR ''0'' @ rev s) = dropWhile (\<lambda>c. c = CHR ''0'') (rev s)"
    by (induction k) simp_all
  then show ?thesis by (simp add: strip_end_def)
qed

lemma strip_end_pad_end [simp]: "strip_end (pad_end n s) = strip_end s"
  by (simp add: pad_end_def)

lemma length_strip_end: "length (strip_end s) \<le> length s"
  using length_dropWhile_le [of _ "rev s"] by (simp add: strip_end_def)

lemma pad_end_strip_end: "length s = n \<Longrightarrow> pad_end n (strip_end s) = s"
proof -
  assume n: "length s = n"
  obtain k where "s = strip_end s @ replicate k CHR ''0''" using strip_end_decomp by blast
  moreover from this have "length s = length (strip_end s) + k"
    by (metis length_append length_replicate)
  ultimately show ?thesis using n by (simp add: pad_end_def)
qed

lemma strip_start_digits [simp]: "list_all is_dig s \<Longrightarrow> list_all is_dig (strip_start s)"
  by (induction s rule: strip_start.induct) auto

lemma dval_strip_start [simp]: "dval (strip_start s) = dval s"
  by (induction s rule: strip_start.induct) (simp_all add: dval_Cons)

lemma strip_start_nonempty [simp]: "strip_start s = [] \<longleftrightarrow> s = []"
  by (induction s rule: strip_start.induct) auto

lemma length_strip_start: "length (strip_start s) \<le> length s"
  by (induction s rule: strip_start.induct) auto

lemma strip_start_canonical:
  "list_all is_dig s \<Longrightarrow> s \<noteq> [] \<Longrightarrow> strip_start s = nat_str (dval s)"
proof (induction s rule: rev_induct)
  case Nil
  then show ?case by simp
next
  case (snoc c s)
  show ?case
  proof (cases "s = []")
    case True
    then show ?thesis using snoc.prems dig_of_less [of c] by (subst nat_str.simps) (simp add: dval_def)
  next
    case False
    have IH: "strip_start s = nat_str (dval s)" using snoc False by simp
    have app: "strip_start (s @ [c]) =
        (if strip_start s = [CHR ''0''] then [c] else strip_start s @ [c])" if "is_dig c" "s \<noteq> []"
      using that
    proof (induction s rule: strip_start.induct)
      case (1 z d s)
      then show ?case by (cases s) (auto split: if_splits)
    qed auto
    have c: "is_dig c" "dig_of c < 10" using snoc.prems by auto
    show ?thesis
    proof (cases "dval s = 0")
      case True
      then have "strip_start s = [CHR ''0'']"
        using IH dig_char_dig_of [of "CHR ''0''"] by (simp add: nat_str.simps)
      then show ?thesis using app c False True by (subst nat_str.simps) simp
    next
      case nz: False
      then have "strip_start s \<noteq> [CHR ''0'']"
        using dval_strip_start [of s] by (auto simp: dval_Cons simp del: dval_strip_start)
      then show ?thesis using app c False IH nz by (subst nat_str.simps) simp
    qed
  qed
qed

end
