(* ===== verification/Money.thy ===== *)
theory Money
  imports Prelude Complex_Main
begin

text \<open>
  Money as the program holds it: decimal strings and bigints scaled by \<open>10^8\<close>, never a float.
  This theory models \<^verbatim>\<open>packages/shared/src/money.ts\<close> (the decimal string schema, the numeric(20,8)
  domain, the wire values, \<open>normalizeDecimal\<close>) and \<^verbatim>\<open>packages/stake/src/money.ts\<close> (parsing,
  formatting, rounding to a scale, the payout arithmetic). The lemmas relate both to one meaning,
  the rational value of a decimal text: equal normal forms are equal values, formatting and
  parsing are inverse on the domain, and rounding gives the least (greatest) grid point.
\<close>

section \<open>The grammar of a decimal string\<close>

definition NUMERIC_INTEGER_DIGITS :: nat where "NUMERIC_INTEGER_DIGITS = 12"
definition NUMERIC_FRACTION_DIGITS :: nat where "NUMERIC_FRACTION_DIGITS = 8"

text \<open>
  The body \<open>\d+(\.\d+)?\<close> shared by every pattern of the two modules: the whole part and the
  fraction digits, \<open>None\<close> where the anchored pattern does not match. A run of digits can only be
  followed by a dot or the end, so the greedy run is the whole part.
\<close>

definition dec_body :: "string \<Rightarrow> (string \<times> string) option" where
  "dec_body s =
     (let w = takeWhile is_dig s; r = dropWhile is_dig s in
      if w = [] then None
      else case r of
        [] \<Rightarrow> Some (w, [])
      | c # f \<Rightarrow> if c = CHR ''.'' \<and> f \<noteq> [] \<and> list_all is_dig f then Some (w, f) else None)"

definition starts_minus :: "string \<Rightarrow> bool" where
  "starts_minus s = (case s of [] \<Rightarrow> False | c # _ \<Rightarrow> c = CHR ''-'')"

definition unsigned :: "string \<Rightarrow> string" where
  "unsigned s = (if starts_minus s then tl s else s)"

text \<open>\<open>decimalStringSchema\<close>: \<open>/^-?\d+(\.\d+)?$/\<close>, and its \<open>parse\<close>, which throws.\<close>

definition is_decimal_string :: "string \<Rightarrow> bool" where
  "is_decimal_string s \<longleftrightarrow> dec_body (unsigned s) \<noteq> None"

definition decimal_parse :: "string \<Rightarrow> js_error + string" where
  "decimal_parse s = (if is_decimal_string s then Inr s else Inl ZodError)"

definition positive_decimal :: "string \<Rightarrow> bool" where
  "positive_decimal s \<longleftrightarrow>
     is_decimal_string s \<and> \<not> starts_minus s \<and> list_ex (\<lambda>c. is_dig c \<and> c \<noteq> CHR ''0'') s"

text \<open>\<open>value.split('.')\<close>, the first two parts with their defaults.\<close>

definition dot_int :: "string \<Rightarrow> string" where
  "dot_int s = takeWhile (\<lambda>c. c \<noteq> CHR ''.'') s"

definition dot_frac :: "string \<Rightarrow> string" where
  "dot_frac s = takeWhile (\<lambda>c. c \<noteq> CHR ''.'') (tl (dropWhile (\<lambda>c. c \<noteq> CHR ''.'') s))"

definition numeric_domain_decimal :: "string \<Rightarrow> bool" where
  "numeric_domain_decimal s \<longleftrightarrow>
     positive_decimal s \<and> length (dot_int s) \<le> NUMERIC_INTEGER_DIGITS
     \<and> length (dot_frac s) \<le> NUMERIC_FRACTION_DIGITS"

definition normalize_decimal :: "string \<Rightarrow> string" where
  "normalize_decimal s =
     (let i = strip_start (dot_int s); f = strip_end (dot_frac s)
      in if f = [] then i else i @ CHR ''.'' # f)"

text \<open>
  \<open>moneyWireSchema\<close> over what \<open>JSON.parse\<close> can give: a string, a number that is an integer, a
  number that is not, given by the text \<open>String(value)\<close> (the schema reads nothing else of it), or
  something else. \<open>z.int()\<close> takes the safe integers only.
\<close>

datatype wire_value = WStr string | WInt int | WNum string | WOther

definition MAX_WIRE_SIGNIFICANT_DIGITS :: nat where "MAX_WIRE_SIGNIFICANT_DIGITS = 15"

definition plain_fraction :: "string \<Rightarrow> bool" where
  "plain_fraction s \<longleftrightarrow> (case dec_body (unsigned s) of None \<Rightarrow> False | Some (w, f) \<Rightarrow> f \<noteq> [])"

definition significant_digits :: "string \<Rightarrow> nat" where
  "significant_digits s =
     length (dropWhile (\<lambda>c. c = CHR ''0'') (remove1 CHR ''.'' (remove1 CHR ''-'' s)))"

definition int_str :: "int \<Rightarrow> string" where
  "int_str i = (if i < 0 then CHR ''-'' # nat_str (nat (- i)) else nat_str (nat i))"

fun money_wire :: "wire_value \<Rightarrow> string option" where
  "money_wire (WStr s) = (if is_decimal_string s then Some s else None)"
| "money_wire (WInt i) = (if \<bar>i\<bar> \<le> 2 ^ 53 - 1 then Some (int_str i) else None)"
| "money_wire (WNum t) =
     (if plain_fraction t \<and> significant_digits t \<le> MAX_WIRE_SIGNIFICANT_DIGITS then Some t else None)"
| "money_wire WOther = None"

section \<open>Amounts scaled by \<open>10^8\<close>\<close>

definition AMOUNT_INTEGER_DIGITS :: nat where "AMOUNT_INTEGER_DIGITS = 12"
definition AMOUNT_SCALE :: nat where "AMOUNT_SCALE = 8"
definition PAYOUT_INTEGER_DIGITS :: nat where "PAYOUT_INTEGER_DIGITS = 4"
definition PAYOUT_SCALE :: nat where "PAYOUT_SCALE = 4"

definition AMOUNT_UNIT :: int where "AMOUNT_UNIT = 10 ^ AMOUNT_SCALE"
definition PERCENT_DIVISOR :: int where "PERCENT_DIVISOR = 100 * 10 ^ PAYOUT_SCALE"

definition parse_amount :: "string \<Rightarrow> int option" where
  "parse_amount text =
     (case dec_body (unsigned text) of
        None \<Rightarrow> None
      | Some (whole, fraction) \<Rightarrow>
          if length whole \<le> AMOUNT_INTEGER_DIGITS \<and> length fraction \<le> AMOUNT_SCALE
          then (let value = int (dval whole) * AMOUNT_UNIT + int (dval (pad_end AMOUNT_SCALE fraction))
                in Some (if starts_minus text then - value else value))
          else None)"

definition split_sign :: "int \<Rightarrow> string" where
  "split_sign v = (if v < 0 then ''-'' else [])"

definition split_whole :: "int \<Rightarrow> int" where
  "split_whole v = \<bar>v\<bar> div AMOUNT_UNIT"

definition split_fraction :: "int \<Rightarrow> string" where
  "split_fraction v = pad_start AMOUNT_SCALE (nat_str (nat (\<bar>v\<bar> mod AMOUNT_UNIT)))"

text \<open>
  \<open>amount_text\<close> is the template literal of \<open>formatAmount\<close>; \<open>format_amount\<close> is the function, which
  hands it to the schema. \<open>format_amount_total\<close> below shows the schema never refuses it.
\<close>

definition amount_text :: "int \<Rightarrow> string" where
  "amount_text v =
     (let trimmed = strip_end (split_fraction v) in
      split_sign v @ nat_str (nat (split_whole v)) @ (if trimmed = [] then [] else CHR ''.'' # trimmed))"

definition format_amount :: "int \<Rightarrow> js_error + string" where
  "format_amount v = decimal_parse (amount_text v)"

text \<open>\<open>assertScale\<close> and \<open>step\<close>: the grid unit of a scale, or a \<open>RangeError\<close>.\<close>

definition scale_step :: "js_num \<Rightarrow> js_error + int" where
  "scale_step scale =
     (if js_integer_in scale 0 (int AMOUNT_SCALE)
      then Inr (10 ^ (AMOUNT_SCALE - nat (js_int scale)))
      else Inl RangeError)"

text \<open>bigint division truncates towards zero; every dividend and divisor here is non-negative.\<close>

definition div_ceil :: "int \<Rightarrow> int \<Rightarrow> js_error + int" where
  "div_ceil a b = (if a < 0 \<or> b \<le> 0 then Inl RangeError else Inr ((a + b - 1) div b))"

definition ceil_to_scale :: "int \<Rightarrow> js_num \<Rightarrow> js_error + int" where
  "ceil_to_scale value scale =
     (if value < 0 then Inl RangeError
      else case scale_step scale of
        Inl e \<Rightarrow> Inl e
      | Inr unit \<Rightarrow> (case div_ceil value unit of Inl e \<Rightarrow> Inl e | Inr q \<Rightarrow> Inr (q * unit)))"

definition floor_to_scale :: "int \<Rightarrow> js_num \<Rightarrow> js_error + int" where
  "floor_to_scale value scale =
     (if value < 0 then Inl RangeError
      else case scale_step scale of
        Inl e \<Rightarrow> Inl e
      | Inr unit \<Rightarrow> Inr ((value div unit) * unit))"

definition stake_text :: "int \<Rightarrow> nat \<Rightarrow> string" where
  "stake_text v scale =
     (if scale = 0 then nat_str (nat (split_whole v))
      else nat_str (nat (split_whole v)) @ CHR ''.'' # take scale (split_fraction v))"

definition format_stake :: "int \<Rightarrow> js_num \<Rightarrow> js_error + string" where
  "format_stake value scale =
     (if value < 0 then Inl RangeError
      else case scale_step scale of
        Inl e \<Rightarrow> Inl e
      | Inr unit \<Rightarrow>
          if value mod unit \<noteq> 0 then Inl RangeError
          else decimal_parse (stake_text value (nat (js_int scale))))"

text \<open>
  \<open>parsePayout\<close> takes a JavaScript number and reads two things of it: whether it is finite and
  its text \<open>String(payout)\<close>. A payout of the model is that pair.
\<close>

record js_payout =
  payout_finite :: bool
  payout_string :: string

definition parse_payout :: "js_payout \<Rightarrow> int option" where
  "parse_payout p =
     (if \<not> payout_finite p then None
      else case dec_body (payout_string p) of
        None \<Rightarrow> None
      | Some (whole, fraction) \<Rightarrow>
          if length whole \<le> PAYOUT_INTEGER_DIGITS \<and> length fraction \<le> PAYOUT_SCALE
          then (let scaled = int (dval whole) * 10 ^ PAYOUT_SCALE + int (dval (pad_end PAYOUT_SCALE fraction))
                in if 0 < scaled then Some scaled else None)
          else None)"

definition expected_profit :: "int \<Rightarrow> int \<Rightarrow> js_num \<Rightarrow> js_error + int" where
  "expected_profit stake payout_scaled scale =
     floor_to_scale ((stake * payout_scaled) div PERCENT_DIVISOR) scale"

section \<open>What a decimal text means\<close>

named_theorems money_defs
declare NUMERIC_INTEGER_DIGITS_def [money_defs] NUMERIC_FRACTION_DIGITS_def [money_defs]
  AMOUNT_INTEGER_DIGITS_def [money_defs] AMOUNT_SCALE_def [money_defs] AMOUNT_UNIT_def [money_defs]
  PAYOUT_INTEGER_DIGITS_def [money_defs] PAYOUT_SCALE_def [money_defs] PERCENT_DIVISOR_def [money_defs]

definition dec_shape :: "string \<Rightarrow> string \<Rightarrow> string" where
  "dec_shape w f = (if f = [] then w else w @ CHR ''.'' # f)"

lemma takeWhile_digits [simp]:
  "list_all is_dig w \<Longrightarrow> takeWhile is_dig (w @ s) = w @ takeWhile is_dig s"
  "list_all is_dig w \<Longrightarrow> dropWhile is_dig (w @ s) = dropWhile is_dig s"
  "list_all is_dig w \<Longrightarrow> takeWhile is_dig w = w"
  "list_all is_dig w \<Longrightarrow> dropWhile is_dig w = []"
  by (induction w) auto

lemma dec_body_iff:
  "dec_body s = Some (w, f) \<longleftrightarrow>
     w \<noteq> [] \<and> list_all is_dig w \<and> list_all is_dig f \<and> s = dec_shape w f"
proof
  assume *: "dec_body s = Some (w, f)"
  define u r where "u = takeWhile is_dig s" and "r = dropWhile is_dig s"
  have s: "s = u @ r" by (simp add: u_def r_def)
  have d: "list_all is_dig u" by (auto simp: u_def list_all_iff dest: set_takeWhileD)
  have "(if u = [] then None else case r of [] \<Rightarrow> Some (u, [])
      | c # f \<Rightarrow> if c = CHR ''.'' \<and> f \<noteq> [] \<and> list_all is_dig f then Some (u, f) else None) = Some (w, f)"
    using * by (simp only: dec_body_def u_def r_def Let_def)
  then show "w \<noteq> [] \<and> list_all is_dig w \<and> list_all is_dig f \<and> s = dec_shape w f"
    using s d by (auto simp: dec_shape_def split: if_splits list.splits)
next
  assume "w \<noteq> [] \<and> list_all is_dig w \<and> list_all is_dig f \<and> s = dec_shape w f"
  then show "dec_body s = Some (w, f)"
    by (auto simp: dec_body_def Let_def dec_shape_def)
qed

lemma dec_shape_inject:
  assumes "list_all is_dig w" "list_all is_dig w'" "list_all is_dig f" "list_all is_dig f'"
    "w \<noteq> []" "w' \<noteq> []" "dec_shape w f = dec_shape w' f'"
  shows "w = w' \<and> f = f'"
  using assms dec_body_iff [of "dec_shape w f" w f] dec_body_iff [of "dec_shape w f" w' f'] by simp

lemma digits_not_dot: "list_all is_dig w \<Longrightarrow> CHR ''.'' \<notin> set w"
  by (auto simp: list_all_iff)

lemma takeWhile_not_dot:
  "CHR ''.'' \<notin> set w \<Longrightarrow> takeWhile (\<lambda>c. c \<noteq> CHR ''.'') (w @ CHR ''.'' # f) = w"
  "CHR ''.'' \<notin> set w \<Longrightarrow> dropWhile (\<lambda>c. c \<noteq> CHR ''.'') (w @ CHR ''.'' # f) = CHR ''.'' # f"
  "CHR ''.'' \<notin> set w \<Longrightarrow> takeWhile (\<lambda>c. c \<noteq> CHR ''.'') w = w"
  "CHR ''.'' \<notin> set w \<Longrightarrow> dropWhile (\<lambda>c. c \<noteq> CHR ''.'') w = []"
  by (induction w) auto

lemma dot_parts_shape:
  assumes "list_all is_dig w" "list_all is_dig f"
  shows "dot_int (dec_shape w f) = w" "dot_frac (dec_shape w f) = f"
  using digits_not_dot [OF assms(1)] digits_not_dot [OF assms(2)]
  by (simp_all add: dot_int_def dot_frac_def dec_shape_def takeWhile_not_dot)

lemma starts_minus_shape [simp]: "list_all is_dig w \<Longrightarrow> w \<noteq> [] \<Longrightarrow> \<not> starts_minus (dec_shape w f)"
  by (cases w) (auto simp: starts_minus_def dec_shape_def)

lemma unsigned_shape [simp]:
  "list_all is_dig w \<Longrightarrow> w \<noteq> [] \<Longrightarrow> unsigned (dec_shape w f) = dec_shape w f"
  by (simp add: unsigned_def)

lemma minus_sign [simp]: "starts_minus (CHR ''-'' # s)" "unsigned (CHR ''-'' # s) = s"
  by (simp_all add: starts_minus_def unsigned_def)

text \<open>The rational a decimal text denotes.\<close>

definition dec_value :: "string \<Rightarrow> rat" where
  "dec_value s =
     (case dec_body (unsigned s) of
        None \<Rightarrow> 0
      | Some (w, f) \<Rightarrow>
          (if starts_minus s then - 1 else 1) * (of_nat (dval (w @ f)) / 10 ^ length f))"

text \<open>A decimal text without a sign, by its parts.\<close>

lemma plain_decimalE:
  assumes "is_decimal_string s" "\<not> starts_minus s"
  obtains w f where "w \<noteq> []" "list_all is_dig w" "list_all is_dig f" "s = dec_shape w f"
  using assms by (auto simp: is_decimal_string_def unsigned_def dec_body_iff)

lemma dec_value_shape:
  "w \<noteq> [] \<Longrightarrow> list_all is_dig w \<Longrightarrow> list_all is_dig f \<Longrightarrow>
     dec_value (dec_shape w f) = of_nat (dval (w @ f)) / 10 ^ length f"
  by (simp add: dec_value_def dec_body_iff [THEN iffD2])

lemma is_decimal_shape [simp]:
  "w \<noteq> [] \<Longrightarrow> list_all is_dig w \<Longrightarrow> list_all is_dig f \<Longrightarrow> is_decimal_string (dec_shape w f)"
  by (simp add: is_decimal_string_def dec_body_iff [THEN iffD2])

lemma normalize_shape:
  assumes "w \<noteq> []" "list_all is_dig w" "list_all is_dig f"
  shows "normalize_decimal (dec_shape w f) = dec_shape (nat_str (dval w)) (strip_end f)"
  unfolding normalize_decimal_def Let_def dot_parts_shape [OF assms(2,3)]
  using assms by (simp add: strip_start_canonical dec_shape_def)

lemma dec_value_pad:
  assumes "w \<noteq> []" "list_all is_dig w" "list_all is_dig f" "length f \<le> n"
  shows "dec_value (dec_shape w f) * 10 ^ n = of_nat (dval w * 10 ^ n + dval (pad_end n f))"
proof -
  have n: "n = length f + (n - length f)" using assms(4) by simp
  have "(10::rat) ^ n = 10 ^ length f * 10 ^ (n - length f)"
    by (subst n) (simp add: power_add)
  then show ?thesis
    using assms by (simp add: dec_value_shape dval_append dval_pad_end field_simps)
qed

lemma dval_pad_end_less: "list_all is_dig f \<Longrightarrow> length f \<le> n \<Longrightarrow> dval (pad_end n f) < 10 ^ n"
  using dval_less [of "pad_end n f"] by simp

lemma mult_add_eqD:
  "(a::nat) * m + b = c * m + d \<Longrightarrow> b < m \<Longrightarrow> d < m \<Longrightarrow> a = c \<and> b = d"
proof -
  assume *: "a * m + b = c * m + d" and b: "b < m" and d: "d < m"
  from b have "a = (a * m + b) div m" by simp
  also have "\<dots> = (c * m + d) div m" using * by (rule arg_cong)
  also from d have "\<dots> = c" by simp
  finally show ?thesis using * by simp
qed

text \<open>Two texts have one value exactly when their whole and padded fraction parts agree.\<close>

lemma dec_value_eq_iff:
  assumes "w \<noteq> []" "list_all is_dig w" "list_all is_dig f"
    and "v \<noteq> []" "list_all is_dig v" "list_all is_dig g"
  shows "dec_value (dec_shape w f) = dec_value (dec_shape v g) \<longleftrightarrow>
    dval w = dval v \<and> strip_end f = strip_end g"
proof -
  define n where "n = max (length f) (length g)"
  have len: "length f \<le> n" "length g \<le> n" by (simp_all add: n_def)
  have "dec_value (dec_shape w f) = dec_value (dec_shape v g) \<longleftrightarrow>
      dec_value (dec_shape w f) * 10 ^ n = dec_value (dec_shape v g) * 10 ^ n" by simp
  also have "\<dots> \<longleftrightarrow> dval w * 10 ^ n + dval (pad_end n f) = dval v * 10 ^ n + dval (pad_end n g)"
    unfolding dec_value_pad [OF assms(1-3) len(1)] dec_value_pad [OF assms(4-6) len(2)] of_nat_eq_iff ..
  also have "\<dots> \<longleftrightarrow> dval w = dval v \<and> dval (pad_end n f) = dval (pad_end n g)"
    using mult_add_eqD [OF _ dval_pad_end_less [OF assms(3) len(1)] dval_pad_end_less [OF assms(6) len(2)]]
    by auto
  also have "dval (pad_end n f) = dval (pad_end n g) \<longleftrightarrow> pad_end n f = pad_end n g"
    using dval_inject [of "pad_end n f" "pad_end n g"] assms len by auto
  also have "pad_end n f = pad_end n g \<longleftrightarrow> strip_end f = strip_end g"
  proof
    assume "pad_end n f = pad_end n g"
    then have "strip_end (pad_end n f) = strip_end (pad_end n g)" by simp
    then show "strip_end f = strip_end g" by simp
  next
    assume "strip_end f = strip_end g"
    then have "strip_end (pad_end n f) = strip_end (pad_end n g)" by simp
    then show "pad_end n f = pad_end n g"
      using pad_end_strip_end [of "pad_end n f" n] pad_end_strip_end [of "pad_end n g" n] len by simp
  qed
  finally show ?thesis .
qed

text \<open>Normal forms agree exactly when the values do.\<close>

lemma normalize_eq_iff:
  assumes "is_decimal_string s" "\<not> starts_minus s" "is_decimal_string t" "\<not> starts_minus t"
  shows "normalize_decimal s = normalize_decimal t \<longleftrightarrow> dec_value s = dec_value t"
proof -
  from assms obtain w f v g where
    s: "w \<noteq> []" "list_all is_dig w" "list_all is_dig f" "s = dec_shape w f" and
    t: "v \<noteq> []" "list_all is_dig v" "list_all is_dig g" "t = dec_shape v g"
    by (metis plain_decimalE)
  have "normalize_decimal s = normalize_decimal t \<longleftrightarrow>
      nat_str (dval w) = nat_str (dval v) \<and> strip_end f = strip_end g"
    using s t dec_shape_inject [of "nat_str (dval w)" "nat_str (dval v)" "strip_end f" "strip_end g"]
    by (auto simp: normalize_shape)
  also have "nat_str (dval w) = nat_str (dval v) \<longleftrightarrow> dval w = dval v" by (metis dval_nat_str)
  finally show ?thesis using s t by (simp add: dec_value_eq_iff)
qed

lemma normalize_is_decimal:
  "is_decimal_string s \<Longrightarrow> \<not> starts_minus s \<Longrightarrow>
    is_decimal_string (normalize_decimal s) \<and> \<not> starts_minus (normalize_decimal s)
    \<and> dec_value (normalize_decimal s) = dec_value s"
proof -
  assume "is_decimal_string s" "\<not> starts_minus s"
  then obtain w f where s: "w \<noteq> []" "list_all is_dig w" "list_all is_dig f" "s = dec_shape w f"
    by (rule plain_decimalE)
  moreover have "strip_end (strip_end f) = strip_end f"
    using strip_end_decomp [of f] by (metis strip_end_zeros)
  ultimately show ?thesis by (simp add: normalize_shape dec_value_eq_iff)
qed

section \<open>Parsing and formatting amounts\<close>

lemma parse_amount_shape:
  assumes "w \<noteq> []" "list_all is_dig w" "list_all is_dig f"
  shows "parse_amount (dec_shape w f) =
    (if length w \<le> 12 \<and> length f \<le> 8
     then Some (int (dval w) * 10 ^ 8 + int (dval (pad_end 8 f))) else None)"
  using assms by (simp add: parse_amount_def money_defs dec_body_iff [THEN iffD2] Let_def)

lemma parse_amount_minus:
  assumes "w \<noteq> []" "list_all is_dig w" "list_all is_dig f"
  shows "parse_amount (CHR ''-'' # dec_shape w f) = map_option uminus (parse_amount (dec_shape w f))"
  using assms
  by (simp add: parse_amount_def money_defs dec_body_iff [THEN iffD2] Let_def)

lemma parse_amountE:
  assumes "parse_amount s = Some v"
  obtains w f where "w \<noteq> []" "list_all is_dig w" "list_all is_dig f" "length w \<le> 12" "length f \<le> 8"
    "unsigned s = dec_shape w f"
    "v = (if starts_minus s then - 1 else 1) * (int (dval w) * 10 ^ 8 + int (dval (pad_end 8 f)))"
  using assms
  by (auto simp: parse_amount_def money_defs dec_body_iff Let_def split: option.splits if_splits)

lemma parse_amount_value:
  assumes "parse_amount s = Some v"
  shows "is_decimal_string s" "of_int v = dec_value s * 10 ^ 8"
proof -
  from assms obtain w f where s: "w \<noteq> []" "list_all is_dig w" "list_all is_dig f" "length f \<le> 8"
    "unsigned s = dec_shape w f"
    "v = (if starts_minus s then - 1 else 1) * (int (dval w) * 10 ^ 8 + int (dval (pad_end 8 f)))"
    by (rule parse_amountE)
  then have b: "dec_body (unsigned s) = Some (w, f)" by (simp add: dec_body_iff)
  then show "is_decimal_string s" by (simp add: is_decimal_string_def)
  have "dec_value s = (if starts_minus s then - 1 else 1) * dec_value (dec_shape w f)"
    using b s by (simp add: dec_value_def dec_body_iff [THEN iffD2])
  then show "of_int v = dec_value s * 10 ^ 8"
    using dec_value_pad [OF s(1-4)] s(6) by simp
qed

lemma parse_amount_range:
  assumes "parse_amount s = Some v" shows "\<bar>v\<bar> < 10 ^ 20"
proof -
  from assms obtain w f where s: "w \<noteq> []" "list_all is_dig w" "list_all is_dig f" "length w \<le> 12"
    "length f \<le> 8" "unsigned s = dec_shape w f"
    "v = (if starts_minus s then - 1 else 1) * (int (dval w) * 10 ^ 8 + int (dval (pad_end 8 f)))"
    by (rule parse_amountE)
  have "dval w < 10 ^ length w" by (rule dval_less [OF s(2)])
  also have "(10::nat) ^ length w \<le> 10 ^ 12" using s(4) by (intro power_increasing) auto
  finally have "dval w \<le> 10 ^ 12 - 1" by simp
  moreover have "dval (pad_end 8 f) < 10 ^ 8" using s by (intro dval_pad_end_less) auto
  ultimately have "dval w * 10 ^ 8 + dval (pad_end 8 f) < 10 ^ 20" by simp
  then have "int (dval w * 10 ^ 8 + dval (pad_end 8 f)) < int (10 ^ 20)"
    by (simp only: of_nat_less_iff)
  then have "int (dval w) * 10 ^ 8 + int (dval (pad_end 8 f)) < 10 ^ 20" by simp
  then show ?thesis using s(7) by (auto simp: abs_if)
qed

lemma split_parts:
  assumes "0 \<le> v"
  shows "list_all is_dig (split_fraction v)" "length (split_fraction v) = 8"
    "int (dval (split_fraction v)) = v mod 10 ^ 8" "split_whole v = v div 10 ^ 8"
proof -
  have "nat (v mod 10 ^ 8) < 10 ^ 8" by (simp add: nat_less_iff)
  then have "length (nat_str (nat (v mod 10 ^ 8))) \<le> 8" by (rule nat_str_length) simp
  then show "list_all is_dig (split_fraction v)" "length (split_fraction v) = 8"
    "int (dval (split_fraction v)) = v mod 10 ^ 8" "split_whole v = v div 10 ^ 8"
    using assms by (simp_all add: split_fraction_def split_whole_def money_defs)
qed

lemma amount_text_shape:
  "0 \<le> v \<Longrightarrow> amount_text v = dec_shape (nat_str (nat (v div 10 ^ 8))) (strip_end (split_fraction v))"
  by (simp add: amount_text_def Let_def split_sign_def dec_shape_def split_parts)

lemma amount_text_minus:
  "v < 0 \<Longrightarrow> amount_text v = CHR ''-'' # amount_text (- v)"
  by (simp add: amount_text_def Let_def split_sign_def split_whole_def split_fraction_def)

lemma amount_text_decimal [simp]: "is_decimal_string (amount_text v)"
proof -
  have pos: "is_decimal_string (amount_text u)" "\<not> starts_minus (amount_text u)" if "0 \<le> u" for u
    using that split_parts [OF that] by (simp_all add: amount_text_shape)
  show ?thesis
  proof (cases "v < 0")
    case True
    then have "is_decimal_string (amount_text (- v))" "\<not> starts_minus (amount_text (- v))"
      using pos by simp_all
    then show ?thesis using True
      by (simp add: amount_text_minus is_decimal_string_def) (simp add: unsigned_def)
  qed (use pos in simp)
qed

text \<open>The schema at the end of \<open>formatAmount\<close> never refuses.\<close>

lemma format_amount_total [simp]: "format_amount v = Inr (amount_text v)"
  by (simp add: format_amount_def decimal_parse_def)

lemma nat_str_12: "0 \<le> v \<Longrightarrow> v < 10 ^ 20 \<Longrightarrow> length (nat_str (nat (v div 10 ^ 8))) \<le> 12"
proof (rule nat_str_length)
  assume v: "0 \<le> v" "v < 10 ^ 20"
  have "v div 10 ^ 8 < 10 ^ 12" using v by (simp add: div_less_iff_less_mult)
  then show "nat (v div 10 ^ 8) < 10 ^ 12" by (simp add: nat_less_iff)
qed simp

lemma parse_amount_text: "\<bar>v\<bar> < 10 ^ 20 \<Longrightarrow> parse_amount (amount_text v) = Some v"
proof -
  have pos: "parse_amount (amount_text u) = Some u" if "0 \<le> u" "u < 10 ^ 20" for u
  proof -
    have "int (dval (pad_end 8 (strip_end (split_fraction u)))) = u mod 10 ^ 8"
      using split_parts [OF that(1)] by (simp add: pad_end_strip_end)
    moreover have "length (strip_end (split_fraction u)) \<le> 8"
      using length_strip_end [of "split_fraction u"] split_parts [OF that(1)] by simp
    ultimately show ?thesis
      using that nat_str_12 [OF that] split_parts [OF that(1)]
      by (simp add: amount_text_shape parse_amount_shape pos_imp_zdiv_nonneg_iff)
  qed
  assume v: "\<bar>v\<bar> < 10 ^ 20"
  show ?thesis
  proof (cases "v < 0")
    case True
    have "0 \<le> - v" using True by simp
    then have "parse_amount (CHR ''-'' # amount_text (- v)) = map_option uminus (parse_amount (amount_text (- v)))"
      using split_parts [of "- v"] by (simp only: amount_text_shape) (rule parse_amount_minus, simp_all)
    then show ?thesis using pos [of "- v"] v True by (simp add: amount_text_minus)
  qed (use pos v in simp)
qed

text \<open>Formatting what was parsed is the normal form of the text.\<close>

lemma amount_text_parse:
  assumes "parse_amount s = Some v" "\<not> starts_minus s"
  shows "amount_text v = normalize_decimal s"
proof -
  from assms obtain w f where s: "w \<noteq> []" "list_all is_dig w" "list_all is_dig f" "length f \<le> 8"
    "s = dec_shape w f" and v: "v = int (dval w) * 10 ^ 8 + int (dval (pad_end 8 f))"
    by (elim parse_amountE) (auto simp: unsigned_def)
  have lt: "int (dval (pad_end 8 f)) < 10 ^ 8"
    using dval_pad_end_less [OF s(3,4)] by (metis of_nat_less_iff of_nat_numeral of_nat_power)
  then have dm: "v div 10 ^ 8 = int (dval w)" "v mod 10 ^ 8 = int (dval (pad_end 8 f))"
    using v by simp_all
  have "0 \<le> v" using v by simp
  note sp = split_parts [OF this]
  have "split_fraction v = pad_end 8 f"
    using sp s(3,4) dm by (intro dval_inject) auto
  then have "strip_end (split_fraction v) = strip_end f" by simp
  then show ?thesis using s dm \<open>0 \<le> v\<close> by (simp add: amount_text_shape normalize_shape)
qed

section \<open>Scales and rounding\<close>

definition grid :: "nat \<Rightarrow> int" where
  "grid n = 10 ^ (8 - n)"

lemma grid_pos [simp]: "0 < grid n" "0 \<le> grid n" "\<not> grid n \<le> 0" "grid n \<noteq> 0"
  by (simp_all add: grid_def not_le)

lemma scale_step_ok: "n \<le> 8 \<Longrightarrow> scale_step (JInt (int n)) = Inr (grid n)"
  by (simp add: scale_step_def money_defs grid_def)

lemma scale_step_bad: "\<not> js_integer_in sc 0 8 \<Longrightarrow> scale_step sc = Inl RangeError"
  by (simp add: scale_step_def money_defs)

lemma scale_valid: "js_integer_in sc 0 8 \<Longrightarrow> \<exists>n\<le>8. sc = JInt (int n)"
  by (cases sc) (auto intro!: exI [of _ "nat (js_int sc)"])

definition ceil_grid :: "int \<Rightarrow> nat \<Rightarrow> int" where
  "ceil_grid v n = (v + grid n - 1) div grid n * grid n"

definition floor_grid :: "int \<Rightarrow> nat \<Rightarrow> int" where
  "floor_grid v n = v div grid n * grid n"

lemma ceil_to_scale_ok: "n \<le> 8 \<Longrightarrow> 0 \<le> v \<Longrightarrow> ceil_to_scale v (JInt (int n)) = Inr (ceil_grid v n)"
  by (simp add: ceil_to_scale_def scale_step_ok div_ceil_def ceil_grid_def)

lemma floor_to_scale_ok: "n \<le> 8 \<Longrightarrow> 0 \<le> v \<Longrightarrow> floor_to_scale v (JInt (int n)) = Inr (floor_grid v n)"
  by (simp add: floor_to_scale_def scale_step_ok floor_grid_def)

lemma ceil_grid_least:
  shows "v \<le> ceil_grid v n" "grid n dvd ceil_grid v n"
    "grid n dvd x \<Longrightarrow> v \<le> x \<Longrightarrow> ceil_grid v n \<le> x"
proof -
  show "v \<le> ceil_grid v n"
    using int_ceil_div_le_iff [OF grid_pos(1) [of n], where a = v and q = "(v + grid n - 1) div grid n"] by (simp add: ceil_grid_def)
  show "grid n dvd ceil_grid v n" by (simp add: ceil_grid_def)
  assume "grid n dvd x" "v \<le> x"
  then obtain q where x: "x = q * grid n" by (metis dvdE mult.commute)
  then have "(v + grid n - 1) div grid n \<le> q" using \<open>v \<le> x\<close> int_ceil_div_le_iff [OF grid_pos(1)] by simp
  then show "ceil_grid v n \<le> x" using x by (simp add: ceil_grid_def)
qed

lemma floor_grid_greatest:
  shows "floor_grid v n \<le> v" "grid n dvd floor_grid v n"
    "grid n dvd x \<Longrightarrow> x \<le> v \<Longrightarrow> x \<le> floor_grid v n"
proof -
  show "floor_grid v n \<le> v"
    using int_le_div_iff [OF grid_pos(1) [of n], where a = v and q = "v div grid n"] by (simp add: floor_grid_def)
  show "grid n dvd floor_grid v n" by (simp add: floor_grid_def)
  assume "grid n dvd x" "x \<le> v"
  then obtain q where x: "x = q * grid n" by (metis dvdE mult.commute)
  then have "q \<le> v div grid n" using \<open>x \<le> v\<close> int_le_div_iff [OF grid_pos(1)] by simp
  then show "x \<le> floor_grid v n" using x by (simp add: floor_grid_def)
qed

text \<open>The form a stake is sent in parses back to the stake.\<close>

lemma format_stake_ok:
  assumes "n \<le> 8" "0 \<le> v" "grid n dvd v" "v < 10 ^ 20"
  shows "format_stake v (JInt (int n)) = Inr (stake_text v n)" "parse_amount (stake_text v n) = Some v"
proof -
  note sp = split_parts [OF assms(2)]
  define fr where "fr = split_fraction v"
  have len: "length (take n fr) = n" using sp assms(1) by (simp add: fr_def)
  have dig: "list_all is_dig (take n fr)" "list_all is_dig (drop n fr)"
    using sp(1) by (auto simp: fr_def list_all_iff dest: in_set_takeD in_set_dropD)
  have "int (dval fr) mod grid n = 0"
  proof -
    have "grid n dvd 10 ^ 8" unfolding grid_def by (rule le_imp_power_dvd) simp
    then have "(v mod 10 ^ 8) mod grid n = v mod grid n" by (rule mod_mod_cancel)
    then show ?thesis using sp(3) assms(3) by (simp add: fr_def dvd_eq_mod_eq_0)
  qed
  moreover have split: "dval fr = dval (take n fr) * 10 ^ (8 - n) + dval (drop n fr)"
    using dval_append [of "take n fr" "drop n fr"] sp(2) by (simp add: fr_def)
  moreover have lt: "dval (drop n fr) < 10 ^ (8 - n)"
    using dval_less [OF dig(2)] sp(2) by (simp add: fr_def)
  moreover have "grid n = int (10 ^ (8 - n))" by (simp add: grid_def)
  ultimately have "int (dval fr mod 10 ^ (8 - n)) = 0" by (simp only: of_nat_mod)
  then have "(dval (take n fr) * 10 ^ (8 - n) + dval (drop n fr)) mod 10 ^ (8 - n) = 0"
    unfolding split [symmetric] by simp
  then have "dval (drop n fr) = 0" using lt by simp
  then have "drop n fr = replicate (8 - n) CHR ''0''"
    using sp(2) dig(2) by (intro dval_inject) (auto simp: fr_def list_all_iff)
  then have pad: "pad_end 8 (take n fr) = fr"
    using append_take_drop_id [of n fr] len by (simp add: pad_end_def)
  have st: "stake_text v n = dec_shape (nat_str (nat (v div 10 ^ 8))) (take n fr)"
    using len sp(4) by (cases "n = 0") (auto simp: stake_text_def dec_shape_def fr_def)
  show "parse_amount (stake_text v n) = Some v"
    using st pad dig len assms nat_str_12 [OF assms(2,4)] sp
    by (simp add: parse_amount_shape fr_def pos_imp_zdiv_nonneg_iff)
  show "format_stake v (JInt (int n)) = Inr (stake_text v n)"
    using assms st dig by (simp add: format_stake_def scale_step_ok decimal_parse_def dvd_eq_mod_eq_0)
qed

section \<open>The codec contract\<close>

text \<open>
  What a client of a number format relies on: a printer and a parser that undo each other on a
  domain. The lemmas are proved once; the interpretations below give them for the amounts and for
  the stakes of every scale.
\<close>

locale codec =
  fixes show_of :: "'v \<Rightarrow> 's" and parse_of :: "'s \<Rightarrow> 'v option" and dom_of :: "'v \<Rightarrow> bool"
  assumes parse_show: "dom_of v \<Longrightarrow> parse_of (show_of v) = Some v"
begin

lemma show_inject: "dom_of u \<Longrightarrow> dom_of v \<Longrightarrow> show_of u = show_of v \<longleftrightarrow> u = v"
  using parse_show by (metis option.inject)

lemma parse_all: "list_all dom_of vs \<Longrightarrow> those (map (\<lambda>v. parse_of (show_of v)) vs) = Some vs"
  by (induction vs) (simp_all add: parse_show)

end

interpretation amount_codec: codec amount_text parse_amount "\<lambda>v. \<bar>v\<bar> < 10 ^ 20"
  by unfold_locales (rule parse_amount_text)

locale stake_scale_ok =
  fixes scale :: nat
  assumes scale_le: "scale \<le> 8"

sublocale stake_scale_ok \<subseteq> stake_codec:
  codec "\<lambda>v. stake_text v scale" parse_amount "\<lambda>v. 0 \<le> v \<and> grid scale dvd v \<and> v < 10 ^ 20"
  by unfold_locales (auto intro: format_stake_ok(2) [OF scale_le])

interpretation cents: stake_scale_ok 2
  by unfold_locales simp

end
