(* ===== verification/Stake_Bounds.thy ===== *)
theory Stake_Bounds
  imports Money
begin

text \<open>
  The user's stake and its bounds, \<^verbatim>\<open>packages/shared/src/stake.ts\<close>: the scale of an amount, the
  check of a stake against the account's minimum and balance, the presets the picker offers and
  the text a user types. Everything is bigint arithmetic at scale 8. The lemmas say what the check
  decides over the values of the texts, and that a preset or an accepted input is a stake the
  other functions of the module take.
\<close>

section \<open>Definitions\<close>

definition STAKE_MIN_SCALE :: nat where "STAKE_MIN_SCALE = 2"
definition STAKE_PRESET_MULTIPLIERS :: "int list" where "STAKE_PRESET_MULTIPLIERS = [1, 2, 5, 10]"

datatype stake_refusal = Precision | BelowMinimum | AboveAvailable

record stake_limits =
  minTradeAmount :: string
  available :: string

definition UNIT_SCALE :: int where "UNIT_SCALE = 10 ^ NUMERIC_FRACTION_DIGITS"

definition decimal_scale :: "string \<Rightarrow> nat" where
  "decimal_scale value = length (dot_frac (normalize_decimal value))"

text \<open>\<open>units\<close>: a decimal as an integer of \<open>10\<^sup>-\<^sup>8\<close> units; right for at most 8 fraction digits.\<close>

definition units :: "string \<Rightarrow> int" where
  "units value =
     (let s = unsigned value;
          amount = int (dval (dot_int s)) * UNIT_SCALE
                 + int (dval (pad_end NUMERIC_FRACTION_DIGITS (dot_frac s)))
      in if starts_minus value then - amount else amount)"

text \<open>bigint \<open>/\<close> and \<open>%\<close> truncate towards zero.\<close>

definition big_div :: "int \<Rightarrow> int \<Rightarrow> int" where
  "big_div a b = sgn a * sgn b * (\<bar>a\<bar> div \<bar>b\<bar>)"

definition big_mod :: "int \<Rightarrow> int \<Rightarrow> int" where
  "big_mod a b = sgn a * (\<bar>a\<bar> mod \<bar>b\<bar>)"

definition from_units :: "int \<Rightarrow> js_error + string" where
  "from_units value =
     decimal_parse (normalize_decimal
       (int_str (big_div value UNIT_SCALE) @ CHR ''.''
         # pad_start NUMERIC_FRACTION_DIGITS (int_str (big_mod value UNIT_SCALE))))"

definition multiply_decimal :: "string \<Rightarrow> int \<Rightarrow> js_error + string" where
  "multiply_decimal amount k = from_units (units amount * k)"

definition stake_scale :: "string \<Rightarrow> nat" where
  "stake_scale minTrade = max STAKE_MIN_SCALE (decimal_scale minTrade)"

definition check_stake :: "string \<Rightarrow> stake_limits \<Rightarrow> stake_refusal option" where
  "check_stake amount limits =
     (if decimal_scale amount > stake_scale (minTradeAmount limits) then Some Precision
      else let value = units amount in
        if value < units (minTradeAmount limits) then Some BelowMinimum
        else if value > units (available limits) then Some AboveAvailable
        else None)"

definition decimal_less_than :: "string \<Rightarrow> string \<Rightarrow> bool" where
  "decimal_less_than a b \<longleftrightarrow> units a < units b"

definition STAKE_RISK_THRESHOLD :: string where "STAKE_RISK_THRESHOLD = ''10''"

definition stake_is_risky :: "string \<Rightarrow> bool" where
  "stake_is_risky amount \<longleftrightarrow> \<not> decimal_less_than amount STAKE_RISK_THRESHOLD"

definition MAX_UNITS :: int where "MAX_UNITS = 10 ^ NUMERIC_INTEGER_DIGITS * UNIT_SCALE"

text \<open>\<open>.map(fromUnits)\<close>: the first element whose schema parse throws ends the map with its error.\<close>

fun map_throwing :: "('a \<Rightarrow> 'e + 'b) \<Rightarrow> 'a list \<Rightarrow> 'e + 'b list" where
  "map_throwing f [] = Inr []"
| "map_throwing f (x # xs) =
     (case f x of Inl e \<Rightarrow> Inl e
      | Inr y \<Rightarrow> (case map_throwing f xs of Inl e \<Rightarrow> Inl e | Inr ys \<Rightarrow> Inr (y # ys)))"

definition stake_presets :: "stake_limits \<Rightarrow> js_error + string list" where
  "stake_presets limits =
     (let m = units (minTradeAmount limits); a = units (available limits) in
      map_throwing from_units
        (filter (\<lambda>value. 0 < value \<and> value \<le> a \<and> value < MAX_UNITS)
          (map (\<lambda>k. m * k) STAKE_PRESET_MULTIPLIERS)))"

text \<open>
  The typed text. A \<open>char\<close> stands for a code unit below 256; of these \<open>trim\<close> takes the six ASCII
  white spaces and the no-break space. \<open>replace(',', '.')\<close> replaces the first comma.
\<close>

definition js_space :: "char \<Rightarrow> bool" where
  "js_space c \<longleftrightarrow> (of_char c :: nat) \<in> {9, 10, 11, 12, 13, 32, 160}"

definition js_trim :: "string \<Rightarrow> string" where
  "js_trim s = rev (dropWhile js_space (rev (dropWhile js_space s)))"

fun replace_comma :: "string \<Rightarrow> string" where
  "replace_comma [] = []"
| "replace_comma (c # s) = (if c = CHR '','' then CHR ''.'' # s else c # replace_comma s)"

definition input_pattern :: "string \<Rightarrow> bool" where
  "input_pattern s \<longleftrightarrow>
     (case dec_body s of None \<Rightarrow> False
      | Some (w, f) \<Rightarrow> length w \<le> NUMERIC_INTEGER_DIGITS \<and> length f \<le> NUMERIC_FRACTION_DIGITS)"

definition parse_stake_input :: "string \<Rightarrow> js_error + string option" where
  "parse_stake_input txt =
     (let trimmed = js_trim txt;
          separators = length (filter (\<lambda>c. c = CHR ''.'' \<or> c = CHR '','') trimmed) in
      if 1 < separators then Inr None
      else let plain = replace_comma trimmed in
        if \<not> input_pattern plain \<or> \<not> list_ex (\<lambda>c. is_dig c \<and> c \<noteq> CHR ''0'') plain then Inr None
        else case decimal_parse (normalize_decimal plain) of Inl e \<Rightarrow> Inl e | Inr s \<Rightarrow> Inr (Some s))"

section \<open>Units and values\<close>

declare UNIT_SCALE_def [money_defs] MAX_UNITS_def [money_defs] STAKE_MIN_SCALE_def [money_defs]

text \<open>A money text of the model: an unsigned decimal with at most 8 fraction digits.\<close>

definition unsigned_money :: "string \<Rightarrow> bool" where
  "unsigned_money s \<longleftrightarrow> is_decimal_string s \<and> \<not> starts_minus s \<and> decimal_scale s \<le> 8"

lemma decimal_scale_shape:
  "w \<noteq> [] \<Longrightarrow> list_all is_dig w \<Longrightarrow> list_all is_dig f \<Longrightarrow>
     decimal_scale (dec_shape w f) = length (strip_end f)"
  by (simp add: decimal_scale_def normalize_shape dot_parts_shape)

lemma units_shape:
  "w \<noteq> [] \<Longrightarrow> list_all is_dig w \<Longrightarrow> list_all is_dig f \<Longrightarrow>
     units (dec_shape w f) = int (dval w) * 10 ^ 8 + int (dval (pad_end 8 f))"
  by (simp add: units_def dot_parts_shape money_defs)

lemma units_value:
  assumes "is_decimal_string s" "\<not> starts_minus s" "length (dot_frac s) \<le> 8"
  shows "of_int (units s) = dec_value s * 10 ^ 8"
proof -
  from assms(1,2) obtain w f where s: "w \<noteq> []" "list_all is_dig w" "list_all is_dig f" "s = dec_shape w f"
    by (rule plain_decimalE)
  then show ?thesis using assms(3) dec_value_pad [of w f 8] by (simp add: units_shape dot_parts_shape)
qed

lemma units_parse_amount:
  assumes "parse_amount s = Some v" shows "units s = v"
proof -
  from assms obtain w f where s: "w \<noteq> []" "list_all is_dig w" "list_all is_dig f" "unsigned s = dec_shape w f"
    and v: "v = (if starts_minus s then - 1 else 1) * (int (dval w) * 10 ^ 8 + int (dval (pad_end 8 f)))"
    by (rule parse_amountE)
  then show ?thesis by (simp add: units_def dot_parts_shape money_defs)
qed

lemma big_div_mod_nonneg: "0 \<le> v \<Longrightarrow> 0 < b \<Longrightarrow> big_div v b = v div b \<and> big_mod v b = v mod b"
  by (cases "v = 0") (simp_all add: big_div_def big_mod_def)

lemma int_str_nonneg: "0 \<le> i \<Longrightarrow> int_str i = nat_str (nat i)"
  by (simp add: int_str_def)

lemma from_units_ok:
  assumes "0 \<le> v" shows "from_units v = Inr (amount_text v)"
proof -
  have v: "0 \<le> v div 10 ^ 8" "0 \<le> v mod 10 ^ 8" using assms by (simp_all add: pos_imp_zdiv_nonneg_iff)
  note sp = split_parts [OF assms]
  have "int_str (big_div v UNIT_SCALE) @ CHR ''.'' # pad_start NUMERIC_FRACTION_DIGITS (int_str (big_mod v UNIT_SCALE))
      = dec_shape (nat_str (nat (v div 10 ^ 8))) (split_fraction v)"
  proof -
    have "split_fraction v \<noteq> []" using sp(2) by auto
    moreover have "split_fraction v = pad_start 8 (nat_str (nat (v mod 10 ^ 8)))"
      using assms by (simp add: split_fraction_def money_defs)
    ultimately show ?thesis
      using assms v big_div_mod_nonneg [of v "10 ^ 8"]
      by (simp add: dec_shape_def int_str_nonneg money_defs)
  qed
  then show ?thesis
    using sp assms by (simp add: from_units_def normalize_shape amount_text_shape decimal_parse_def)
qed

lemma map_throwing_ok: "(\<And>x. x \<in> set xs \<Longrightarrow> f x = Inr (g x)) \<Longrightarrow> map_throwing f xs = Inr (map g xs)"
  by (induction xs) auto

lemma decimal_scale_amount_text:
  assumes "0 \<le> v" shows "decimal_scale (amount_text v) = length (strip_end (split_fraction v))"
  using split_parts [OF assms] assms
  by (simp add: amount_text_shape decimal_scale_shape) (metis strip_end_decomp strip_end_zeros)

lemma units_amount_text: "0 \<le> v \<Longrightarrow> units (amount_text v) = v"
proof -
  assume v: "0 \<le> v"
  note sp = split_parts [OF v]
  have "int (dval (pad_end 8 (strip_end (split_fraction v)))) = v mod 10 ^ 8"
    using sp by (simp add: pad_end_strip_end)
  then show ?thesis
    using sp v by (simp add: amount_text_shape units_shape pos_imp_zdiv_nonneg_iff)
qed

text \<open>At most \<open>n\<close> significant fraction digits, as divisibility of the units.\<close>

lemma strip_end_length_le_iff:
  assumes "list_all is_dig s" "length s = 8" "n \<le> 8"
  shows "length (strip_end s) \<le> n \<longleftrightarrow> (10::nat) ^ (8 - n) dvd dval s"
proof
  assume n: "length (strip_end s) \<le> n"
  have "dval s = dval (pad_end 8 (strip_end s))" using pad_end_strip_end [of s 8] assms(2) by simp
  also have "\<dots> = dval (strip_end s) * 10 ^ (8 - length (strip_end s))" by (rule dval_pad_end)
  finally show "(10::nat) ^ (8 - n) dvd dval s" using n by (simp add: le_imp_power_dvd dvd_mult)
next
  assume d: "(10::nat) ^ (8 - n) dvd dval s"
  have dig: "list_all is_dig (drop n s)" using assms(1) by (auto simp: list_all_iff dest: in_set_dropD)
  have "dval s = dval (take n s) * 10 ^ (8 - n) + dval (drop n s)"
    using dval_append [of "take n s" "drop n s"] assms(2) by simp
  then have "(10::nat) ^ (8 - n) dvd dval (drop n s)" using d by (metis dvd_add_right_iff dvd_triv_right)
  moreover have "dval (drop n s) < 10 ^ (8 - n)" using dval_less [OF dig] assms(2) by simp
  ultimately have "dval (drop n s) = 0" by (metis nat_dvd_not_less neq0_conv)
  then have "drop n s = replicate (8 - n) CHR ''0''"
    using dig assms(2) by (intro dval_inject) (auto simp: list_all_iff)
  then have "strip_end s = strip_end (take n s)" by (metis append_take_drop_id strip_end_zeros)
  then show "length (strip_end s) \<le> n" using length_strip_end [of "take n s"] by simp
qed

lemma decimal_scale_le_iff:
  assumes "unsigned_money s" "n \<le> 8" "length (dot_frac s) \<le> 8"
  shows "decimal_scale s \<le> n \<longleftrightarrow> grid n dvd units s"
proof -
  from assms(1) have "is_decimal_string s" "\<not> starts_minus s" by (simp_all add: unsigned_money_def)
  then obtain w f where s: "w \<noteq> []" "list_all is_dig w" "list_all is_dig f" "s = dec_shape w f"
    by (rule plain_decimalE)
  have f: "length f \<le> 8" using assms(3) s by (simp add: dot_parts_shape)
  have g: "grid n dvd 10 ^ 8" unfolding grid_def by (rule le_imp_power_dvd) simp
  have "decimal_scale s \<le> n \<longleftrightarrow> length (strip_end (pad_end 8 f)) \<le> n" using s by (simp add: decimal_scale_shape)
  also have "\<dots> \<longleftrightarrow> (10::nat) ^ (8 - n) dvd dval (pad_end 8 f)"
    using s f assms(2) by (intro strip_end_length_le_iff) auto
  also have "\<dots> \<longleftrightarrow> grid n dvd int (dval (pad_end 8 f))"
    by (simp add: grid_def flip: int_dvd_int_iff)
  also have "\<dots> \<longleftrightarrow> grid n dvd units s"
    using s g by (simp add: units_shape dvd_add_right_iff dvd_mult)
  finally show ?thesis .
qed

section \<open>The check, the presets and the typed text\<close>

text \<open>The domain of a stored amount: unsigned, at most 8 fraction digits as written.\<close>

definition money_text :: "string \<Rightarrow> bool" where
  "money_text s \<longleftrightarrow> is_decimal_string s \<and> \<not> starts_minus s \<and> length (dot_frac s) \<le> 8"

lemma money_textE:
  assumes "money_text s"
  obtains w f where "w \<noteq> []" "list_all is_dig w" "list_all is_dig f" "length f \<le> 8" "s = dec_shape w f"
proof -
  from assms have "is_decimal_string s" "\<not> starts_minus s" "length (dot_frac s) \<le> 8"
    by (simp_all add: money_text_def)
  then obtain w f where s: "w \<noteq> []" "list_all is_dig w" "list_all is_dig f" "s = dec_shape w f"
    by (metis plain_decimalE)
  then show ?thesis using that \<open>length (dot_frac s) \<le> 8\<close> by (simp add: dot_parts_shape)
qed

lemma money_text_units:
  assumes "money_text s"
  shows "unsigned_money s" "of_int (units s) = dec_value s * 10 ^ 8" "0 \<le> units s"
proof -
  from assms obtain w f where s: "w \<noteq> []" "list_all is_dig w" "list_all is_dig f" "length f \<le> 8"
    "s = dec_shape w f" by (rule money_textE)
  then show "unsigned_money s" "0 \<le> units s"
    using length_strip_end [of f] by (simp_all add: unsigned_money_def decimal_scale_shape units_shape)
  show "of_int (units s) = dec_value s * 10 ^ 8"
    using assms unfolding money_text_def by (blast intro: units_value)
qed

lemma money_text_less: "money_text s \<Longrightarrow> money_text t \<Longrightarrow> units s < units t \<longleftrightarrow> dec_value s < dec_value t"
proof -
  assume "money_text s" "money_text t"
  then have "(of_int (units s) :: rat) < of_int (units t) \<longleftrightarrow> dec_value s * 10 ^ 8 < dec_value t * 10 ^ 8"
    by (simp only: money_text_units)
  then show ?thesis by simp
qed

lemma amount_text_money:
  assumes "0 \<le> v"
  shows "money_text (amount_text v)" "unsigned_money (amount_text v)"
proof -
  note sp = split_parts [OF assms]
  show "money_text (amount_text v)"
    using sp assms length_strip_end [of "split_fraction v"]
    by (simp add: amount_text_shape money_text_def dot_parts_shape)
  then show "unsigned_money (amount_text v)" by (rule money_text_units)
qed

lemma amount_text_positive: "0 < v \<Longrightarrow> positive_decimal (amount_text v)"
proof (rule ccontr)
  assume v: "0 < v" and "\<not> positive_decimal (amount_text v)"
  then have z: "\<not> list_ex (\<lambda>c. is_dig c \<and> c \<noteq> CHR ''0'') (amount_text v)"
    using amount_text_money [of v] by (simp add: positive_decimal_def money_text_def)
  define w f where "w = nat_str (nat (v div 10 ^ 8))" and "f = strip_end (split_fraction v)"
  have s: "amount_text v = dec_shape w f" using v by (simp add: amount_text_shape w_def f_def)
  have dig: "list_all is_dig w" "list_all is_dig f" using split_parts [of v] v by (simp_all add: w_def f_def)
  then have "w = replicate (length w) CHR ''0''" "f = replicate (length f) CHR ''0''"
    using z s by (auto simp: dec_shape_def list_ex_iff list_all_iff intro!: replicate_eqI split: if_splits)
  then have "dval w = 0" "dval f = 0" by (metis dval_zeros)+
  then have "units (amount_text v) = 0"
    using s dig by (simp add: units_shape dval_pad_end w_def)
  then show False using v units_amount_text [of v] by simp
qed

lemma amount_text_domain: "0 < v \<Longrightarrow> v < MAX_UNITS \<Longrightarrow> numeric_domain_decimal (amount_text v)"
  using amount_text_positive [of v] nat_str_12 [of v] split_parts [of v] amount_text_money [of v]
  by (simp add: numeric_domain_decimal_def amount_text_shape dot_parts_shape money_defs money_text_def)

text \<open>
  over stakes with at most 8 fraction digits \<open>checkStake\<close> decides exactly, in this order: the
  precision (no more fraction digits than the minimum's scale, cents always allowed), then the
  value against the minimum, then against the balance; \<open>None\<close> is within the bounds.
\<close>

theorem check_stake_decides:
  assumes "money_text amount" "money_text (minTradeAmount l)" "money_text (available l)"
  shows "check_stake amount l =
    (if decimal_scale amount > max 2 (decimal_scale (minTradeAmount l)) then Some Precision
     else if dec_value amount < dec_value (minTradeAmount l) then Some BelowMinimum
     else if dec_value (available l) < dec_value amount then Some AboveAvailable
     else None)"
  using assms by (simp add: check_stake_def stake_scale_def STAKE_MIN_SCALE_def Let_def money_text_less)

theorem check_stake_decides_witness:
  "check_stake ''2.50'' \<lparr>minTradeAmount = ''1'', available = ''10.00''\<rparr> = None"
proof -
  have m: "money_text ''2.50''" "money_text ''1''" "money_text ''10.00''" by code_simp+
  have v: "dec_value ''2.50'' = 5 / 2" "dec_value ''1'' = 1" "dec_value ''10.00'' = 10" by code_simp+
  have d: "decimal_scale ''2.50'' = 1" "decimal_scale ''1'' = 0" by code_simp+
  show ?thesis
    using check_stake_decides [of "''2.50''" "\<lparr>minTradeAmount = ''1'', available = ''10.00''\<rparr>"]
    by (simp add: m v d)
qed

lemma stake_presets_eq: "stake_presets l = Inr (map amount_text
    (filter (\<lambda>v. 0 < v \<and> v \<le> units (available l) \<and> v < MAX_UNITS)
      (map (\<lambda>k. units (minTradeAmount l) * k) [1, 2, 5, 10])))"
  unfolding stake_presets_def Let_def STAKE_PRESET_MULTIPLIERS_def
proof (rule map_throwing_ok)
  fix x assume "x \<in> set (filter (\<lambda>v. 0 < v \<and> v \<le> units (available l) \<and> v < MAX_UNITS)
      (map (\<lambda>k. units (minTradeAmount l) * k) [1, 2, 5, 10]))"
  then have "0 < x" unfolding set_filter by blast
  then show "from_units x = Inr (amount_text x)" by (simp add: from_units_ok)
qed

lemma preset_checks:
  assumes "money_text (minTradeAmount l)" "money_text (available l)" "1 \<le> k"
    and "units (minTradeAmount l) * k \<le> units (available l)"
  shows "check_stake (amount_text (units (minTradeAmount l) * k)) l = None"
proof -
  define m where "m = units (minTradeAmount l)"
  define n where "n = stake_scale (minTradeAmount l)"
  have m: "0 \<le> m" "m \<le> m * k" using assms(1,3) mult_left_mono [of 1 k m]
    by (simp_all add: m_def money_text_units)
  then have mk: "0 \<le> m * k" by simp
  have sc: "decimal_scale (minTradeAmount l) \<le> n" "n \<le> 8"
    using money_text_units(1) [OF assms(1)] by (simp_all add: n_def stake_scale_def STAKE_MIN_SCALE_def unsigned_money_def)
  then have "grid n dvd m"
    using decimal_scale_le_iff [of "minTradeAmount l" n] money_text_units(1) [OF assms(1)] assms(1)
    by (simp add: m_def money_text_def)
  then have "grid n dvd units (amount_text (m * k))" using mk by (simp add: units_amount_text)
  then have "decimal_scale (amount_text (m * k)) \<le> n"
    using decimal_scale_le_iff [of "amount_text (m * k)" n] amount_text_money [OF mk] sc
    by (simp add: money_text_def)
  then show ?thesis
    using assms(4) m mk by (simp add: check_stake_def Let_def units_amount_text flip: m_def n_def)
qed

text \<open>
  every preset the picker offers is a stake the check accepts: \<open>stakePresets\<close> never throws, and
  each of its texts is a positive amount of the numeric(20,8) domain for which \<open>checkStake\<close>
  against the same limits finds nothing wrong.
\<close>

theorem stake_presets_pass_check:
  assumes "money_text (minTradeAmount l)" "money_text (available l)"
  shows "\<exists>ps. stake_presets l = Inr ps \<and>
    (\<forall>p \<in> set ps. numeric_domain_decimal p \<and> check_stake p l = None)"
  using assms stake_presets_eq [of l]
  by (auto intro: preset_checks amount_text_domain
        preset_checks [OF assms, of 1, simplified])

theorem stake_presets_pass_check_witness:
  "\<exists>ps. stake_presets \<lparr>minTradeAmount = ''1'', available = ''7''\<rparr> = Inr ps \<and>
    (\<forall>p \<in> set ps. numeric_domain_decimal p
       \<and> check_stake p \<lparr>minTradeAmount = ''1'', available = ''7''\<rparr> = None)"
proof -
  have "money_text ''1''" "money_text ''7''" by code_simp+
  then show ?thesis
    using stake_presets_pass_check [of "\<lparr>minTradeAmount = ''1'', available = ''7''\<rparr>"] by simp
qed

lemma input_patternE:
  assumes "input_pattern p"
  obtains w f where "w \<noteq> []" "list_all is_dig w" "list_all is_dig f" "length w \<le> 12" "length f \<le> 8"
    "p = dec_shape w f"
  using assms by (auto simp: input_pattern_def dec_body_iff money_defs split: option.splits)

lemma js_trim_id: "s \<noteq> [] \<Longrightarrow> \<not> js_space (hd s) \<Longrightarrow> \<not> js_space (last s) \<Longrightarrow> js_trim s = s"
proof -
  assume a: "s \<noteq> []" "\<not> js_space (hd s)" "\<not> js_space (last s)"
  then have "dropWhile js_space s = s" by (cases s) auto
  moreover have "dropWhile js_space (rev s) = rev s"
    using a by (cases "rev s") (auto simp: last_rev [of "rev s", simplified] hd_rev)
  ultimately show ?thesis by (simp add: js_trim_def)
qed

lemma digit_not_space: "is_dig c \<Longrightarrow> \<not> js_space c"
  by (auto simp: is_dig_def js_space_def)

lemma replace_comma_id: "CHR '','' \<notin> set s \<Longrightarrow> replace_comma s = s"
  by (induction s) auto

lemma filter_dots_shape:
  "list_all is_dig w \<Longrightarrow> list_all is_dig f \<Longrightarrow>
    length (filter (\<lambda>c. c = CHR ''.'' \<or> c = CHR '','') (dec_shape w f)) \<le> 1
    \<and> CHR '','' \<notin> set (dec_shape w f)"
proof -
  have no: "filter (\<lambda>c. c = CHR ''.'' \<or> c = CHR '','') x = []" if "list_all is_dig x" for x
    using that by (auto simp: filter_empty_conv list_all_iff)
  assume "list_all is_dig w" "list_all is_dig f"
  then show ?thesis using no [of w] no [of f] by (auto simp: dec_shape_def list_all_iff)
qed

lemma dval_zero_set: "list_all is_dig u \<Longrightarrow> dval u = 0 \<Longrightarrow> \<forall>c \<in> set u. c = CHR ''0''"
  by (induction u) (auto simp: dval_Cons dig_of_0_iff)

text \<open>An unsigned text of the input domain that has a non-zero digit reads as its normal form.\<close>

lemma parse_stake_input_shape:
  assumes s: "w \<noteq> []" "list_all is_dig w" "list_all is_dig f" "length w \<le> 12" "length f \<le> 8"
    and pos: "list_ex (\<lambda>c. is_dig c \<and> c \<noteq> CHR ''0'') (dec_shape w f)"
  shows "parse_stake_input (dec_shape w f) = Inr (Some (normalize_decimal (dec_shape w f)))"
proof -
  have "hd (dec_shape w f) = hd w" "is_dig (hd w)" using s by (cases w; simp add: dec_shape_def)+
  moreover have "last (dec_shape w f) = (if f = [] then last w else last f)"
    "is_dig (last w)" "f \<noteq> [] \<Longrightarrow> is_dig (last f)"
    using s by (auto simp: dec_shape_def list_all_iff)
  moreover have "dec_shape w f \<noteq> []" using s by (simp add: dec_shape_def)
  ultimately have "js_trim (dec_shape w f) = dec_shape w f"
    by (intro js_trim_id) (auto simp: digit_not_space)
  moreover have "replace_comma (dec_shape w f) = dec_shape w f"
    using filter_dots_shape [OF s(2,3)] by (simp add: replace_comma_id)
  moreover have "input_pattern (dec_shape w f)"
    using s by (simp add: input_pattern_def dec_body_iff [THEN iffD2] money_defs)
  moreover have "is_decimal_string (normalize_decimal (dec_shape w f))"
    using s by (simp add: normalize_shape)
  ultimately show ?thesis
    using pos filter_dots_shape [OF s(2,3)]
    by (simp add: parse_stake_input_def Let_def decimal_parse_def not_less)
qed

text \<open>
  What \<open>parseStakeInput\<close> accepts it returns in canonical form: it never throws; an accepted text
  is a positive amount of the numeric(20,8) domain equal to its own normal form, and typing the
  canonical form again gives it back.
\<close>

theorem parse_stake_input_canonical:
  "\<exists>r. parse_stake_input txt = Inr r \<and>
    (case r of None \<Rightarrow> True
     | Some s \<Rightarrow> numeric_domain_decimal s \<and> normalize_decimal s = s \<and> parse_stake_input s = Inr (Some s))"
proof -
  define p where "p = replace_comma (js_trim txt)"
  show ?thesis
  proof (cases "length (filter (\<lambda>c. c = CHR ''.'' \<or> c = CHR '','') (js_trim txt)) \<le> 1
      \<and> input_pattern p \<and> list_ex (\<lambda>c. is_dig c \<and> c \<noteq> CHR ''0'') p")
    case False
    then show ?thesis by (auto simp: parse_stake_input_def Let_def p_def)
  next
    case True
    then obtain w f where s: "w \<noteq> []" "list_all is_dig w" "list_all is_dig f" "length w \<le> 12"
      "length f \<le> 8" "p = dec_shape w f" by (metis input_patternE)
    define v where "v = int (dval w) * 10 ^ 8 + int (dval (pad_end 8 f))"
    have pa: "parse_amount p = Some v" using s by (simp add: parse_amount_shape v_def)
    then have norm: "normalize_decimal p = amount_text v" using s by (simp add: amount_text_parse)
    have range: "v < 10 ^ 20" using parse_amount_range [OF pa] by simp
    have "v \<noteq> 0"
    proof
      assume "v = 0"
      then have "dval w = 0" "dval f * 10 ^ (8 - length f) = 0"
        unfolding v_def dval_pad_end by (simp_all add: add_nonneg_eq_0_iff)
      then have "dval w = 0" "dval f = 0" by simp_all
      then have "\<forall>c \<in> set w. c = CHR ''0''" "\<forall>c \<in> set f. c = CHR ''0''"
        using s by (simp_all add: dval_zero_set)
      then have "\<forall>c \<in> set p. c = CHR ''0'' \<or> c = CHR ''.''"
        unfolding s(6) dec_shape_def by (simp add: ball_Un)
      moreover have "list_ex (\<lambda>c. is_dig c \<and> c \<noteq> CHR ''0'') p" using True by blast
      ultimately show False unfolding list_ex_iff by (metis not_is_dig_sep(1))
    qed
    then have v: "0 < v" by (simp add: v_def)
    note sp = split_parts [of v]
    define w' f' where "w' = nat_str (nat (v div 10 ^ 8))" and "f' = strip_end (split_fraction v)"
    have s': "amount_text v = dec_shape w' f'" "w' \<noteq> []" "list_all is_dig w'" "list_all is_dig f'"
      "length w' \<le> 12" "length f' \<le> 8"
      using v range sp nat_str_12 [of v] length_strip_end [of "split_fraction v"]
      by (simp_all add: amount_text_shape w'_def f'_def)
    have "parse_amount (amount_text v) = Some v" using v range by (intro parse_amount_text) simp
    then have nn: "normalize_decimal (amount_text v) = amount_text v"
      using s' by (intro amount_text_parse [symmetric]) simp_all
    have dom: "numeric_domain_decimal (amount_text v)"
      using v range by (intro amount_text_domain) (simp_all add: money_defs)
    then have "parse_stake_input (amount_text v) = Inr (Some (amount_text v))"
      using parse_stake_input_shape [OF s'(2-6)] s'(1) nn
      by (simp add: numeric_domain_decimal_def positive_decimal_def)
    moreover have "parse_stake_input txt = Inr (Some (amount_text v))"
      using True norm by (simp add: parse_stake_input_def Let_def p_def decimal_parse_def)
    ultimately show ?thesis using dom nn by simp
  qed
qed


end
