(* ===== verification/Trade_Types.thy ===== *)
theory Trade_Types
  imports Money
begin

text \<open>
  The vocabulary of a trade, \<^verbatim>\<open>packages/shared/src/trading.ts\<close>: modes, actions, the statuses of a
  trade intent and the one table of its transitions, transports, failure reasons and the error
  codes of a refused creation; and the two forms of a broker's trade from
  \<^verbatim>\<open>packages/shared/src/broker.ts\<close>. The lemmas are about the transition graph: which statuses are
  terminal, that the graph has no cycle, and what lies on every path to an end.
\<close>

section \<open>Modes, actions, statuses\<close>

datatype trade_mode = Demo | Real
datatype trade_action = Up | Down

datatype intent_status =
  Planned | Reserved | Queued | Submitting | Accepted | Settled | Rejected | Unknown | Reconciling | ManualReview

instantiation intent_status :: enum
begin

definition enum_intent_status :: "intent_status list" where
  "enum_intent_status =
     [Planned, Reserved, Queued, Submitting, Accepted, Settled, Rejected, Unknown, Reconciling, ManualReview]"

definition enum_all_intent_status :: "(intent_status \<Rightarrow> bool) \<Rightarrow> bool" where
  "enum_all_intent_status P = list_all P enum_class.enum"

definition enum_ex_intent_status :: "(intent_status \<Rightarrow> bool) \<Rightarrow> bool" where
  "enum_ex_intent_status P = list_ex P enum_class.enum"

instance
proof
  have U: "x \<in> set enum_class.enum" for x :: intent_status
    by (cases x) (simp_all add: enum_intent_status_def)
  then show "(UNIV :: intent_status set) = set enum_class.enum" by auto
  show "distinct (enum_class.enum :: intent_status list)" by (simp add: enum_intent_status_def)
  show "enum_class.enum_all P \<longleftrightarrow> Ball UNIV P" for P :: "intent_status \<Rightarrow> bool"
    using U by (auto simp: enum_all_intent_status_def list_all_iff)
  show "enum_class.enum_ex P \<longleftrightarrow> Bex UNIV P" for P :: "intent_status \<Rightarrow> bool"
    using U by (auto simp: enum_ex_intent_status_def list_ex_iff)
qed

end

text \<open>\<open>TRADE_INTENT_TRANSITIONS\<close> and \<open>canTransition\<close>.\<close>

fun TRADE_INTENT_TRANSITIONS :: "intent_status \<Rightarrow> intent_status list" where
  "TRADE_INTENT_TRANSITIONS Planned = [Reserved, Rejected]"
| "TRADE_INTENT_TRANSITIONS Reserved = [Queued, Rejected]"
| "TRADE_INTENT_TRANSITIONS Queued = [Submitting, Rejected]"
| "TRADE_INTENT_TRANSITIONS Submitting = [Accepted, Rejected, Unknown]"
| "TRADE_INTENT_TRANSITIONS Accepted = [Settled]"
| "TRADE_INTENT_TRANSITIONS Settled = []"
| "TRADE_INTENT_TRANSITIONS Rejected = []"
| "TRADE_INTENT_TRANSITIONS Unknown = [Reconciling]"
| "TRADE_INTENT_TRANSITIONS Reconciling = [Accepted, Rejected, ManualReview]"
| "TRADE_INTENT_TRANSITIONS ManualReview = [Settled, Rejected]"

definition can_transition :: "intent_status \<Rightarrow> intent_status \<Rightarrow> bool" where
  "can_transition from_status to \<longleftrightarrow> List.member (TRADE_INTENT_TRANSITIONS from_status) to"

text \<open>\<open>TERMINAL_TRADE_INTENT_STATUSES\<close>: the statuses with no outgoing transition.\<close>

definition TERMINAL_TRADE_INTENT_STATUSES :: "intent_status list" where
  "TERMINAL_TRADE_INTENT_STATUSES = filter (\<lambda>s. TRADE_INTENT_TRANSITIONS s = []) enum_class.enum"

definition terminal :: "intent_status \<Rightarrow> bool" where
  "terminal s \<longleftrightarrow> List.member TERMINAL_TRADE_INTENT_STATUSES s"

datatype trade_transport = Socket | RestFallback

datatype failure_reason =
  Expired | ExecutorNotConfigured | ExecutorTimeout | ExecutorError | BrokerRejected | PublishFailed
| StaleSubmitting | InvalidJob | ProcessingFailed | FailedTradingPaused | TradeMismatch | ManualRejected
| ReconciliationNotFound | ReconciliationAmbiguous | BrokerUnavailable | FailedDemoOnly | EntryWindowMissed

datatype intent_error =
  UserNotFound | UserBlocked | BrokerAccountNotFound | AmbiguousBrokerAccount | AccountRevoked
| AccountNotConfirmed | AccountHalted | InsufficientTokens | ActiveIntentExists
| ClientRequestIdConflict | TradingPaused | BalanceUnavailable | StakePrecision | StakeBelowMinimum
| InsufficientBalance | DemoOnly | RealModeOff

section \<open>The broker's trades\<close>

text \<open>
  \<open>OpenTrade\<close> and \<open>ClosedTrade\<close>: the shared base and the fields of one form. Prices are numbers
  nothing computes on; the model carries them as opaque values of a type \<open>'p\<close>. A payout is the
  number's pair of \<open>Money\<close>.
\<close>

datatype 'p trade_form =
  OpenForm (potentialProfit: string)
| ClosedForm (closePrice: 'p) (closeTimestamp: int) (tradeProfit: string)

record 'p broker_trade =
  bt_id :: string
  bt_assetId :: int
  bt_action :: trade_action
  bt_amount :: string
  bt_payout :: js_payout
  bt_openPrice :: 'p
  bt_openTimestamp :: int
  bt_isDemo :: bool
  bt_source :: "string option"
  bt_brokerClientId :: "string option"
  bt_form :: "'p trade_form"

definition is_closed_trade :: "'p broker_trade \<Rightarrow> bool" where
  "is_closed_trade t \<longleftrightarrow> (case bt_form t of OpenForm _ \<Rightarrow> False | ClosedForm _ _ _ \<Rightarrow> True)"

section \<open>The transition graph\<close>

lemma terminal_iff [simp]: "terminal s \<longleftrightarrow> s = Settled \<or> s = Rejected"
  by (cases s) (simp_all add: terminal_def TERMINAL_TRADE_INTENT_STATUSES_def enum_intent_status_def)

lemma can_transition_simps [simp]:
  "can_transition Planned t \<longleftrightarrow> t = Reserved \<or> t = Rejected"
  "can_transition Reserved t \<longleftrightarrow> t = Queued \<or> t = Rejected"
  "can_transition Queued t \<longleftrightarrow> t = Submitting \<or> t = Rejected"
  "can_transition Submitting t \<longleftrightarrow> t = Accepted \<or> t = Rejected \<or> t = Unknown"
  "can_transition Accepted t \<longleftrightarrow> t = Settled"
  "can_transition Settled t \<longleftrightarrow> False"
  "can_transition Rejected t \<longleftrightarrow> False"
  "can_transition Unknown t \<longleftrightarrow> t = Reconciling"
  "can_transition Reconciling t \<longleftrightarrow> t = Accepted \<or> t = Rejected \<or> t = ManualReview"
  "can_transition ManualReview t \<longleftrightarrow> t = Settled \<or> t = Rejected"
  by (auto simp: can_transition_def)

text \<open>A rank that every edge lowers: how many transitions an intent can still make at most.\<close>

fun status_rank :: "intent_status \<Rightarrow> nat" where
  "status_rank Planned = 8"
| "status_rank Reserved = 7"
| "status_rank Queued = 6"
| "status_rank Submitting = 5"
| "status_rank Unknown = 4"
| "status_rank Reconciling = 3"
| "status_rank ManualReview = 1"
| "status_rank Accepted = 1"
| "status_rank Settled = 0"
| "status_rank Rejected = 0"

lemma can_transition_rank: "can_transition s t \<Longrightarrow> status_rank t < status_rank s"
  by (cases s) auto

lemma status_rank_0_iff: "status_rank s = 0 \<longleftrightarrow> terminal s"
  by (cases s) simp_all

lemma not_terminal_progress: "\<not> terminal s \<Longrightarrow> \<exists>t. can_transition s t"
  by (cases s) auto

text \<open>A walk of the graph, from a status through the list of the statuses that follow.\<close>

fun status_walk :: "intent_status \<Rightarrow> intent_status list \<Rightarrow> bool" where
  "status_walk s [] = True"
| "status_walk s (t # ts) = (can_transition s t \<and> status_walk t ts)"

lemma status_walk_rank: "status_walk s ts \<Longrightarrow> length ts + status_rank (last (s # ts)) \<le> status_rank s"
proof (induction ts arbitrary: s)
  case (Cons t ts)
  then have "can_transition s t" "length ts + status_rank (last (t # ts)) \<le> status_rank t" by auto
  then show ?case using can_transition_rank [of s t] by simp
qed simp

lemma status_walk_ranks: "status_walk s ts \<Longrightarrow> \<forall>t \<in> set ts. status_rank t < status_rank s"
proof (induction ts arbitrary: s)
  case (Cons t ts)
  then have "status_rank t < status_rank s" "\<forall>u \<in> set ts. status_rank u < status_rank t"
    using can_transition_rank by auto
  then show ?case by auto
qed simp

lemma status_walk_distinct: "status_walk s ts \<Longrightarrow> distinct (s # ts)"
proof (induction ts arbitrary: s)
  case (Cons t ts)
  then show ?case using status_walk_ranks [of s "t # ts"] by auto
qed simp

text \<open>
  the life of an intent ends: every walk of the transition table makes at most eight transitions,
  passes no status twice, and where it cannot go on it stands at \<open>settled\<close> or \<open>rejected\<close>;
  \<open>unknown\<close> is entered only from \<open>submitting\<close>.
\<close>

theorem intent_life_is_bounded:
  assumes "status_walk s ts"
  shows "length ts \<le> 8 \<and> distinct (s # ts)
    \<and> ((\<forall>t. \<not> can_transition (last (s # ts)) t) \<longleftrightarrow> terminal (last (s # ts)))
    \<and> (\<forall>r. can_transition r Unknown \<longleftrightarrow> r = Submitting)"
proof (intro conjI allI)
  show "length ts \<le> 8"
    using status_walk_rank [OF assms] by (cases s) simp_all
  show "distinct (s # ts)"
    using assms by (rule status_walk_distinct)
  show "(\<forall>t. \<not> can_transition (last (s # ts)) t) \<longleftrightarrow> terminal (last (s # ts))"
    by (cases "last (s # ts)") auto
  show "can_transition r Unknown \<longleftrightarrow> r = Submitting" for r
    by (cases r) auto
qed

theorem intent_life_is_bounded_witness:
  "status_walk Planned [Reserved, Queued, Submitting, Unknown, Reconciling, ManualReview, Settled]
   \<and> distinct [Planned, Reserved, Queued, Submitting, Unknown, Reconciling, ManualReview, Settled]"
proof -
  have *: "status_walk Planned [Reserved, Queued, Submitting, Unknown, Reconciling, ManualReview, Settled]"
    by simp
  from * intent_life_is_bounded [OF *] show ?thesis by blast
qed

end
