(* ===== verification/Stake_Sizer.thy ===== *)
theory Stake_Sizer
  imports Trade_Types
begin

text \<open>
  The session stake sizer of \<^verbatim>\<open>packages/stake\<close>: its parameters and their check (config.ts), the
  ledger of a session's trades and the decision of the next stake (size.ts), and the mapping of a
  session's intents to the sizer's input (history.ts). The lemmas: the ledger against a
  declarative reading of the history, the martingale stake as the least stake of the grid that
  recovers the streak, the limits every decided stake keeps, totality, and the bound on what a
  whole session can lose.
\<close>

section \<open>Codes and parameters\<close>

datatype stake_strategy = Fixed | Martingale | OtherStrategy

datatype session_trade =
  TradeSettled (st_stake: string) (st_profit: string)
| TradeRejected
| TradeUnresolved

datatype trade_problem = NonPositiveStake | LossExceedsStake
datatype amount_field = HistoryStake | HistoryProfit | MinTradeAmount | Available

text \<open>
  The parameters as \<open>assertStakeParams\<close> meets them: \<open>typeof\<close> and \<open>in\<close> tests are part of the check,
  so a text that is not a string is \<open>None\<close>, and the \<open>limits\<close> property is absent, present with a
  value that is no object, or an object.
\<close>

record martingale_limits =
  maxSteps :: js_num
  maxStake :: "string option"
  maxSessionLoss :: "string option"
  maxSessionDurationMs :: js_num

datatype limits_field = NoLimits | BadLimits | Limits martingale_limits

record stake_params =
  strategy :: stake_strategy
  baseStake :: "string option"
  stakeScale :: js_num
  limits :: limits_field

text \<open>Errors: a parameter that breaks its rule (by the name of the field), a clock, a helper's throw.\<close>

datatype sizer_error = BadParam string | BadClock string | HelperThrew js_error

definition STAKE_ALGORITHM_VERSION :: string where "STAKE_ALGORITHM_VERSION = ''v1''"

definition DEFAULT_STAKE_PARAMS :: stake_params where
  "DEFAULT_STAKE_PARAMS =
     \<lparr>strategy = Fixed, baseStake = Some ''1.00'', stakeScale = JInt 2, limits = NoLimits\<rparr>"

definition param_amount :: "string \<Rightarrow> string option \<Rightarrow> sizer_error + int" where
  "param_amount field value =
     (case Option.bind value parse_amount of None \<Rightarrow> Inl (BadParam field) | Some v \<Rightarrow> Inr v)"

definition js_at_least :: "js_num \<Rightarrow> int \<Rightarrow> bool" where
  "js_at_least n lo \<longleftrightarrow> (case n of JInt i \<Rightarrow> lo \<le> i | JOther \<Rightarrow> False)"

definition assert_stake_params :: "stake_params \<Rightarrow> sizer_error + unit" where
  "assert_stake_params params =
     (if \<not> js_integer_in (stakeScale params) 0 (int AMOUNT_SCALE) then Inl (BadParam ''stakeScale'')
      else case param_amount ''baseStake'' (baseStake params) of Inl e \<Rightarrow> Inl e
      | Inr base \<Rightarrow>
      if base \<le> 0 then Inl (BadParam ''baseStake'')
      else case floor_to_scale base (stakeScale params) of Inl e \<Rightarrow> Inl (HelperThrew e)
      | Inr floored \<Rightarrow>
      if floored \<noteq> base then Inl (BadParam ''baseStake'')
      else if strategy params = Fixed then
        (if limits params \<noteq> NoLimits then Inl (BadParam ''limits'') else Inr ())
      else if strategy params \<noteq> Martingale then Inl (BadParam ''strategy'')
      else case limits params of
        NoLimits \<Rightarrow> Inl (BadParam ''limits'')
      | BadLimits \<Rightarrow> Inl (BadParam ''limits'')
      | Limits l \<Rightarrow>
      if \<not> js_at_least (maxSteps l) 2 then Inl (BadParam ''limits.maxSteps'')
      else case param_amount ''limits.maxStake'' (maxStake l) of Inl e \<Rightarrow> Inl e
      | Inr ms \<Rightarrow>
      if ms < base then Inl (BadParam ''limits.maxStake'')
      else case param_amount ''limits.maxSessionLoss'' (maxSessionLoss l) of Inl e \<Rightarrow> Inl e
      | Inr ml \<Rightarrow>
      if ml < base then Inl (BadParam ''limits.maxSessionLoss'')
      else if \<not> js_at_least (maxSessionDurationMs l) 1 then Inl (BadParam ''limits.maxSessionDurationMs'')
      else Inr ())"

section \<open>Input and decisions\<close>

text \<open>
  Clock values are milliseconds; \<open>None\<close> is a number that is not finite. Balances and the minimum are
  texts, the payout a JavaScript number.
\<close>

record stake_input =
  si_history :: "session_trade list"
  si_payout :: js_payout
  si_minTradeAmount :: string
  si_available :: string
  si_sessionStartedAtMs :: "int option"
  si_nowMs :: "int option"

record stake_features =
  f_strategy :: stake_strategy
  f_step :: int
  f_consecutiveLosses :: int
  f_streakLoss :: string
  f_realizedSessionLoss :: string
  f_settledTrades :: int
  f_sessionElapsedMs :: int
  f_baseStake :: string

datatype limit_stop =
  SessionDurationExceeded int int
| MaxStepsExceeded int int
| MaxStakeExceeded string string
| MaxSessionLossExceeded string string string
| BelowMinTradeAmount string string
| InsufficientBalance string string

datatype data_stop =
  UnresolvedTrade nat
| InvalidAmount amount_field "nat option"
| InvalidTrade nat trade_problem
| InvalidPayout string

text \<open>Every decision also carries the constant version; the model leaves it out.\<close>

datatype stake_decision =
  Stake (d_amount: string) (d_features: stake_features)
| StopLimit limit_stop stake_features
| StopData data_stop

definition assert_clock :: "int option \<Rightarrow> int option \<Rightarrow> sizer_error + int \<times> int" where
  "assert_clock started now =
     (case started of None \<Rightarrow> Inl (BadClock ''sessionStartedAtMs'')
      | Some s \<Rightarrow> if s < 0 then Inl (BadClock ''sessionStartedAtMs'')
      else case now of None \<Rightarrow> Inl (BadClock ''nowMs'')
      | Some n \<Rightarrow> if n < 0 then Inl (BadClock ''nowMs'')
      else if n < s then Inl (BadClock ''nowMs < sessionStartedAtMs'')
      else Inr (s, n))"

section \<open>The ledger of a session\<close>

record ledger =
  settledTrades :: int
  consecutiveLosses :: int
  streakLoss :: int
  net :: int

definition empty_ledger :: ledger where
  "empty_ledger = \<lparr>settledTrades = 0, consecutiveLosses = 0, streakLoss = 0, net = 0\<rparr>"

definition realizedSessionLoss :: "ledger \<Rightarrow> int" where
  "realizedSessionLoss l = (if net l < 0 then - net l else 0)"

text \<open>The body of the loop after the checks: one settled trade with its parsed profit.\<close>

definition ledger_add :: "ledger \<Rightarrow> int \<Rightarrow> ledger" where
  "ledger_add l profit =
     (let l1 = l\<lparr>settledTrades := settledTrades l + 1, net := net l + profit\<rparr> in
      if 0 < profit then l1\<lparr>consecutiveLosses := 0, streakLoss := 0\<rparr>
      else if profit < 0 then
        l1\<lparr>consecutiveLosses := consecutiveLosses l + 1, streakLoss := streakLoss l - profit\<rparr>
      else l1)"

fun read_history_from :: "nat \<Rightarrow> ledger \<Rightarrow> session_trade list \<Rightarrow> data_stop + ledger" where
  "read_history_from index l [] = Inr l"
| "read_history_from index l (TradeRejected # ts) = read_history_from (Suc index) l ts"
| "read_history_from index l (TradeUnresolved # ts) = Inl (UnresolvedTrade index)"
| "read_history_from index l (TradeSettled stake_s profit_s # ts) =
     (case parse_amount stake_s of
        None \<Rightarrow> Inl (InvalidAmount HistoryStake (Some index))
      | Some stake \<Rightarrow>
     (case parse_amount profit_s of
        None \<Rightarrow> Inl (InvalidAmount HistoryProfit (Some index))
      | Some profit \<Rightarrow>
      if stake \<le> 0 then Inl (InvalidTrade index NonPositiveStake)
      else if profit < - stake then Inl (InvalidTrade index LossExceedsStake)
      else read_history_from (Suc index) (ledger_add l profit) ts))"

definition read_history :: "session_trade list \<Rightarrow> data_stop + ledger" where
  "read_history h = read_history_from 0 empty_ledger h"

definition read_balance :: "stake_input \<Rightarrow> data_stop + int \<times> int" where
  "read_balance input =
     (case parse_amount (si_minTradeAmount input) of
        None \<Rightarrow> Inl (InvalidAmount MinTradeAmount None)
      | Some m \<Rightarrow> if m < 0 then Inl (InvalidAmount MinTradeAmount None)
      else case parse_amount (si_available input) of
        None \<Rightarrow> Inl (InvalidAmount Available None)
      | Some a \<Rightarrow> if a < 0 then Inl (InvalidAmount Available None)
      else Inr (m, a))"

section \<open>The next stake\<close>

definition martingale_stake :: "int \<Rightarrow> int \<Rightarrow> int \<Rightarrow> js_num \<Rightarrow> js_error + int" where
  "martingale_stake streak base payout_scaled scale =
     (case expected_profit base payout_scaled scale of Inl e \<Rightarrow> Inl e
      | Inr base_profit \<Rightarrow>
     (case ceil_to_scale (streak + base_profit) scale of Inl e \<Rightarrow> Inl e
      | Inr target \<Rightarrow>
     (case div_ceil (target * PERCENT_DIVISOR) payout_scaled of Inl e \<Rightarrow> Inl e
      | Inr q \<Rightarrow> ceil_to_scale q scale)))"

text \<open>
  The sizer \<open>createStakeSizer\<close> returns: the frozen parameters with the amounts its closure holds.
  \<open>sz_martingale\<close> is \<open>undefined\<close> for the fixed strategy; \<open>sz_maxStakeText\<close> and its like are the
  texts a stop reports.
\<close>

record martingale_caps =
  mc_maxSteps :: int
  mc_maxSessionDurationMs :: int
  mc_maxStake :: int
  mc_maxSessionLoss :: int
  mc_maxStakeText :: string
  mc_maxSessionLossText :: string

record sizer =
  sz_params :: stake_params
  sz_base :: int
  sz_martingale :: "martingale_caps option"

definition text_of :: "string option \<Rightarrow> string" where
  "text_of t = (case t of None \<Rightarrow> [] | Some s \<Rightarrow> s)"

definition require_amount :: "string option \<Rightarrow> sizer_error + int" where
  "require_amount txt = param_amount ''unparsable amount'' txt"

definition create_stake_sizer :: "stake_params \<Rightarrow> sizer_error + sizer" where
  "create_stake_sizer params =
     (case assert_stake_params params of Inl e \<Rightarrow> Inl e
      | Inr _ \<Rightarrow>
     (case require_amount (baseStake params) of Inl e \<Rightarrow> Inl e
      | Inr base \<Rightarrow>
      if strategy params = Martingale then
        (case limits params of
           Limits l \<Rightarrow>
             (case require_amount (maxStake l) of Inl e \<Rightarrow> Inl e
              | Inr ms \<Rightarrow>
             (case require_amount (maxSessionLoss l) of Inl e \<Rightarrow> Inl e
              | Inr ml \<Rightarrow>
                Inr \<lparr>sz_params = params, sz_base = base, sz_martingale = Some
                  \<lparr>mc_maxSteps = js_int (maxSteps l), mc_maxSessionDurationMs = js_int (maxSessionDurationMs l),
                   mc_maxStake = ms, mc_maxSessionLoss = ml,
                   mc_maxStakeText = text_of (maxStake l),
                   mc_maxSessionLossText = text_of (maxSessionLoss l)\<rparr>\<rparr>))
         | _ \<Rightarrow> Inl (BadParam ''limits''))
      else Inr \<lparr>sz_params = params, sz_base = base, sz_martingale = None\<rparr>))"


definition sizer_features :: "sizer \<Rightarrow> ledger \<Rightarrow> int \<Rightarrow> int \<Rightarrow> stake_features" where
  "sizer_features sz l step elapsed =
     \<lparr>f_strategy = strategy (sz_params sz), f_step = step,
      f_consecutiveLosses = consecutiveLosses l, f_streakLoss = amount_text (streakLoss l),
      f_realizedSessionLoss = amount_text (realizedSessionLoss l), f_settledTrades = settledTrades l,
      f_sessionElapsedMs = elapsed, f_baseStake = text_of (baseStake (sz_params sz))\<rparr>"

text \<open>
  The martingale part of \<open>next\<close>: the candidate stake, or the decision it ends with. The limits are
  checked in the source's order; the payout is parsed on the first step too.
\<close>

definition martingale_candidate ::
  "sizer \<Rightarrow> martingale_caps \<Rightarrow> ledger \<Rightarrow> js_payout \<Rightarrow> int \<Rightarrow> int \<Rightarrow> stake_features
    \<Rightarrow> sizer_error + (stake_decision + int)" where
  "martingale_candidate sz mc l payout step elapsed features =
     (if mc_maxSessionDurationMs mc < elapsed then
        Inr (Inl (StopLimit (SessionDurationExceeded elapsed (mc_maxSessionDurationMs mc)) features))
      else if mc_maxSteps mc < step then
        Inr (Inl (StopLimit (MaxStepsExceeded step (mc_maxSteps mc)) features))
      else case parse_payout payout of
        None \<Rightarrow> Inr (Inl (StopData (InvalidPayout (payout_string payout))))
      | Some payout_scaled \<Rightarrow>
      (case (if 1 < step then martingale_stake (streakLoss l) (sz_base sz) payout_scaled (stakeScale (sz_params sz))
             else Inr (sz_base sz)) of
         Inl e \<Rightarrow> Inl (HelperThrew e)
       | Inr candidate \<Rightarrow>
         if mc_maxStake mc < candidate then
           Inr (Inl (StopLimit (MaxStakeExceeded (amount_text candidate) (mc_maxStakeText mc)) features))
         else if mc_maxSessionLoss mc < realizedSessionLoss l + candidate then
           Inr (Inl (StopLimit (MaxSessionLossExceeded (amount_text candidate)
             (f_realizedSessionLoss features) (mc_maxSessionLossText mc)) features))
         else Inr (Inr candidate)))"

definition sizer_next :: "sizer \<Rightarrow> stake_input \<Rightarrow> sizer_error + stake_decision" where
  "sizer_next sz input =
     (case assert_clock (si_sessionStartedAtMs input) (si_nowMs input) of Inl e \<Rightarrow> Inl e
      | Inr (started, now) \<Rightarrow>
      (case read_history (si_history input) of Inl stop \<Rightarrow> Inr (StopData stop)
       | Inr l \<Rightarrow>
      (case read_balance input of Inl stop \<Rightarrow> Inr (StopData stop)
       | Inr (min_trade, avail) \<Rightarrow>
      let elapsed = now - started;
          step = (case sz_martingale sz of None \<Rightarrow> 1 | Some _ \<Rightarrow> consecutiveLosses l + 1);
          features = sizer_features sz l step elapsed in
      (case (case sz_martingale sz of
               None \<Rightarrow> Inr (Inr (sz_base sz))
             | Some mc \<Rightarrow> martingale_candidate sz mc l (si_payout input) step elapsed features) of
         Inl e \<Rightarrow> Inl e
       | Inr (Inl decision) \<Rightarrow> Inr decision
       | Inr (Inr candidate) \<Rightarrow>
         if candidate < min_trade then
           Inr (StopLimit (BelowMinTradeAmount (amount_text candidate) (si_minTradeAmount input)) features)
         else if avail < candidate then
           Inr (StopLimit (InsufficientBalance (amount_text candidate) (si_available input)) features)
         else case format_stake candidate (stakeScale (sz_params sz)) of
           Inl e \<Rightarrow> Inl (HelperThrew e)
         | Inr amount \<Rightarrow> Inr (Stake amount features)))))"

section \<open>A session's intents as the sizer's input\<close>

record session_intent_outcome =
  so_status :: intent_status
  so_amount :: string
  so_profit :: "string option"

definition session_trade_of :: "session_intent_outcome \<Rightarrow> session_trade" where
  "session_trade_of i =
     (if so_status i = Rejected then TradeRejected
      else case so_profit i of
        Some p \<Rightarrow> if so_status i = Settled then TradeSettled (so_amount i) p else TradeUnresolved
      | None \<Rightarrow> TradeUnresolved)"

definition session_stake_input ::
  "session_intent_outcome list \<Rightarrow> js_payout \<Rightarrow> string \<Rightarrow> string \<Rightarrow> int \<Rightarrow> int \<Rightarrow> stake_input" where
  "session_stake_input intents payout min_trade avail started now =
     \<lparr>si_history = map session_trade_of intents, si_payout = payout, si_minTradeAmount = min_trade,
      si_available = avail, si_sessionStartedAtMs = Some started, si_nowMs = Some (max now started)\<rparr>"

section \<open>The ledger, read declaratively\<close>

text \<open>The profits of the settled trades, in order.\<close>

fun profits :: "session_trade list \<Rightarrow> int list" where
  "profits [] = []"
| "profits (TradeSettled s p # ts) = (case parse_amount p of None \<Rightarrow> [] | Some v \<Rightarrow> [v]) @ profits ts"
| "profits (_ # ts) = profits ts"

text \<open>A trade the ledger can read.\<close>

fun usable :: "session_trade \<Rightarrow> bool" where
  "usable TradeRejected = True"
| "usable TradeUnresolved = False"
| "usable (TradeSettled s p) =
     (case (parse_amount s, parse_amount p) of (Some v, Some q) \<Rightarrow> 0 < v \<and> - v \<le> q | _ \<Rightarrow> False)"

text \<open>The losses since the last win: ties are skipped, a win of any size ends the streak.\<close>

definition streak :: "int list \<Rightarrow> int list" where
  "streak ps = takeWhile (\<lambda>p. p < 0) (rev (filter (\<lambda>p. p \<noteq> 0) ps))"

definition ledger_of :: "int list \<Rightarrow> ledger" where
  "ledger_of ps =
     \<lparr>settledTrades = int (length ps), consecutiveLosses = int (length (streak ps)),
      streakLoss = - sum_list (streak ps), net = sum_list ps\<rparr>"

lemma streak_snoc [simp]:
  "streak (ps @ [p]) = (if p < 0 then p # streak ps else if p = 0 then streak ps else [])"
  by (simp add: streak_def)

lemma ledger_of_snoc: "ledger_of (ps @ [p]) = ledger_add (ledger_of ps) p"
  by (simp add: ledger_of_def ledger_add_def Let_def)

lemma read_history_from_ok:
  "list_all usable h \<Longrightarrow> read_history_from i (ledger_of ps) h = Inr (ledger_of (ps @ profits h))"
proof (induction i "ledger_of ps" h arbitrary: ps rule: read_history_from.induct)
  case (4 i s p ts)
  then obtain v q where vq: "parse_amount s = Some v" "parse_amount p = Some q" "0 < v" "- v \<le> q"
    by (auto split: option.splits)
  have "read_history_from (Suc i) (ledger_of (ps @ [q])) ts = Inr (ledger_of ((ps @ [q]) @ profits ts))"
    using "4.prems" "4.hyps" [OF vq(1,2), of "ps @ [q]"] vq by (simp add: ledger_of_snoc)
  then show ?case using vq by (simp add: ledger_of_snoc)
qed simp_all

lemma read_history_from_usable:
  "read_history_from i l h = Inr l' \<Longrightarrow> list_all usable h"
  by (induction i l h rule: read_history_from.induct) (auto split: option.splits if_splits)

lemma empty_ledger_of: "empty_ledger = ledger_of []"
  by (simp add: empty_ledger_def ledger_of_def streak_def)

lemma read_history_iff: "read_history h = Inr l \<longleftrightarrow> list_all usable h \<and> l = ledger_of (profits h)"
  using read_history_from_ok [of h 0 "[]"] read_history_from_usable [of 0 empty_ledger h l]
  by (auto simp: read_history_def empty_ledger_of)

lemma streak_neg: "\<forall>p \<in> set (streak ps). p < 0"
  by (auto simp: streak_def dest: set_takeWhileD)

lemma streakLoss_nonneg: "0 \<le> streakLoss (ledger_of ps)"
proof -
  have "sum_list (streak ps) \<le> 0" using streak_neg [of ps] by (intro sum_list_nonpos) auto
  then show ?thesis by (simp add: ledger_of_def)
qed

section \<open>What a created sizer is\<close>

text \<open>The facts \<open>assertStakeParams\<close> leaves about a sizer \<open>createStakeSizer\<close> returned.\<close>

definition sizer_wf :: "sizer \<Rightarrow> nat \<Rightarrow> bool" where
  "sizer_wf sz n \<longleftrightarrow>
     n \<le> 8 \<and> stakeScale (sz_params sz) = JInt (int n) \<and>
     0 < sz_base sz \<and> grid n dvd sz_base sz \<and>
     Option.bind (baseStake (sz_params sz)) parse_amount = Some (sz_base sz) \<and>
     (case sz_martingale sz of
        None \<Rightarrow> strategy (sz_params sz) = Fixed
      | Some mc \<Rightarrow> strategy (sz_params sz) = Martingale \<and> 2 \<le> mc_maxSteps mc
          \<and> sz_base sz \<le> mc_maxStake mc \<and> sz_base sz \<le> mc_maxSessionLoss mc
          \<and> 1 \<le> mc_maxSessionDurationMs mc)"

lemma param_amount_ok: "param_amount f t = Inr v \<longleftrightarrow> Option.bind t parse_amount = Some v"
  by (auto simp: param_amount_def split: option.splits)

lemma floor_grid_id: "floor_grid v n = v \<longleftrightarrow> grid n dvd v"
  by (metis dvd_div_mult_self dvd_triv_right floor_grid_def)

lemma create_stake_sizer_wf:
  assumes "create_stake_sizer p = Inr sz"
  shows "\<exists>n. sizer_wf sz n"
proof -
  from assms have ok: "assert_stake_params p = Inr ()"
    by (auto simp: create_stake_sizer_def split: sum.splits)
  then have sc: "js_integer_in (stakeScale p) 0 8"
    by (auto simp: assert_stake_params_def money_defs split: if_splits)
  then obtain n where n: "n \<le> 8" "stakeScale p = JInt (int n)" using scale_valid by blast
  obtain base where base: "Option.bind (baseStake p) parse_amount = Some base" "0 < base"
      "floor_to_scale base (stakeScale p) = Inr base"
    using ok by (auto simp: assert_stake_params_def param_amount_ok split: if_splits sum.splits)
  have gr: "grid n dvd base" using base n floor_to_scale_ok [OF n(1), of base] by (simp add: floor_grid_id)
  show ?thesis
  proof (cases "strategy p = Martingale")
    case True
    obtain l where l: "limits p = Limits l"
      using ok True by (auto simp: assert_stake_params_def split: if_splits sum.splits limits_field.splits)
    obtain ms ml where m: "Option.bind (maxStake l) parse_amount = Some ms" "base \<le> ms"
      "Option.bind (maxSessionLoss l) parse_amount = Some ml" "base \<le> ml"
      "js_at_least (maxSteps l) 2" "js_at_least (maxSessionDurationMs l) 1"
      using ok True l base
      by (auto simp: assert_stake_params_def param_amount_ok split: if_splits sum.splits)
    show ?thesis
      using assms ok True l m n base gr
      by (intro exI [of _ n])
        (auto simp: create_stake_sizer_def sizer_wf_def require_amount_def param_amount_ok js_at_least_def
          split: sum.splits js_num.splits)
  next
    case False
    then have "strategy p = Fixed"
      using ok by (auto simp: assert_stake_params_def split: if_splits sum.splits)
    then show ?thesis
      using assms False ok n base gr
      by (intro exI [of _ n])
        (auto simp: create_stake_sizer_def sizer_wf_def require_amount_def param_amount_ok split: sum.splits)
  qed
qed

section \<open>The martingale stake\<close>

lemma parse_payout_pos: "parse_payout p = Some q \<Longrightarrow> 0 < q"
  by (auto simp: parse_payout_def Let_def split: if_splits option.splits)

lemma percent_divisor_pos [simp]: "0 < PERCENT_DIVISOR" "0 \<le> PERCENT_DIVISOR"
  by (simp_all add: money_defs)

definition profit_at :: "int \<Rightarrow> int \<Rightarrow> nat \<Rightarrow> int" where
  "profit_at stake payout n = floor_grid (stake * payout div PERCENT_DIVISOR) n"

lemma expected_profit_ok:
  "n \<le> 8 \<Longrightarrow> 0 \<le> s \<Longrightarrow> 0 < p \<Longrightarrow> expected_profit s p (JInt (int n)) = Inr (profit_at s p n)"
  by (simp add: expected_profit_def profit_at_def floor_to_scale_ok pos_imp_zdiv_nonneg_iff)

lemma profit_at_nonneg: "0 \<le> s \<Longrightarrow> 0 < p \<Longrightarrow> 0 \<le> profit_at s p n"
  by (simp add: profit_at_def floor_grid_def pos_imp_zdiv_nonneg_iff)

definition martingale_of :: "int \<Rightarrow> int \<Rightarrow> int \<Rightarrow> nat \<Rightarrow> int" where
  "martingale_of sl base p n =
     ceil_grid ((ceil_grid (sl + profit_at base p n) n * PERCENT_DIVISOR + p - 1) div p) n"

lemma ceil_grid_nonneg: "0 \<le> v \<Longrightarrow> 0 \<le> ceil_grid v n"
  using ceil_grid_least(1) [of v n] by simp

lemma martingale_stake_ok:
  assumes "n \<le> 8" "0 \<le> sl" "0 \<le> base" "0 < p"
  shows "martingale_stake sl base p (JInt (int n)) = Inr (martingale_of sl base p n)"
proof -
  define t where "t = ceil_grid (sl + profit_at base p n) n"
  have t: "0 \<le> t" using assms profit_at_nonneg [of base p n] by (simp add: t_def ceil_grid_nonneg)
  have "0 \<le> t * PERCENT_DIVISOR" using t by simp
  note tp = this
  then have "0 \<le> (t * PERCENT_DIVISOR + p - 1) div p"
    using assms(4) by (simp add: pos_imp_zdiv_nonneg_iff del: zero_le_mult_iff)
  then show ?thesis
    using assms t tp [folded not_less] profit_at_nonneg [of base p n]
    by (simp add: martingale_stake_def expected_profit_ok ceil_to_scale_ok div_ceil_def martingale_of_def
        flip: t_def)
qed

lemma martingale_of_iff:
  assumes "0 < p" "grid n dvd x"
  shows "martingale_of sl base p n \<le> x \<longleftrightarrow> sl + profit_at base p n \<le> profit_at x p n"
proof -
  define t where "t = ceil_grid (sl + profit_at base p n) n"
  have td: "grid n dvd t" by (simp add: t_def ceil_grid_least)
  have "sl + profit_at base p n \<le> profit_at x p n \<longleftrightarrow> t \<le> profit_at x p n"
    using ceil_grid_least(1) [of "sl + profit_at base p n" n]
      ceil_grid_least(3) [of n "profit_at x p n" "sl + profit_at base p n"]
    by (auto simp: t_def profit_at_def floor_grid_greatest(2) intro: order_trans)
  also have "\<dots> \<longleftrightarrow> t \<le> x * p div PERCENT_DIVISOR"
    using floor_grid_greatest(1) [of "x * p div PERCENT_DIVISOR" n] floor_grid_greatest(3) [OF td]
    by (auto simp: profit_at_def intro: order_trans)
  also have "\<dots> \<longleftrightarrow> t * PERCENT_DIVISOR \<le> x * p" by (simp add: int_le_div_iff)
  also have "\<dots> \<longleftrightarrow> (t * PERCENT_DIVISOR + p - 1) div p \<le> x" by (simp add: int_ceil_div_le_iff [OF assms(1)])
  also have "\<dots> \<longleftrightarrow> martingale_of sl base p n \<le> x"
    using ceil_grid_least(1) [of "(t * PERCENT_DIVISOR + p - 1) div p" n]
      ceil_grid_least(3) [OF assms(2), of "(t * PERCENT_DIVISOR + p - 1) div p"]
    by (auto simp: martingale_of_def t_def intro: order_trans)
  finally show ?thesis by simp
qed

lemma martingale_of_dvd: "grid n dvd martingale_of sl base p n"
  by (simp add: martingale_of_def ceil_grid_least)

text \<open>
  the martingale stake is exactly the smallest stake of the grid that pays the streak back: for
  any scale, streak, base and payout it is defined, lies on the grid, its floored profit covers the
  streak's loss plus the base stake's own profit, and a stake of the grid covers it if and only if
  it is at least that large.
\<close>

theorem martingale_stake_least:
  assumes "n \<le> 8" "0 \<le> streak_loss" "0 \<le> base" "0 < payout"
  shows "\<exists>m. martingale_stake streak_loss base payout (JInt (int n)) = Inr m \<and> grid n dvd m
    \<and> streak_loss + profit_at base payout n \<le> profit_at m payout n
    \<and> (\<forall>x. grid n dvd x \<longrightarrow> (streak_loss + profit_at base payout n \<le> profit_at x payout n \<longleftrightarrow> m \<le> x))"
  using martingale_stake_ok [OF assms] martingale_of_iff [OF assms(4)]
    martingale_of_iff [OF assms(4) martingale_of_dvd [of n streak_loss base payout], of streak_loss base]
  by (intro exI [of _ "martingale_of streak_loss base payout n"]) (auto simp: martingale_of_dvd)

theorem martingale_stake_least_witness:
  "\<exists>m. martingale_stake 100000000 100000000 850000 (JInt (int 2)) = Inr m \<and> grid 2 dvd m
    \<and> 100000000 + profit_at 100000000 850000 2 \<le> profit_at m 850000 2"
proof -
  have "(2::nat) \<le> 8" "(0::int) \<le> 100000000" "(0::int) < 850000" by simp_all
  from martingale_stake_least [OF this(1,2,2,3)] show ?thesis by blast
qed

section \<open>Every decided stake keeps the limits\<close>

text \<open>What \<open>next\<close> does once the input is readable: the candidate of the strategy.\<close>

definition candidate_of :: "sizer \<Rightarrow> nat \<Rightarrow> ledger \<Rightarrow> int \<Rightarrow> int" where
  "candidate_of sz n l payout =
     (if sz_martingale sz \<noteq> None \<and> 0 < consecutiveLosses l
      then martingale_of (streakLoss l) (sz_base sz) payout n else sz_base sz)"

lemma candidate_dvd: "sizer_wf sz n \<Longrightarrow> grid n dvd candidate_of sz n l p"
  by (simp add: candidate_of_def sizer_wf_def martingale_of_dvd)

lemma martingale_of_nonneg:
  assumes "0 \<le> s" "0 \<le> b" "0 < p" shows "0 \<le> martingale_of s b p n"
proof -
  have "0 \<le> ceil_grid (s + profit_at b p n) n * PERCENT_DIVISOR"
    using assms profit_at_nonneg [of b p n] by (intro mult_nonneg_nonneg ceil_grid_nonneg) simp_all
  then show ?thesis
    unfolding martingale_of_def using assms(3) by (intro ceil_grid_nonneg) (simp add: pos_imp_zdiv_nonneg_iff)
qed

lemma martingale_of_pos:
  assumes "0 < s" "0 \<le> b" "0 < p" shows "0 < martingale_of s b p n"
proof (rule ccontr)
  assume "\<not> 0 < martingale_of s b p n"
  then have "s + profit_at b p n \<le> profit_at 0 p n"
    using martingale_of_iff [OF assms(3), of n 0 s b] by simp
  then show False using assms profit_at_nonneg [OF assms(2,3), of n] by (simp add: profit_at_def floor_grid_def)
qed

lemma streak_pos_iff: "0 < streakLoss (ledger_of ps) \<longleftrightarrow> 0 < consecutiveLosses (ledger_of ps)"
proof
  assume "0 < consecutiveLosses (ledger_of ps)"
  then obtain p qs where "streak ps = p # qs" by (cases "streak ps") (auto simp: ledger_of_def)
  moreover have "sum_list qs \<le> 0" using calculation streak_neg [of ps] by (intro sum_list_nonpos) auto
  ultimately show "0 < streakLoss (ledger_of ps)" using streak_neg [of ps] by (simp add: ledger_of_def)
qed (auto simp: ledger_of_def)

lemma candidate_pos:
  assumes "sizer_wf sz n" "sz_martingale sz \<noteq> None \<longrightarrow> 0 < p"
  shows "0 < candidate_of sz n (ledger_of ps) p"
  using assms streak_pos_iff [of ps]
  by (auto simp: candidate_of_def sizer_wf_def intro: martingale_of_pos)

lemma martingale_candidate_eq:
  assumes wf: "sizer_wf sz n" and mc: "sz_martingale sz = Some mc" and l: "l = ledger_of ps"
    and step: "step = consecutiveLosses l + 1"
  shows "martingale_candidate sz mc l payout step elapsed ft =
    (if mc_maxSessionDurationMs mc < elapsed then
        Inr (Inl (StopLimit (SessionDurationExceeded elapsed (mc_maxSessionDurationMs mc)) ft))
     else if mc_maxSteps mc < step then Inr (Inl (StopLimit (MaxStepsExceeded step (mc_maxSteps mc)) ft))
     else case parse_payout payout of
       None \<Rightarrow> Inr (Inl (StopData (InvalidPayout (payout_string payout))))
     | Some p \<Rightarrow>
       let c = candidate_of sz n l p in
       if mc_maxStake mc < c then Inr (Inl (StopLimit (MaxStakeExceeded (amount_text c) (mc_maxStakeText mc)) ft))
       else if mc_maxSessionLoss mc < realizedSessionLoss l + c then
         Inr (Inl (StopLimit (MaxSessionLossExceeded (amount_text c) (f_realizedSessionLoss ft)
           (mc_maxSessionLossText mc)) ft))
       else Inr (Inr c))"
proof -
  have s: "0 \<le> streakLoss l" by (simp add: l streakLoss_nonneg)
  show ?thesis
    using wf mc step s parse_payout_pos [of payout]
    by (auto simp: martingale_candidate_def candidate_of_def sizer_wf_def martingale_stake_ok Let_def
        split: option.splits)
qed

lemma assert_clock_cases:
  "assert_clock s m = Inr (a, b) \<longleftrightarrow> s = Some a \<and> m = Some b \<and> 0 \<le> a \<and> a \<le> b"
  by (auto simp: assert_clock_def split: option.splits if_splits)

lemma read_balance_cases:
  "read_balance i = Inr (m, a) \<longleftrightarrow>
     parse_amount (si_minTradeAmount i) = Some m \<and> parse_amount (si_available i) = Some a \<and> 0 \<le> m \<and> 0 \<le> a"
  by (auto simp: read_balance_def split: option.splits if_splits)

text \<open>Inversion of a decided stake.\<close>

lemma sizer_next_StakeE:
  assumes wf: "sizer_wf sz n" and nx: "sizer_next sz i = Inr (Stake amount ft)"
  obtains l m a p where "read_history (si_history i) = Inr l" "read_balance i = Inr (m, a)"
    "m \<le> candidate_of sz n l p" "candidate_of sz n l p \<le> a"
    "amount = stake_text (candidate_of sz n l p) n" "parse_amount amount = Some (candidate_of sz n l p)"
    "0 < candidate_of sz n l p"
    "f_step ft = (if sz_martingale sz = None then 1 else consecutiveLosses l + 1)"
    "\<And>mc. sz_martingale sz = Some mc \<Longrightarrow>
       parse_payout (si_payout i) = Some p \<and> candidate_of sz n l p \<le> mc_maxStake mc
       \<and> realizedSessionLoss l + candidate_of sz n l p \<le> mc_maxSessionLoss mc
       \<and> consecutiveLosses l + 1 \<le> mc_maxSteps mc \<and> f_sessionElapsedMs ft \<le> mc_maxSessionDurationMs mc"
proof -
  from nx obtain started now where clock: "assert_clock (si_sessionStartedAtMs i) (si_nowMs i) = Inr (started, now)"
    by (auto simp: sizer_next_def split: sum.splits)
  from nx clock obtain l where l: "read_history (si_history i) = Inr l"
    by (auto simp: sizer_next_def split: sum.splits)
  from nx clock l obtain m a where b: "read_balance i = Inr (m, a)"
    by (auto simp: sizer_next_def split: sum.splits)
  define step where "step = (case sz_martingale sz of None \<Rightarrow> (1::int) | Some _ \<Rightarrow> consecutiveLosses l + 1)"
  define fts where "fts = sizer_features sz l step (now - started)"
  define r where "r = (case sz_martingale sz of None \<Rightarrow> Inr (Inr (sz_base sz))
     | Some mc \<Rightarrow> martingale_candidate sz mc l (si_payout i) step (now - started) fts)"
  have nx': "sizer_next sz i = (case r of Inl e \<Rightarrow> Inl e | Inr (Inl d) \<Rightarrow> Inr d
     | Inr (Inr c) \<Rightarrow>
         if c < m then Inr (StopLimit (BelowMinTradeAmount (amount_text c) (si_minTradeAmount i)) fts)
         else if a < c then Inr (StopLimit (InsufficientBalance (amount_text c) (si_available i)) fts)
         else case format_stake c (stakeScale (sz_params sz)) of Inl e \<Rightarrow> Inl (HelperThrew e)
         | Inr amount \<Rightarrow> Inr (Stake amount fts))"
    unfolding sizer_next_def clock l b Let_def r_def fts_def step_def sum.case prod.case ..
  have lo: "l = ledger_of (profits (si_history i))" using l by (simp add: read_history_iff)
  have r_mc: "\<exists>p. r = Inr (Inr (candidate_of sz n l p)) \<and> (sz_martingale sz \<noteq> None \<longrightarrow> 0 < p) \<and>
     (\<forall>mc. sz_martingale sz = Some mc \<longrightarrow>
       parse_payout (si_payout i) = Some p \<and> candidate_of sz n l p \<le> mc_maxStake mc
       \<and> realizedSessionLoss l + candidate_of sz n l p \<le> mc_maxSessionLoss mc
       \<and> consecutiveLosses l + 1 \<le> mc_maxSteps mc \<and> now - started \<le> mc_maxSessionDurationMs mc)"
  proof (cases "sz_martingale sz")
    case None
    then show ?thesis by (simp add: r_def candidate_of_def)
  next
    case (Some mc)
    have st: "step = consecutiveLosses l + 1" by (simp add: step_def Some)
    have eq: "r = martingale_candidate sz mc l (si_payout i) step (now - started) fts" by (simp add: r_def Some)
    obtain c where c: "r = Inr (Inr c)" using nx' nx eq unfolding martingale_candidate_eq [OF wf Some lo st]
      by (auto simp: Let_def split: if_splits option.splits)
    show ?thesis
      using c [unfolded eq martingale_candidate_eq [OF wf Some lo st]] c parse_payout_pos [of "si_payout i"]
      by (auto simp: Let_def Some st split: if_splits option.splits)
  qed
  then obtain p where p: "r = Inr (Inr (candidate_of sz n l p))" "sz_martingale sz \<noteq> None \<longrightarrow> 0 < p"
    and lim: "\<And>mc. sz_martingale sz = Some mc \<Longrightarrow>
       parse_payout (si_payout i) = Some p \<and> candidate_of sz n l p \<le> mc_maxStake mc
       \<and> realizedSessionLoss l + candidate_of sz n l p \<le> mc_maxSessionLoss mc
       \<and> consecutiveLosses l + 1 \<le> mc_maxSteps mc \<and> now - started \<le> mc_maxSessionDurationMs mc" by blast
  define c where "c = candidate_of sz n l p"
  have c: "0 < c" unfolding c_def lo using wf p(2) by (rule candidate_pos)
  have ft: "ft = fts" and bounds: "m \<le> c" "c \<le> a" and fmt: "format_stake c (stakeScale (sz_params sz)) = Inr amount"
    using nx nx' p(1) by (auto simp: c_def split: if_splits sum.splits)
  have "a < 10 ^ 20" using b parse_amount_range [of "si_available i" a] by (simp add: read_balance_cases)
  then have "c < 10 ^ 20" using bounds by simp
  then have "amount = stake_text c n" "parse_amount amount = Some c"
    using fmt wf c candidate_dvd [OF wf, of l p] format_stake_ok [of n c]
    by (auto simp: sizer_wf_def c_def)
  then show ?thesis
    using that [of l m a p] l b bounds c lim ft
    by (auto simp: c_def fts_def sizer_features_def step_def split: option.splits)
qed

text \<open>
  A stake the sizer decides keeps every limit. It reads back as a positive amount on the scale's
  grid between the account's minimum and its balance; a fixed sizer's is the base stake; a martingale
  sizer's is the base stake on the first step and otherwise the least recovering stake, at most
  \<open>maxStake\<close>, on a step within \<open>maxSteps\<close>, inside the session's duration, and together with the
  loss already realized at most \<open>maxSessionLoss\<close>.
\<close>

theorem sizer_stake_within_limits:
  assumes "create_stake_sizer params = Inr sz" "sizer_next sz i = Inr (Stake amount ft)"
  shows "\<exists>n l m a c. read_history (si_history i) = Inr l \<and> read_balance i = Inr (m, a)
    \<and> parse_amount amount = Some c \<and> 0 < c \<and> m \<le> c \<and> c \<le> a
    \<and> stakeScale params = JInt (int n) \<and> grid n dvd c
    \<and> (case sz_martingale sz of None \<Rightarrow> c = sz_base sz
       | Some mc \<Rightarrow> f_step ft = consecutiveLosses l + 1 \<and> f_step ft \<le> mc_maxSteps mc
           \<and> f_sessionElapsedMs ft \<le> mc_maxSessionDurationMs mc \<and> c \<le> mc_maxStake mc
           \<and> realizedSessionLoss l + c \<le> mc_maxSessionLoss mc
           \<and> (f_step ft = 1 \<longrightarrow> c = sz_base sz)
           \<and> (1 < f_step ft \<longrightarrow> (\<exists>p. parse_payout (si_payout i) = Some p
                \<and> martingale_stake (streakLoss l) (sz_base sz) p (JInt (int n)) = Inr c)))"
proof -
  from create_stake_sizer_wf [OF assms(1)] obtain n where wf: "sizer_wf sz n" by blast
  have par: "sz_params sz = params"
    using assms(1) by (auto simp: create_stake_sizer_def split: sum.splits if_splits limits_field.splits)
  from wf assms(2) show ?thesis
  proof (rule sizer_next_StakeE, goal_cases)
    case (1 l m a p)
    have "l = ledger_of (profits (si_history i))" using 1(1) by (simp add: read_history_iff)
    then have "0 \<le> streakLoss l" "0 \<le> consecutiveLosses l"
      by (simp add: streakLoss_nonneg, simp add: \<open>l = _\<close> ledger_of_def)
    then show ?case
      using 1 wf par candidate_dvd [OF wf, of l p] parse_payout_pos [of "si_payout i" p]
        martingale_stake_ok [of n "streakLoss l" "sz_base sz" p]
      by (intro exI [of _ n] exI [of _ l] exI [of _ m] exI [of _ a] exI [of _ "candidate_of sz n l p"])
        (auto simp: sizer_wf_def candidate_of_def split: option.splits)
  qed
qed

definition demo_params :: stake_params where
  "demo_params = \<lparr>strategy = Martingale, baseStake = Some ''1'', stakeScale = JInt 2,
     limits = Limits \<lparr>maxSteps = JInt 5, maxStake = Some ''50'', maxSessionLoss = Some ''20'',
       maxSessionDurationMs = JInt 3600000\<rparr>\<rparr>"

definition demo_sizer :: sizer where
  "demo_sizer = \<lparr>sz_params = demo_params, sz_base = 100000000, sz_martingale = Some
     \<lparr>mc_maxSteps = 5, mc_maxSessionDurationMs = 3600000, mc_maxStake = 5000000000,
      mc_maxSessionLoss = 2000000000, mc_maxStakeText = ''50'', mc_maxSessionLossText = ''20''\<rparr>\<rparr>"

definition demo_input :: "session_trade list \<Rightarrow> stake_input" where
  "demo_input h = \<lparr>si_history = h, si_payout = \<lparr>payout_finite = True, payout_string = ''85''\<rparr>,
     si_minTradeAmount = ''1'', si_available = ''100'', si_sessionStartedAtMs = Some 0, si_nowMs = Some 60000\<rparr>"

lemma demo_created: "create_stake_sizer demo_params = Inr demo_sizer"
  by code_simp

lemma demo_next:
  "sizer_next demo_sizer (demo_input [TradeSettled ''1'' ''-1'']) =
     Inr (Stake ''2.18'' (sizer_features demo_sizer (ledger_of [- 100000000]) 2 60000))"
  by code_simp

theorem sizer_stake_within_limits_witness:
  "\<exists>n l m a c. read_history (si_history (demo_input [TradeSettled ''1'' ''-1''])) = Inr l
    \<and> read_balance (demo_input [TradeSettled ''1'' ''-1'']) = Inr (m, a)
    \<and> parse_amount ''2.18'' = Some c \<and> m \<le> c \<and> c \<le> a \<and> grid n dvd c
    \<and> realizedSessionLoss l + c \<le> 2000000000"
proof -
  from sizer_stake_within_limits [OF demo_created demo_next] show ?thesis
    by (fastforce simp: demo_sizer_def)
qed

section \<open>Totality\<close>

text \<open>The position a refused history names.\<close>

definition stop_index :: "data_stop \<Rightarrow> nat option" where
  "stop_index s = (case s of UnresolvedTrade i \<Rightarrow> Some i | InvalidAmount _ i \<Rightarrow> i
     | InvalidTrade i _ \<Rightarrow> Some i | InvalidPayout _ \<Rightarrow> None)"

lemma read_history_from_first:
  "read_history_from k l h = Inl e \<Longrightarrow>
     \<exists>i < length h. \<not> usable (h ! i) \<and> list_all usable (take i h) \<and> stop_index e = Some (k + i)"
proof (induction k l h rule: read_history_from.induct)
  case (2 k l ts)
  then obtain i where "i < length ts" "\<not> usable (ts ! i)" "list_all usable (take i ts)" "stop_index e = Some (Suc k + i)"
    by auto
  then show ?case by (intro exI [of _ "Suc i"]) simp
next
  case (3 k l ts)
  then show ?case by (intro exI [of _ 0]) (auto simp: stop_index_def)
next
  case (4 k l s p ts)
  show ?case
  proof (cases "usable (TradeSettled s p)")
    case True
    then obtain v q where vq: "parse_amount s = Some v" "parse_amount p = Some q" "0 < v" "- v \<le> q"
      by (auto split: option.splits)
    then have "\<exists>i<length ts. \<not> usable (ts ! i) \<and> list_all usable (take i ts) \<and> stop_index e = Some (Suc k + i)"
      using "4.IH" [OF vq(1,2)] "4.prems" by simp
    then obtain i where "i < length ts" "\<not> usable (ts ! i)" "list_all usable (take i ts)" "stop_index e = Some (Suc k + i)"
      by blast
    then show ?thesis using True by (intro exI [of _ "Suc i"]) simp
  next
    case False
    then show ?thesis using "4.prems"
      by (intro exI [of _ 0]) (auto simp: stop_index_def split: option.splits if_splits)
  qed
qed simp

text \<open>
  \<open>readHistory\<close> computes the declarative ledger. A history is accepted exactly when every trade
  is usable, and the ledger then counts the settled trades, sums their profits, and takes the losses
  after the last win as the streak, ties and rejections skipped; a refused history is refused at its
  first unusable trade.
\<close>

theorem read_history_is_ledger:
  "(case read_history h of
      Inr l \<Rightarrow> list_all usable h \<and> l = ledger_of (profits h)
    | Inl e \<Rightarrow> (\<exists>i < length h. \<not> usable (h ! i) \<and> list_all usable (take i h) \<and> stop_index e = Some i))"
  using read_history_iff [of h] read_history_from_first [of 0 empty_ledger h]
  by (auto simp: read_history_def split: sum.splits)

text \<open>
  C39: a created sizer never throws on a readable clock: \<open>next\<close> returns a decision exactly when both
  clock values are finite, non-negative and in order, whatever the history, the payout and the
  balances; the input the sessions build always has such a clock.
\<close>

theorem sizer_next_total:
  assumes "create_stake_sizer params = Inr sz"
  shows "((\<exists>d. sizer_next sz i = Inr d)
      \<longleftrightarrow> (\<exists>c. assert_clock (si_sessionStartedAtMs i) (si_nowMs i) = Inr c))
    \<and> (0 \<le> started \<longrightarrow> (\<exists>d. sizer_next sz (session_stake_input os payout lo av started now) = Inr d))"
proof -
  from create_stake_sizer_wf [OF assms(1)] obtain n where wf: "sizer_wf sz n" by blast
  have total: "\<exists>d. sizer_next sz i = Inr d"
    if clock: "assert_clock (si_sessionStartedAtMs i) (si_nowMs i) = Inr (a, b)" for i a b
  proof (cases "read_history (si_history i)")
    case Inl
    then show ?thesis using clock by (simp add: sizer_next_def)
  next
    case l: (Inr l)
    show ?thesis
    proof (cases "read_balance i")
      case Inl
      then show ?thesis using clock l by (simp add: sizer_next_def)
    next
      case bal: (Inr mv)
      obtain m av where mv: "mv = (m, av)" by (cases mv)
      have lo: "l = ledger_of (profits (si_history i))" using l by (simp add: read_history_iff)
      have "av < 10 ^ 20" using bal mv parse_amount_range [of "si_available i" av] by (simp add: read_balance_cases)
      then have fmt: "format_stake (candidate_of sz n l p) (stakeScale (sz_params sz)) = Inr (stake_text (candidate_of sz n l p) n)"
        if "candidate_of sz n l p \<le> av" "sz_martingale sz \<noteq> None \<longrightarrow> 0 < p" for p
        using that wf candidate_dvd [OF wf, of l p] candidate_pos [OF wf, of p "profits (si_history i)"] lo
          format_stake_ok(1) [of n "candidate_of sz n l p"]
        by (simp add: sizer_wf_def)
      show ?thesis
      proof (cases "sz_martingale sz")
        case None
        then have "sz_base sz = candidate_of sz n l p" for p by (simp add: candidate_of_def)
        then show ?thesis using None fmt
          by (auto simp: sizer_next_def clock l bal mv Let_def not_less split: sum.splits)
      next
        case (Some mc)
        then show ?thesis using fmt parse_payout_pos [of "si_payout i"]
          by (auto simp: sizer_next_def clock l bal mv Let_def not_less
              martingale_candidate_eq [OF wf Some lo refl] split: sum.splits option.splits if_splits)
      qed
    qed
  qed
  have "\<exists>c. assert_clock (si_sessionStartedAtMs i) (si_nowMs i) = Inr c" if "sizer_next sz i = Inr d" for d
    using that by (auto simp: sizer_next_def split: sum.splits)
  moreover have "assert_clock (Some started) (Some (max now started)) = Inr (started, max now started)" if "0 \<le> started"
    using that by (simp add: assert_clock_def)
  ultimately show ?thesis using total by (auto simp: session_stake_input_def)
qed

theorem sizer_next_total_witness:
  "\<exists>d. sizer_next demo_sizer (session_stake_input [] \<lparr>payout_finite = False, payout_string = []\<rparr> ''1'' ''5'' 7 3) = Inr d"
  using sizer_next_total [OF demo_created, of "demo_input []" 7] by simp

section \<open>A session's losses\<close>

text \<open>
  The histories a session driven by the sizer can reach: a rejected trade leaves the money alone, a
  settled one was staked with the sizer's decision on the history before it and loses at most its
  stake (the rule \<open>readHistory\<close> itself enforces).
\<close>

inductive sizer_run :: "sizer \<Rightarrow> session_trade list \<Rightarrow> bool" for sz where
  run_start: "sizer_run sz []"
| run_rejected: "sizer_run sz h \<Longrightarrow> sizer_run sz (h @ [TradeRejected])"
| run_settled: "sizer_run sz h \<Longrightarrow> si_history i = h \<Longrightarrow> sizer_next sz i = Inr (Stake amount ft) \<Longrightarrow>
    usable (TradeSettled amount profit) \<Longrightarrow> sizer_run sz (h @ [TradeSettled amount profit])"

lemma profits_append: "profits (xs @ ys) = profits xs @ profits ys"
  by (induction xs rule: profits.induct) auto

text \<open>
  C38: no martingale session driven by the sizer loses more than \<open>maxSessionLoss\<close> or more than
  \<open>maxSteps\<close> trades in a row, however the trades settle and the payouts move.
\<close>

theorem martingale_session_loss_bounded:
  assumes "create_stake_sizer params = Inr sz" "sz_martingale sz = Some mc" "sizer_run sz h"
  shows "\<exists>l. read_history h = Inr l \<and> realizedSessionLoss l \<le> mc_maxSessionLoss mc
    \<and> consecutiveLosses l \<le> mc_maxSteps mc"
proof -
  from create_stake_sizer_wf [OF assms(1)] obtain n where wf: "sizer_wf sz n" by blast
  from assms(3) have "list_all usable h \<and> realizedSessionLoss (ledger_of (profits h)) \<le> mc_maxSessionLoss mc
      \<and> consecutiveLosses (ledger_of (profits h)) \<le> mc_maxSteps mc"
  proof induction
    case run_start
    then show ?case using wf assms(2) by (auto simp: sizer_wf_def ledger_of_def realizedSessionLoss_def streak_def)
  next
    case (run_rejected h)
    then show ?case by (simp add: profits_append)
  next
    case (run_settled h i amount ft profit)
    from sizer_next_StakeE [OF wf run_settled(3)] obtain l m a p where
      l: "read_history (si_history i) = Inr l" and
      am: "parse_amount amount = Some (candidate_of sz n l p)" and
      lim: "realizedSessionLoss l + candidate_of sz n l p \<le> mc_maxSessionLoss mc"
        "consecutiveLosses l + 1 \<le> mc_maxSteps mc"
      using assms(2) by metis
    obtain q where q: "parse_amount profit = Some q" "- candidate_of sz n l p \<le> q" "0 < candidate_of sz n l p"
      using run_settled(4) am by (auto split: option.splits)
    have lo: "l = ledger_of (profits h)" using l run_settled(2) by (simp add: read_history_iff)
    have pr: "profits (h @ [TradeSettled amount profit]) = profits h @ [q]" by (simp add: profits_append q)
    have "realizedSessionLoss (ledger_of (profits h @ [q])) \<le> realizedSessionLoss l + candidate_of sz n l p"
      using q by (auto simp: realizedSessionLoss_def ledger_of_snoc ledger_add_def Let_def lo)
    moreover have "consecutiveLosses (ledger_of (profits h @ [q])) \<le> consecutiveLosses l + 1"
      by (auto simp: ledger_of_snoc ledger_add_def Let_def lo) (simp_all add: ledger_of_def)
    ultimately show ?case using lim run_settled by (simp add: pr)
  qed
  then show ?thesis by (simp add: read_history_iff)
qed

lemma demo_run: "sizer_run demo_sizer [TradeSettled ''1.00'' ''-1'']"
proof -
  have "sizer_next demo_sizer (demo_input []) = Inr (Stake ''1.00'' (sizer_features demo_sizer (ledger_of []) 1 60000))"
    by code_simp
  moreover have "usable (TradeSettled ''1.00'' ''-1'')" by code_simp
  ultimately show ?thesis using run_settled [OF run_start, of "demo_input []" demo_sizer "''1.00''" _ "''-1''"]
    by (simp add: demo_input_def)
qed

theorem martingale_session_loss_bounded_witness:
  "\<exists>l. read_history [TradeSettled ''1.00'' ''-1''] = Inr l \<and> realizedSessionLoss l \<le> 2000000000"
  using martingale_session_loss_bounded [OF demo_created _ demo_run] by (fastforce simp: demo_sizer_def)

end
