(* ===== verification/Tables.thy ===== *)
theory Tables
  imports Prelude
begin

text \<open>
  SQL tables as lists of rows: \<open>SELECT\<close> with the first row taken, \<open>UPDATE\<close> with a predicate, and
  unique indexes (partial ones too) as keys that may be absent. The lemmas say what an update and an
  insert keep of an index, and how a sum over a table moves when one row changes.
\<close>

section \<open>Statements\<close>

text \<open>\<open>const [row] = await select().from(t).where(p)\<close>.\<close>

definition sql_first :: "('r \<Rightarrow> bool) \<Rightarrow> 'r list \<Rightarrow> 'r option" where
  "sql_first p rs = List.find p rs"

text \<open>\<open>update(t).set(f).where(p)\<close>.\<close>

definition sql_update :: "('r \<Rightarrow> bool) \<Rightarrow> ('r \<Rightarrow> 'r) \<Rightarrow> 'r list \<Rightarrow> 'r list" where
  "sql_update p f rs = map (\<lambda>r. if p r then f r else r) rs"

text \<open>
  A unique index: rows without a key (\<open>NULL\<close>, or outside a partial index's predicate) never
  conflict. \<open>key_conflict\<close> is what an \<open>INSERT\<close> of the row would violate.
\<close>

definition unique_on :: "('r \<Rightarrow> 'k option) \<Rightarrow> 'r list \<Rightarrow> bool" where
  "unique_on key rs \<longleftrightarrow> distinct (List.map_filter key rs)"

definition key_conflict :: "('r \<Rightarrow> 'k option) \<Rightarrow> 'r \<Rightarrow> 'r list \<Rightarrow> bool" where
  "key_conflict key r rs \<longleftrightarrow> key r \<noteq> None \<and> list_ex (\<lambda>r'. key r' = key r) rs"

section \<open>Lemmas\<close>

lemma sql_first_Some: "sql_first p rs = Some r \<Longrightarrow> r \<in> set rs \<and> p r"
  by (auto simp: sql_first_def find_Some_iff)

lemma sql_first_None: "sql_first p rs = None \<longleftrightarrow> (\<forall>r \<in> set rs. \<not> p r)"
  by (auto simp: sql_first_def find_None_iff)

lemma sql_first_None_iff: "(sql_first p rs = None) = (\<not> list_ex p rs)"
  by (auto simp: sql_first_None list_ex_iff)

lemma set_sql_update: "set (sql_update p f rs) = {if p r then f r else r | r. r \<in> set rs}"
  by (auto simp: sql_update_def)

lemma sql_updateE:
  assumes "x \<in> set (sql_update p f rs)"
  obtains r where "r \<in> set rs" "x = (if p r then f r else r)"
  using assms by (auto simp: sql_update_def)

lemma ball_sql_update: "(\<forall>r \<in> set (sql_update p f rs). Q r) \<longleftrightarrow> (\<forall>r \<in> set rs. Q (if p r then f r else r))"
  by (auto simp: sql_update_def)

lemma bex_sql_update: "(\<exists>r \<in> set (sql_update p f rs). Q r) \<longleftrightarrow> (\<exists>r \<in> set rs. Q (if p r then f r else r))"
  by (auto simp: sql_update_def)

lemma sql_update_none: "sql_first p rs = None \<Longrightarrow> sql_update p f rs = rs"
  by (auto simp: sql_first_None sql_update_def map_idI)

lemma map_filter_key_set: "set (List.map_filter key rs) = {k. \<exists>r \<in> set rs. key r = Some k}"
  by (force simp: List.map_filter_def)

lemma unique_on_Nil [simp]: "unique_on key []"
  by (simp add: unique_on_def List.map_filter_def)

lemma unique_on_Cons: "unique_on key (r # rs) \<longleftrightarrow> unique_on key rs \<and> \<not> key_conflict key r rs"
proof (cases "key r")
  case None
  then show ?thesis by (simp add: unique_on_def key_conflict_def)
next
  case (Some k)
  then have "k \<in> set (List.map_filter key rs) \<longleftrightarrow> list_ex (\<lambda>r'. key r' = key r) rs"
    by (auto simp: map_filter_key_set list_ex_iff)
  then show ?thesis using Some by (auto simp: unique_on_def key_conflict_def)
qed

lemma unique_on_snoc: "unique_on key (rs @ [r]) \<longleftrightarrow> unique_on key rs \<and> \<not> key_conflict key r rs"
  by (induction rs) (auto simp: unique_on_Cons key_conflict_def)

lemma key_conflict_iff: "key_conflict key r rs \<longleftrightarrow> key r \<noteq> None \<and> (\<exists>r' \<in> set rs. key r' = key r)"
  by (auto simp: key_conflict_def list_ex_iff)

lemma key_conflictD: "key_conflict key r rs \<Longrightarrow> \<exists>r' \<in> set rs. key r' = key r \<and> key r' \<noteq> None"
  by (auto simp: key_conflict_iff)

lemma unique_on_update:
  assumes "unique_on key rs" "\<And>r. r \<in> set rs \<Longrightarrow> p r \<Longrightarrow> key (f r) = key r \<or> key (f r) = None"
  shows "unique_on key (sql_update p f rs)"
  using assms
proof (induction rs)
  case (Cons r rs)
  let ?g = "\<lambda>r. if p r then f r else r"
  have step: "key (?g x) = key x \<or> key (?g x) = None" if "x \<in> set (r # rs)" for x
    using Cons.prems(2) [OF that] by auto
  have "unique_on key (sql_update p f rs)" using Cons by (simp add: unique_on_Cons)
  moreover have "\<not> key_conflict key (?g r) (sql_update p f rs)"
  proof
    assume "key_conflict key (?g r) (sql_update p f rs)"
    then obtain x where "x \<in> set rs" "key (?g x) = key (?g r)" "key (?g r) \<noteq> None"
      by (auto simp: key_conflict_iff sql_update_def)
    then have "key x = key r" "key r \<noteq> None" using step [of x] step [of r] by auto
    then have "key_conflict key r rs" using \<open>x \<in> set rs\<close> by (auto simp: key_conflict_iff)
    then show False using Cons.prems(1) by (simp add: unique_on_Cons)
  qed
  ultimately show ?case by (simp add: sql_update_def unique_on_Cons)
qed (simp add: sql_update_def)

lemma unique_on_same:
  assumes "unique_on key rs" "r \<in> set rs" "r' \<in> set rs" "key r = Some k" "key r' = Some k"
  shows "r = r'"
  using assms
proof (induction rs)
  case (Cons x rs)
  then show ?case by (auto simp: unique_on_Cons key_conflict_iff)
qed simp

lemma sql_first_unique:
  assumes "unique_on key rs" "r \<in> set rs" "p r" "key r = Some k" "\<And>x. x \<in> set rs \<Longrightarrow> p x \<Longrightarrow> key x = Some k"
  shows "sql_first p rs = Some r"
proof (cases "sql_first p rs")
  case None
  then show ?thesis using assms(2,3) by (auto simp: sql_first_None)
next
  case (Some x)
  then have "x \<in> set rs \<and> p x" by (rule sql_first_Some)
  then have "x = r" using unique_on_same [OF assms(1) _ assms(2) _ assms(4)] assms(5) by auto
  then show ?thesis using Some by simp
qed

text \<open>A sum over a table in which one row changes.\<close>

lemma sum_update_none:
  "(\<And>r. r \<in> set rs \<Longrightarrow> p r \<Longrightarrow> g (f r) = g r) \<Longrightarrow> sum_list (map g (sql_update p f rs)) = sum_list (map g rs)"
  by (induction rs) (auto simp: sql_update_def)

lemma sum_update:
  fixes g :: "'r \<Rightarrow> int"
  assumes "unique_on key rs" "r \<in> set rs" "p r" "key r = Some k" "\<And>x. x \<in> set rs \<Longrightarrow> p x \<Longrightarrow> key x = Some k"
  shows "sum_list (map g (sql_update p f rs)) = sum_list (map g rs) - g r + g (f r)"
  using assms
proof (induction rs)
  case (Cons x rs)
  show ?case
  proof (cases "r \<in> set rs")
    case True
    have "\<not> p x"
    proof
      assume "p x"
      then have "key x = Some k" using Cons.prems(5) by simp
      then have "key_conflict key x rs" using True Cons.prems(4) by (auto simp: key_conflict_iff)
      then show False using Cons.prems(1) by (simp add: unique_on_Cons)
    qed
    then show ?thesis using Cons True by (simp add: sql_update_def unique_on_Cons)
  next
    case False
    then have r: "r = x" using Cons.prems(2) by simp
    have "\<not> p y" if "y \<in> set rs" for y
    proof
      assume "p y"
      then have "key y = Some k" using Cons.prems(5) that by simp
      then have "key_conflict key x rs" using that r Cons.prems(4) by (auto simp: key_conflict_iff)
      then show False using Cons.prems(1) by (simp add: unique_on_Cons)
    qed
    then have "sum_list (map g (sql_update p f rs)) = sum_list (map g rs)" by (intro sum_update_none) auto
    then show ?thesis using r Cons.prems(3) by (simp add: sql_update_def)
  qed
qed simp

lemma sum_list_int_nonneg: "(\<And>r. r \<in> set rs \<Longrightarrow> 0 \<le> (g r :: int)) \<Longrightarrow> 0 \<le> sum_list (map g rs)"
  by (induction rs) auto

lemma sum_list_int_member:
  "(\<And>r. r \<in> set rs \<Longrightarrow> 0 \<le> (g r :: int)) \<Longrightarrow> r \<in> set rs \<Longrightarrow> g r \<le> sum_list (map g rs)"
  by (induction rs) (auto intro: add_increasing add_increasing2 sum_list_int_nonneg)

lemma map_sql_update: "(\<And>r. g (f r) = g r) \<Longrightarrow> map g (sql_update p f rs) = map g rs"
  by (simp add: sql_update_def)

end
