(* ===== verification/Db.thy ===== *)
theory Db
  imports Tables Stake_Bounds Trade_Types
begin

text \<open>
  The database the backend and the worker share: the rows of \<^verbatim>\<open>packages/db/src/schema\<close> the trading
  operations read and write, the whole state as one record, and transactions as functions that
  answer an error or a result with the new state. An error discards the transaction's state, which
  is the rollback. Row ids are numbers a counter of the state hands out (the database draws UUIDs;
  all the code relies on is that an id is new), instants are milliseconds, \<open>now\<close> is the database's
  clock. Columns nothing modelled reads (emails, ciphertexts, the broker's \<open>payout\<close> copy, which
  \<open>raw\<close> keeps too) are left out.
\<close>

section \<open>Enumerated columns\<close>

datatype user_status = UActive | UBlocked
datatype account_status = APending | AActive | ARevoked
datatype halt_reason = HaltReconciliationAmbiguous | HaltReconciliationNotFound | HaltTradeMismatch
datatype session_status = SActive | SPaused | SStopped
datatype stop_reason =
  Completed | StopManualReview | RejectedTwice | StopTimeout | StakeStop | StopMaxSteps | StopMaxStake
| StopMaxSessionLoss | StopSessionDuration | AccountUnavailable | PairUnavailable
| StopBalanceUnavailable | InvalidSettings | UserStopped | KillSwitch | NoSignalTimeout
datatype ledger_kind = LPurchase | LBonus | LReserve | LRelease | LSettle | LAdjustment | LRefund
datatype trade_status = TOpen | TClosed
datatype outbox_topic = TradingIntents | TradingReconciliation
datatype outbox_status = OPending | OPublished | OFailed
datatype switch_source = BySeed | ByOperator | ByCircuitBreaker
datatype auth_revoked_reason = RefreshInvalidGrant | RefreshOutcomeUnknown | RefreshExpired | StorageInconsistent
datatype star_payment_status = StarPaid | StarHeld | StarRefunded
datatype bonus_rule_kind = LinkBonusRule | ReferralRewardRule | DepositBonusRule
datatype postback_event = EventDeposit | EventFtd
datatype postback_reject_reason = MissingPostbackId | UnknownEvent | MissingPaymentId | MissingTraderId | InvalidAmount
datatype delivery_outcome = DepositRecorded | DepositRepeated | DeliveryRejected
datatype deposit_mode_switch =
  Switched | AlreadyReal | DepositUserBlocked | DepositAccountInactive | DepositDemoOnly | Superseded | Predates

section \<open>Rows\<close>

record user_row =
  u_id :: nat
  u_telegramUserId :: int
  u_status :: user_status
  u_tradingMode :: trade_mode
  u_tokenBalance :: int
  u_tokenReserved :: int

record account_row =
  a_id :: nat
  a_userId :: nat
  a_status :: account_status
  a_tradingHalted :: bool
  a_haltedReason :: "halt_reason option"
  a_accessTokenExpiresAt :: int
  a_brokerUserId :: string
  a_isPartnerClient :: bool
  a_refreshTokenHash :: "string option"
  a_authRevokedReason :: "auth_revoked_reason option"

record snapshot_row =
  sn_accountId :: nat
  sn_realAvailable :: string
  sn_demoAvailable :: string
  sn_minTradeAmount :: string
  sn_restObservedAt :: int
  sn_realEventAt :: "int option"
  sn_demoEventAt :: "int option"

record intent_row =
  i_id :: nat
  i_accountId :: nat
  i_userId :: nat
  i_sessionId :: "nat option"
  i_mode :: trade_mode
  i_assetId :: int
  i_amount :: string
  i_action :: trade_action
  i_durationSec :: int
  i_clientRequestId :: string
  i_status :: intent_status
  i_version :: nat
  i_tokensReserved :: int
  i_transport :: "trade_transport option"
  i_submittedAt :: "int option"
  i_submitDeadlineAt :: "int option"
  i_submitNotBeforeAt :: "int option"
  i_lastError :: "failure_reason option"
  i_reconcileClaimedAt :: "int option"
  i_signalDecisionId :: "nat option"
  i_createdAt :: int
  i_updatedAt :: int

record ledger_row =
  l_userId :: nat
  l_kind :: ledger_kind
  l_balanceDelta :: int
  l_reservedDelta :: int
  l_intentId :: "nat option"
  l_accountId :: "nat option"
  l_starPaymentId :: "nat option"
  l_referralId :: "nat option"
  l_bonusRule :: "(nat \<times> bonus_rule_kind) option"
  l_note :: "string option"
  l_createdAt :: int

record 'p trade_row =
  t_id :: nat
  t_accountId :: nat
  t_intentId :: "nat option"
  t_brokerTradeId :: string
  t_mode :: trade_mode
  t_assetId :: int
  t_action :: trade_action
  t_amount :: string
  t_openPrice :: 'p
  t_openTimestampMs :: int
  t_closePrice :: "'p option"
  t_closeTimestampMs :: "int option"
  t_potentialProfit :: "string option"
  t_profit :: "string option"
  t_source :: "string option"
  t_brokerClientId :: "string option"
  t_status :: trade_status
  t_raw :: "'p broker_trade"

record outbox_row =
  o_id :: nat
  o_intentId :: nat
  o_topic :: outbox_topic
  o_payload :: nat
  o_status :: outbox_status
  o_attempts :: nat
  o_availableAt :: int
  o_publishedAt :: "int option"
  o_lastError :: "failure_reason option"
  o_createdAt :: int

text \<open>\<open>settings\<close> is the column's JSON, opaque to the operations on the table.\<close>

record session_row =
  s_id :: nat
  s_accountId :: nat
  s_mode :: trade_mode
  s_status :: session_status
  s_settings :: string
  s_stopReason :: "stop_reason option"
  s_startedAt :: int
  s_endedAt :: "int option"
  s_lastDecisionAt :: "int option"
  s_startSignalAction :: "trade_action option"
  s_summarySentAt :: "int option"
  s_finalNoticeSentAt :: "int option"
  s_statusMessageId :: "int option"
  s_waitingMessageId :: "int option"
  s_waitingAfterMessage :: "int option"
  s_createdAt :: int
  s_updatedAt :: int

text \<open>
  A recorded signal decision: its session and account (the columns its foreign keys read); the
  rest of the row is data nobody here reads.
\<close>

record decision_row =
  dr_id :: nat
  dr_sessionId :: "nat option"
  dr_accountId :: "nat option"

record switch_row =
  sw_tradingEnabled :: bool
  sw_source :: switch_source
  sw_reason :: "string option"
  sw_changedAt :: int

record star_payment_row =
  sp_id :: nat
  sp_userId :: nat
  sp_chargeId :: string
  sp_providerChargeId :: "string option"
  sp_packageCode :: string
  sp_currency :: string
  sp_totalAmount :: int
  sp_tokens :: "int option"
  sp_payer :: int
  sp_status :: star_payment_status
  sp_paidAt :: int
  sp_refundedAt :: "int option"

record refund_request_row =
  rr_id :: nat
  rr_paymentId :: nat
  rr_requestedBy :: int
  rr_requestedAt :: int

text \<open>
  The \<open>params\<close> column is JSON: the keys and values of an object, or \<open>None\<close> for any other value; a value
  is a string or something the rules' schemas refuse.
\<close>

datatype json_value = JsonString string | JsonOther

type_synonym rule_params = "(string \<times> json_value) list option"

record bonus_rule_row =
  br_id :: nat
  br_code :: string
  br_version :: nat
  br_kind :: bonus_rule_kind
  br_isActive :: bool
  br_params :: rule_params
  br_validFrom :: "int option"
  br_validTo :: "int option"

record referral_row =
  rf_id :: nat
  rf_inviteeUserId :: nat
  rf_inviterUserId :: nat

record deposit_row =
  de_id :: nat
  de_userId :: "nat option"
  de_accountId :: "nat option"
  de_brokerUserId :: string
  de_paymentId :: string
  de_amount :: string
  de_modeSwitch :: "deposit_mode_switch option"
  de_verified :: bool
  de_createdAt :: int

text \<open>A journaled postback delivery; its raw query is not kept.\<close>

record delivery_row =
  pd_id :: nat
  pd_postbackId :: "string option"
  pd_event :: "postback_event option"
  pd_outcome :: delivery_outcome
  pd_rejectReason :: "postback_reject_reason option"
  pd_depositId :: "nat option"

text \<open>The audit rows: who and what, with the part of the payload that says how much moved.\<close>

datatype audit_row =
  AuditSwitch bool switch_source "string option"
| AuditStarsPurchased nat int int
| AuditStarsHeld nat int
| AuditStarsRefunded nat "nat option" int int
| AuditRefundAttempt nat "nat option" string
| AuditRefundRequested nat int
| AuditRuleCreated nat
| AuditRuleActivated nat "nat option"
| AuditRuleDeactivated nat
| AuditModeChanged nat trade_mode trade_mode "nat option"

section \<open>The state\<close>

record 'p db =
  users :: "user_row list"
  accounts :: "account_row list"
  snapshots :: "snapshot_row list"
  sessions :: "session_row list"
  intents :: "intent_row list"
  token_ledger :: "ledger_row list"
  trades :: "'p trade_row list"
  outbox :: "outbox_row list"
  decisions :: "decision_row list"
  trading_switch :: "switch_row option"
  star_payments :: "star_payment_row list"
  refund_requests :: "refund_request_row list"
  bonus_rules :: "bonus_rule_row list"
  referrals :: "referral_row list"
  referral_codes :: "(nat \<times> string) list"
  deposits :: "deposit_row list"
  deliveries :: "delivery_row list"
  audit_log :: "audit_row list"
  notices :: "nat list"
  now :: int
  next_id :: nat

datatype session_error =
  SessionAccountNotFound | SessionAccountRevoked | SessionAccountNotConfirmed | SessionAccountHalted
| UserNotActive | ActiveSessionExists | SessionTradingPaused | ModeNotAllowed | SessionDemoOnly

datatype mismatch_reason =
  MismatchMode | MismatchAsset | MismatchAction | MismatchAmount | TradeAlreadyLinked

text \<open>
  What a transaction throws: the code's own error classes, the database's refusals by the name of
  the constraint, and plain \<open>Error\<close>s.
\<close>

datatype tx_error =
  IntentRefused intent_error
| SessionRefused session_error
| SessionNotActive nat
| MismatchThrown mismatch_reason nat string
| UniqueViolation string
| CheckViolation string
| Thrown string

definition run_transaction :: "('p db \<Rightarrow> tx_error + 'a \<times> 'p db) \<Rightarrow> 'p db \<Rightarrow> (tx_error + 'a) \<times> 'p db" where
  "run_transaction tx d = (case tx d of Inl e \<Rightarrow> (Inl e, d) | Inr (a, d') \<Rightarrow> (Inr a, d'))"

lemma run_transaction_Inl: "tx d = Inl e \<Longrightarrow> run_transaction tx d = (Inl e, d)"
  by (simp add: run_transaction_def)

lemma run_transaction_Inr: "tx d = Inr (a, d') \<Longrightarrow> run_transaction tx d = (Inr a, d')"
  by (simp add: run_transaction_def)

section \<open>Shared reads and fragments\<close>

text \<open>\<open>millisecondsAgo\<close> and \<open>millisecondsFromNow\<close>: the database clock.\<close>

definition milliseconds_ago :: "'p db \<Rightarrow> int \<Rightarrow> int" where "milliseconds_ago d ms = now d - ms"
definition milliseconds_from_now :: "'p db \<Rightarrow> int \<Rightarrow> int" where "milliseconds_from_now d ms = now d + ms"

text \<open>\<open>isTradingOpen\<close> and \<open>tradingOpenSql\<close>: a missing row reads as closed.\<close>

definition is_trading_open :: "switch_row option \<Rightarrow> bool" where
  "is_trading_open row \<longleftrightarrow> (case row of None \<Rightarrow> False | Some r \<Rightarrow> sw_tradingEnabled r)"

definition trading_open_sql :: "'p db \<Rightarrow> bool" where
  "trading_open_sql d \<longleftrightarrow> list_ex sw_tradingEnabled (case trading_switch d of None \<Rightarrow> [] | Some r \<Rightarrow> [r])"

lemma trading_open_sql_iff: "trading_open_sql d \<longleftrightarrow> is_trading_open (trading_switch d)"
  by (simp add: trading_open_sql_def is_trading_open_def split: option.split)

section \<open>Unique indexes\<close>

definition active_account_key :: "intent_row \<Rightarrow> nat option" where
  "active_account_key r = (if terminal (i_status r) then None else Some (i_accountId r))"

definition user_request_key :: "intent_row \<Rightarrow> (nat \<times> string) option" where
  "user_request_key r = Some (i_userId r, i_clientRequestId r)"

definition reserve_intent_key :: "ledger_row \<Rightarrow> nat option" where
  "reserve_intent_key r = (if l_kind r = LReserve then l_intentId r else None)"

definition terminal_intent_key :: "ledger_row \<Rightarrow> nat option" where
  "terminal_intent_key r = (if l_kind r = LRelease \<or> l_kind r = LSettle then l_intentId r else None)"

definition star_payment_key :: "ledger_row \<Rightarrow> (nat \<times> ledger_kind) option" where
  "star_payment_key r = (case l_starPaymentId r of None \<Rightarrow> None | Some p \<Rightarrow> Some (p, l_kind r))"

definition link_bonus_user_key :: "ledger_row \<Rightarrow> nat option" where
  "link_bonus_user_key r = (if l_kind r = LBonus \<and> l_accountId r \<noteq> None then Some (l_userId r) else None)"

definition referral_key :: "ledger_row \<Rightarrow> nat option" where
  "referral_key r = l_referralId r"

definition account_trade_key :: "'p trade_row \<Rightarrow> (nat \<times> string) option" where
  "account_trade_key r = Some (t_accountId r, t_brokerTradeId r)"

definition topic_intent_key :: "outbox_row \<Rightarrow> (outbox_topic \<times> nat) option" where
  "topic_intent_key r = Some (o_topic r, o_intentId r)"

definition active_session_key :: "session_row \<Rightarrow> nat option" where
  "active_session_key r = (if s_status r = SActive then Some (s_accountId r) else None)"

text \<open>A row without references conflicts on none of their indexes.\<close>

lemma reference_free [simp]:
  "l_starPaymentId l = None \<Longrightarrow> \<not> key_conflict star_payment_key l led"
  "l_accountId l = None \<Longrightarrow> \<not> key_conflict link_bonus_user_key l led"
  "l_referralId l = None \<Longrightarrow> \<not> key_conflict referral_key l led"
  "l_intentId l = None \<Longrightarrow> \<not> key_conflict reserve_intent_key l led"
  "l_intentId l = None \<Longrightarrow> \<not> key_conflict terminal_intent_key l led"
  by (simp_all add: key_conflict_def star_payment_key_def link_bonus_user_key_def referral_key_def
      reserve_intent_key_def terminal_intent_key_def)

end
