(* ===== verification/Intents.thy ===== *)
theory Intents
  imports Db
begin

text \<open>
  The operations on trade intents, \<^verbatim>\<open>packages/db/src/trade-intent-ops.ts\<close>: creation with its token
  reserve, the one CAS every status change goes through, the take, the rejections, acceptance with
  the broker's trade, settlement, and reconciliation. Row locks have no effect on a state that one
  transaction changes at a time; where a plain read runs before the first lock, the state it saw is
  an argument of its own.
\<close>

definition TOKENS_PER_INTENT :: int where "TOKENS_PER_INTENT = 1"

definition REPLAY_CONSTRAINTS :: "string list" where
  "REPLAY_CONSTRAINTS = [''trade_intents_user_request_idx'', ''trade_intents_active_account_idx'']"

definition LINK_CONSTRAINTS :: "string list" where
  "LINK_CONSTRAINTS = [''broker_trades_account_trade_key'', ''broker_trades_intent_id_key'']"

text \<open>\<open>uniqueViolation(error)\<close>.\<close>

fun unique_violation :: "tx_error \<Rightarrow> string option" where
  "unique_violation (UniqueViolation c) = Some c"
| "unique_violation _ = None"

section \<open>The transition\<close>

definition cas_matches ::
  "nat \<Rightarrow> intent_status \<Rightarrow> nat option \<Rightarrow> (intent_row \<Rightarrow> bool) \<Rightarrow> intent_row \<Rightarrow> bool" where
  "cas_matches iid from_status expected whr r \<longleftrightarrow>
     i_id r = iid \<and> i_status r = from_status
     \<and> (case expected of None \<Rightarrow> True | Some v \<Rightarrow> i_version r = v) \<and> whr r"

definition moved_to :: "intent_status \<Rightarrow> int \<Rightarrow> (intent_row \<Rightarrow> intent_row) \<Rightarrow> intent_row \<Rightarrow> intent_row" where
  "moved_to to_status t patch r =
     (patch r)\<lparr>i_status := to_status, i_version := i_version r + 1, i_updatedAt := t\<rparr>"

definition wakes_notices :: "intent_status \<Rightarrow> bool" where
  "wakes_notices to_status \<longleftrightarrow> to_status = Accepted \<or> to_status = Settled"

definition transition_intent ::
  "nat \<Rightarrow> intent_status \<Rightarrow> intent_status \<Rightarrow> nat option \<Rightarrow> (intent_row \<Rightarrow> intent_row) \<Rightarrow> (intent_row \<Rightarrow> bool)
    \<Rightarrow> 'p db \<Rightarrow> tx_error + intent_row option \<times> 'p db" where
  "transition_intent iid from_status to_status expected patch whr d =
     (if \<not> can_transition from_status to_status then Inl (Thrown ''illegal trade intent transition'')
      else
        let p = cas_matches iid from_status expected whr; f = moved_to to_status (now d) patch in
        case sql_first p (intents d) of
          None \<Rightarrow> Inr (None, d)
        | Some r \<Rightarrow>
            let row = f r; d1 = d\<lparr>intents := sql_update p f (intents d)\<rparr> in
            (case i_sessionId row of
               Some s \<Rightarrow> if wakes_notices to_status then Inr (Some row, d1\<lparr>notices := notices d @ [s]\<rparr>)
                         else Inr (Some row, d1)
             | None \<Rightarrow> Inr (Some row, d1)))"

text \<open>\<open>takeIntent\<close>: the predicate of the fence, on the database clock.\<close>

definition take_allowed :: "'p db \<Rightarrow> int \<Rightarrow> intent_row \<Rightarrow> bool" where
  "take_allowed d maxAgeMs r \<longleftrightarrow>
     milliseconds_ago d maxAgeMs \<le> i_createdAt r
     \<and> (case i_submitDeadlineAt r of None \<Rightarrow> True | Some t \<Rightarrow> now d < t)
     \<and> trading_open_sql d"

definition take_intent :: "nat \<Rightarrow> nat \<Rightarrow> int \<Rightarrow> 'p db \<Rightarrow> tx_error + intent_row option \<times> 'p db" where
  "take_intent iid expectedVersion maxAgeMs d =
     transition_intent iid Queued Submitting (Some expectedVersion)
       (\<lambda>r. r\<lparr>i_submittedAt := Some (now d)\<rparr>) (take_allowed d maxAgeMs) d"

section \<open>Tokens\<close>

definition insert_ledger :: "ledger_row \<Rightarrow> 'p db \<Rightarrow> tx_error + 'p db" where
  "insert_ledger row d =
     (if key_conflict reserve_intent_key row (token_ledger d) then Inl (UniqueViolation ''token_ledger_reserve_intent_idx'')
      else if key_conflict terminal_intent_key row (token_ledger d) then Inl (UniqueViolation ''token_ledger_terminal_intent_idx'')
      else if key_conflict star_payment_key row (token_ledger d) then Inl (UniqueViolation ''token_ledger_star_payment_idx'')
      else if key_conflict link_bonus_user_key row (token_ledger d) then Inl (UniqueViolation ''token_ledger_link_bonus_user_idx'')
      else if key_conflict referral_key row (token_ledger d) then Inl (UniqueViolation ''token_ledger_referral_idx'')
      else Inr (d\<lparr>token_ledger := token_ledger d @ [row]\<rparr>))"

definition release_tokens :: "nat \<Rightarrow> nat \<Rightarrow> int \<Rightarrow> 'p db \<Rightarrow> tx_error + 'p db" where
  "release_tokens userId intentId tokens d =
     (case insert_ledger \<lparr>l_userId = userId, l_kind = LRelease, l_balanceDelta = 0, l_reservedDelta = - tokens,
          l_intentId = Some intentId, l_accountId = None, l_starPaymentId = None, l_referralId = None, l_bonusRule = None,
         l_note = None, l_createdAt = now d\<rparr> d of
        Inl e \<Rightarrow> Inl e
      | Inr d1 \<Rightarrow>
          let p = (\<lambda>u. u_id u = userId \<and> tokens \<le> u_tokenReserved u) in
          if sql_first p (users d1) = None then Inl (Thrown ''token reserve underflow for user'')
          else Inr (d1\<lparr>users := sql_update p (\<lambda>u. u\<lparr>u_tokenReserved := u_tokenReserved u - tokens\<rparr>) (users d1)\<rparr>))"

definition consume_tokens :: "nat \<Rightarrow> nat \<Rightarrow> int \<Rightarrow> 'p db \<Rightarrow> tx_error + 'p db" where
  "consume_tokens userId intentId tokens d =
     (case insert_ledger \<lparr>l_userId = userId, l_kind = LSettle, l_balanceDelta = - tokens, l_reservedDelta = - tokens,
          l_intentId = Some intentId, l_accountId = None, l_starPaymentId = None, l_referralId = None, l_bonusRule = None,
         l_note = None, l_createdAt = now d\<rparr> d of
        Inl e \<Rightarrow> Inl e
      | Inr d1 \<Rightarrow>
          let p = (\<lambda>u. u_id u = userId \<and> tokens \<le> u_tokenReserved u \<and> tokens \<le> u_tokenBalance u) in
          if sql_first p (users d1) = None then Inl (Thrown ''token settle underflow for user'')
          else Inr (d1\<lparr>users := sql_update p (\<lambda>u. u\<lparr>u_tokenBalance := u_tokenBalance u - tokens,
                 u_tokenReserved := u_tokenReserved u - tokens\<rparr>) (users d1)\<rparr>))"

section \<open>Creation\<close>

record create_request =
  cq_telegramUserId :: int
  cq_brokerAccountId :: "nat option"
  cq_mode :: trade_mode
  cq_assetId :: int
  cq_amount :: string
  cq_action :: trade_action
  cq_durationSec :: int
  cq_clientRequestId :: string

text \<open>
  \<open>SignalDecisionInput\<close>: the references its foreign keys check, and whether the column CHECKs take
  the rest of the row.
\<close>

record decision_input =
  di_tradingSessionId :: "nat option"
  di_brokerAccountId :: "nat option"
  di_values_ok :: bool

record intent_session =
  is_id :: nat
  is_decision :: "decision_input option"
  is_submitDeadlineAt :: "int option"
  is_submitNotBeforeAt :: "int option"

record create_options =
  co_checkStake :: bool
  co_demoOnly :: bool

record create_result =
  cr_intent :: intent_row
  cr_created :: bool
  cr_decisionError :: "tx_error option"

definition find_user :: "'p db \<Rightarrow> int \<Rightarrow> user_row option" where
  "find_user d telegramUserId = sql_first (\<lambda>u. u_telegramUserId u = telegramUserId) (users d)"

definition same_request :: "intent_row \<Rightarrow> create_request \<Rightarrow> bool" where
  "same_request row input \<longleftrightarrow>
     (cq_brokerAccountId input = None \<or> cq_brokerAccountId input = Some (i_accountId row))
     \<and> i_mode row = cq_mode input \<and> i_assetId row = cq_assetId input \<and> i_action row = cq_action input
     \<and> i_durationSec row = cq_durationSec input
     \<and> normalize_decimal (i_amount row) = normalize_decimal (cq_amount input)"

definition find_replay :: "'p db \<Rightarrow> nat \<Rightarrow> create_request \<Rightarrow> tx_error + create_result option" where
  "find_replay d userId input =
     (case sql_first (\<lambda>r. i_userId r = userId \<and> i_clientRequestId r = cq_clientRequestId input) (intents d) of
        None \<Rightarrow> Inr None
      | Some row \<Rightarrow>
          if same_request row input then Inr (Some \<lparr>cr_intent = row, cr_created = False, cr_decisionError = None\<rparr>)
          else Inl (IntentRefused ClientRequestIdConflict))"

definition resolve_trading_account :: "'p db \<Rightarrow> nat \<Rightarrow> nat option \<Rightarrow> intent_error + nat" where
  "resolve_trading_account d userId brokerAccountId =
     (case brokerAccountId of
        Some acc \<Rightarrow>
          (case sql_first (\<lambda>a. a_id a = acc \<and> a_userId a = userId) (accounts d) of
             None \<Rightarrow> Inl BrokerAccountNotFound
           | Some a \<Rightarrow> Inr (a_id a))
      | None \<Rightarrow>
          let accs = filter (\<lambda>a. a_userId a = userId) (accounts d) in
          (case filter (\<lambda>a. a_status a = AActive) accs of
             [] \<Rightarrow> Inl (if list_ex (\<lambda>a. a_status a = APending) accs then AccountNotConfirmed else BrokerAccountNotFound)
           | [only] \<Rightarrow> Inr (a_id only)
           | _ \<Rightarrow> Inl AmbiguousBrokerAccount))"

definition account_error_for :: "account_status option \<Rightarrow> intent_error" where
  "account_error_for s =
     (if s = Some ARevoked then AccountRevoked else if s = Some APending then AccountNotConfirmed else AccountHalted)"

text \<open>\<open>checkStake\<close>'s refusal codes are members of the intent's error codes.\<close>

fun stake_error :: "stake_refusal \<Rightarrow> intent_error" where
  "stake_error Precision = StakePrecision"
| "stake_error BelowMinimum = StakeBelowMinimum"
| "stake_error AboveAvailable = InsufficientBalance"

definition stake_refused :: "'p db \<Rightarrow> nat \<Rightarrow> create_request \<Rightarrow> create_options \<Rightarrow> intent_error option" where
  "stake_refused d accountId input opts =
     (if \<not> co_checkStake opts then None
      else case sql_first (\<lambda>s. sn_accountId s = accountId) (snapshots d) of
        None \<Rightarrow> Some BalanceUnavailable
      | Some s \<Rightarrow> map_option stake_error (check_stake (cq_amount input)
          \<lparr>minTradeAmount = sn_minTradeAmount s,
           available = (if cq_mode input = Real then sn_realAvailable s else sn_demoAvailable s)\<rparr>))"

text \<open>The reserve \<open>UPDATE\<close>'s predicate, and the refusal when it touches no row.\<close>

definition may_reserve :: "nat \<Rightarrow> trade_mode \<Rightarrow> user_row \<Rightarrow> bool" where
  "may_reserve userId mode u \<longleftrightarrow>
     u_id u = userId \<and> u_status u = UActive \<and> TOKENS_PER_INTENT \<le> u_tokenBalance u - u_tokenReserved u
     \<and> (mode = Real \<longrightarrow> u_tradingMode u = Real)"

definition reserve_refusal :: "'p db \<Rightarrow> nat \<Rightarrow> trade_mode \<Rightarrow> intent_error" where
  "reserve_refusal d userId mode =
     (let fresh = sql_first (\<lambda>u. u_id u = userId) (users d) in
      if map_option u_status fresh = Some UBlocked then UserBlocked
      else if mode = Real \<and> map_option u_tradingMode fresh \<noteq> Some Real then RealModeOff
      else InsufficientTokens)"

text \<open>
  \<open>recordSignalDecision\<close> in its savepoint: the row, or why the database refused it; a refusal leaves
  nothing behind.
\<close>

definition record_signal_decision :: "decision_input \<Rightarrow> 'p db \<Rightarrow> tx_error + nat \<times> 'p db" where
  "record_signal_decision di d =
     (if \<not> di_values_ok di then Inl (CheckViolation ''signal_decisions'')
      else if (case (di_tradingSessionId di, di_brokerAccountId di) of
          (Some s, Some a) \<Rightarrow> sql_first (\<lambda>r. s_id r = s \<and> s_accountId r = a) (sessions d) = None
        | _ \<Rightarrow> False)
      then Inl (CheckViolation ''signal_decisions_session_account_fk'')
      else Inr (next_id d, d\<lparr>decisions := decisions d @ [\<lparr>dr_id = next_id d,
          dr_sessionId = di_tradingSessionId di, dr_accountId = di_brokerAccountId di\<rparr>], next_id := next_id d + 1\<rparr>))"

text \<open>
  The intent's \<open>INSERT\<close>: the CHECKs the request's values can break, the decision's foreign key, and
  the two unique indexes. PostgreSQL does not promise which of two violated indexes it reports;
  the caller treats both alike.
\<close>

definition insert_intent :: "intent_row \<Rightarrow> 'p db \<Rightarrow> tx_error + intent_row \<times> 'p db" where
  "insert_intent row d =
     (if \<not> (0 < i_assetId row \<and> 0 < i_durationSec row \<and> positive_decimal (i_amount row)) then Inl (CheckViolation ''trade_intents_check'')
      else if (case (i_submitNotBeforeAt row, i_submitDeadlineAt row) of
          (Some a, Some b) \<Rightarrow> \<not> a < b | _ \<Rightarrow> False) then Inl (CheckViolation ''trade_intents_submit_window_check'')
      else if (case i_signalDecisionId row of None \<Rightarrow> False
          | Some dec \<Rightarrow> sql_first (\<lambda>r. dr_id r = dec \<and> dr_sessionId r = i_sessionId row) (decisions d) = None)
      then Inl (CheckViolation ''trade_intents_decision_session_fk'')
      else if key_conflict user_request_key row (intents d) then Inl (UniqueViolation ''trade_intents_user_request_idx'')
      else if key_conflict active_account_key row (intents d) then Inl (UniqueViolation ''trade_intents_active_account_idx'')
      else Inr (row, d\<lparr>intents := intents d @ [row]\<rparr>))"

definition planned_row ::
  "create_request \<Rightarrow> intent_session option \<Rightarrow> nat \<Rightarrow> nat \<Rightarrow> nat option \<Rightarrow> 'p db \<Rightarrow> intent_row" where
  "planned_row input session userId accountId decisionId d =
     \<lparr>i_id = next_id d, i_accountId = accountId, i_userId = userId, i_sessionId = map_option is_id session,
      i_mode = cq_mode input, i_assetId = cq_assetId input, i_amount = cq_amount input,
      i_action = cq_action input, i_durationSec = cq_durationSec input,
      i_clientRequestId = cq_clientRequestId input, i_status = Planned, i_version = 1,
      i_tokensReserved = TOKENS_PER_INTENT, i_transport = None, i_submittedAt = None,
      i_submitDeadlineAt = Option.bind session is_submitDeadlineAt,
      i_submitNotBeforeAt = Option.bind session is_submitNotBeforeAt, i_lastError = None,
      i_reconcileClaimedAt = None, i_signalDecisionId = decisionId, i_createdAt = now d, i_updatedAt = now d\<rparr>"

definition insert_outbox :: "nat \<Rightarrow> outbox_topic \<Rightarrow> 'p db \<Rightarrow> 'p db" where
  "insert_outbox intentId topic d =
     d\<lparr>outbox := outbox d @ [\<lparr>o_id = next_id d, o_intentId = intentId, o_topic = topic, o_payload = intentId,
        o_status = OPending, o_attempts = 0, o_availableAt = now d, o_publishedAt = None, o_lastError = None,
        o_createdAt = now d\<rparr>], next_id := next_id d + 1\<rparr>"

text \<open>
  From the intent's \<open>INSERT\<close> to the end of the transaction: the row, its ledger row, and the two
  transitions around the outbox row.
\<close>

definition queue_intent :: "intent_row \<Rightarrow> 'p db \<Rightarrow> tx_error + intent_row \<times> 'p db" where
  "queue_intent row d =
     (case insert_intent row (d\<lparr>next_id := next_id d + 1\<rparr>) of Inl e \<Rightarrow> Inl e
      | Inr (planned, d1) \<Rightarrow>
      (case insert_ledger \<lparr>l_userId = i_userId planned, l_kind = LReserve, l_balanceDelta = 0,
           l_reservedDelta = TOKENS_PER_INTENT, l_intentId = Some (i_id planned), l_accountId = None, l_starPaymentId = None, l_referralId = None, l_bonusRule = None,
         l_note = None, l_createdAt = now d1\<rparr> d1 of
         Inl e \<Rightarrow> Inl e
       | Inr d2 \<Rightarrow>
      (case transition_intent (i_id planned) Planned Reserved (Some (i_version planned)) (\<lambda>r. r) (\<lambda>_. True) d2 of
         Inl e \<Rightarrow> Inl e
       | Inr (None, _) \<Rightarrow> Inl (Thrown ''planned intent vanished inside its own tx'')
       | Inr (Some reservedIntent, d3) \<Rightarrow>
      (if key_conflict topic_intent_key (last (outbox (insert_outbox (i_id planned) TradingIntents d3))) (outbox d3)
       then Inl (UniqueViolation ''outbox_events_topic_intent_key'')
       else case transition_intent (i_id planned) Reserved Queued (Some (i_version reservedIntent)) (\<lambda>r. r) (\<lambda>_. True)
           (insert_outbox (i_id planned) TradingIntents d3) of
         Inl e \<Rightarrow> Inl e
       | Inr (None, _) \<Rightarrow> Inl (Thrown ''reserved intent vanished inside its own tx'')
       | Inr (Some queued, d4) \<Rightarrow> Inr (queued, d4)))))"

text \<open>
  After the reserve: the account lock, the session lock, the decision's savepoint, the intent. The
  savepoint's refusal leaves the state as it was and travels to the result.
\<close>

definition create_reserved ::
  "create_request \<Rightarrow> intent_session option \<Rightarrow> nat \<Rightarrow> nat \<Rightarrow> 'p db \<Rightarrow> tx_error + create_result \<times> 'p db" where
  "create_reserved input session userId accountId d =
     (if sql_first (\<lambda>a. a_id a = accountId \<and> a_status a = AActive \<and> \<not> a_tradingHalted a) (accounts d) = None
      then Inl (IntentRefused (account_error_for (map_option a_status (sql_first (\<lambda>a. a_id a = accountId) (accounts d)))))
      else if (case session of None \<Rightarrow> False
          | Some s \<Rightarrow> sql_first (\<lambda>r. s_id r = is_id s \<and> s_accountId r = accountId \<and> s_mode r = cq_mode input
                       \<and> s_status r = SActive) (sessions d) = None)
      then Inl (SessionNotActive (case session of None \<Rightarrow> 0 | Some s \<Rightarrow> is_id s))
      else
        let (decisionId, decisionError, d1) =
          (case Option.bind session is_decision of None \<Rightarrow> (None, None, d)
           | Some di \<Rightarrow> (case record_signal_decision di d of
               Inl e \<Rightarrow> (None, Some e, d)
             | Inr (dec, d') \<Rightarrow> (Some dec, None, d'))) in
        (case queue_intent (planned_row input session userId accountId decisionId d1) d1 of
           Inl e \<Rightarrow> Inl e
         | Inr (queued, d2) \<Rightarrow>
             Inr (\<lparr>cr_intent = queued, cr_created = True, cr_decisionError = decisionError\<rparr>, d2)))"

text \<open>
  \<open>createInTransaction\<close>: every read before the reserve \<open>UPDATE\<close> sees the state \<open>seen\<close>; the \<open>UPDATE\<close>
  locks the user's row, and from there on the transaction works on the state \<open>d\<close> it then finds.
  Between the two other transactions may have committed.
\<close>

definition create_in_transaction ::
  "'p db \<Rightarrow> create_request \<Rightarrow> intent_session option \<Rightarrow> create_options \<Rightarrow> 'p db
    \<Rightarrow> tx_error + create_result \<times> 'p db" where
  "create_in_transaction seen input session opts d =
     (case find_user seen (cq_telegramUserId input) of None \<Rightarrow> Inl (IntentRefused UserNotFound)
      | Some user \<Rightarrow>
      (case find_replay seen (u_id user) input of Inl e \<Rightarrow> Inl e
       | Inr (Some replay) \<Rightarrow> Inr (replay, d)
       | Inr None \<Rightarrow>
      if co_demoOnly opts \<and> cq_mode input = Real then Inl (IntentRefused DemoOnly)
      else if \<not> is_trading_open (trading_switch seen) then Inl (IntentRefused TradingPaused)
      else case resolve_trading_account seen (u_id user) (cq_brokerAccountId input) of
        Inl code \<Rightarrow> Inl (IntentRefused code)
      | Inr accountId \<Rightarrow>
      (case stake_refused seen accountId input opts of Some code \<Rightarrow> Inl (IntentRefused code)
       | None \<Rightarrow>
      let p = may_reserve (u_id user) (cq_mode input) in
      if sql_first p (users d) = None then Inl (IntentRefused (reserve_refusal d (u_id user) (cq_mode input)))
      else create_reserved input session (u_id user) accountId
        (d\<lparr>users := sql_update p (\<lambda>u. u\<lparr>u_tokenReserved := u_tokenReserved u + TOKENS_PER_INTENT\<rparr>) (users d)\<rparr>))))"

text \<open>\<open>createTradeIntent\<close>: the transaction, and the race it may have lost.\<close>

definition create_trade_intent ::
  "'p db \<Rightarrow> create_request \<Rightarrow> intent_session option \<Rightarrow> create_options \<Rightarrow> 'p db
    \<Rightarrow> (tx_error + create_result) \<times> 'p db" where
  "create_trade_intent seen input session opts d =
     (case run_transaction (create_in_transaction seen input session opts) d of
        (Inr result, d') \<Rightarrow> (Inr result, d')
      | (Inl e, d') \<Rightarrow>
          (case unique_violation e of None \<Rightarrow> (Inl e, d')
           | Some c \<Rightarrow>
             if \<not> List.member REPLAY_CONSTRAINTS c then (Inl e, d')
             else case find_user d' (cq_telegramUserId input) of None \<Rightarrow> (Inl (IntentRefused UserNotFound), d')
             | Some user \<Rightarrow>
               (case find_replay d' (u_id user) input of Inl e' \<Rightarrow> (Inl e', d')
                | Inr (Some replay) \<Rightarrow> (Inr replay, d')
                | Inr None \<Rightarrow> (Inl (IntentRefused ActiveIntentExists), d'))))"

section \<open>Rejection\<close>

definition find_intent_row :: "nat \<Rightarrow> 'p db \<Rightarrow> intent_row option" where
  "find_intent_row iid d = sql_first (\<lambda>r. i_id r = iid) (intents d)"

definition reject_intent ::
  "nat \<Rightarrow> intent_status \<Rightarrow> nat option \<Rightarrow> failure_reason \<Rightarrow> (intent_row \<Rightarrow> bool) \<Rightarrow> 'p db
    \<Rightarrow> tx_error + intent_row option \<times> 'p db" where
  "reject_intent iid from_status expected reason whr d =
     (case find_intent_row iid d of None \<Rightarrow> Inr (None, d)
      | Some current \<Rightarrow>
      if i_status current \<noteq> from_status then Inr (None, d)
      else if expected \<noteq> None \<and> expected \<noteq> Some (i_version current) then Inr (None, d)
      else case transition_intent iid from_status Rejected (Some (i_version current))
          (\<lambda>r. r\<lparr>i_lastError := Some reason, i_tokensReserved := 0\<rparr>) whr d of
        Inl e \<Rightarrow> Inl e
      | Inr (None, d1) \<Rightarrow> Inr (None, d1)
      | Inr (Some rejected, d1) \<Rightarrow>
          if 0 < i_tokensReserved current then
            (case release_tokens (i_userId current) iid (i_tokensReserved current) d1 of
               Inl e \<Rightarrow> Inl e | Inr d2 \<Rightarrow> Inr (Some rejected, d2))
          else Inr (Some rejected, d1))"

definition expired_where :: "'p db \<Rightarrow> int \<Rightarrow> intent_row \<Rightarrow> bool" where
  "expired_where d maxAgeMs r \<longleftrightarrow> i_createdAt r < milliseconds_ago d maxAgeMs"

definition reject_expired_intent :: "nat \<Rightarrow> nat \<Rightarrow> int \<Rightarrow> 'p db \<Rightarrow> tx_error + intent_row option \<times> 'p db" where
  "reject_expired_intent iid expectedVersion maxAgeMs d =
     reject_intent iid Queued (Some expectedVersion) Expired (expired_where d maxAgeMs) d"

definition late_where :: "'p db \<Rightarrow> intent_row \<Rightarrow> bool" where
  "late_where d r \<longleftrightarrow> (case i_submitDeadlineAt r of None \<Rightarrow> False | Some t \<Rightarrow> t \<le> now d)"

definition reject_late_intent :: "nat \<Rightarrow> nat \<Rightarrow> 'p db \<Rightarrow> tx_error + intent_row option \<times> 'p db" where
  "reject_late_intent iid expectedVersion d =
     reject_intent iid Queued (Some expectedVersion) EntryWindowMissed (late_where d) d"

definition reject_paused_intent :: "nat \<Rightarrow> nat \<Rightarrow> 'p db \<Rightarrow> tx_error + intent_row option \<times> 'p db" where
  "reject_paused_intent iid expectedVersion d =
     reject_intent iid Queued (Some expectedVersion) FailedTradingPaused (\<lambda>_. True) d"

section \<open>The unknown outcome\<close>

definition submitted_before :: "'p db \<Rightarrow> int option \<Rightarrow> intent_row \<Rightarrow> bool" where
  "submitted_before d olderThanMs r \<longleftrightarrow>
     (case olderThanMs of None \<Rightarrow> True
      | Some ms \<Rightarrow> (case i_submittedAt r of None \<Rightarrow> False | Some t \<Rightarrow> t < milliseconds_ago d ms))"

definition insert_outbox_once :: "nat \<Rightarrow> outbox_topic \<Rightarrow> 'p db \<Rightarrow> 'p db" where
  "insert_outbox_once intentId topic d =
     (if list_ex (\<lambda>o_row. topic_intent_key o_row = Some (topic, intentId)) (outbox d) then d
      else insert_outbox intentId topic d)"

definition mark_intent_unknown ::
  "nat \<Rightarrow> failure_reason \<Rightarrow> nat option \<Rightarrow> int option \<Rightarrow> 'p db \<Rightarrow> tx_error + intent_row option \<times> 'p db" where
  "mark_intent_unknown iid reason expected olderThanMs d =
     (case transition_intent iid Submitting Unknown expected (\<lambda>r. r\<lparr>i_lastError := Some reason\<rparr>)
         (submitted_before d olderThanMs) d of
        Inl e \<Rightarrow> Inl e
      | Inr (None, d1) \<Rightarrow> Inr (None, d1)
      | Inr (Some row, d1) \<Rightarrow> Inr (Some row, insert_outbox_once iid TradingReconciliation d1))"

section \<open>Acceptance\<close>

definition mismatch_of :: "intent_row \<Rightarrow> 'p broker_trade \<Rightarrow> mismatch_reason option" where
  "mismatch_of intent trade =
     (if bt_isDemo trade \<noteq> (i_mode intent = Demo) then Some MismatchMode
      else if bt_assetId trade \<noteq> i_assetId intent then Some MismatchAsset
      else if bt_action trade \<noteq> i_action intent then Some MismatchAction
      else if normalize_decimal (bt_amount trade) \<noteq> normalize_decimal (i_amount intent) then Some MismatchAmount
      else None)"

text \<open>\<open>moneyInColumn\<close>: the text \<open>MONEY_SHAPE\<close> takes.\<close>

definition money_in_column :: "string \<Rightarrow> string option" where
  "money_in_column s =
     (case dec_body s of None \<Rightarrow> None
      | Some (w, f) \<Rightarrow> if length w \<le> NUMERIC_INTEGER_DIGITS \<and> length f \<le> NUMERIC_FRACTION_DIGITS then Some s else None)"

definition trade_row_of :: "intent_row \<Rightarrow> 'p broker_trade \<Rightarrow> nat \<Rightarrow> 'p trade_row" where
  "trade_row_of intent trade tid =
     \<lparr>t_id = tid, t_accountId = i_accountId intent, t_intentId = Some (i_id intent), t_brokerTradeId = bt_id trade,
      t_mode = i_mode intent, t_assetId = bt_assetId trade, t_action = bt_action trade, t_amount = bt_amount trade,
      t_openPrice = bt_openPrice trade, t_openTimestampMs = bt_openTimestamp trade, t_closePrice = None,
      t_closeTimestampMs = None, t_potentialProfit = None, t_profit = None, t_source = bt_source trade,
      t_brokerClientId = bt_brokerClientId trade, t_status = TOpen, t_raw = trade\<rparr>"

definition insert_trade ::
  "intent_row \<Rightarrow> 'p broker_trade \<Rightarrow> ('p trade_row \<Rightarrow> 'p trade_row) \<Rightarrow> 'p db \<Rightarrow> tx_error + 'p db" where
  "insert_trade intent trade vals d =
     (let row = vals (trade_row_of intent trade (next_id d));
          violated = (if key_conflict account_trade_key row (trades d) then Some ''broker_trades_account_trade_key''
                      else if key_conflict t_intentId row (trades d) then Some ''broker_trades_intent_id_key'' else None) in
      case violated of
        Some c \<Rightarrow> if \<not> List.member LINK_CONSTRAINTS c then Inl (UniqueViolation c)
                  else Inl (MismatchThrown TradeAlreadyLinked (i_id intent) (bt_id trade))
      | None \<Rightarrow> Inr (d\<lparr>trades := trades d @ [row], next_id := next_id d + 1\<rparr>))"

definition open_values :: "'p broker_trade \<Rightarrow> 'p trade_row \<Rightarrow> 'p trade_row" where
  "open_values trade r =
     r\<lparr>t_status := TOpen,
       t_potentialProfit := (case bt_form trade of OpenForm pp \<Rightarrow> money_in_column pp | ClosedForm _ _ _ \<Rightarrow> None)\<rparr>"

definition mark_intent_accepted ::
  "nat \<Rightarrow> nat \<Rightarrow> intent_status \<Rightarrow> trade_transport option \<Rightarrow> 'p broker_trade \<Rightarrow> 'p db
    \<Rightarrow> tx_error + intent_row option \<times> 'p db" where
  "mark_intent_accepted iid expectedVersion from_status transport trade d =
     (case find_intent_row iid d of None \<Rightarrow> Inr (None, d)
      | Some terms \<Rightarrow>
      (case mismatch_of terms trade of
         Some reason \<Rightarrow> Inl (MismatchThrown reason iid (bt_id trade))
       | None \<Rightarrow>
      (case transition_intent iid from_status Accepted (Some expectedVersion)
          (\<lambda>r. r\<lparr>i_transport := transport\<rparr>) (\<lambda>_. True) d of
         Inl e \<Rightarrow> Inl e
       | Inr (None, d1) \<Rightarrow> Inr (None, d1)
       | Inr (Some row, d1) \<Rightarrow>
           (case insert_trade row trade (open_values trade) d1 of
              Inl e \<Rightarrow> Inl e | Inr d2 \<Rightarrow> Inr (Some row, d2)))))"

section \<open>Settlement\<close>

text \<open>The columns of a close; the trade is a \<open>ClosedTrade\<close>, so its form carries them.\<close>

definition closing_values :: "'p broker_trade \<Rightarrow> 'p trade_row \<Rightarrow> 'p trade_row" where
  "closing_values trade r =
     (case bt_form trade of
        ClosedForm price ts prof \<Rightarrow>
          r\<lparr>t_status := TClosed, t_closePrice := Some price, t_closeTimestampMs := Some ts,
            t_profit := Some prof, t_raw := trade\<rparr>
      | OpenForm _ \<Rightarrow> r)"

definition settle_intent ::
  "nat \<Rightarrow> nat option \<Rightarrow> intent_status \<Rightarrow> 'p broker_trade \<Rightarrow> 'p db \<Rightarrow> tx_error + intent_row option \<times> 'p db" where
  "settle_intent iid expected from_status trade d =
     (case find_intent_row iid d of None \<Rightarrow> Inr (None, d)
      | Some current \<Rightarrow>
      if i_status current \<noteq> from_status then Inr (None, d)
      else if expected \<noteq> None \<and> expected \<noteq> Some (i_version current) then Inr (None, d)
      else
      (case sql_first (\<lambda>t. t_intentId t = Some iid) (trades d) of
         linked \<Rightarrow>
      (case (case linked of
               Some l \<Rightarrow> if t_brokerTradeId l \<noteq> bt_id trade then Some TradeAlreadyLinked else None
             | None \<Rightarrow> mismatch_of current trade) of
         Some reason \<Rightarrow> Inl (MismatchThrown reason iid (bt_id trade))
       | None \<Rightarrow>
      (case transition_intent iid from_status Settled (Some (i_version current))
          (\<lambda>r. r\<lparr>i_tokensReserved := 0\<rparr>) (\<lambda>_. True) d of
         Inl e \<Rightarrow> Inl e
       | Inr (None, d1) \<Rightarrow> Inr (None, d1)
       | Inr (Some settled, d1) \<Rightarrow>
      (case (if 0 < i_tokensReserved current
             then consume_tokens (i_userId current) iid (i_tokensReserved current) d1 else Inr d1) of
         Inl e \<Rightarrow> Inl e
       | Inr d2 \<Rightarrow>
      (case linked of
         None \<Rightarrow> (case insert_trade current trade (closing_values trade) d2 of
                    Inl e \<Rightarrow> Inl e | Inr d3 \<Rightarrow> Inr (Some settled, d3))
       | Some l \<Rightarrow> Inr (Some settled,
           d2\<lparr>trades := sql_update (\<lambda>t. t_id t = t_id l) (closing_values trade) (trades d2)\<rparr>)))))))"

text \<open>\<open>settleClosedTrades\<close>: the outcomes, the classification of a link, one transaction per trade.\<close>

datatype closed_outcome =
  OutcomeSettled string nat
| AlreadySettled string nat
| NotOurs string
| IntentNotAccepted string nat intent_status

definition trade_link :: "nat \<Rightarrow> string \<Rightarrow> 'p db \<Rightarrow> (trade_status \<times> nat option \<times> intent_status option) option" where
  "trade_link accountId tradeId d =
     (case sql_first (\<lambda>t. t_accountId t = accountId \<and> t_brokerTradeId t = tradeId) (trades d) of
        None \<Rightarrow> None
      | Some t \<Rightarrow> Some (t_status t, t_intentId t,
          Option.bind (t_intentId t) (\<lambda>iid. map_option i_status (find_intent_row iid d))))"

definition classify_link ::
  "string \<Rightarrow> (trade_status \<times> nat option \<times> intent_status option) option \<Rightarrow> closed_outcome + nat" where
  "classify_link tradeId found =
     (case found of
        Some (ts, Some iid, Some st) \<Rightarrow>
          if ts = TClosed then Inl (AlreadySettled tradeId iid)
          else if st \<noteq> Accepted then Inl (IntentNotAccepted tradeId iid st)
          else Inr iid
      | _ \<Rightarrow> Inl (NotOurs tradeId))"

definition settle_closed_trade :: "nat \<Rightarrow> 'p broker_trade \<Rightarrow> 'p db \<Rightarrow> (tx_error + closed_outcome) \<times> 'p db" where
  "settle_closed_trade accountId trade d =
     (case classify_link (bt_id trade) (trade_link accountId (bt_id trade) d) of
        Inl outcome \<Rightarrow> (Inr outcome, d)
      | Inr iid \<Rightarrow>
      (case run_transaction (settle_intent iid None Accepted trade) d of
         (Inl e, d1) \<Rightarrow> (Inl e, d1)
       | (Inr (Some _), d1) \<Rightarrow> (Inr (OutcomeSettled (bt_id trade) iid), d1)
       | (Inr None, d1) \<Rightarrow>
           (case classify_link (bt_id trade) (trade_link accountId (bt_id trade) d1) of
              Inr _ \<Rightarrow> (Inr (IntentNotAccepted (bt_id trade) iid Accepted), d1)
            | Inl after \<Rightarrow> (Inr after, d1))))"

fun settle_closed_trades ::
  "nat \<Rightarrow> 'p broker_trade list \<Rightarrow> 'p db \<Rightarrow> (tx_error + closed_outcome list) \<times> 'p db" where
  "settle_closed_trades accountId [] d = (Inr [], d)"
| "settle_closed_trades accountId (t # ts) d =
     (case settle_closed_trade accountId t d of
        (Inl e, d1) \<Rightarrow> (Inl e, d1)
      | (Inr outcome, d1) \<Rightarrow>
          (case settle_closed_trades accountId ts d1 of
             (Inl e, d2) \<Rightarrow> (Inl e, d2)
           | (Inr outcomes, d2) \<Rightarrow> (Inr (outcome # outcomes), d2)))"

section \<open>Reconciliation\<close>

definition start_reconciling :: "nat \<Rightarrow> nat \<Rightarrow> 'p db \<Rightarrow> tx_error + intent_row option \<times> 'p db" where
  "start_reconciling iid expectedVersion d =
     transition_intent iid Unknown Reconciling (Some expectedVersion) (\<lambda>r. r) (\<lambda>_. True) d"

definition reconcile_lease_expired :: "'p db \<Rightarrow> int \<Rightarrow> intent_row \<Rightarrow> bool" where
  "reconcile_lease_expired d retryMs r \<longleftrightarrow>
     (case i_reconcileClaimedAt r of None \<Rightarrow> True | Some t \<Rightarrow> t < milliseconds_ago d retryMs)"

definition claim_reconciling :: "nat \<Rightarrow> int \<Rightarrow> 'p db \<Rightarrow> intent_row option \<times> 'p db" where
  "claim_reconciling iid retryMs d =
     (let p = (\<lambda>r. i_id r = iid \<and> i_status r = Reconciling \<and> reconcile_lease_expired d retryMs r);
          f = (\<lambda>r. r\<lparr>i_reconcileClaimedAt := Some (now d), i_version := i_version r + 1, i_updatedAt := now d\<rparr>) in
      (map_option f (sql_first p (intents d)), d\<lparr>intents := sql_update p f (intents d)\<rparr>))"

definition conclude_reconciled ::
  "nat \<Rightarrow> nat \<Rightarrow> 'p broker_trade \<Rightarrow> 'p db \<Rightarrow> tx_error + intent_row option \<times> 'p db" where
  "conclude_reconciled iid expectedVersion trade d =
     (case find_intent_row iid d of None \<Rightarrow> Inr (None, d)
      | Some current \<Rightarrow>
      (case mark_intent_accepted iid expectedVersion Reconciling (i_transport current) trade d of
         Inl e \<Rightarrow> Inl e
       | Inr (None, d1) \<Rightarrow> Inr (None, d1)
       | Inr (Some accepted, d1) \<Rightarrow>
           if \<not> is_closed_trade trade then Inr (Some accepted, d1)
           else (case settle_intent iid (Some (i_version accepted)) Accepted trade d1 of
                   Inl e \<Rightarrow> Inl e
                 | Inr (None, _) \<Rightarrow> Inl (Thrown ''accepted intent vanished inside its own tx'')
                 | Inr (Some settled, d2) \<Rightarrow> Inr (Some settled, d2))))"

definition mark_intent_manual_review ::
  "nat \<Rightarrow> nat \<Rightarrow> failure_reason \<Rightarrow> 'p db \<Rightarrow> tx_error + intent_row option \<times> 'p db" where
  "mark_intent_manual_review iid expectedVersion reason d =
     transition_intent iid Reconciling ManualReview (Some expectedVersion)
       (\<lambda>r. r\<lparr>i_lastError := Some reason\<rparr>) (\<lambda>_. True) d"

datatype manual_review_reason = ReviewAmbiguous | ReviewNotFound | ReviewMismatch

fun HALT_REASON_FOR :: "manual_review_reason \<Rightarrow> halt_reason" where
  "HALT_REASON_FOR ReviewAmbiguous = HaltReconciliationAmbiguous"
| "HALT_REASON_FOR ReviewNotFound = HaltReconciliationNotFound"
| "HALT_REASON_FOR ReviewMismatch = HaltTradeMismatch"

fun review_failure :: "manual_review_reason \<Rightarrow> failure_reason" where
  "review_failure ReviewAmbiguous = ReconciliationAmbiguous"
| "review_failure ReviewNotFound = ReconciliationNotFound"
| "review_failure ReviewMismatch = TradeMismatch"

definition halt_account_for_manual_review ::
  "nat \<Rightarrow> nat \<Rightarrow> manual_review_reason \<Rightarrow> 'p db \<Rightarrow> tx_error + intent_row option \<times> 'p db" where
  "halt_account_for_manual_review iid expectedVersion reason d =
     (case Option.bind (find_intent_row iid d)
         (\<lambda>r. sql_first (\<lambda>a. a_id a = i_accountId r) (accounts d)) of
        None \<Rightarrow> Inr (None, d)
      | Some account \<Rightarrow>
      (case mark_intent_manual_review iid expectedVersion (review_failure reason) d of
         Inl e \<Rightarrow> Inl e
       | Inr (None, d1) \<Rightarrow> Inr (None, d1)
       | Inr (Some row, d1) \<Rightarrow>
           Inr (Some row, d1\<lparr>accounts := sql_update (\<lambda>a. a_id a = a_id account)
             (\<lambda>a. a\<lparr>a_tradingHalted := True, a_haltedReason := Some (HALT_REASON_FOR reason)\<rparr>) (accounts d1)\<rparr>)))"

end
