(* ===== verification/Sessions.thy ===== *)
theory Sessions
  imports Intents "HOL-Library.Product_Lexorder"
begin

text \<open>
  The operations on trading sessions, \<^verbatim>\<open>packages/db/src/trading-session-ops.ts\<close>: creation, the
  stops, the decision marks, the session's own intents, the start check, the summary's claim, the
  status message, and the reads the session driver decides on. \<open>LIMIT\<close> without an \<open>ORDER BY\<close> lets
  the database choose the rows: the choice is the argument \<open>pick\<close>, with \<open>limit_law\<close> as what SQL
  promises of it. An \<open>ORDER BY\<close> is a stable sort of the table's order.
\<close>

section \<open>Creation\<close>

record create_session_input =
  cs_telegramUserId :: int
  cs_brokerAccountId :: nat
  cs_mode :: trade_mode
  cs_settings :: string
  cs_startSignalAction :: "trade_action option"

definition new_session :: "create_session_input \<Rightarrow> 'p db \<Rightarrow> session_row" where
  "new_session input d =
     \<lparr>s_id = next_id d, s_accountId = cs_brokerAccountId input, s_mode = cs_mode input, s_status = SActive,
      s_settings = cs_settings input, s_stopReason = None, s_startedAt = now d, s_endedAt = None,
      s_lastDecisionAt = None, s_startSignalAction = cs_startSignalAction input, s_summarySentAt = None,
      s_finalNoticeSentAt = None, s_statusMessageId = None, s_waitingMessageId = None,
      s_waitingAfterMessage = None, s_createdAt = now d, s_updatedAt = now d\<rparr>"

definition insert_session :: "session_row \<Rightarrow> 'p db \<Rightarrow> tx_error + session_row \<times> 'p db" where
  "insert_session row d =
     (if key_conflict active_session_key row (sessions d) then Inl (UniqueViolation ''trading_sessions_active_account_idx'')
      else Inr (row, d\<lparr>sessions := sessions d @ [row], next_id := next_id d + 1\<rparr>))"

text \<open>
  The transaction: the account is looked up in the state \<open>seen\<close>; from the lock on the user's row on
  it works on \<open>d\<close>.
\<close>

definition create_session_tx ::
  "'p db \<Rightarrow> create_session_input \<Rightarrow> 'p db \<Rightarrow> tx_error + session_row \<times> 'p db" where
  "create_session_tx seen input d =
     (case sql_first (\<lambda>a. a_id a = cs_brokerAccountId input
          \<and> list_ex (\<lambda>u. u_id u = a_userId a \<and> u_telegramUserId u = cs_telegramUserId input) (users seen)) (accounts seen) of
        None \<Rightarrow> Inl (SessionRefused SessionAccountNotFound)
      | Some account \<Rightarrow>
      (case sql_first (\<lambda>u. u_id u = a_userId account \<and> u_status u = UActive) (users d) of
         None \<Rightarrow> Inl (SessionRefused UserNotActive)
       | Some user \<Rightarrow>
      if u_tradingMode user \<noteq> cs_mode input then Inl (SessionRefused ModeNotAllowed)
      else case sql_first (\<lambda>a. a_id a = cs_brokerAccountId input) (accounts d) of
         None \<Rightarrow> Inl (SessionRefused SessionAccountNotFound)
       | Some locked \<Rightarrow>
      if a_status locked = ARevoked then Inl (SessionRefused SessionAccountRevoked)
      else if a_status locked = APending then Inl (SessionRefused SessionAccountNotConfirmed)
      else if a_tradingHalted locked then Inl (SessionRefused SessionAccountHalted)
      else if \<not> is_trading_open (trading_switch d) then Inl (SessionRefused SessionTradingPaused)
      else insert_session (new_session input d) d))"

definition create_trading_session ::
  "'p db \<Rightarrow> create_session_input \<Rightarrow> bool \<Rightarrow> 'p db \<Rightarrow> (tx_error + session_row) \<times> 'p db" where
  "create_trading_session seen input demoOnly d =
     (if demoOnly \<and> cs_mode input = Real then (Inl (SessionRefused SessionDemoOnly), d)
      else case run_transaction (create_session_tx seen input) d of
        (Inr row, d') \<Rightarrow> (Inr row, d')
      | (Inl e, d') \<Rightarrow>
          if unique_violation e = Some ''trading_sessions_active_account_idx''
          then (Inl (SessionRefused ActiveSessionExists), d') else (Inl e, d'))"

section \<open>The scan\<close>

definition past_deadline :: "'p db \<Rightarrow> int \<Rightarrow> session_row \<Rightarrow> bool" where
  "past_deadline d maxDurationMs s \<longleftrightarrow> s_startedAt s < milliseconds_ago d maxDurationMs"

text \<open>\<open>asc nulls first\<close>, then the creation time.\<close>

definition scan_key :: "session_row \<Rightarrow> (nat \<times> int) \<times> int" where
  "scan_key s = ((case s_lastDecisionAt s of None \<Rightarrow> (0, 0) | Some t \<Rightarrow> (1, t)), s_createdAt s)"

definition account_idle :: "'p db \<Rightarrow> nat \<Rightarrow> bool" where
  "account_idle d accountId \<longleftrightarrow>
     \<not> list_ex (\<lambda>r. i_accountId r = accountId \<and> \<not> List.member TERMINAL_TRADE_INTENT_STATUSES (i_status r)) (intents d)"

definition list_runnable_sessions ::
  "nat \<Rightarrow> int \<Rightarrow> nat list \<Rightarrow> nat list option \<Rightarrow> 'p db \<Rightarrow> session_row list" where
  "list_runnable_sessions limit maxDurationMs exclude accs d =
     (if accs = Some [] then []
      else take limit (sort_key scan_key (filter (\<lambda>s.
        s_status s = SActive \<and> \<not> past_deadline d maxDurationMs s \<and> account_idle d (s_accountId s)
        \<and> (exclude = [] \<or> \<not> List.member exclude (s_id s))
        \<and> (case accs of None \<Rightarrow> True | Some as \<Rightarrow> List.member as (s_accountId s))) (sessions d))))"

section \<open>The stops\<close>

definition stopped_by :: "stop_reason \<Rightarrow> int \<Rightarrow> session_row \<Rightarrow> session_row" where
  "stopped_by reason t s =
     s\<lparr>s_status := SStopped, s_stopReason := Some reason, s_endedAt := Some t, s_lastDecisionAt := Some t, s_updatedAt := t\<rparr>"

text \<open>
  \<open>update \<dots> set stoppedBy(reason) where status = active and id in (\<dots>)\<close>, answering the id and the
  account of each row it stopped.
\<close>

definition stop_where :: "stop_reason \<Rightarrow> (session_row \<Rightarrow> bool) \<Rightarrow> 'p db \<Rightarrow> (nat \<times> nat) list \<times> 'p db" where
  "stop_where reason whr d =
     (let p = (\<lambda>s. s_status s = SActive \<and> whr s) in
      (map (\<lambda>s. (s_id s, s_accountId s)) (filter p (sessions d)),
       d\<lparr>sessions := sql_update p (stopped_by reason (now d)) (sessions d)\<rparr>))"

definition active_ids_where :: "(session_row \<Rightarrow> bool) \<Rightarrow> 'p db \<Rightarrow> nat list" where
  "active_ids_where whr d = map s_id (filter (\<lambda>s. s_status s = SActive \<and> whr s) (sessions d))"

definition stop_expired_sessions ::
  "(nat \<Rightarrow> nat list \<Rightarrow> nat list) \<Rightarrow> int \<Rightarrow> nat \<Rightarrow> 'p db \<Rightarrow> (nat \<times> nat) list \<times> 'p db" where
  "stop_expired_sessions pick maxDurationMs limit d =
     stop_where StopTimeout
       (\<lambda>s. List.member (pick limit (active_ids_where (past_deadline d maxDurationMs) d)) (s_id s)) d"

definition stop_paused_sessions ::
  "(nat \<Rightarrow> nat list \<Rightarrow> nat list) \<Rightarrow> nat \<Rightarrow> 'p db \<Rightarrow> (nat \<times> nat) list \<times> 'p db" where
  "stop_paused_sessions pick limit d =
     stop_where KillSwitch (\<lambda>s. List.member (pick limit (active_ids_where (\<lambda>_. \<not> trading_open_sql d) d)) (s_id s)) d"

definition session_halted :: "'p db \<Rightarrow> session_row \<Rightarrow> bool" where
  "session_halted d s \<longleftrightarrow>
     list_ex (\<lambda>a. a_id a = s_accountId s \<and> a_tradingHalted a) (accounts d)
     \<or> list_ex (\<lambda>r. i_sessionId r = Some (s_id s) \<and> i_status r = ManualReview) (intents d)"

definition stop_halted_sessions ::
  "(nat \<Rightarrow> nat list \<Rightarrow> nat list) \<Rightarrow> nat \<Rightarrow> 'p db \<Rightarrow> (nat \<times> nat) list \<times> 'p db" where
  "stop_halted_sessions pick limit d =
     stop_where StopManualReview (\<lambda>s. List.member (pick limit (active_ids_where (session_halted d) d)) (s_id s)) d"

definition hand_over :: "int option \<Rightarrow> session_row \<Rightarrow> session_row" where
  "hand_over waitingMessageId s =
     (case waitingMessageId of None \<Rightarrow> s
      | Some m \<Rightarrow> if s_waitingMessageId s = Some m then s\<lparr>s_waitingMessageId := None, s_waitingAfterMessage := None\<rparr> else s)"

definition stop_trading_session ::
  "nat \<Rightarrow> stop_reason \<Rightarrow> int option \<Rightarrow> 'p db \<Rightarrow> session_row option \<times> 'p db" where
  "stop_trading_session sid reason waitingMessageId d =
     (let p = (\<lambda>s. s_id s = sid \<and> s_status s = SActive);
          f = (\<lambda>s. hand_over waitingMessageId (stopped_by reason (now d) s)) in
      (map_option f (sql_first p (sessions d)), d\<lparr>sessions := sql_update p f (sessions d)\<rparr>))"

definition session_owned_by :: "'p db \<Rightarrow> int \<Rightarrow> session_row \<Rightarrow> bool" where
  "session_owned_by d telegramUserId s \<longleftrightarrow>
     list_ex (\<lambda>a. a_id a = s_accountId s
       \<and> list_ex (\<lambda>u. u_id u = a_userId a \<and> u_telegramUserId u = telegramUserId) (users d)) (accounts d)"

definition stop_user_sessions :: "int \<Rightarrow> 'p db \<Rightarrow> (nat \<times> nat) list \<times> 'p db" where
  "stop_user_sessions telegramUserId d =
     stop_where UserStopped (\<lambda>s. List.member (active_ids_where (session_owned_by d telegramUserId) d) (s_id s)) d"

definition stop_trading_sessions :: "nat list \<Rightarrow> stop_reason \<Rightarrow> 'p db \<Rightarrow> (nat \<times> nat) list \<times> 'p db" where
  "stop_trading_sessions ids reason d =
     (if ids = [] then ([], d) else stop_where reason (\<lambda>s. List.member ids (s_id s)) d)"

definition mark_session_decisions :: "nat list \<Rightarrow> 'p db \<Rightarrow> 'p db" where
  "mark_session_decisions ids d =
     (if ids = [] then d
      else d\<lparr>sessions := sql_update (\<lambda>s. List.member ids (s_id s) \<and> s_status s = SActive)
        (\<lambda>s. s\<lparr>s_lastDecisionAt := Some (now d), s_updatedAt := now d\<rparr>) (sessions d)\<rparr>)"

definition mark_session_decision :: "nat \<Rightarrow> 'p db \<Rightarrow> 'p db" where
  "mark_session_decision sid d = mark_session_decisions [sid] d"

section \<open>The session's intents\<close>

record session_intent_input =
  xi_sessionId :: nat
  xi_step :: nat
  xi_telegramUserId :: int
  xi_brokerAccountId :: nat
  xi_mode :: trade_mode
  xi_assetId :: int
  xi_amount :: string
  xi_action :: trade_action
  xi_durationSec :: int
  xi_decision :: "decision_input option"
  xi_submitDeadlineAt :: "int option"
  xi_submitNotBeforeAt :: "int option"

definition session_request_id :: "nat \<Rightarrow> nat \<Rightarrow> string" where
  "session_request_id sid step = ''session:'' @ nat_str sid @ '':'' @ nat_str step"

definition session_request :: "session_intent_input \<Rightarrow> create_request" where
  "session_request x =
     \<lparr>cq_telegramUserId = xi_telegramUserId x, cq_brokerAccountId = Some (xi_brokerAccountId x), cq_mode = xi_mode x,
      cq_assetId = xi_assetId x, cq_amount = xi_amount x, cq_action = xi_action x, cq_durationSec = xi_durationSec x,
      cq_clientRequestId = session_request_id (xi_sessionId x) (xi_step x)\<rparr>"

definition create_session_intent ::
  "'p db \<Rightarrow> session_intent_input \<Rightarrow> bool \<Rightarrow> 'p db \<Rightarrow> (tx_error + create_result) \<times> 'p db" where
  "create_session_intent seen x demoOnly d =
     create_trade_intent seen (session_request x)
       (Some \<lparr>is_id = xi_sessionId x, is_decision = xi_decision x, is_submitDeadlineAt = xi_submitDeadlineAt x,
          is_submitNotBeforeAt = xi_submitNotBeforeAt x\<rparr>)
       \<lparr>co_checkStake = False, co_demoOnly = demoOnly\<rparr> d"

section \<open>The start check\<close>

datatype start_refusal =
  StartTradingPaused | StartUserNotFound | StartUserBlocked | StartModeNotAllowed | StartAccount intent_error
| StartAccountRevoked | StartAccountNotConfirmed | StartAccountHalted | StartInsufficientTokens

datatype start_check =
  StartOk nat int
| StartActive nat nat
| StartRefused start_refusal

definition active_session_of :: "'p db \<Rightarrow> nat \<Rightarrow> nat option" where
  "active_session_of d accountId =
     map_option s_id (sql_first (\<lambda>s. s_accountId s = accountId \<and> s_status s = SActive) (sessions d))"

definition check_trading_session_start :: "int \<Rightarrow> nat option \<Rightarrow> trade_mode \<Rightarrow> 'p db \<Rightarrow> start_check" where
  "check_trading_session_start telegramUserId brokerAccountId mode d =
     (if \<not> is_trading_open (trading_switch d) then StartRefused StartTradingPaused
      else case find_user d telegramUserId of None \<Rightarrow> StartRefused StartUserNotFound
      | Some user \<Rightarrow>
      if u_status user = UBlocked then StartRefused StartUserBlocked
      else if u_tradingMode user \<noteq> mode then StartRefused StartModeNotAllowed
      else case resolve_trading_account d (u_id user) brokerAccountId of
        Inl code \<Rightarrow> StartRefused (StartAccount code)
      | Inr accountId \<Rightarrow>
      (case sql_first (\<lambda>a. a_id a = accountId) (accounts d) of
         None \<Rightarrow> StartRefused (StartAccount BrokerAccountNotFound)
       | Some account \<Rightarrow>
      if a_status account = ARevoked then StartRefused StartAccountRevoked
      else if a_status account = APending then StartRefused StartAccountNotConfirmed
      else if a_tradingHalted account then StartRefused StartAccountHalted
      else case active_session_of d accountId of
        Some sid \<Rightarrow> StartActive sid accountId
      | None \<Rightarrow>
      if u_tokenBalance user - u_tokenReserved user < TOKENS_PER_INTENT then StartRefused StartInsufficientTokens
      else StartOk accountId (a_accessTokenExpiresAt account)))"

section \<open>What the driver reads\<close>

record history_intent =
  hi_id :: nat
  hi_action :: trade_action
  hi_status :: intent_status
  hi_amount :: string
  hi_profit :: "string option"
  hi_lastError :: "failure_reason option"

record session_history =
  sh_telegramUserId :: int
  sh_expired :: bool
  sh_waitExpired :: bool
  sh_intents :: "history_intent list"

record balance_read =
  br_available :: string
  br_minTradeAmount :: string
  br_awaitsBalance :: bool

record batch_read =
  bt_history :: session_history
  bt_balance :: "balance_read option"

text \<open>\<open>greatest(started_at, (select max(updated_at) \<dots>)) < millisecondsAgo(limit)\<close>: a missing maximum is skipped.\<close>

definition wait_expired :: "'p db \<Rightarrow> int \<Rightarrow> session_row \<Rightarrow> bool" where
  "wait_expired d limit s \<longleftrightarrow>
     fold max (map i_updatedAt (filter (\<lambda>r. i_sessionId r = Some (s_id s)) (intents d))) (s_startedAt s)
       < milliseconds_ago d limit"

text \<open>The session's owner through the two inner joins.\<close>

definition session_owner :: "'p db \<Rightarrow> session_row \<Rightarrow> user_row option" where
  "session_owner d s =
     Option.bind (sql_first (\<lambda>a. a_id a = s_accountId s) (accounts d)) (\<lambda>a. sql_first (\<lambda>u. u_id u = a_userId a) (users d))"

text \<open>The left join with the linked trade, one row per trade or one without.\<close>

definition history_rows :: "'p db \<Rightarrow> intent_row \<Rightarrow> history_intent list" where
  "history_rows d r =
     (let row = (\<lambda>profit. \<lparr>hi_id = i_id r, hi_action = i_action r, hi_status = i_status r, hi_amount = i_amount r,
            hi_profit = profit, hi_lastError = i_lastError r\<rparr>) in
      case filter (\<lambda>t. t_intentId t = Some (i_id r)) (trades d) of
        [] \<Rightarrow> [row None]
      | ts \<Rightarrow> map (\<lambda>t. row (t_profit t)) ts)"

definition creation_key :: "intent_row \<Rightarrow> int \<times> nat" where
  "creation_key r = (i_createdAt r, i_id r)"

definition session_intents :: "nat \<Rightarrow> 'p db \<Rightarrow> intent_row list" where
  "session_intents sid d = sort_key creation_key (filter (\<lambda>r. i_sessionId r = Some sid) (intents d))"

definition history_of :: "'p db \<Rightarrow> int \<Rightarrow> int \<Rightarrow> session_row \<Rightarrow> user_row \<Rightarrow> history_intent list \<Rightarrow> session_history" where
  "history_of d maxDurationMs noSignalTimeoutMs s owner rows =
     \<lparr>sh_telegramUserId = u_telegramUserId owner, sh_expired = past_deadline d maxDurationMs s,
      sh_waitExpired = wait_expired d noSignalTimeoutMs s, sh_intents = rows\<rparr>"

definition read_session_history :: "nat \<Rightarrow> int \<Rightarrow> int \<Rightarrow> 'p db \<Rightarrow> session_history option" where
  "read_session_history sid maxDurationMs noSignalTimeoutMs d =
     (case sql_first (\<lambda>s. s_id s = sid) (sessions d) of None \<Rightarrow> None
      | Some s \<Rightarrow>
      (case session_owner d s of None \<Rightarrow> None
       | Some owner \<Rightarrow> Some (history_of d maxDurationMs noSignalTimeoutMs s owner
           (concat (map (history_rows d) (session_intents sid d))))))"

definition session_available :: "session_row \<Rightarrow> snapshot_row \<Rightarrow> string" where
  "session_available s sn = (if s_mode s = Real then sn_realAvailable sn else sn_demoAvailable sn)"

definition session_observed_at :: "session_row \<Rightarrow> snapshot_row \<Rightarrow> int" where
  "session_observed_at s sn =
     (case (if s_mode s = Real then sn_realEventAt sn else sn_demoEventAt sn) of
        None \<Rightarrow> sn_restObservedAt sn | Some t \<Rightarrow> max (sn_restObservedAt sn) t)"

definition awaits_balance :: "'p db \<Rightarrow> int \<Rightarrow> session_row \<Rightarrow> snapshot_row \<Rightarrow> bool" where
  "awaits_balance d waitMs s sn \<longleftrightarrow>
     list_ex (\<lambda>r. i_accountId r = s_accountId s \<and> i_mode r = s_mode s \<and> i_status r = Settled
       \<and> session_observed_at s sn < i_updatedAt r \<and> milliseconds_ago d waitMs \<le> i_updatedAt r) (intents d)"

definition session_snapshot :: "'p db \<Rightarrow> session_row \<Rightarrow> snapshot_row option" where
  "session_snapshot d s = sql_first (\<lambda>sn. sn_accountId sn = s_accountId s) (snapshots d)"

definition balance_of :: "'p db \<Rightarrow> int \<Rightarrow> session_row \<Rightarrow> snapshot_row \<Rightarrow> balance_read" where
  "balance_of d waitMs s sn =
     \<lparr>br_available = session_available s sn, br_minTradeAmount = sn_minTradeAmount sn,
      br_awaitsBalance = awaits_balance d waitMs s sn\<rparr>"

definition read_session_balance :: "nat \<Rightarrow> int \<Rightarrow> 'p db \<Rightarrow> balance_read option" where
  "read_session_balance sid waitMs d =
     Option.bind (sql_first (\<lambda>s. s_id s = sid) (sessions d))
       (\<lambda>s. map_option (balance_of d waitMs s) (session_snapshot d s))"

text \<open>
  \<open>readSessionBatch\<close>: the first statement's rows go into the map with no intents, in the items'
  order; the second statement's rows are appended to their session's history.
\<close>

definition batch_rows :: "(nat \<times> int) list \<Rightarrow> int \<Rightarrow> 'p db \<Rightarrow> (nat \<times> batch_read) list" where
  "batch_rows items maxDurationMs d =
     List.map_filter (\<lambda>(sid, limit).
       Option.bind (sql_first (\<lambda>s. s_id s = sid) (sessions d)) (\<lambda>s.
         map_option (\<lambda>owner. (sid, \<lparr>bt_history = history_of d maxDurationMs limit s owner [],
             bt_balance = map_option (balance_of d limit s) (session_snapshot d s)\<rparr>)) (session_owner d s))) items"

definition push_intent ::
  "nat \<times> history_intent \<Rightarrow> (nat \<rightharpoonup> batch_read) \<Rightarrow> (nat \<rightharpoonup> batch_read)" where
  "push_intent row reads =
     (case reads (fst row) of None \<Rightarrow> reads
      | Some b \<Rightarrow> reads(fst row \<mapsto> b\<lparr>bt_history := (bt_history b)\<lparr>sh_intents := sh_intents (bt_history b) @ [snd row]\<rparr>\<rparr>))"

definition batch_intents :: "nat list \<Rightarrow> 'p db \<Rightarrow> (nat \<times> history_intent) list" where
  "batch_intents ids d =
     concat (map (\<lambda>r. case i_sessionId r of None \<Rightarrow> [] | Some sid \<Rightarrow> map (\<lambda>h. (sid, h)) (history_rows d r))
       (sort_key creation_key (filter (\<lambda>r. case i_sessionId r of None \<Rightarrow> False | Some sid \<Rightarrow> List.member ids sid) (intents d))))"

definition read_session_batch :: "(nat \<times> int) list \<Rightarrow> int \<Rightarrow> 'p db \<Rightarrow> (nat \<rightharpoonup> batch_read)" where
  "read_session_batch items maxDurationMs d =
     (if items = [] then Map.empty
      else let rows = batch_rows items maxDurationMs d in
        if rows = [] then Map.empty
        else fold push_intent (batch_intents (map fst rows) d) (fold (\<lambda>(sid, b) m. m(sid \<mapsto> b)) rows Map.empty))"

section \<open>The summary and the status message\<close>

record 'p summary_trade =
  st_profit :: string
  st_openPrice :: 'p
  st_closePrice :: 'p

record 'p session_summary =
  ss_result :: string
  ss_trades :: "'p summary_trade list"

definition summary_due :: "'p db \<Rightarrow> int \<Rightarrow> session_row \<Rightarrow> bool" where
  "summary_due d telegramUserId s \<longleftrightarrow>
     s_status s = SStopped \<and> s_summarySentAt s = None \<and> s_finalNoticeSentAt s \<noteq> None
     \<and> session_owned_by d telegramUserId s
     \<and> \<not> list_ex (\<lambda>r. i_sessionId r = Some (s_id s) \<and> \<not> List.member TERMINAL_TRADE_INTENT_STATUSES (i_status r)) (intents d)
     \<and> (list_ex (\<lambda>r. i_sessionId r = Some (s_id s) \<and> i_status r = Settled
            \<and> list_ex (\<lambda>t. t_intentId t = Some (i_id r)) (trades d)) (intents d)
        \<or> s_stopReason s = Some NoSignalTimeout)"

text \<open>The settled intents of a session joined to their trades, in creation order.\<close>

definition settled_trades :: "nat \<Rightarrow> 'p db \<Rightarrow> 'p trade_row list" where
  "settled_trades sid d =
     concat (map (\<lambda>r. filter (\<lambda>t. t_intentId t = Some (i_id r)) (trades d))
       (filter (\<lambda>r. i_status r = Settled) (session_intents sid d)))"

fun summary_trades :: "'p trade_row list \<Rightarrow> 'p summary_trade list option" where
  "summary_trades [] = Some []"
| "summary_trades (t # ts) =
     (case (t_profit t, t_closePrice t) of
        (Some p, Some c) \<Rightarrow> map_option ((#) \<lparr>st_profit = p, st_openPrice = t_openPrice t, st_closePrice = c\<rparr>) (summary_trades ts)
      | _ \<Rightarrow> None)"

text \<open>
  The claim. \<open>sum_text\<close> is the database's \<open>sum\<close> over the profit column, as text at the column's scale.
\<close>

definition claim_session_summary ::
  "(string list \<Rightarrow> string) \<Rightarrow> nat \<Rightarrow> int \<Rightarrow> 'p db \<Rightarrow> tx_error + 'p session_summary option \<times> 'p db" where
  "claim_session_summary sum_text sid telegramUserId d =
     (let p = (\<lambda>s. s_id s = sid \<and> summary_due d telegramUserId s) in
      case sql_first p (sessions d) of None \<Rightarrow> Inr (None, d)
      | Some _ \<Rightarrow>
      let d1 = d\<lparr>sessions := sql_update p (\<lambda>s. s\<lparr>s_summarySentAt := Some (now d)\<rparr>) (sessions d)\<rparr>;
          rows = settled_trades sid d1 in
      (case summary_trades rows of
         None \<Rightarrow> Inl (Thrown ''settled intent of session has an open broker trade'')
       | Some ts \<Rightarrow> Inr (Some \<lparr>ss_result = sum_text (List.map_filter t_profit rows), ss_trades = ts\<rparr>, d1)))"

record 'p share_trade =
  sr_action :: trade_action
  sr_profit :: string
  sr_openPrice :: 'p
  sr_closePrice :: 'p

fun share_trades :: "'p trade_row list \<Rightarrow> 'p share_trade list option" where
  "share_trades [] = Some []"
| "share_trades (t # ts) =
     (case (t_profit t, t_closePrice t) of
        (Some p, Some c) \<Rightarrow>
          map_option ((#) \<lparr>sr_action = t_action t, sr_profit = p, sr_openPrice = t_openPrice t, sr_closePrice = c\<rparr>) (share_trades ts)
      | _ \<Rightarrow> None)"

definition read_session_share_trades :: "nat \<Rightarrow> int \<Rightarrow> 'p db \<Rightarrow> tx_error + 'p share_trade list" where
  "read_session_share_trades sid telegramUserId d =
     (case share_trades (if list_ex (\<lambda>s. s_id s = sid \<and> session_owned_by d telegramUserId s) (sessions d)
                    then settled_trades sid d else []) of
        None \<Rightarrow> Inl (Thrown ''settled intent of session has an open broker trade'')
      | Some ts \<Rightarrow> Inr ts)"

definition read_trading_session_account :: "nat \<Rightarrow> int \<Rightarrow> 'p db \<Rightarrow> nat option" where
  "read_trading_session_account sid telegramUserId d =
     map_option s_accountId (sql_first (\<lambda>s. s_id s = sid \<and> session_owned_by d telegramUserId s) (sessions d))"

definition record_session_status_message :: "nat \<Rightarrow> int \<Rightarrow> int \<Rightarrow> 'p db \<Rightarrow> bool \<times> 'p db" where
  "record_session_status_message sid telegramUserId messageId d =
     (let p = (\<lambda>s. s_id s = sid \<and> (case s_statusMessageId s of None \<Rightarrow> True | Some m \<Rightarrow> m < messageId)
            \<and> session_owned_by d telegramUserId s) in
      (list_ex p (sessions d), d\<lparr>sessions := sql_update p (\<lambda>s. s\<lparr>s_statusMessageId := Some messageId\<rparr>) (sessions d)\<rparr>))"

definition forget_session_status_message :: "nat \<Rightarrow> int \<Rightarrow> int \<Rightarrow> 'p db \<Rightarrow> bool \<times> 'p db" where
  "forget_session_status_message sid telegramUserId messageId d =
     (let p = (\<lambda>s. s_id s = sid \<and> s_statusMessageId s = Some messageId \<and> session_owned_by d telegramUserId s) in
      (list_ex p (sessions d), d\<lparr>sessions := sql_update p (\<lambda>s. s\<lparr>s_statusMessageId := None\<rparr>) (sessions d)\<rparr>))"

end
