(* ===== verification/Intents_Inv.thy ===== *)
theory Intents_Inv
  imports Intents
begin

text \<open>
  The invariant of the trading tables between transactions, in one part per table: unique indexes,
  the token caches against the ledger and against the intents' reserves, the ledger rows and the
  broker trades each status implies, the outbox rows. Then how one move of one intent changes each
  part; the preservation by every operation follows in the next theory.
\<close>

section \<open>The parts\<close>

definition ledger_sum :: "(ledger_row \<Rightarrow> int) \<Rightarrow> nat \<Rightarrow> ledger_row list \<Rightarrow> int" where
  "ledger_sum f u led = sum_list (map (\<lambda>l. if l_userId l = u then f l else 0) led)"

definition held :: "nat \<Rightarrow> intent_row list \<Rightarrow> int" where
  "held u ints = sum_list (map (\<lambda>r. if i_userId r = u then i_tokensReserved r else 0) ints)"

definition user_row_ok :: "intent_row list \<Rightarrow> ledger_row list \<Rightarrow> user_row \<Rightarrow> bool" where
  "user_row_ok ints led u \<longleftrightarrow>
     ledger_sum l_balanceDelta (u_id u) led = u_tokenBalance u
     \<and> ledger_sum l_reservedDelta (u_id u) led = u_tokenReserved u
     \<and> held (u_id u) ints = u_tokenReserved u \<and> u_tokenReserved u \<le> u_tokenBalance u"

definition users_part :: "user_row list \<Rightarrow> intent_row list \<Rightarrow> ledger_row list \<Rightarrow> bool" where
  "users_part us ints led \<longleftrightarrow>
     unique_on (\<lambda>u. Some (u_id u)) us \<and> unique_on (\<lambda>u. Some (u_telegramUserId u)) us
     \<and> (\<forall>u \<in> set us. user_row_ok ints led u)"

definition accounts_part :: "account_row list \<Rightarrow> bool" where
  "accounts_part accs \<longleftrightarrow> unique_on (\<lambda>a. Some (a_id a)) accs \<and> unique_on (\<lambda>a. Some (a_brokerUserId a)) accs
     \<and> (\<forall>a \<in> set accs. a_tradingHalted a = (a_haltedReason a \<noteq> None))"

definition session_row_ok :: "account_row list \<Rightarrow> nat \<Rightarrow> session_row \<Rightarrow> bool" where
  "session_row_ok accs nid s \<longleftrightarrow> s_id s < nid \<and> (\<exists>a \<in> set accs. a_id a = s_accountId s)
     \<and> (s_stopReason s \<noteq> None) = (s_status s = SStopped) \<and> (s_endedAt s \<noteq> None) = (s_status s = SStopped)"

definition sessions_part :: "account_row list \<Rightarrow> session_row list \<Rightarrow> nat \<Rightarrow> bool" where
  "sessions_part accs ss nid \<longleftrightarrow>
     unique_on (\<lambda>s. Some (s_id s)) ss \<and> unique_on active_session_key ss
     \<and> (\<forall>s \<in> set ss. session_row_ok accs nid s)"

text \<open>What a committed intent holds: its one token exactly while it is not terminal.\<close>

definition tokens_of :: "intent_status \<Rightarrow> int" where
  "tokens_of st = (if terminal st then 0 else TOKENS_PER_INTENT)"

definition intent_row_ok :: "user_row list \<Rightarrow> account_row list \<Rightarrow> session_row list \<Rightarrow> nat \<Rightarrow> intent_row \<Rightarrow> bool" where
  "intent_row_ok us accs ss nid r \<longleftrightarrow>
     i_id r < nid \<and> i_status r \<noteq> Planned \<and> i_status r \<noteq> Reserved
     \<and> i_tokensReserved r = tokens_of (i_status r)
     \<and> (i_status r = Submitting \<longrightarrow> i_submittedAt r \<noteq> None)
     \<and> (\<exists>u \<in> set us. u_id u = i_userId r)
     \<and> (\<exists>a \<in> set accs. a_id a = i_accountId r \<and> a_userId a = i_userId r)
     \<and> (\<forall>s. i_sessionId r = Some s \<longrightarrow>
          (\<exists>sr \<in> set ss. s_id sr = s \<and> s_accountId sr = i_accountId r \<and> s_mode sr = i_mode r))"

definition intents_part ::
  "user_row list \<Rightarrow> account_row list \<Rightarrow> session_row list \<Rightarrow> intent_row list \<Rightarrow> nat \<Rightarrow> bool" where
  "intents_part us accs ss ints nid \<longleftrightarrow>
     unique_on (\<lambda>r. Some (i_id r)) ints \<and> unique_on user_request_key ints \<and> unique_on active_account_key ints
     \<and> (\<forall>r \<in> set ints. intent_row_ok us accs ss nid r)"

text \<open>The ledger rows of an intent, by its status.\<close>

definition kinds_of :: "nat \<Rightarrow> ledger_row list \<Rightarrow> ledger_kind list" where
  "kinds_of iid led = map l_kind (filter (\<lambda>l. l_intentId l = Some iid) led)"

definition ledger_kinds :: "intent_status \<Rightarrow> ledger_kind list" where
  "ledger_kinds st = (if st = Settled then [LReserve, LSettle] else if st = Rejected then [LReserve, LRelease] else [LReserve])"

definition ledger_part :: "intent_row list \<Rightarrow> ledger_row list \<Rightarrow> bool" where
  "ledger_part ints led \<longleftrightarrow>
     (\<forall>l \<in> set led. \<forall>iid. l_intentId l = Some iid \<longrightarrow> (\<exists>r \<in> set ints. i_id r = iid \<and> i_userId r = l_userId l))
     \<and> (\<forall>l \<in> set led. (l_kind l = LReserve \<or> l_kind l = LRelease \<or> l_kind l = LSettle) = (l_intentId l \<noteq> None))
     \<and> (\<forall>r \<in> set ints. kinds_of (i_id r) led = ledger_kinds (i_status r))"

text \<open>The broker trades linked to an intent, by its status.\<close>

definition links_of :: "nat \<Rightarrow> 'p trade_row list \<Rightarrow> trade_status list" where
  "links_of iid trs = map t_status (filter (\<lambda>t. t_intentId t = Some iid) trs)"

definition link_statuses :: "intent_status \<Rightarrow> trade_status list" where
  "link_statuses st = (if st = Accepted then [TOpen] else if st = Settled then [TClosed] else [])"

definition trade_row_ok :: "intent_row list \<Rightarrow> nat \<Rightarrow> 'p trade_row \<Rightarrow> bool" where
  "trade_row_ok ints nid t \<longleftrightarrow>
     t_id t < nid
     \<and> (\<forall>iid. t_intentId t = Some iid \<longrightarrow>
          (\<exists>r \<in> set ints. i_id r = iid \<and> i_accountId r = t_accountId t \<and> i_mode r = t_mode t))
     \<and> (t_closePrice t \<noteq> None) = (t_status t = TClosed) \<and> (t_closeTimestampMs t \<noteq> None) = (t_status t = TClosed)
     \<and> (t_profit t \<noteq> None) = (t_status t = TClosed)"

definition trades_part :: "intent_row list \<Rightarrow> 'p trade_row list \<Rightarrow> nat \<Rightarrow> bool" where
  "trades_part ints trs nid \<longleftrightarrow>
     unique_on (\<lambda>t. Some (t_id t)) trs \<and> unique_on account_trade_key trs
     \<and> (\<forall>t \<in> set trs. trade_row_ok ints nid t)
     \<and> (\<forall>r \<in> set ints. links_of (i_id r) trs = link_statuses (i_status r))"

text \<open>The outbox rows of an intent: one for its creation, one more from the moment it is unknown.\<close>

definition topics_of :: "nat \<Rightarrow> outbox_row list \<Rightarrow> outbox_topic list" where
  "topics_of iid obx = map o_topic (filter (\<lambda>r. o_intentId r = iid) obx)"

definition topics_ok :: "intent_status \<Rightarrow> outbox_topic list \<Rightarrow> bool" where
  "topics_ok st ts \<longleftrightarrow>
     (if st = Unknown \<or> st = Reconciling \<or> st = ManualReview then ts = [TradingIntents, TradingReconciliation]
      else if st = Queued \<or> st = Submitting then ts = [TradingIntents]
      else ts = [TradingIntents] \<or> ts = [TradingIntents, TradingReconciliation])"

definition outbox_part :: "intent_row list \<Rightarrow> outbox_row list \<Rightarrow> nat \<Rightarrow> bool" where
  "outbox_part ints obx nid \<longleftrightarrow>
     unique_on (\<lambda>r. Some (o_id r)) obx
     \<and> (\<forall>o_row \<in> set obx. o_id o_row < nid \<and> o_payload o_row = o_intentId o_row
          \<and> (\<exists>r \<in> set ints. i_id r = o_intentId o_row))
     \<and> (\<forall>r \<in> set ints. topics_ok (i_status r) (topics_of (i_id r) obx))"

text \<open>Who owns what, over the ids alone: users, accounts with their owners, the ledger's users.\<close>

definition people_part :: "nat list \<Rightarrow> (nat \<times> nat) list \<Rightarrow> nat list \<Rightarrow> nat \<Rightarrow> bool" where
  "people_part us accs led nid \<longleftrightarrow>
     (\<forall>u \<in> set us. u < nid) \<and> (\<forall>a \<in> set accs. fst a < nid \<and> snd a \<in> set us) \<and> set led \<subseteq> set us"

abbreviation people_of :: "'p db \<Rightarrow> nat \<Rightarrow> bool" where
  "people_of d nid \<equiv> people_part (map u_id (users d)) (map (\<lambda>a. (a_id a, a_userId a)) (accounts d)) (map l_userId (token_ledger d)) nid"

lemma people_part_mono: "people_part us accs led nid \<Longrightarrow> nid \<le> nid' \<Longrightarrow> people_part us accs led nid'"
  unfolding people_part_def by fastforce

lemma people_part_Suc [simp]: "people_part us accs led nid \<Longrightarrow> people_part us accs led (Suc nid)"
  "people_part us accs led nid \<Longrightarrow> people_part us accs led (nid + k)"
  by (rule people_part_mono, simp, simp)+

lemma people_part_ledger: "people_part us accs (led @ [u]) nid \<longleftrightarrow> people_part us accs led nid \<and> u \<in> set us"
  by (auto simp: people_part_def)

definition db_ok :: "'p db \<Rightarrow> bool" where
  "db_ok d \<longleftrightarrow>
     users_part (users d) (intents d) (token_ledger d)
     \<and> accounts_part (accounts d)
     \<and> sessions_part (accounts d) (sessions d) (next_id d)
     \<and> intents_part (users d) (accounts d) (sessions d) (intents d) (next_id d)
     \<and> ledger_part (intents d) (token_ledger d)
     \<and> trades_part (intents d) (trades d) (next_id d)
     \<and> outbox_part (intents d) (outbox d) (next_id d)
     \<and> people_of d (next_id d)"

section \<open>Replacing one row\<close>

definition put :: "intent_row \<Rightarrow> intent_row list \<Rightarrow> intent_row list" where
  "put row ints = sql_update (\<lambda>x. i_id x = i_id row) (\<lambda>_. row) ints"

abbreviation unique_ids :: "intent_row list \<Rightarrow> bool" where
  "unique_ids ints \<equiv> unique_on (\<lambda>r. Some (i_id r)) ints"

lemma unique_ids_eq: "unique_ids ints \<Longrightarrow> r \<in> set ints \<Longrightarrow> x \<in> set ints \<Longrightarrow> i_id x = i_id r \<Longrightarrow> x = r"
  by (rule unique_on_same [where key = "\<lambda>r. Some (i_id r)"]) auto

lemma set_put:
  assumes "unique_ids ints" "r \<in> set ints" "i_id row = i_id r"
  shows "set (put row ints) = insert row (set ints - {r})"
proof -
  have "i_id x = i_id row \<longleftrightarrow> x = r" if "x \<in> set ints" for x
    using unique_ids_eq [OF assms(1,2) that] assms(3) by auto
  then have "put row ints = map (\<lambda>x. if x = r then row else x) ints"
    unfolding put_def sql_update_def by (intro map_cong refl) simp
  then have "set (put row ints) = (\<lambda>x. if x = r then row else x) ` set ints" by simp
  also have "\<dots> = insert row (set ints - {r})" using assms(2) by auto
  finally show ?thesis .
qed

lemma in_put:
  assumes "unique_ids ints" "r \<in> set ints" "i_id row = i_id r" "x \<in> set ints"
  shows "\<exists>y \<in> set (put row ints). i_id y = i_id x \<and> (x \<noteq> r \<longrightarrow> y = x) \<and> (x = r \<longrightarrow> y = row)"
  using assms by (cases "x = r") (auto simp: set_put)

lemma ball_put:
  "unique_ids ints \<Longrightarrow> r \<in> set ints \<Longrightarrow> i_id row = i_id r \<Longrightarrow>
     (\<forall>x \<in> set (put row ints). P x) \<longleftrightarrow> P row \<and> (\<forall>x \<in> set ints. x \<noteq> r \<longrightarrow> P x)"
  by (auto simp: set_put)

text \<open>The update of a CAS is a put of the one row it found.\<close>

lemma cas_update_put:
  assumes "unique_ids ints" "r \<in> set ints" "p r" "\<And>x. p x \<Longrightarrow> i_id x = i_id r" "i_id (f r) = i_id r"
  shows "sql_update p f ints = put (f r) ints"
proof -
  have "p x \<longleftrightarrow> x = r" "i_id x = i_id (f r) \<longleftrightarrow> x = r" if "x \<in> set ints" for x
    using unique_ids_eq [OF assms(1,2) that] assms(3,5) assms(4) [of x] by metis+
  then show ?thesis unfolding sql_update_def put_def by (intro map_cong refl) simp
qed

lemma put_unique_on:
  assumes "unique_on key ints" "unique_ids ints" "r \<in> set ints" "i_id row = i_id r" "key row = key r \<or> key row = None"
  shows "unique_on key (put row ints)"
  unfolding put_def using assms unique_ids_eq [OF assms(2,3)] by (intro unique_on_update) auto

lemma held_put:
  assumes "unique_ids ints" "r \<in> set ints" "i_id row = i_id r" "i_userId row = i_userId r"
  shows "held u (put row ints) = held u ints + (if i_userId r = u then i_tokensReserved row - i_tokensReserved r else 0)"
  unfolding held_def put_def
  using sum_update [OF assms(1,2), of "\<lambda>x. i_id x = i_id row" "i_id r"
      "\<lambda>r. if i_userId r = u then i_tokensReserved r else 0" "\<lambda>_. row"] assms(3,4) by auto

lemma held_append: "held u (ints @ [r]) = held u ints + (if i_userId r = u then i_tokensReserved r else 0)"
  by (simp add: held_def)

lemma ledger_sum_append: "ledger_sum f u (led @ [l]) = ledger_sum f u led + (if l_userId l = u then f l else 0)"
  by (simp add: ledger_sum_def)

lemma kinds_of_append: "kinds_of iid (led @ [l]) = kinds_of iid led @ (if l_intentId l = Some iid then [l_kind l] else [])"
  by (simp add: kinds_of_def)

lemma links_of_append: "links_of iid (trs @ [t]) = links_of iid trs @ (if t_intentId t = Some iid then [t_status t] else [])"
  by (simp add: links_of_def)

lemma topics_of_append: "topics_of iid (obx @ [r]) = topics_of iid obx @ (if o_intentId r = iid then [o_topic r] else [])"
  by (simp add: topics_of_def)

section \<open>One move of one intent\<close>

text \<open>
  A move keeps what identifies an intent and changes its status along an edge; \<open>stays\<close> is the same
  with the status unchanged (the reconciliation lease).
\<close>

definition same_intent :: "intent_row \<Rightarrow> intent_row \<Rightarrow> bool" where
  "same_intent r row \<longleftrightarrow> i_id row = i_id r \<and> i_accountId row = i_accountId r \<and> i_userId row = i_userId r
     \<and> i_sessionId row = i_sessionId r \<and> i_mode row = i_mode r \<and> i_clientRequestId row = i_clientRequestId r"

definition moves :: "intent_row \<Rightarrow> intent_row \<Rightarrow> bool" where
  "moves r row \<longleftrightarrow> same_intent r row \<and> i_tokensReserved row = tokens_of (i_status row)
     \<and> (can_transition (i_status r) (i_status row) \<or> i_status row = i_status r)
     \<and> (i_status row = Submitting \<longrightarrow> i_submittedAt row \<noteq> None)"

named_theorems parts
declare users_part_def [parts] accounts_part_def [parts] sessions_part_def [parts] intents_part_def [parts]
  ledger_part_def [parts] trades_part_def [parts] outbox_part_def [parts]

lemma moves_status: "moves r row \<Longrightarrow> i_status r \<noteq> Planned \<Longrightarrow> i_status r \<noteq> Reserved \<Longrightarrow>
    i_status row \<noteq> Planned \<and> i_status row \<noteq> Reserved"
  by (cases "i_status r") (auto simp: moves_def)

lemma moves_terminal: "moves r row \<Longrightarrow> terminal (i_status r) \<Longrightarrow> terminal (i_status row)"
  by (auto simp: moves_def)

lemma intents_part_put:
  assumes "intents_part us accs ss ints nid" "r \<in> set ints" "moves r row"
  shows "intents_part us accs ss (put row ints) nid"
proof -
  have u: "unique_ids ints" and ok: "intent_row_ok us accs ss nid r"
    and oks: "\<forall>x \<in> set ints. intent_row_ok us accs ss nid x" using assms(1,2) by (auto simp: intents_part_def)
  have s: "same_intent r row" and id: "i_id row = i_id r" using assms(3) by (auto simp: moves_def same_intent_def)
  have "intent_row_ok us accs ss nid row"
    using ok s assms(3) moves_status [OF assms(3)] by (simp add: intent_row_ok_def same_intent_def moves_def)
  then have "\<forall>x \<in> set (put row ints). intent_row_ok us accs ss nid x"
    using oks by (simp add: ball_put [OF u assms(2) id])
  moreover have "active_account_key row = active_account_key r \<or> active_account_key row = None"
    using s moves_terminal [OF assms(3)] by (auto simp: active_account_key_def same_intent_def)
  ultimately show ?thesis
    using assms(1) s
      put_unique_on [OF _ u assms(2) id, of "\<lambda>r. Some (i_id r)"] put_unique_on [OF _ u assms(2) id, of user_request_key]
      put_unique_on [OF _ u assms(2) id, of active_account_key]
    by (auto simp: intents_part_def user_request_key_def same_intent_def)
qed

lemma users_part_put_same:
  assumes "users_part us ints led" "unique_ids ints" "r \<in> set ints" "same_intent r row"
    "i_tokensReserved row = i_tokensReserved r"
  shows "users_part us (put row ints) led"
  using assms held_put [OF assms(2,3)] by (auto simp: users_part_def user_row_ok_def same_intent_def)

text \<open>The rows of other tables that name an intent still find it.\<close>

lemma put_owner:
  assumes "unique_ids ints" "r \<in> set ints" "same_intent r row" "\<exists>x \<in> set ints. i_id x = iid \<and> P x" "P r \<Longrightarrow> P row"
  shows "\<exists>x \<in> set (put row ints). i_id x = iid \<and> P x"
proof -
  obtain x where x: "x \<in> set ints" "i_id x = iid" "P x" using assms(4) by blast
  obtain y where y: "y \<in> set (put row ints)" "i_id y = i_id x" "x \<noteq> r \<longrightarrow> y = x" "x = r \<longrightarrow> y = row"
    using in_put [OF assms(1,2) _ x(1)] assms(3) by (auto simp: same_intent_def)
  then have "P y" using x(3) assms(5) by (cases "x = r") auto
  then show ?thesis using y x(2) by auto
qed

lemma ledger_part_put_append:
  assumes "ledger_part ints led" "unique_ids ints" "r \<in> set ints" "same_intent r row"
    "\<forall>l \<in> set new. l_intentId l = Some (i_id r) \<and> l_userId l = i_userId r \<and> (l_kind l = LRelease \<or> l_kind l = LSettle)"
    "ledger_kinds (i_status row) = ledger_kinds (i_status r) @ map l_kind new"
  shows "ledger_part (put row ints) (led @ new)"
proof -
  have id: "i_id row = i_id r" and us: "i_userId row = i_userId r" using assms(4) by (auto simp: same_intent_def)
  have owner: "\<exists>x \<in> set (put row ints). i_id x = iid \<and> i_userId x = u"
    if "\<exists>x \<in> set ints. i_id x = iid \<and> i_userId x = u" for iid u
    using put_owner [OF assms(2-4) that] us by simp
  have "\<forall>l \<in> set (led @ new). \<forall>iid. l_intentId l = Some iid \<longrightarrow>
      (\<exists>x \<in> set (put row ints). i_id x = iid \<and> i_userId x = l_userId l)"
  proof (intro ballI allI impI)
    fix l iid assume l: "l \<in> set (led @ new)" "l_intentId l = Some iid"
    have "\<exists>x \<in> set ints. i_id x = iid \<and> i_userId x = l_userId l"
      using l assms(1,3,5) unfolding ledger_part_def by (cases "l \<in> set led") auto
    then show "\<exists>x \<in> set (put row ints). i_id x = iid \<and> i_userId x = l_userId l" by (rule owner)
  qed
  moreover have "kinds_of (i_id row) (led @ new) = ledger_kinds (i_status row)"
    using assms(1,3,5,6) id by (simp add: ledger_part_def kinds_of_def)
  moreover have "kinds_of (i_id x) (led @ new) = ledger_kinds (i_status x)" if "x \<in> set ints" "x \<noteq> r" for x
  proof -
    have "i_id x \<noteq> i_id r" using that unique_ids_eq [OF assms(2,3)] by auto
    then have "filter (\<lambda>l. l_intentId l = Some (i_id x)) new = []" using assms(5) by (auto simp: filter_empty_conv)
    then show ?thesis using assms(1) that by (simp add: ledger_part_def kinds_of_def)
  qed
  ultimately show ?thesis
    using assms(1,5) unfolding ledger_part_def ball_put [OF assms(2,3) id] by auto
qed

lemma ledger_part_put:
  assumes "ledger_part ints led" "unique_ids ints" "r \<in> set ints" "same_intent r row"
    "ledger_kinds (i_status row) = ledger_kinds (i_status r)"
  shows "ledger_part (put row ints) led"
  using ledger_part_put_append [OF assms(1-4), of "[]"] assms(5) by simp

lemma trade_row_ok_put:
  assumes "unique_ids ints" "r \<in> set ints" "same_intent r row" "trade_row_ok ints nid t"
  shows "trade_row_ok (put row ints) nid t"
proof -
  have "\<exists>x \<in> set (put row ints). i_id x = iid \<and> (i_accountId x = t_accountId t \<and> i_mode x = t_mode t)"
    if "t_intentId t = Some iid" for iid
    using assms that by (intro put_owner [OF assms(1-3)]) (auto simp: trade_row_ok_def same_intent_def)
  then show ?thesis using assms(4) unfolding trade_row_ok_def by blast
qed

lemma trades_part_put:
  assumes "trades_part ints trs nid" "unique_ids ints" "r \<in> set ints" "same_intent r row"
    "link_statuses (i_status row) = link_statuses (i_status r)"
  shows "trades_part (put row ints) trs nid"
  using assms trade_row_ok_put [OF assms(2-4)] ball_put [OF assms(2,3), of row]
  unfolding trades_part_def by (auto simp: same_intent_def)

lemma outbox_part_put:
  assumes "outbox_part ints obx nid" "unique_ids ints" "r \<in> set ints" "same_intent r row"
    "topics_ok (i_status row) (topics_of (i_id r) obx)"
  shows "outbox_part (put row ints) obx nid"
proof -
  have "\<exists>x \<in> set (put row ints). i_id x = o_intentId w" if "w \<in> set obx" for w
    using put_owner [OF assms(2-4), of "o_intentId w" "\<lambda>_. True"] assms(1) that by (auto simp: outbox_part_def)
  then show ?thesis
    using assms ball_put [OF assms(2,3), of row] unfolding outbox_part_def by (auto simp: same_intent_def)
qed

end
