(* ===== verification/Intents_Safe.thy ===== *)
theory Intents_Safe
  imports Intents_Inv
begin

text \<open>
  Every operation on trade intents keeps the invariant, and the errors each can throw on a state
  where it holds: the database's own refusals (unique indexes, the token caches' guards) never
  surface.
\<close>

section \<open>The transition\<close>

lemma transition_Some:
  assumes "unique_ids (intents d)" "transition_intent iid a b ex patch whr d = Inr (Some row, d1)" "\<And>r. i_id (patch r) = i_id r"
  obtains r ns where "r \<in> set (intents d)" "cas_matches iid a ex whr r" "can_transition a b"
    "row = moved_to b (now d) patch r" "d1 = d\<lparr>intents := put row (intents d), notices := ns\<rparr>"
proof -
  let ?p = "cas_matches iid a ex whr" and ?f = "moved_to b (now d) patch"
  from assms(2) obtain r where r: "sql_first ?p (intents d) = Some r" "row = ?f r" and can: "can_transition a b"
    by (auto simp: transition_intent_def Let_def split: if_splits option.splits)
  have ns: "d1 = d\<lparr>intents := sql_update ?p ?f (intents d), notices := notices d1\<rparr>"
    using assms(2) r can by (auto simp: transition_intent_def Let_def split: if_splits option.splits)
  have m: "r \<in> set (intents d) \<and> ?p r" using r(1) by (rule sql_first_Some)
  have "sql_update ?p ?f (intents d) = put row (intents d)"
    unfolding r(2) using m assms(3) by (intro cas_update_put [OF assms(1)]) (auto simp: cas_matches_def moved_to_def)
  then show ?thesis using that [of r "notices d1"] m can r(2) ns by simp
qed

lemma transition_None:
  "transition_intent iid a b ex patch whr d = Inr (None, d1) \<Longrightarrow>
     d1 = d \<and> (\<forall>r \<in> set (intents d). \<not> cas_matches iid a ex whr r)"
  by (auto simp: transition_intent_def Let_def sql_first_None split: if_splits option.splits)

lemma transition_Inl: "can_transition a b \<Longrightarrow> transition_intent iid a b ex patch whr d \<noteq> Inl e"
  by (auto simp: transition_intent_def Let_def split: option.splits)

lemma transition_ok:
  assumes "unique_ids (intents d)" "r \<in> set (intents d)" "cas_matches iid a ex whr r" "can_transition a b" "\<And>r. i_id (patch r) = i_id r"
  shows "\<exists>ns. transition_intent iid a b ex patch whr d =
    Inr (Some (moved_to b (now d) patch r), d\<lparr>intents := put (moved_to b (now d) patch r) (intents d), notices := ns\<rparr>)"
proof (cases "transition_intent iid a b ex patch whr d")
  case (Inl e)
  then show ?thesis using transition_Inl [OF assms(4)] by blast
next
  case (Inr q)
  obtain o_row d1 where q: "q = (o_row, d1)" by (cases q)
  show ?thesis
  proof (cases o_row)
    case None
    then show ?thesis using transition_None [of iid a b ex patch whr d d1] Inr q assms(2,3) by auto
  next
    case (Some row)
    with Inr q have t: "transition_intent iid a b ex patch whr d = Inr (Some row, d1)" by simp
    from transition_Some [OF assms(1) t assms(5)] obtain r' ns where r': "r' \<in> set (intents d)" "cas_matches iid a ex whr r'"
      "row = moved_to b (now d) patch r'" "d1 = d\<lparr>intents := put row (intents d), notices := ns\<rparr>" by metis
    then have "r' = r" using unique_ids_eq [OF assms(1) assms(2) r'(1)] assms(3) by (simp add: cas_matches_def)
    then show ?thesis using t r' by auto
  qed
qed

lemma find_intent_Some: "find_intent_row iid d = Some r \<Longrightarrow> r \<in> set (intents d) \<and> i_id r = iid"
  unfolding find_intent_row_def by (drule sql_first_Some) simp

lemma find_intent_unique:
  "unique_ids (intents d) \<Longrightarrow> r \<in> set (intents d) \<Longrightarrow> find_intent_row (i_id r) d = Some r"
  unfolding find_intent_row_def by (rule sql_first_unique [where key = "\<lambda>r. Some (i_id r)"]) auto

section \<open>A move that leaves the tokens alone\<close>

lemma db_ok_unique: "db_ok d \<Longrightarrow> unique_ids (intents d)"
  by (simp add: db_ok_def intents_part_def)

lemma db_ok_row: "db_ok d \<Longrightarrow> r \<in> set (intents d) \<Longrightarrow> intent_row_ok (users d) (accounts d) (sessions d) (next_id d) r"
  by (simp add: db_ok_def intents_part_def)

lemma db_ok_topics: "db_ok d \<Longrightarrow> r \<in> set (intents d) \<Longrightarrow> topics_ok (i_status r) (topics_of (i_id r) (outbox d))"
  by (simp add: db_ok_def outbox_part_def)

lemma db_ok_links: "db_ok d \<Longrightarrow> r \<in> set (intents d) \<Longrightarrow> links_of (i_id r) (trades d) = link_statuses (i_status r)"
  by (simp add: db_ok_def trades_part_def)

lemma live_tokens: "intent_row_ok us accs ss nid r \<Longrightarrow> \<not> terminal (i_status r) \<Longrightarrow> i_tokensReserved r = TOKENS_PER_INTENT"
  by (simp add: intent_row_ok_def tokens_of_def)

lemma db_ok_move:
  assumes ok: "db_ok d" and r: "r \<in> set (intents d)" and m: "moves r row"
    and live: "\<not> terminal (i_status r)" "\<not> terminal (i_status row)"
    and links: "link_statuses (i_status row) = link_statuses (i_status r)"
    and topics: "topics_ok (i_status row) (topics_of (i_id r) (outbox d))"
  shows "db_ok (d\<lparr>intents := put row (intents d), notices := ns\<rparr>)"
proof -
  have u: "unique_ids (intents d)" using ok by (rule db_ok_unique)
  have s: "same_intent r row" using m by (simp add: moves_def)
  have "i_tokensReserved row = i_tokensReserved r"
    using m live live_tokens [OF db_ok_row [OF ok r]] by (simp add: moves_def tokens_of_def)
  moreover have "ledger_kinds (i_status row) = ledger_kinds (i_status r)"
    using live by (simp add: ledger_kinds_def)
  ultimately show ?thesis
    using ok intents_part_put [OF _ r m] users_part_put_same [OF _ u r s] ledger_part_put [OF _ u r s]
      outbox_part_put [OF _ u r s topics]
    by (simp add: db_ok_def trades_part_put [OF _ u r s links])
qed

section \<open>Tokens leaving the reserve\<close>

lemma held_nonneg: "\<forall>r \<in> set ints. 0 \<le> i_tokensReserved r \<Longrightarrow> 0 \<le> held u ints"
  unfolding held_def by (rule sum_list_int_nonneg) simp

lemma held_member:
  "\<forall>r \<in> set ints. 0 \<le> i_tokensReserved r \<Longrightarrow> r \<in> set ints \<Longrightarrow> i_tokensReserved r \<le> held (i_userId r) ints"
  unfolding held_def
  using sum_list_int_member [of ints "\<lambda>x. if i_userId x = i_userId r then i_tokensReserved x else 0" r] by simp

lemma tokens_of_nonneg: "0 \<le> tokens_of st"
  by (simp add: tokens_of_def TOKENS_PER_INTENT_def)

lemma db_ok_tokens_nonneg: "db_ok d \<Longrightarrow> \<forall>r \<in> set (intents d). 0 \<le> i_tokensReserved r"
proof
  fix r assume "db_ok d" "r \<in> set (intents d)"
  then have "i_tokensReserved r = tokens_of (i_status r)" using db_ok_row by (auto simp: intent_row_ok_def)
  then show "0 \<le> i_tokensReserved r" by (simp only: tokens_of_nonneg)
qed

lemma users_part_finish:
  assumes "users_part us ints led" "unique_ids ints" "r \<in> set ints" "same_intent r row"
    "i_tokensReserved r = n" "i_tokensReserved row = 0" "l_userId l = i_userId r" "l_reservedDelta l = - n"
    "l_balanceDelta l = - b" "b \<le> n"
    "\<And>u. u \<in> set us \<Longrightarrow> p u \<longleftrightarrow> u_id u = i_userId r"
  shows "users_part (sql_update p (\<lambda>u. u\<lparr>u_tokenBalance := u_tokenBalance u - b, u_tokenReserved := u_tokenReserved u - n\<rparr>) us)
    (put row ints) (led @ [l])"
proof -
  let ?f = "\<lambda>u. u\<lparr>u_tokenBalance := u_tokenBalance u - b, u_tokenReserved := u_tokenReserved u - n\<rparr>"
  have id: "i_id row = i_id r" "i_userId row = i_userId r" using assms(4) by (auto simp: same_intent_def)
  have up: "sql_update p ?f us = map (\<lambda>u. if u_id u = i_userId r then ?f u else u) us"
    unfolding sql_update_def using assms(11) by (intro map_cong refl) simp
  have "unique_on (\<lambda>u. Some (u_id u)) (sql_update p ?f us)" "unique_on (\<lambda>u. Some (u_telegramUserId u)) (sql_update p ?f us)"
    using assms(1) by (auto simp: users_part_def intro!: unique_on_update)
  moreover have "\<forall>x \<in> set (sql_update p ?f us). user_row_ok (put row ints) (led @ [l]) x"
    unfolding up
  proof
    fix x assume "x \<in> set (map (\<lambda>u. if u_id u = i_userId r then ?f u else u) us)"
    then obtain u where u: "u \<in> set us" "x = (if u_id u = i_userId r then ?f u else u)" by auto
    have ok: "user_row_ok ints led u" using assms(1) u(1) by (simp add: users_part_def)
    have "held (u_id u) (put row ints) = held (u_id u) ints + (if u_id u = i_userId r then - n else 0)"
      using assms(5,6) held_put [OF assms(2,3) id, of "u_id u"] by simp
    then show "user_row_ok (put row ints) (led @ [l]) x"
      using ok assms(7-10) by (cases "u_id u = i_userId r") (simp_all add: user_row_ok_def u(2) ledger_sum_append)
  qed
  ultimately show ?thesis by (simp add: users_part_def)
qed

lemma intents_part_users:
  assumes "intents_part us accs ss ints nid" "\<And>i. \<exists>u \<in> set us. u_id u = i \<Longrightarrow> \<exists>u \<in> set us'. u_id u = i"
  shows "intents_part us' accs ss ints nid"
  using assms by (simp add: intents_part_def intent_row_ok_def)

lemma update_user_ids: "(\<exists>u \<in> set us. u_id u = i) \<Longrightarrow> (\<And>u. u_id (f u) = u_id u) \<Longrightarrow> \<exists>u \<in> set (sql_update p f us). u_id u = i"
  by (auto simp: bex_sql_update)

text \<open>The key of a release or settle row is free while the intent is live.\<close>

lemma terminal_key_free:
  assumes "ledger_part ints led" "r \<in> set ints" "\<not> terminal (i_status r)" "l_intentId l = Some (i_id r)"
    "l_kind l = LRelease \<or> l_kind l = LSettle"
  shows "\<not> key_conflict reserve_intent_key l led" "\<not> key_conflict terminal_intent_key l led"
proof -
  show "\<not> key_conflict reserve_intent_key l led"
    using assms(5) by (auto simp: key_conflict_def reserve_intent_key_def)
  show "\<not> key_conflict terminal_intent_key l led"
  proof
    assume "key_conflict terminal_intent_key l led"
    then obtain m where m: "m \<in> set led" "l_intentId m = Some (i_id r)" "l_kind m = LRelease \<or> l_kind m = LSettle"
      using assms(4,5) by (auto simp: key_conflict_iff terminal_intent_key_def split: if_splits)
    have "kinds_of (i_id r) led = [LReserve]" using assms(1-3) by (simp add: ledger_part_def ledger_kinds_def)
    moreover have "l_kind m \<in> set (kinds_of (i_id r) led)" using m(1,2) by (simp add: kinds_of_def)
    ultimately show False using m(3) by auto
  qed
qed

text \<open>
  The state after an intent has left the live statuses and its token the reserve: the common end of
  a rejection (\<open>b = 0\<close>, a release row) and a settlement (\<open>b = n\<close>, a settle row).
\<close>

lemma finish_ok:
  assumes ok: "db_ok d" and r: "r \<in> set (intents d)" and m: "moves r row"
    and live: "\<not> terminal (i_status r)" "terminal (i_status row)"
    and l: "l_userId l = i_userId r" "l_intentId l = Some (i_id r)" "l_reservedDelta l = - i_tokensReserved r"
      "l_balanceDelta l = - b" "b \<le> i_tokensReserved r"
      "l_kind l = (if i_status row = Settled then LSettle else LRelease)"
    and p: "\<And>u. u \<in> set (users d) \<Longrightarrow> p u \<longleftrightarrow> u_id u = i_userId r"
  shows "users_part (sql_update p (\<lambda>u. u\<lparr>u_tokenBalance := u_tokenBalance u - b,
        u_tokenReserved := u_tokenReserved u - i_tokensReserved r\<rparr>) (users d)) (put row (intents d)) (token_ledger d @ [l])"
    "intents_part (sql_update p (\<lambda>u. u\<lparr>u_tokenBalance := u_tokenBalance u - b,
        u_tokenReserved := u_tokenReserved u - i_tokensReserved r\<rparr>) (users d)) (accounts d) (sessions d) (put row (intents d)) (next_id d)"
    "ledger_part (put row (intents d)) (token_ledger d @ [l])"
    "outbox_part (put row (intents d)) (outbox d) (next_id d)"
proof -
  have u: "unique_ids (intents d)" using ok by (rule db_ok_unique)
  have s: "same_intent r row" using m by (simp add: moves_def)
  have z: "i_tokensReserved row = 0" using m live(2) by (simp add: moves_def tokens_of_def)
  show "users_part (sql_update p (\<lambda>u. u\<lparr>u_tokenBalance := u_tokenBalance u - b,
        u_tokenReserved := u_tokenReserved u - i_tokensReserved r\<rparr>) (users d)) (put row (intents d)) (token_ledger d @ [l])"
    using ok l p by (intro users_part_finish [OF _ u r s refl z]) (auto simp: db_ok_def)
  have "intents_part (users d) (accounts d) (sessions d) (put row (intents d)) (next_id d)"
    using ok by (intro intents_part_put [OF _ r m]) (simp add: db_ok_def)
  then show "intents_part (sql_update p (\<lambda>u. u\<lparr>u_tokenBalance := u_tokenBalance u - b,
        u_tokenReserved := u_tokenReserved u - i_tokensReserved r\<rparr>) (users d)) (accounts d) (sessions d) (put row (intents d)) (next_id d)"
    by (rule intents_part_users) (auto intro: update_user_ids)
  show "ledger_part (put row (intents d)) (token_ledger d @ [l])"
    using ok live l by (intro ledger_part_put_append [OF _ u r s]) (auto simp: db_ok_def ledger_kinds_def)
  have "topics_ok (i_status row) (topics_of (i_id r) (outbox d))"
    using db_ok_topics [OF ok r] live m by (cases "i_status r") (auto simp: topics_ok_def)
  then show "outbox_part (put row (intents d)) (outbox d) (next_id d)"
    using ok by (intro outbox_part_put [OF _ u r s]) (simp add: db_ok_def)
qed

section \<open>Take, unknown, reconciliation: the token stays\<close>

lemma moved_to_simps [simp]:
  "i_status (moved_to st t patch r) = st" "i_version (moved_to st t patch r) = i_version r + 1"
  "i_updatedAt (moved_to st t patch r) = t"
  by (simp_all add: moved_to_def)

lemma moved_to_moves:
  assumes "can_transition (i_status r) st" "same_intent r (patch r)" "i_tokensReserved (patch r) = tokens_of st"
    "st = Submitting \<longrightarrow> i_submittedAt (patch r) \<noteq> None"
  shows "moves r (moved_to st t patch r)"
  using assms by (simp add: moves_def moved_to_def same_intent_def)

lemma same_intent_refl [simp]: "same_intent r r"
  by (simp add: same_intent_def)

text \<open>A transition between live statuses whose patch keeps the identity and the token.\<close>

lemma live_transition_ok:
  assumes ok: "db_ok d" and t: "transition_intent iid a b ex patch whr d = Inr (Some row, d1)"
    and p: "\<And>r. same_intent r (patch r)" "\<And>r. i_tokensReserved (patch r) = i_tokensReserved r"
    and live: "\<not> terminal a" "\<not> terminal b" "link_statuses a = link_statuses b"
    and sub: "b = Submitting \<longrightarrow> (\<forall>r. i_submittedAt (patch r) \<noteq> None)"
    and topics: "\<And>ts. topics_ok a ts \<Longrightarrow> topics_ok b ts"
  shows "db_ok d1"
proof -
  have pid: "i_id (patch r) = i_id r" for r using p(1) [of r] by (simp add: same_intent_def)
  obtain r ns where r: "r \<in> set (intents d)" "cas_matches iid a ex whr r" "can_transition a b"
      "row = moved_to b (now d) patch r" "d1 = d\<lparr>intents := put row (intents d), notices := ns\<rparr>"
    by (rule transition_Some [OF db_ok_unique [OF ok] t pid])
  have st: "i_status r = a" using r(2) by (simp add: cas_matches_def)
  have "i_tokensReserved (patch r) = tokens_of b"
    using p(2) live st live_tokens [OF db_ok_row [OF ok r(1)]] by (simp add: tokens_of_def)
  then have "moves r row" using r st p(1) sub by (auto intro!: moved_to_moves)
  then show ?thesis unfolding r(5)
    using r st live topics db_ok_topics [OF ok r(1)] by (intro db_ok_move [OF ok r(1)]) auto
qed

lemma take_intent_ok:
  assumes "db_ok d" "take_intent iid v ms d = Inr (x, d1)" shows "db_ok d1"
proof (cases x)
  case None
  then show ?thesis using assms by (auto simp: take_intent_def dest: transition_None)
next
  case (Some row)
  note t = assms(2) [unfolded Some take_intent_def]
  show ?thesis
    by (rule live_transition_ok [OF assms(1) t]) (simp_all add: same_intent_def link_statuses_def topics_ok_def)
qed

lemma start_reconciling_ok:
  assumes "db_ok d" "start_reconciling iid v d = Inr (x, d1)" shows "db_ok d1"
proof (cases x)
  case None
  then show ?thesis using assms by (auto simp: start_reconciling_def dest: transition_None)
next
  case (Some row)
  note t = assms(2) [unfolded Some start_reconciling_def]
  show ?thesis
    by (rule live_transition_ok [OF assms(1) t]) (simp_all add: same_intent_def link_statuses_def topics_ok_def)
qed

lemma mark_intent_manual_review_ok:
  assumes "db_ok d" "mark_intent_manual_review iid v reason d = Inr (x, d1)" shows "db_ok d1"
proof (cases x)
  case None
  then show ?thesis using assms by (auto simp: mark_intent_manual_review_def dest: transition_None)
next
  case (Some row)
  note t = assms(2) [unfolded Some mark_intent_manual_review_def]
  show ?thesis
    by (rule live_transition_ok [OF assms(1) t]) (simp_all add: same_intent_def link_statuses_def topics_ok_def)
qed

lemma db_ok_accounts:
  assumes "db_ok d" "\<And>a. a_id (f a) = a_id a \<and> a_userId (f a) = a_userId a \<and> a_brokerUserId (f a) = a_brokerUserId a"
    "\<And>a. a \<in> set (accounts d) \<Longrightarrow> p a \<Longrightarrow> a_tradingHalted (f a) = (a_haltedReason (f a) \<noteq> None)"
  shows "db_ok (d\<lparr>accounts := sql_update p f (accounts d)\<rparr>)"
proof -
  have ex: "(\<exists>a \<in> set (sql_update p f (accounts d)). a_id a = i \<and> a_userId a = u)
      \<longleftrightarrow> (\<exists>a \<in> set (accounts d). a_id a = i \<and> a_userId a = u)"
    and ex1: "(\<exists>a \<in> set (sql_update p f (accounts d)). a_id a = i) \<longleftrightarrow> (\<exists>a \<in> set (accounts d). a_id a = i)" for i u
    using assms(2) by (auto simp: bex_sql_update)
  have "accounts_part (sql_update p f (accounts d))"
    using assms by (auto simp: db_ok_def accounts_part_def ball_sql_update intro!: unique_on_update)
  then show ?thesis
    using assms by (simp add: db_ok_def intents_part_def intent_row_ok_def sessions_part_def session_row_ok_def ex ex1 map_sql_update)
qed

lemma halt_account_ok:
  assumes "db_ok d" "halt_account_for_manual_review iid v reason d = Inr (x, d1)" shows "db_ok d1"
proof (cases x)
  case None
  then show ?thesis using assms mark_intent_manual_review_ok
    by (auto simp: halt_account_for_manual_review_def split: option.splits sum.splits)
next
  case (Some row)
  then obtain k d2 where "mark_intent_manual_review iid v (review_failure reason) d = Inr (Some row, d2)"
    "d1 = d2\<lparr>accounts := sql_update (\<lambda>a. a_id a = k)
             (\<lambda>a. a\<lparr>a_tradingHalted := True, a_haltedReason := Some (HALT_REASON_FOR reason)\<rparr>) (accounts d2)\<rparr>"
    using assms(2) by (auto simp: halt_account_for_manual_review_def split: option.splits sum.splits)
  then show ?thesis using mark_intent_manual_review_ok [OF assms(1)] by (auto intro!: db_ok_accounts)
qed

lemma claim_reconciling_ok:
  assumes ok: "db_ok d" shows "db_ok (snd (claim_reconciling iid ms d))"
proof -
  let ?p = "\<lambda>r. i_id r = iid \<and> i_status r = Reconciling \<and> reconcile_lease_expired d ms r"
  let ?f = "\<lambda>r. r\<lparr>i_reconcileClaimedAt := Some (now d), i_version := i_version r + 1, i_updatedAt := now d\<rparr>"
  show ?thesis
  proof (cases "sql_first ?p (intents d)")
    case None
    then show ?thesis using ok by (simp add: claim_reconciling_def Let_def sql_update_none)
  next
    case (Some r)
    then have r: "r \<in> set (intents d) \<and> ?p r" by (rule sql_first_Some)
    have eq: "sql_update ?p ?f (intents d) = put (?f r) (intents d)"
      using r by (intro cas_update_put [OF db_ok_unique [OF ok]]) auto
    have m: "moves r (?f r)"
      using r live_tokens [OF db_ok_row [OF ok]] by (simp add: moves_def same_intent_def tokens_of_def)
    have "db_ok (d\<lparr>intents := put (?f r) (intents d), notices := notices d\<rparr>)"
      using r db_ok_topics [OF ok, of r] by (intro db_ok_move [OF ok _ m]) auto
    then show ?thesis using eq by (simp add: claim_reconciling_def Let_def)
  qed
qed

section \<open>The unknown outcome: an outbox row\<close>

lemma outbox_part_append:
  assumes "outbox_part ints obx nid" "unique_ids ints" "r \<in> set ints" "o_id w = nid" "o_intentId w = i_id r"
    "o_payload w = i_id r" "topics_ok (i_status r) (topics_of (i_id r) obx @ [o_topic w])"
  shows "outbox_part ints (obx @ [w]) (nid + 1)"
proof -
  have "unique_on (\<lambda>r. Some (o_id r)) (obx @ [w])"
    using assms(1,4) by (auto simp: outbox_part_def unique_on_snoc key_conflict_iff)
  moreover have "topics_ok (i_status x) (topics_of (i_id x) (obx @ [w]))" if "x \<in> set ints" for x
    using assms that unique_ids_eq [OF assms(2,3) that]
    by (cases "i_id x = i_id r") (auto simp: outbox_part_def topics_of_append)
  ultimately show ?thesis using assms by (auto simp: outbox_part_def)
qed

lemma intents_part_mono: "intents_part us accs ss ints nid \<Longrightarrow> nid \<le> nid' \<Longrightarrow> intents_part us accs ss ints nid'"
  by (auto simp: intents_part_def intent_row_ok_def)

lemma sessions_part_mono: "sessions_part accs ss nid \<Longrightarrow> nid \<le> nid' \<Longrightarrow> sessions_part accs ss nid'"
  by (auto simp: sessions_part_def session_row_ok_def)

lemma trades_part_mono: "trades_part ints trs nid \<Longrightarrow> nid \<le> nid' \<Longrightarrow> trades_part ints trs nid'"
  unfolding trades_part_def trade_row_ok_def by (meson less_le_trans)

lemma outbox_part_mono: "outbox_part ints obx nid \<Longrightarrow> nid \<le> nid' \<Longrightarrow> outbox_part ints obx nid'"
  unfolding outbox_part_def by (meson less_le_trans)

lemmas part_Suc = intents_part_mono [OF _ le_SucI [OF order_refl]] sessions_part_mono [OF _ le_SucI [OF order_refl]]
  trades_part_mono [OF _ le_SucI [OF order_refl]] outbox_part_mono [OF _ le_SucI [OF order_refl]]

lemma insert_outbox_simps [simp]:
  "intents (insert_outbox i t d) = intents d" "users (insert_outbox i t d) = users d"
  "accounts (insert_outbox i t d) = accounts d" "sessions (insert_outbox i t d) = sessions d"
  "token_ledger (insert_outbox i t d) = token_ledger d" "trades (insert_outbox i t d) = trades d"
  "next_id (insert_outbox i t d) = next_id d + 1" "now (insert_outbox i t d) = now d"
  by (simp_all add: insert_outbox_def)

text \<open>The parts of a move, without the outbox.\<close>

lemma move_parts:
  assumes ok: "db_ok d" and r: "r \<in> set (intents d)" and m: "moves r row"
    and live: "\<not> terminal (i_status r)" "\<not> terminal (i_status row)"
  shows "users_part (users d) (put row (intents d)) (token_ledger d)"
    "intents_part (users d) (accounts d) (sessions d) (put row (intents d)) (next_id d)"
    "ledger_part (put row (intents d)) (token_ledger d)"
proof -
  have u: "unique_ids (intents d)" using ok by (rule db_ok_unique)
  have s: "same_intent r row" using m by (simp add: moves_def)
  have tk: "i_tokensReserved row = i_tokensReserved r"
    using m live live_tokens [OF db_ok_row [OF ok r]] by (simp add: moves_def tokens_of_def)
  have lk: "ledger_kinds (i_status row) = ledger_kinds (i_status r)"
    using live by (simp add: ledger_kinds_def)
  show "users_part (users d) (put row (intents d)) (token_ledger d)"
    using ok by (intro users_part_put_same [OF _ u r s tk]) (simp add: db_ok_def)
  show "intents_part (users d) (accounts d) (sessions d) (put row (intents d)) (next_id d)"
    using ok by (intro intents_part_put [OF _ r m]) (simp add: db_ok_def)
  show "ledger_part (put row (intents d)) (token_ledger d)"
    using ok by (intro ledger_part_put [OF _ u r s lk]) (simp add: db_ok_def)
qed

lemma unknown_move_ok:
  assumes ok: "db_ok d" and r: "r \<in> set (intents d)" and m: "moves r row"
    and st: "i_status r = Submitting" "i_status row = Unknown"
  shows "db_ok (insert_outbox_once (i_id r) TradingReconciliation (d\<lparr>intents := put row (intents d), notices := ns\<rparr>))"
proof -
  let ?d1 = "d\<lparr>intents := put row (intents d), notices := ns\<rparr>"
  have u: "unique_ids (intents d)" using ok by (rule db_ok_unique)
  have s: "same_intent r row" and id: "i_id row = i_id r" using m by (auto simp: moves_def same_intent_def)
  have row: "row \<in> set (put row (intents d))" and u': "unique_ids (put row (intents d))"
    using set_put [OF u r id] put_unique_on [OF u u r id] id by auto
  have ts: "topics_of (i_id r) (outbox d) = [TradingIntents]"
    using db_ok_topics [OF ok r] st by (simp add: topics_ok_def)
  have no: "\<not> list_ex (\<lambda>o_row. topic_intent_key o_row = Some (TradingReconciliation, i_id r)) (outbox d)"
  proof
    assume "list_ex (\<lambda>o_row. topic_intent_key o_row = Some (TradingReconciliation, i_id r)) (outbox d)"
    then have "TradingReconciliation \<in> set (topics_of (i_id r) (outbox d))"
      by (auto simp: list_ex_iff topic_intent_key_def topics_of_def image_iff)
    then show False using ts by simp
  qed
  have obx: "outbox_part (put row (intents d)) (outbox (insert_outbox (i_id r) TradingReconciliation ?d1)) (next_id d + 1)"
  proof -
    obtain w where w: "outbox (insert_outbox (i_id r) TradingReconciliation ?d1) = outbox d @ [w]" "o_id w = next_id d"
      "o_intentId w = i_id r" "o_payload w = i_id r" "o_topic w = TradingReconciliation"
      by (simp add: insert_outbox_def)
    have base: "outbox_part (intents d) (outbox d) (next_id d)" using ok by (simp add: db_ok_def)
    have "unique_on (\<lambda>r. Some (o_id r)) (outbox d @ [w])"
      using base w(2-) by (auto simp: outbox_part_def unique_on_snoc key_conflict_iff)
    moreover have "\<exists>x \<in> set (put row (intents d)). i_id x = o_intentId y" if "y \<in> set (outbox d @ [w])" for y
    proof -
      have "\<exists>x \<in> set (intents d). i_id x = o_intentId y \<and> True"
        using that base w(2-) r by (auto simp: outbox_part_def)
      from put_owner [OF u r s this] show ?thesis by simp
    qed
    moreover have "topics_ok (i_status row) (topics_of (i_id row) (outbox d @ [w]))"
      using ts w(2-) st id by (simp add: topics_of_append topics_ok_def)
    moreover have "topics_ok (i_status x) (topics_of (i_id x) (outbox d @ [w]))" if "x \<in> set (intents d)" "x \<noteq> r" for x
      using base that w(2-) unique_ids_eq [OF u r that(1)] by (auto simp: outbox_part_def topics_of_append)
    ultimately show ?thesis
      using base w(2-) unfolding outbox_part_def w(1) by (auto simp: ball_put [OF u r id] less_Suc_eq)
  qed
  have "trades_part (put row (intents d)) (trades d) (next_id d)"
    using ok st by (intro trades_part_put [OF _ u r s]) (simp_all add: db_ok_def link_statuses_def)
  then show ?thesis
    using ok obx move_parts [OF ok r m] st no
    by (simp add: insert_outbox_once_def db_ok_def part_Suc)
qed

lemma mark_intent_unknown_ok:
  assumes ok: "db_ok d" and t: "mark_intent_unknown iid reason ex ms d = Inr (x, d1)" shows "db_ok d1"
proof (cases x)
  case None
  then show ?thesis using assms by (auto simp: mark_intent_unknown_def dest: transition_None split: sum.splits option.splits)
next
  case (Some row)
  then obtain d2 where t2: "transition_intent iid Submitting Unknown ex (\<lambda>r. r\<lparr>i_lastError := Some reason\<rparr>)
      (submitted_before d ms) d = Inr (Some row, d2)" and d1: "d1 = insert_outbox_once iid TradingReconciliation d2"
    using t by (auto simp: mark_intent_unknown_def split: sum.splits option.splits)
  have pid: "i_id (r\<lparr>i_lastError := Some reason\<rparr>) = i_id r" for r :: intent_row by simp
  obtain r ns where r: "r \<in> set (intents d)" "cas_matches iid Submitting ex (submitted_before d ms) r"
    "row = moved_to Unknown (now d) (\<lambda>r. r\<lparr>i_lastError := Some reason\<rparr>) r"
    "d2 = d\<lparr>intents := put row (intents d), notices := ns\<rparr>"
    by (rule transition_Some [OF db_ok_unique [OF ok] t2 pid])
  have st: "i_status r = Submitting" "iid = i_id r" using r(2) by (auto simp: cas_matches_def)
  have "moves r row" unfolding r(3)
    using st live_tokens [OF db_ok_row [OF ok r(1)]] by (intro moved_to_moves) (simp_all add: same_intent_def tokens_of_def)
  then show ?thesis unfolding d1 r(4) st(2) using st r(3) by (intro unknown_move_ok [OF ok r(1)]) simp_all
qed

section \<open>Rejection and settlement: the token leaves\<close>

text \<open>
  The state in which the intent \<open>r\<close> has become \<open>row\<close> and its token left the reserve, with a ledger
  row of the kind \<open>k\<close> that lowers the balance by \<open>b\<close>.
\<close>

definition finished :: "intent_row \<Rightarrow> intent_row \<Rightarrow> ledger_kind \<Rightarrow> int \<Rightarrow> nat list \<Rightarrow> 'p db \<Rightarrow> 'p db" where
  "finished r row k b ns d =
     d\<lparr>intents := put row (intents d), notices := ns,
       token_ledger := token_ledger d @ [\<lparr>l_userId = i_userId r, l_kind = k, l_balanceDelta = - b,
         l_reservedDelta = - i_tokensReserved r, l_intentId = Some (i_id r), l_accountId = None, l_starPaymentId = None, l_referralId = None, l_bonusRule = None,
         l_note = None, l_createdAt = now d\<rparr>],
       users := sql_update (\<lambda>u. u_id u = i_userId r)
         (\<lambda>u. u\<lparr>u_tokenBalance := u_tokenBalance u - b, u_tokenReserved := u_tokenReserved u - i_tokensReserved r\<rparr>) (users d)\<rparr>"

lemma finished_simps:
  "users (finished r row k b ns d) = sql_update (\<lambda>u. u_id u = i_userId r)
     (\<lambda>u. u\<lparr>u_tokenBalance := u_tokenBalance u - b, u_tokenReserved := u_tokenReserved u - i_tokensReserved r\<rparr>) (users d)"
  "token_ledger (finished r row k b ns d) = token_ledger d @ [\<lparr>l_userId = i_userId r, l_kind = k, l_balanceDelta = - b,
     l_reservedDelta = - i_tokensReserved r, l_intentId = Some (i_id r), l_accountId = None, l_starPaymentId = None, l_referralId = None, l_bonusRule = None,
         l_note = None, l_createdAt = now d\<rparr>]"
  "intents (finished r row k b ns d) = put row (intents d)" "accounts (finished r row k b ns d) = accounts d"
  "sessions (finished r row k b ns d) = sessions d" "outbox (finished r row k b ns d) = outbox d"
  "trades (finished r row k b ns d) = trades d" "next_id (finished r row k b ns d) = next_id d"
  "now (finished r row k b ns d) = now d" "decisions (finished r row k b ns d) = decisions d"
  "trading_switch (finished r row k b ns d) = trading_switch d"
  by (simp_all add: finished_def)

lemma user_of_intent:
  assumes ok: "db_ok d" and r: "r \<in> set (intents d)"
  obtains u where "u \<in> set (users d)" "u_id u = i_userId r"
  using db_ok_row [OF ok r] by (auto simp: intent_row_ok_def)

lemma user_covers:
  assumes ok: "db_ok d" and r: "r \<in> set (intents d)" and u: "u \<in> set (users d)" "u_id u = i_userId r"
  shows "i_tokensReserved r \<le> u_tokenReserved u" "i_tokensReserved r \<le> u_tokenBalance u"
proof -
  have "user_row_ok (intents d) (token_ledger d) u" using ok u by (simp add: db_ok_def users_part_def)
  then have "held (i_userId r) (intents d) = u_tokenReserved u" "u_tokenReserved u \<le> u_tokenBalance u"
    using u(2) by (simp_all add: user_row_ok_def)
  then show "i_tokensReserved r \<le> u_tokenReserved u" "i_tokensReserved r \<le> u_tokenBalance u"
    using held_member [OF db_ok_tokens_nonneg [OF ok] r] by auto
qed

lemma insert_ledger_ok:
  assumes "db_ok d" "r \<in> set (intents d)" "\<not> terminal (i_status r)" "l_intentId l = Some (i_id r)"
    "l_kind l = LRelease \<or> l_kind l = LSettle" "token_ledger d1 = token_ledger d"
    "l_starPaymentId l = None" "l_accountId l = None" "l_referralId l = None"
  shows "insert_ledger l d1 = Inr (d1\<lparr>token_ledger := token_ledger d @ [l]\<rparr>)"
  using terminal_key_free [of "intents d" "token_ledger d" r l] assms by (simp add: insert_ledger_def db_ok_def)

lemma finish_users:
  assumes "\<And>u. u \<in> set us \<Longrightarrow> p u \<longleftrightarrow> u_id u = k" "\<And>u. f u = g u"
  shows "sql_update p f us = sql_update (\<lambda>u. u_id u = k) g us"
  unfolding sql_update_def using assms by (intro map_cong refl) simp

lemma release_tokens_finish:
  assumes ok: "db_ok d" and r: "r \<in> set (intents d)" and live: "\<not> terminal (i_status r)"
  shows "release_tokens (i_userId r) (i_id r) (i_tokensReserved r) (d\<lparr>intents := put row (intents d), notices := ns\<rparr>)
    = Inr (finished r row LRelease 0 ns d)"
proof -
  obtain u where u: "u \<in> set (users d)" "u_id u = i_userId r" by (rule user_of_intent [OF ok r])
  have some: "sql_first (\<lambda>u. u_id u = i_userId r \<and> i_tokensReserved r \<le> u_tokenReserved u) (users d) \<noteq> None"
    using u user_covers [OF ok r u] by (auto simp: sql_first_None)
  have up: "sql_update (\<lambda>u. u_id u = i_userId r \<and> i_tokensReserved r \<le> u_tokenReserved u)
      (\<lambda>u. u\<lparr>u_tokenReserved := u_tokenReserved u - i_tokensReserved r\<rparr>) (users d)
    = sql_update (\<lambda>u. u_id u = i_userId r) (\<lambda>u. u\<lparr>u_tokenBalance := u_tokenBalance u - 0,
        u_tokenReserved := u_tokenReserved u - i_tokensReserved r\<rparr>) (users d)"
    using user_covers [OF ok r] by (intro finish_users) auto
  show ?thesis unfolding release_tokens_def
    by (subst insert_ledger_ok [OF ok r live]) (use some up in \<open>simp_all add: Let_def finished_def\<close>)
qed

lemma consume_tokens_finish:
  assumes ok: "db_ok d" and r: "r \<in> set (intents d)" and live: "\<not> terminal (i_status r)"
  shows "consume_tokens (i_userId r) (i_id r) (i_tokensReserved r) (d\<lparr>intents := put row (intents d), notices := ns\<rparr>)
    = Inr (finished r row LSettle (i_tokensReserved r) ns d)"
proof -
  let ?p = "\<lambda>u. u_id u = i_userId r \<and> i_tokensReserved r \<le> u_tokenReserved u \<and> i_tokensReserved r \<le> u_tokenBalance u"
  obtain u where u: "u \<in> set (users d)" "u_id u = i_userId r" by (rule user_of_intent [OF ok r])
  have some: "sql_first ?p (users d) \<noteq> None"
    using u user_covers [OF ok r u] by (auto simp: sql_first_None)
  have up: "sql_update ?p (\<lambda>u. u\<lparr>u_tokenBalance := u_tokenBalance u - i_tokensReserved r,
        u_tokenReserved := u_tokenReserved u - i_tokensReserved r\<rparr>) (users d)
    = sql_update (\<lambda>u. u_id u = i_userId r) (\<lambda>u. u\<lparr>u_tokenBalance := u_tokenBalance u - i_tokensReserved r,
        u_tokenReserved := u_tokenReserved u - i_tokensReserved r\<rparr>) (users d)"
    using user_covers [OF ok r] by (intro finish_users) auto
  show ?thesis unfolding consume_tokens_def
    by (subst insert_ledger_ok [OF ok r live]) (use some up in \<open>simp_all add: Let_def finished_def\<close>)
qed

text \<open>What a rejection does, in full: nothing, or the one intent it names and its token.\<close>

lemma reject_intent_cases:
  assumes ok: "db_ok d" and can: "can_transition a Rejected"
  shows "(reject_intent iid a ex reason whr d = Inr (None, d) \<and> (\<forall>r \<in> set (intents d). \<not> cas_matches iid a ex whr r))
    \<or> (\<exists>r ns row. r \<in> set (intents d) \<and> cas_matches iid a ex whr r
        \<and> row = moved_to Rejected (now d) (\<lambda>r. r\<lparr>i_lastError := Some reason, i_tokensReserved := 0\<rparr>) r
        \<and> reject_intent iid a ex reason whr d = Inr (Some row, finished r row LRelease 0 ns d))"
proof (cases "\<exists>r \<in> set (intents d). cas_matches iid a ex whr r")
  case False
  show ?thesis
  proof (cases "find_intent_row iid d")
    case None
    then show ?thesis using False by (simp add: reject_intent_def)
  next
    case (Some r)
    then have r: "r \<in> set (intents d) \<and> i_id r = iid" by (rule find_intent_Some)
    show ?thesis
    proof (cases "i_status r = a \<and> (ex = None \<or> ex = Some (i_version r))")
      case True
      have no: "\<forall>x \<in> set (intents d). \<not> cas_matches iid a (Some (i_version r)) whr x"
      proof
        fix x assume x: "x \<in> set (intents d)"
        show "\<not> cas_matches iid a (Some (i_version r)) whr x"
        proof
          assume m: "cas_matches iid a (Some (i_version r)) whr x"
          then have "x = r" using r unique_ids_eq [OF db_ok_unique [OF ok] _ x] by (auto simp: cas_matches_def)
          then show False using False m True r by (auto simp: cas_matches_def)
        qed
      qed
      then have "transition_intent iid a Rejected (Some (i_version r))
          (\<lambda>r. r\<lparr>i_lastError := Some reason, i_tokensReserved := 0\<rparr>) whr d = Inr (None, d)"
        using can sql_first_None [THEN iffD2, OF no] by (simp add: transition_intent_def Let_def)
      then show ?thesis using False Some True by (auto simp: reject_intent_def)
    next
      case no: False
      then show ?thesis using False Some by (auto simp: reject_intent_def)
    qed
  qed
next
  case True
  then obtain r where r: "r \<in> set (intents d)" "cas_matches iid a ex whr r" by blast
  then have id: "i_id r = iid" and st: "i_status r = a" and ver: "ex = None \<or> ex = Some (i_version r)"
    by (auto simp: cas_matches_def split: option.splits)
  have live: "\<not> terminal (i_status r)" using can st by (cases a) auto
  let ?pt = "\<lambda>r::intent_row. r\<lparr>i_lastError := Some reason, i_tokensReserved := 0\<rparr>"
  let ?row = "moved_to Rejected (now d) ?pt r"
  have "cas_matches iid a (Some (i_version r)) whr r" using r(2) by (auto simp: cas_matches_def)
  from transition_ok [OF db_ok_unique [OF ok] r(1) this can, of ?pt]
  obtain ns where t: "transition_intent iid a Rejected (Some (i_version r)) ?pt whr d
      = Inr (Some ?row, d\<lparr>intents := put ?row (intents d), notices := ns\<rparr>)" by auto
  have f: "find_intent_row iid d = Some r" using find_intent_unique [OF db_ok_unique [OF ok] r(1)] id by simp
  have pos: "0 < i_tokensReserved r" using live_tokens [OF db_ok_row [OF ok r(1)] live] by (simp add: TOKENS_PER_INTENT_def)
  have "reject_intent iid a ex reason whr d = Inr (Some ?row, finished r ?row LRelease 0 ns d)"
    using f st ver t pos release_tokens_finish [OF ok r(1) live, where row = ?row and ns = ns, unfolded id]
    by (auto simp: reject_intent_def)
  then show ?thesis using r by blast
qed

lemma finished_ok:
  assumes ok: "db_ok d" and r: "r \<in> set (intents d)" and m: "moves r row"
    and live: "\<not> terminal (i_status r)" "terminal (i_status row)"
    and k: "k = (if i_status row = Settled then LSettle else LRelease)" and b: "b \<le> i_tokensReserved r"
    and tr: "trades_part (put row (intents d)) trs nid" "next_id d \<le> nid"
  shows "db_ok ((finished r row k b ns d)\<lparr>trades := trs, next_id := nid\<rparr>)"
proof -
  let ?l = "\<lparr>l_userId = i_userId r, l_kind = k, l_balanceDelta = - b,
         l_reservedDelta = - i_tokensReserved r, l_intentId = Some (i_id r), l_accountId = None, l_starPaymentId = None, l_referralId = None, l_bonusRule = None,
         l_note = None, l_createdAt = now d\<rparr>"
  have acc: "accounts_part (accounts d)" and ss: "sessions_part (accounts d) (sessions d) nid"
    using ok tr(2) sessions_part_mono by (auto simp: db_ok_def)
  note fin = finish_ok [OF ok r m live, of ?l b "\<lambda>u. u_id u = i_userId r"]
  have "users_part (users (finished r row k b ns d)) (put row (intents d)) (token_ledger (finished r row k b ns d))"
    "intents_part (users (finished r row k b ns d)) (accounts d) (sessions d) (put row (intents d)) (next_id d)"
    "ledger_part (put row (intents d)) (token_ledger (finished r row k b ns d))"
    "outbox_part (put row (intents d)) (outbox d) (next_id d)"
    unfolding finished_simps by (rule fin; use b k in simp)+
  moreover have "people_of (finished r row k b ns d) nid"
  proof -
    obtain u where "u \<in> set (users d)" "u_id u = i_userId r" by (rule user_of_intent [OF ok r])
    then show ?thesis using ok people_part_mono [OF _ tr(2)]
      by (force simp: db_ok_def finished_simps map_sql_update people_part_ledger)
  qed
  ultimately show ?thesis
    using acc ss tr intents_part_mono [OF _ tr(2)] outbox_part_mono [OF _ tr(2)]
    by (simp add: db_ok_def finished_simps)
qed

lemma reject_intent_ok:
  assumes ok: "db_ok d" and t: "reject_intent iid a ex reason whr d = Inr (x, d1)" shows "db_ok d1"
proof (cases "can_transition a Rejected")
  case True
  from reject_intent_cases [OF ok True, of iid ex reason whr] show ?thesis
  proof
    assume "reject_intent iid a ex reason whr d = Inr (None, d) \<and> (\<forall>r \<in> set (intents d). \<not> cas_matches iid a ex whr r)"
    then show ?thesis using ok t by simp
  next
    assume "\<exists>r ns row. r \<in> set (intents d) \<and> cas_matches iid a ex whr r
        \<and> row = moved_to Rejected (now d) (\<lambda>r. r\<lparr>i_lastError := Some reason, i_tokensReserved := 0\<rparr>) r
        \<and> reject_intent iid a ex reason whr d = Inr (Some row, finished r row LRelease 0 ns d)"
    then obtain r ns where r: "r \<in> set (intents d)" "cas_matches iid a ex whr r" and
      d1: "d1 = finished r (moved_to Rejected (now d) (\<lambda>r. r\<lparr>i_lastError := Some reason, i_tokensReserved := 0\<rparr>) r) LRelease 0 ns d"
      using t by auto
    let ?row = "moved_to Rejected (now d) (\<lambda>r. r\<lparr>i_lastError := Some reason, i_tokensReserved := 0\<rparr>) r"
    have st: "i_status r = a" using r(2) by (simp add: cas_matches_def)
    have live: "\<not> terminal (i_status r)" "a \<noteq> Accepted" "a \<noteq> Settled" using True st by (cases a; simp)+
    have m: "moves r ?row" using True st by (intro moved_to_moves) (auto simp: same_intent_def tokens_of_def)
    have s: "same_intent r ?row" using m by (simp add: moves_def)
    have "trades_part (put ?row (intents d)) (trades d) (next_id d)"
      using ok live st by (intro trades_part_put [OF _ db_ok_unique [OF ok] r(1) s]) (simp_all add: db_ok_def link_statuses_def)
    from finished_ok [OF ok r(1) m live(1) _ _ _ this, of LRelease 0 ns] show ?thesis
      using live_tokens [OF db_ok_row [OF ok r(1)] live(1)] d1
      by (simp add: TOKENS_PER_INTENT_def finished_def)
  qed
next
  case False
  then have "transition_intent iid a Rejected ex' pt whr d = Inl (Thrown ''illegal trade intent transition'')" for ex' pt
    by (simp add: transition_intent_def)
  then show ?thesis using t ok by (auto simp: reject_intent_def split: option.splits if_splits)
qed

section \<open>Acceptance: the broker's trade\<close>

lemma trades_part_put_append:
  assumes tp: "trades_part ints trs nid" and u: "unique_ids ints" and r: "r \<in> set ints" and s: "same_intent r row"
    and none: "links_of (i_id r) trs = []" and t: "t_id t = nid" "t_intentId t = Some (i_id r)"
      "t_accountId t = i_accountId r" "t_mode t = i_mode r" "\<not> key_conflict account_trade_key t trs"
      "(t_closePrice t \<noteq> None) = (t_status t = TClosed)" "(t_closeTimestampMs t \<noteq> None) = (t_status t = TClosed)"
      "(t_profit t \<noteq> None) = (t_status t = TClosed)" "link_statuses (i_status row) = [t_status t]"
  shows "trades_part (put row ints) (trs @ [t]) (nid + 1)"
proof -
  have id: "i_id row = i_id r" using s by (simp add: same_intent_def)
  have "unique_on (\<lambda>t. Some (t_id t)) (trs @ [t])"
    using tp t(1) by (auto simp: trades_part_def trade_row_ok_def unique_on_snoc key_conflict_iff)
  moreover have "unique_on account_trade_key (trs @ [t])"
    using tp t(5) by (simp add: trades_part_def unique_on_snoc)
  moreover have "trade_row_ok (put row ints) (nid + 1) x" if x: "x \<in> set (trs @ [t])" for x
  proof (cases "x \<in> set trs")
    case True
    then have "trade_row_ok (put row ints) nid x" using tp by (intro trade_row_ok_put [OF u r s]) (simp add: trades_part_def)
    then show ?thesis by (simp add: trade_row_ok_def)
  next
    case False
    then have "x = t" using x by simp
    moreover have "row \<in> set (put row ints)" using set_put [OF u r id] by simp
    then have "\<exists>y \<in> set (put row ints). i_id y = i_id r \<and> i_accountId y = t_accountId t \<and> i_mode y = t_mode t"
      using s t(3,4) by (intro bexI [of _ row]) (simp_all add: same_intent_def)
    ultimately show ?thesis using t by (simp add: trade_row_ok_def)
  qed
  moreover have "links_of (i_id row) (trs @ [t]) = link_statuses (i_status row)"
    using none t id by (simp add: links_of_append)
  moreover have "links_of (i_id x) (trs @ [t]) = link_statuses (i_status x)" if "x \<in> set ints" "x \<noteq> r" for x
    using that tp t(2) unique_ids_eq [OF u r that(1)] by (auto simp: trades_part_def links_of_append)
  ultimately show ?thesis by (simp add: trades_part_def ball_put [OF u r id])
qed

lemma insert_trade_cases:
  assumes "insert_trade intent trade vals d = res" "vals = open_values trade \<or> vals = closing_values trade"
    "links_of (i_id intent) (trades d) = []"
  shows "res = Inl (MismatchThrown TradeAlreadyLinked (i_id intent) (bt_id trade))
    \<or> (\<not> key_conflict account_trade_key (vals (trade_row_of intent trade (next_id d))) (trades d)
        \<and> res = Inr (d\<lparr>trades := trades d @ [vals (trade_row_of intent trade (next_id d))], next_id := next_id d + 1\<rparr>))"
proof -
  have "t_intentId (vals (trade_row_of intent trade (next_id d))) = Some (i_id intent)"
    using assms(2) by (auto simp: open_values_def closing_values_def trade_row_of_def split: trade_form.splits)
  moreover have "\<not> key_conflict t_intentId (vals (trade_row_of intent trade (next_id d))) (trades d)"
    using assms(3) calculation by (auto simp: key_conflict_iff links_of_def filter_empty_conv)
  ultimately show ?thesis
    using assms(1) by (auto simp: insert_trade_def Let_def LINK_CONSTRAINTS_def split: if_splits)
qed

lemma mark_intent_accepted_cases:
  assumes ok: "db_ok d" and can: "can_transition a Accepted"
  shows "(\<exists>reason. mark_intent_accepted iid v a tr trade d = Inl (MismatchThrown reason iid (bt_id trade)))
    \<or> mark_intent_accepted iid v a tr trade d = Inr (None, d)
    \<or> (\<exists>r ns row. r \<in> set (intents d) \<and> i_id r = iid \<and> i_status r = a \<and> i_version r = v
        \<and> mismatch_of r trade = None \<and> row = moved_to Accepted (now d) (\<lambda>r. r\<lparr>i_transport := tr\<rparr>) r
        \<and> \<not> key_conflict account_trade_key (open_values trade (trade_row_of row trade (next_id d))) (trades d)
        \<and> mark_intent_accepted iid v a tr trade d = Inr (Some row,
            d\<lparr>intents := put row (intents d), notices := ns,
              trades := trades d @ [open_values trade (trade_row_of row trade (next_id d))], next_id := next_id d + 1\<rparr>))"
proof (cases "\<exists>r. find_intent_row iid d = Some r \<and> mismatch_of r trade = None \<and> i_status r = a \<and> i_version r = v")
  case True
  then obtain r where f: "find_intent_row iid d = Some r" and mm: "mismatch_of r trade = None" and st: "i_status r = a" "i_version r = v"
    by blast
  have r: "r \<in> set (intents d) \<and> i_id r = iid" using f by (rule find_intent_Some)
  let ?pt = "\<lambda>r::intent_row. r\<lparr>i_transport := tr\<rparr>"
  let ?row = "moved_to Accepted (now d) ?pt r"
  have "cas_matches iid a (Some v) (\<lambda>_. True) r" using r st by (simp add: cas_matches_def)
  from transition_ok [OF db_ok_unique [OF ok] _ this can, of ?pt] r
  obtain ns where t: "transition_intent iid a Accepted (Some v) ?pt (\<lambda>_. True) d
      = Inr (Some ?row, d\<lparr>intents := put ?row (intents d), notices := ns\<rparr>)" by auto
  let ?d1 = "d\<lparr>intents := put ?row (intents d), notices := ns\<rparr>"
  have "link_statuses a = []" using can by (cases a) (auto simp: link_statuses_def)
  then have "links_of (i_id ?row) (trades ?d1) = []" using db_ok_links [OF ok, of r] r st by (simp add: moved_to_def)
  from insert_trade_cases [OF refl _ this, of "open_values trade" trade]
  have "insert_trade ?row trade (open_values trade) ?d1 = Inl (MismatchThrown TradeAlreadyLinked iid (bt_id trade))
    \<or> (\<not> key_conflict account_trade_key (open_values trade (trade_row_of ?row trade (next_id d))) (trades d)
        \<and> insert_trade ?row trade (open_values trade) ?d1
          = Inr (?d1\<lparr>trades := trades d @ [open_values trade (trade_row_of ?row trade (next_id d))], next_id := next_id d + 1\<rparr>))"
    using r by (simp add: moved_to_def)
  then show ?thesis
  proof
    assume "insert_trade ?row trade (open_values trade) ?d1 = Inl (MismatchThrown TradeAlreadyLinked iid (bt_id trade))"
    then show ?thesis by (simp add: mark_intent_accepted_def f mm t)
  next
    assume a: "\<not> key_conflict account_trade_key (open_values trade (trade_row_of ?row trade (next_id d))) (trades d)
        \<and> insert_trade ?row trade (open_values trade) ?d1
          = Inr (?d1\<lparr>trades := trades d @ [open_values trade (trade_row_of ?row trade (next_id d))], next_id := next_id d + 1\<rparr>)"
    then show ?thesis using r st
      by (intro disjI2 exI [of _ r] exI [of _ ns] exI [of _ ?row]) (simp add: mark_intent_accepted_def f mm t)
  qed
next
  case False
  show ?thesis
  proof (cases "find_intent_row iid d")
    case None
    then show ?thesis by (simp add: mark_intent_accepted_def)
  next
    case (Some r)
    then have r: "r \<in> set (intents d) \<and> i_id r = iid" by (rule find_intent_Some)
    show ?thesis
    proof (cases "mismatch_of r trade")
      case None
      have "\<forall>x \<in> set (intents d). \<not> cas_matches iid a (Some v) (\<lambda>_. True) x"
        using False Some None r unique_ids_eq [OF db_ok_unique [OF ok]] by (auto simp: cas_matches_def)
      then have "transition_intent iid a Accepted (Some v) (\<lambda>r. r\<lparr>i_transport := tr\<rparr>) (\<lambda>_. True) d = Inr (None, d)"
        using can by (simp add: transition_intent_def Let_def sql_first_None [THEN iffD2])
      then show ?thesis using Some None by (simp add: mark_intent_accepted_def)
    next
      case (Some reason)
      then show ?thesis using \<open>find_intent_row iid d = Some r\<close> by (simp add: mark_intent_accepted_def)
    qed
  qed
qed

lemma mark_intent_accepted_ok:
  assumes ok: "db_ok d" and can: "can_transition a Accepted" and t: "mark_intent_accepted iid v a tr trade d = Inr (x, d1)"
  shows "db_ok d1"
  using mark_intent_accepted_cases [OF ok can, of iid v tr trade]
proof (elim disjE exE conjE)
  fix r ns row assume r: "r \<in> set (intents d)" "i_status r = a"
    and row: "row = moved_to Accepted (now d) (\<lambda>r. r\<lparr>i_transport := tr\<rparr>) r"
    and nc: "\<not> key_conflict account_trade_key (open_values trade (trade_row_of row trade (next_id d))) (trades d)"
    and eq: "mark_intent_accepted iid v a tr trade d = Inr (Some row,
            d\<lparr>intents := put row (intents d), notices := ns,
              trades := trades d @ [open_values trade (trade_row_of row trade (next_id d))], next_id := next_id d + 1\<rparr>)"
  have live: "\<not> terminal a" "link_statuses a = []" using can by (cases a; simp add: link_statuses_def)+
  have m: "moves r row" unfolding row
    using can r live live_tokens [OF db_ok_row [OF ok r(1)]] by (intro moved_to_moves) (auto simp: same_intent_def tokens_of_def)
  have s: "same_intent r row" using m by (simp add: moves_def)
  have st: "i_status row = Accepted" by (simp add: row)
  have "trades_part (put row (intents d)) (trades d @ [open_values trade (trade_row_of row trade (next_id d))]) (next_id d + 1)"
    using ok nc s st db_ok_links [OF ok r(1)] r live
    by (intro trades_part_put_append [OF _ db_ok_unique [OF ok] r(1) s])
      (auto simp: db_ok_def open_values_def trade_row_of_def same_intent_def link_statuses_def)
  moreover have "outbox_part (put row (intents d)) (outbox d) (next_id d)"
    using ok db_ok_topics [OF ok r(1)] r can st by (intro outbox_part_put [OF _ db_ok_unique [OF ok] r(1) s])
      (cases a; auto simp: db_ok_def topics_ok_def)+
  moreover have d1: "d1 = d\<lparr>intents := put row (intents d), notices := ns,
              trades := trades d @ [open_values trade (trade_row_of row trade (next_id d))], next_id := next_id d + 1\<rparr>"
    using t eq by simp
  ultimately show ?thesis
    using ok move_parts [OF ok r(1) m] live r st unfolding d1 by (simp add: db_ok_def part_Suc)
qed (use ok t in simp_all)

end
