(* ===== verification/Intents_Settle.thy ===== *)
theory Intents_Settle
  imports Intents_Safe
begin

text \<open>
  Settlement, reconciliation's conclusion and creation keep the invariant; and what each of them can
  throw on a state where it holds.
\<close>

section \<open>Settlement\<close>

lemma closing_values_simps:
  "is_closed_trade trade \<Longrightarrow> t_status (closing_values trade t) = TClosed"
  "t_id (closing_values trade t) = t_id t" "t_intentId (closing_values trade t) = t_intentId t"
  "t_accountId (closing_values trade t) = t_accountId t" "t_mode (closing_values trade t) = t_mode t"
  "t_brokerTradeId (closing_values trade t) = t_brokerTradeId t"
  "is_closed_trade trade \<Longrightarrow> \<exists>y. t_closePrice (closing_values trade t) = Some y"
  "is_closed_trade trade \<Longrightarrow> \<exists>y. t_closeTimestampMs (closing_values trade t) = Some y"
  "is_closed_trade trade \<Longrightarrow> \<exists>y. t_profit (closing_values trade t) = Some y"
  by (auto simp: closing_values_def is_closed_trade_def split: trade_form.splits)

text \<open>The linked row closes: the one open row of the intent becomes its one closed row.\<close>

lemma trades_part_put_close:
  assumes tp: "trades_part ints trs nid" and u: "unique_ids ints" and r: "r \<in> set ints" and s: "same_intent r row"
    and l: "l \<in> set trs" "t_intentId l = Some (i_id r)" "links_of (i_id r) trs = [TOpen]"
    and c: "is_closed_trade trade" and st: "link_statuses (i_status row) = [TClosed]"
  shows "trades_part (put row ints) (sql_update (\<lambda>t. t_id t = t_id l) (closing_values trade) trs) nid"
proof -
  let ?trs = "sql_update (\<lambda>t. t_id t = t_id l) (closing_values trade) trs"
  have id: "i_id row = i_id r" using s by (simp add: same_intent_def)
  have uniq: "unique_on (\<lambda>t. Some (t_id t)) trs" using tp by (simp add: trades_part_def)
  have only: "t_id t = t_id l \<longleftrightarrow> t = l" if "t \<in> set trs" for t
    using unique_on_same [OF uniq that l(1)] by auto
  have "unique_on (\<lambda>t. Some (t_id t)) ?trs" "unique_on account_trade_key ?trs"
    using tp by (auto simp: trades_part_def account_trade_key_def closing_values_simps intro!: unique_on_update)
  moreover have "trade_row_ok (put row ints) nid t" if "t \<in> set ?trs" for t
  proof -
    have "\<exists>t0 \<in> set trs. t = (if t_id t0 = t_id l then closing_values trade t0 else t0)"
      using that unfolding sql_update_def set_map by (simp only: image_iff)
    then obtain t0 where t0: "t0 \<in> set trs" "t = (if t_id t0 = t_id l then closing_values trade t0 else t0)" by blast
    have "trade_row_ok (put row ints) nid t0"
      using tp t0(1) by (intro trade_row_ok_put [OF u r s]) (simp add: trades_part_def)
    then show ?thesis using c by (auto simp: t0(2) trade_row_ok_def closing_values_simps)
  qed
  moreover have links: "links_of i ?trs = (if i = i_id r then [TClosed] else links_of i trs)" for i
  proof -
    have "filter (\<lambda>t. t_intentId t = Some i) ?trs
        = map (\<lambda>t. if t_id t = t_id l then closing_values trade t else t) (filter (\<lambda>t. t_intentId t = Some i) trs)"
      unfolding sql_update_def filter_map comp_def by (simp add: closing_values_simps if_distrib [of t_intentId] cong: if_cong)
    moreover have "filter (\<lambda>t. t_intentId t = Some (i_id r)) trs = [l]"
    proof -
      obtain x where x: "filter (\<lambda>t. t_intentId t = Some (i_id r)) trs = [x]"
        using l(3) by (auto simp: links_of_def)
      have "l \<in> set (filter (\<lambda>t. t_intentId t = Some (i_id r)) trs)" using l(1,2) by simp
      then show ?thesis using x by simp
    qed
    moreover have "map (\<lambda>t. if t_id t = t_id l then closing_values trade t else t) (filter (\<lambda>t. t_intentId t = Some i) trs)
        = filter (\<lambda>t. t_intentId t = Some i) trs" if "i \<noteq> i_id r"
    proof (rule map_idI)
      fix t assume t: "t \<in> set (filter (\<lambda>t. t_intentId t = Some i) trs)"
      then have "t \<noteq> l" using l(2) that by auto
      then show "(if t_id t = t_id l then closing_values trade t else t) = t" using only t by simp
    qed
    ultimately show ?thesis using c
      by (cases "i = i_id r") (simp_all add: links_of_def closing_values_simps del: map_map map_eq_conv)
  qed
  moreover have "links_of (i_id x) trs = link_statuses (i_status x) \<and> i_id x \<noteq> i_id r" if "x \<in> set ints" "x \<noteq> r" for x
    using that tp unique_ids_eq [OF u r that(1)] by (auto simp: trades_part_def)
  ultimately show ?thesis using st id by (simp add: trades_part_def ball_put [OF u r id])
qed

text \<open>The linked trade of an intent: none, or the one whose status its own implies.\<close>

lemma linked_trade:
  assumes ok: "db_ok d" and r: "r \<in> set (intents d)"
  shows "sql_first (\<lambda>t. t_intentId t = Some (i_id r)) (trades d) = None \<longleftrightarrow> link_statuses (i_status r) = []"
    "sql_first (\<lambda>t. t_intentId t = Some (i_id r)) (trades d) = Some l \<Longrightarrow>
       l \<in> set (trades d) \<and> t_intentId l = Some (i_id r) \<and> link_statuses (i_status r) = [t_status l]"
proof -
  have links: "map t_status (filter (\<lambda>t. t_intentId t = Some (i_id r)) (trades d)) = link_statuses (i_status r)"
    using db_ok_links [OF ok r] by (simp add: links_of_def)
  show "sql_first (\<lambda>t. t_intentId t = Some (i_id r)) (trades d) = None \<longleftrightarrow> link_statuses (i_status r) = []"
    unfolding sql_first_None links [symmetric] by (simp add: filter_empty_conv)
  assume "sql_first (\<lambda>t. t_intentId t = Some (i_id r)) (trades d) = Some l"
  then have l: "l \<in> set (trades d) \<and> t_intentId l = Some (i_id r)" by (rule sql_first_Some)
  then have "l \<in> set (filter (\<lambda>t. t_intentId t = Some (i_id r)) (trades d))" by simp
  moreover have "length (link_statuses (i_status r)) \<le> 1" by (simp add: link_statuses_def)
  then have "length (filter (\<lambda>t. t_intentId t = Some (i_id r)) (trades d)) \<le> 1"
    unfolding links [symmetric] by simp
  ultimately have "filter (\<lambda>t. t_intentId t = Some (i_id r)) (trades d) = [l]"
    by (cases "filter (\<lambda>t. t_intentId t = Some (i_id r)) (trades d)") auto
  then show "l \<in> set (trades d) \<and> t_intentId l = Some (i_id r) \<and> link_statuses (i_status r) = [t_status l]"
    using l links by simp
qed

text \<open>What a settlement does: nothing, a mismatch, or the one intent, its token and its trade's close.\<close>

lemma settle_intent_cases:
  assumes ok: "db_ok d" and a: "a = Accepted \<or> a = ManualReview" and c: "is_closed_trade trade"
  shows "(\<exists>reason. settle_intent iid ex a trade d = Inl (MismatchThrown reason iid (bt_id trade)))
    \<or> (settle_intent iid ex a trade d = Inr (None, d) \<and> (\<forall>r \<in> set (intents d). \<not> cas_matches iid a ex (\<lambda>_. True) r))
    \<or> (\<exists>r ns row trs nid. r \<in> set (intents d) \<and> cas_matches iid a ex (\<lambda>_. True) r
        \<and> row = moved_to Settled (now d) (\<lambda>r. r\<lparr>i_tokensReserved := 0\<rparr>) r
        \<and> trades_part (put row (intents d)) trs nid \<and> next_id d \<le> nid
        \<and> settle_intent iid ex a trade d = Inr (Some row,
            (finished r row LSettle (i_tokensReserved r) ns d)\<lparr>trades := trs, next_id := nid\<rparr>))"
proof (cases "\<exists>r \<in> set (intents d). cas_matches iid a ex (\<lambda>_. True) r")
  case False
  have "settle_intent iid ex a trade d = Inr (None, d)"
  proof (cases "find_intent_row iid d")
    case None
    then show ?thesis by (simp add: settle_intent_def)
  next
    case (Some r)
    then have "r \<in> set (intents d) \<and> i_id r = iid" by (rule find_intent_Some)
    then have "\<not> (i_status r = a \<and> (ex = None \<or> ex = Some (i_version r)))"
      using False by (auto simp: cas_matches_def split: option.splits)
    then show ?thesis using Some by (auto simp: settle_intent_def)
  qed
  then show ?thesis using False by blast
next
  case True
  then obtain r where r: "r \<in> set (intents d)" "cas_matches iid a ex (\<lambda>_. True) r" by blast
  then have id: "i_id r = iid" and st: "i_status r = a" and ver: "ex = None \<or> ex = Some (i_version r)"
    by (auto simp: cas_matches_def split: option.splits)
  have live: "\<not> terminal (i_status r)" and can: "can_transition a Settled" using a st by auto
  let ?pt = "\<lambda>r::intent_row. r\<lparr>i_tokensReserved := 0\<rparr>"
  let ?row = "moved_to Settled (now d) ?pt r"
  have m: "moves r ?row" using can st by (intro moved_to_moves) (auto simp: same_intent_def tokens_of_def)
  have s: "same_intent r ?row" using m by (simp add: moves_def)
  have u: "unique_ids (intents d)" using ok by (rule db_ok_unique)
  have "cas_matches iid a (Some (i_version r)) (\<lambda>_. True) r" using r(2) by (auto simp: cas_matches_def)
  from transition_ok [OF u r(1) this can, of ?pt]
  obtain ns where t: "transition_intent iid a Settled (Some (i_version r)) ?pt (\<lambda>_. True) d
      = Inr (Some ?row, d\<lparr>intents := put ?row (intents d), notices := ns\<rparr>)" by auto
  have f: "find_intent_row iid d = Some r" using find_intent_unique [OF u r(1)] id by simp
  have pos: "0 < i_tokensReserved r" using live_tokens [OF db_ok_row [OF ok r(1)] live] by (simp add: TOKENS_PER_INTENT_def)
  define fin where "fin = finished r ?row LSettle (i_tokensReserved r) ns d"
  have cons: "consume_tokens (i_userId r) iid (i_tokensReserved r) (d\<lparr>intents := put ?row (intents d), notices := ns\<rparr>) = Inr fin"
    using consume_tokens_finish [OF ok r(1) live, where row = ?row and ns = ns] id by (simp add: fin_def)
  have fin: "trades fin = trades d" "next_id fin = next_id d" by (simp_all add: fin_def finished_simps)
  have tp: "trades_part (intents d) (trades d) (next_id d)" using ok by (simp add: db_ok_def)
  have ids: "link_statuses (i_status ?row) = [TClosed]" by (simp add: link_statuses_def)
  show ?thesis
  proof (cases "sql_first (\<lambda>t. t_intentId t = Some iid) (trades d)")
    case None
    show ?thesis
    proof (cases "mismatch_of r trade")
      case (Some reason)
      then show ?thesis using f st ver None by (auto simp: settle_intent_def)
    next
      case mm: None
      have none: "links_of (i_id r) (trades d) = []"
        using linked_trade(1) [OF ok r(1)] None id db_ok_links [OF ok r(1)] by simp
      let ?t = "closing_values trade (trade_row_of r trade (next_id fin))"
      have "insert_trade r trade (closing_values trade) fin = Inl (MismatchThrown TradeAlreadyLinked iid (bt_id trade))
        \<or> (\<not> key_conflict account_trade_key ?t (trades d)
           \<and> insert_trade r trade (closing_values trade) fin = Inr (fin\<lparr>trades := trades d @ [?t], next_id := next_id d + 1\<rparr>))"
        using insert_trade_cases [OF refl, of "closing_values trade" trade r fin] none id fin by simp
      then show ?thesis
      proof
        assume "insert_trade r trade (closing_values trade) fin = Inl (MismatchThrown TradeAlreadyLinked iid (bt_id trade))"
        then show ?thesis using f st ver None mm t cons pos by (auto simp: settle_intent_def)
      next
        assume i: "\<not> key_conflict account_trade_key ?t (trades d)
           \<and> insert_trade r trade (closing_values trade) fin = Inr (fin\<lparr>trades := trades d @ [?t], next_id := next_id d + 1\<rparr>)"
        have "settle_intent iid ex a trade d = Inr (Some ?row, fin\<lparr>trades := trades d @ [?t], next_id := next_id d + 1\<rparr>)"
          using f st ver None mm t cons pos i by (auto simp: settle_intent_def)
        moreover have "trades_part (put ?row (intents d)) (trades d @ [?t]) (next_id d + 1)"
          using i ids none c fin
          by (intro trades_part_put_append [OF tp u r(1) s]) (simp_all add: closing_values_simps trade_row_of_def)
        ultimately show ?thesis
          using r by (intro disjI2 exI [of _ r] exI [of _ ns] exI [of _ ?row] exI [of _ "trades d @ [?t]"] exI [of _ "next_id d + 1"])
            (simp add: fin_def)
      qed
    qed
  next
    case (Some l)
    have l: "l \<in> set (trades d)" "t_intentId l = Some (i_id r)" "link_statuses (i_status r) = [t_status l]"
      using linked_trade(2) [OF ok r(1)] Some id by auto
    then have "a = Accepted" "t_status l = TOpen" using st a by (auto simp: link_statuses_def split: if_splits)
    then have lo: "links_of (i_id r) (trades d) = [TOpen]" using db_ok_links [OF ok r(1)] l by simp
    show ?thesis
    proof (cases "t_brokerTradeId l = bt_id trade")
      case False
      then show ?thesis using f st ver Some by (auto simp: settle_intent_def)
    next
      case bid: True
      let ?trs = "sql_update (\<lambda>t. t_id t = t_id l) (closing_values trade) (trades d)"
      have "settle_intent iid ex a trade d = Inr (Some ?row, fin\<lparr>trades := ?trs\<rparr>)"
        using f st ver Some bid t cons pos fin by (auto simp: settle_intent_def)
      moreover have "fin\<lparr>trades := ?trs\<rparr> = fin\<lparr>trades := ?trs, next_id := next_id d\<rparr>" using fin(2) by (cases fin) simp
      moreover have "trades_part (put ?row (intents d)) ?trs (next_id d)"
        using ids c by (intro trades_part_put_close [OF tp u r(1) s l(1,2) lo])
      ultimately show ?thesis
        using r by (intro disjI2 exI [of _ r] exI [of _ ns] exI [of _ ?row] exI [of _ ?trs] exI [of _ "next_id d"])
          (simp add: fin_def)
    qed
  qed
qed

lemma settle_intent_ok:
  assumes ok: "db_ok d" and a: "a = Accepted \<or> a = ManualReview" and c: "is_closed_trade trade"
    and t: "settle_intent iid ex a trade d = Inr (x, d1)"
  shows "db_ok d1"
  using settle_intent_cases [OF ok a c, of iid ex]
proof (elim disjE exE conjE)
  fix r ns row trs nid
  assume r: "r \<in> set (intents d)" "cas_matches iid a ex (\<lambda>_. True) r"
    and row: "row = moved_to Settled (now d) (\<lambda>r. r\<lparr>i_tokensReserved := 0\<rparr>) r"
    and tp: "trades_part (put row (intents d)) trs nid" "next_id d \<le> nid"
    and eq: "settle_intent iid ex a trade d = Inr (Some row,
            (finished r row LSettle (i_tokensReserved r) ns d)\<lparr>trades := trs, next_id := nid\<rparr>)"
  have st: "i_status r = a" using r(2) by (simp add: cas_matches_def)
  have m: "moves r row" unfolding row using a st by (intro moved_to_moves) (auto simp: same_intent_def tokens_of_def)
  show ?thesis
    using t eq finished_ok [OF ok r(1) m _ _ _ _ tp, of LSettle "i_tokensReserved r" ns] a st by (auto simp: row)
qed (use ok t in simp_all)

section \<open>Reconciliation's conclusion\<close>

lemma conclude_reconciled_ok:
  assumes ok: "db_ok d" and t: "conclude_reconciled iid v trade d = Inr (x, d1)"
  shows "db_ok d1"
proof (cases "find_intent_row iid d")
  case None
  then show ?thesis using t ok by (simp add: conclude_reconciled_def)
next
  case (Some cur)
  show ?thesis
  proof (cases "mark_intent_accepted iid v Reconciling (i_transport cur) trade d")
    case (Inl e)
    then show ?thesis using t Some by (simp add: conclude_reconciled_def)
  next
    case (Inr q)
    obtain y d2 where q: "q = (y, d2)" by (cases q)
    have ok2: "db_ok d2" using mark_intent_accepted_ok [OF ok _ Inr [unfolded q]] by simp
    show ?thesis
      using t Some Inr q ok2 settle_intent_ok [OF ok2 disjI1 [OF refl], of trade]
      by (auto simp: conclude_reconciled_def split: option.splits if_splits sum.splits)
  qed
qed

section \<open>Creation\<close>

lemma sql_first_snoc: "(\<And>x. x \<in> set rs \<Longrightarrow> \<not> p x) \<Longrightarrow> sql_first p (rs @ [r]) = (if p r then Some r else None)"
  unfolding sql_first_def by (induction rs) auto

lemma transition_last:
  assumes "intents d = ints @ [row]" "\<forall>x \<in> set ints. i_id x \<noteq> i_id row" "cas_matches (i_id row) a ex whr row"
    "can_transition a b" "\<not> wakes_notices b"
  shows "transition_intent (i_id row) a b ex patch whr d
    = Inr (Some (moved_to b (now d) patch row), d\<lparr>intents := ints @ [moved_to b (now d) patch row]\<rparr>)"
proof -
  let ?p = "cas_matches (i_id row) a ex whr"
  have no: "\<not> ?p x" if "x \<in> set ints" for x using that assms(2) by (auto simp: cas_matches_def)
  then have "sql_first ?p (intents d) = Some row"
    using assms(1,3) by (simp add: sql_first_snoc)
  moreover have "sql_update ?p f (intents d) = ints @ [f row]" for f
    using assms(1,3) no by (simp add: sql_update_def map_idI)
  ultimately show ?thesis using assms(4,5) by (simp add: transition_intent_def Let_def split: option.split)
qed

text \<open>The row a creation leaves, and the rows that come with it.\<close>

definition queued_row :: "intent_row \<Rightarrow> int \<Rightarrow> intent_row" where
  "queued_row row t = row\<lparr>i_status := Queued, i_version := 3, i_updatedAt := t\<rparr>"

definition queued_state :: "intent_row \<Rightarrow> 'p db \<Rightarrow> 'p db" where
  "queued_state row d =
     d\<lparr>intents := intents d @ [queued_row row (now d)],
       token_ledger := token_ledger d @ [\<lparr>l_userId = i_userId row, l_kind = LReserve, l_balanceDelta = 0,
         l_reservedDelta = TOKENS_PER_INTENT, l_intentId = Some (i_id row), l_accountId = None, l_starPaymentId = None, l_referralId = None, l_bonusRule = None,
         l_note = None, l_createdAt = now d\<rparr>],
       outbox := outbox d @ [\<lparr>o_id = next_id d + 1, o_intentId = i_id row, o_topic = TradingIntents,
         o_payload = i_id row, o_status = OPending, o_attempts = 0, o_availableAt = now d, o_publishedAt = None,
         o_lastError = None, o_createdAt = now d\<rparr>],
       next_id := next_id d + 2\<rparr>"

text \<open>The facts of the invariant a creation's \<open>INSERT\<close>s rest on.\<close>

definition fresh_id :: "'p db \<Rightarrow> bool" where
  "fresh_id d \<longleftrightarrow> (\<forall>x \<in> set (intents d). i_id x < next_id d)
     \<and> (\<forall>l \<in> set (token_ledger d). \<forall>i. l_intentId l = Some i \<longrightarrow> i < next_id d)
     \<and> (\<forall>w \<in> set (outbox d). o_id w < next_id d \<and> o_intentId w < next_id d)"

lemma db_ok_fresh: "db_ok d \<Longrightarrow> fresh_id d"
proof -
  assume ok: "db_ok d"
  have i: "\<forall>x \<in> set (intents d). i_id x < next_id d" using db_ok_row [OF ok] by (simp add: intent_row_ok_def)
  moreover have "i < next_id d" if "l \<in> set (token_ledger d)" "l_intentId l = Some i" for l i
  proof -
    have "\<exists>r \<in> set (intents d). i_id r = i" using ok that by (auto simp: db_ok_def ledger_part_def)
    then show ?thesis using i by auto
  qed
  moreover have "o_id w < next_id d \<and> o_intentId w < next_id d" if "w \<in> set (outbox d)" for w
  proof -
    have "o_id w < next_id d" "\<exists>r \<in> set (intents d). i_id r = o_intentId w"
      using ok that by (auto simp: db_ok_def outbox_part_def)
    then show ?thesis using i by auto
  qed
  ultimately show ?thesis by (simp add: fresh_id_def)
qed

lemma queue_intent_cases:
  assumes f: "fresh_id d" and row: "i_id row = next_id d" "i_status row = Planned" "i_version row = 1"
  shows "(\<exists>c. queue_intent row d = Inl (CheckViolation c))
    \<or> (key_conflict user_request_key row (intents d)
        \<and> queue_intent row d = Inl (UniqueViolation ''trade_intents_user_request_idx''))
    \<or> (key_conflict active_account_key row (intents d)
        \<and> queue_intent row d = Inl (UniqueViolation ''trade_intents_active_account_idx''))
    \<or> (\<not> key_conflict user_request_key row (intents d) \<and> \<not> key_conflict active_account_key row (intents d)
        \<and> queue_intent row d = Inr (queued_row row (now d), queued_state row d))"
proof (cases "insert_intent row (d\<lparr>next_id := next_id d + 1\<rparr>)")
  case (Inl e)
  then show ?thesis by (auto simp: queue_intent_def insert_intent_def split: if_splits)
next
  case (Inr q)
  then have q: "q = (row, d\<lparr>next_id := next_id d + 1, intents := intents d @ [row]\<rparr>)"
    and nc: "\<not> key_conflict user_request_key row (intents d)" "\<not> key_conflict active_account_key row (intents d)"
    by (auto simp: insert_intent_def split: if_splits)
  let ?d1 = "d\<lparr>next_id := next_id d + 1, intents := intents d @ [row]\<rparr>"
  let ?l = "\<lparr>l_userId = i_userId row, l_kind = LReserve, l_balanceDelta = 0, l_reservedDelta = TOKENS_PER_INTENT,
      l_intentId = Some (i_id row), l_accountId = None, l_starPaymentId = None, l_referralId = None, l_bonusRule = None,
         l_note = None, l_createdAt = now d\<rparr>"
  have n: "now ?d1 = now d" by simp
  have "\<not> key_conflict reserve_intent_key ?l (token_ledger d)" "\<not> key_conflict terminal_intent_key ?l (token_ledger d)"
    using f row(1) by (auto simp: key_conflict_iff reserve_intent_key_def terminal_intent_key_def fresh_id_def split: if_splits)
  then have led: "insert_ledger ?l ?d1 = Inr (?d1\<lparr>token_ledger := token_ledger d @ [?l]\<rparr>)"
    by (simp add: insert_ledger_def)
  let ?d2 = "?d1\<lparr>token_ledger := token_ledger d @ [?l]\<rparr>"
  have other: "\<forall>x \<in> set (intents d). i_id x \<noteq> i_id row" using f row(1) by (auto simp: fresh_id_def)
  let ?r1 = "moved_to Reserved (now d) (\<lambda>r. r) row"
  have t1: "transition_intent (i_id row) Planned Reserved (Some (i_version row)) (\<lambda>r. r) (\<lambda>_. True) ?d2
      = Inr (Some ?r1, ?d2\<lparr>intents := intents d @ [?r1]\<rparr>)"
    using transition_last [of ?d2 "intents d" row Planned "Some (i_version row)" "\<lambda>_. True" Reserved "\<lambda>r. r"] other row
    by (simp add: cas_matches_def wakes_notices_def)
  let ?d3 = "?d2\<lparr>intents := intents d @ [?r1]\<rparr>"
  have nk: "\<not> key_conflict topic_intent_key (last (outbox (insert_outbox (i_id row) TradingIntents ?d3))) (outbox ?d3)"
    using f row(1) by (auto simp: key_conflict_iff topic_intent_key_def insert_outbox_def fresh_id_def)
  let ?d4 = "insert_outbox (i_id row) TradingIntents ?d3"
  let ?r2 = "moved_to Queued (now d) (\<lambda>r. r) ?r1"
  have r1: "i_id ?r1 = i_id row" by (simp add: moved_to_def)
  have t2: "transition_intent (i_id row) Reserved Queued (Some (i_version ?r1)) (\<lambda>r. r) (\<lambda>_. True) ?d4
      = Inr (Some ?r2, ?d4\<lparr>intents := intents d @ [?r2]\<rparr>)"
    using transition_last [of ?d4 "intents d" ?r1 Reserved "Some (i_version ?r1)" "\<lambda>_. True" Queued "\<lambda>r. r"] other
    by (simp add: cas_matches_def wakes_notices_def r1)
  have r2: "?r2 = queued_row row (now d)" using row(3) by (simp add: moved_to_def queued_row_def)
  have "?d4\<lparr>intents := intents d @ [?r2]\<rparr> = queued_state row d"
    unfolding r2 by (simp add: queued_state_def insert_outbox_def)
  then have "queue_intent row d = Inr (queued_row row (now d), queued_state row d)"
    using r2 by (simp only: queue_intent_def Inr q n led t1 nk t2 sum.case prod.case option.case if_False)
  then show ?thesis using nc by blast
qed

text \<open>The reserve \<open>UPDATE\<close> and the rows that follow keep every part.\<close>

lemma users_part_reserve:
  assumes up: "users_part us ints led" and u: "u0 \<in> set us" "may_reserve uid m u0"
    and row: "i_userId row = uid" "i_tokensReserved row = TOKENS_PER_INTENT"
    and l: "l_userId l = uid" "l_reservedDelta l = TOKENS_PER_INTENT" "l_balanceDelta l = 0"
  shows "users_part (sql_update (may_reserve uid m) (\<lambda>u. u\<lparr>u_tokenReserved := u_tokenReserved u + TOKENS_PER_INTENT\<rparr>) us)
    (ints @ [row]) (led @ [l])"
proof -
  let ?f = "\<lambda>u. u\<lparr>u_tokenReserved := u_tokenReserved u + TOKENS_PER_INTENT\<rparr>"
  have uniq: "unique_on (\<lambda>u. Some (u_id u)) us" using up by (simp add: users_part_def)
  have iff: "may_reserve uid m u \<longleftrightarrow> u_id u = uid" if "u \<in> set us" for u
    using unique_on_same [OF uniq that u(1), of uid] u(2) by (auto simp: may_reserve_def)
  have eq: "sql_update (may_reserve uid m) ?f us = sql_update (\<lambda>u. u_id u = uid) ?f us"
    using iff by (intro finish_users) auto
  have "unique_on (\<lambda>u. Some (u_id u)) (sql_update (\<lambda>u. u_id u = uid) ?f us)"
    "unique_on (\<lambda>u. Some (u_telegramUserId u)) (sql_update (\<lambda>u. u_id u = uid) ?f us)"
    using up by (auto simp: users_part_def intro!: unique_on_update)
  moreover have "user_row_ok (ints @ [row]) (led @ [l]) (if u_id u = uid then ?f u else u)" if "u \<in> set us" for u
  proof -
    have "user_row_ok ints led u" using up that by (simp add: users_part_def)
    moreover have "u_id u = uid \<Longrightarrow> u_tokenReserved u + TOKENS_PER_INTENT \<le> u_tokenBalance u"
      using iff [OF that] by (simp add: may_reserve_def)
    ultimately show ?thesis using row l
      by (cases "u_id u = uid") (simp_all add: user_row_ok_def held_append ledger_sum_append)
  qed
  ultimately show ?thesis unfolding eq by (simp add: users_part_def ball_sql_update)
qed

lemma queued_row_simps [simp]:
  "i_id (queued_row r t) = i_id r" "i_status (queued_row r t) = Queued" "i_userId (queued_row r t) = i_userId r"
  "i_accountId (queued_row r t) = i_accountId r" "i_sessionId (queued_row r t) = i_sessionId r"
  "i_mode (queued_row r t) = i_mode r" "i_tokensReserved (queued_row r t) = i_tokensReserved r"
  "i_clientRequestId (queued_row r t) = i_clientRequestId r"
  by (simp_all add: queued_row_def)

lemma queued_state_ok:
  assumes ok: "db_ok d" and u: "u0 \<in> set (users d)" "may_reserve (i_userId row) m u0"
    and nid: "next_id d \<le> nid" "i_id row = nid" and tok: "i_tokensReserved row = TOKENS_PER_INTENT"
    and acc: "\<exists>a \<in> set (accounts d). a_id a = i_accountId row \<and> a_userId a = i_userId row"
    and sess: "\<forall>s. i_sessionId row = Some s \<longrightarrow>
       (\<exists>sr \<in> set (sessions d). s_id sr = s \<and> s_accountId sr = i_accountId row \<and> s_mode sr = i_mode row)"
    and st: "i_status row = Planned"
    and nc: "\<not> key_conflict user_request_key row (intents d)" "\<not> key_conflict active_account_key row (intents d)"
  shows "db_ok (queued_state row (d\<lparr>users := sql_update (may_reserve (i_userId row) m)
      (\<lambda>u. u\<lparr>u_tokenReserved := u_tokenReserved u + TOKENS_PER_INTENT\<rparr>) (users d), decisions := ds, next_id := nid\<rparr>))"
proof -
  let ?q = "queued_row row (now d)"
  let ?us = "sql_update (may_reserve (i_userId row) m) (\<lambda>u. u\<lparr>u_tokenReserved := u_tokenReserved u + TOKENS_PER_INTENT\<rparr>) (users d)"
  obtain l where l: "l_userId l = i_userId row" "l_kind l = LReserve" "l_balanceDelta l = 0" "l_reservedDelta l = TOKENS_PER_INTENT"
    "l_intentId l = Some (i_id row)" and led: "l = \<lparr>l_userId = i_userId row, l_kind = LReserve, l_balanceDelta = 0,
         l_reservedDelta = TOKENS_PER_INTENT, l_intentId = Some (i_id row), l_accountId = None, l_starPaymentId = None, l_referralId = None, l_bonusRule = None,
         l_note = None, l_createdAt = now d\<rparr>" by simp
  obtain w where w: "o_id w = nid + 1" "o_intentId w = i_id row" "o_topic w = TradingIntents" "o_payload w = i_id row"
    and obx: "w = \<lparr>o_id = nid + 1, o_intentId = i_id row, o_topic = TradingIntents,
         o_payload = i_id row, o_status = OPending, o_attempts = 0, o_availableAt = now d, o_publishedAt = None,
         o_lastError = None, o_createdAt = now d\<rparr>" by simp
  have f: "fresh_id d" using ok by (rule db_ok_fresh)
  have lt: "\<forall>x \<in> set (intents d). i_id x < nid" using f nid(1) by (auto simp: fresh_id_def intro: less_le_trans)
  have P1: "users_part ?us (intents d @ [?q]) (token_ledger d @ [l])"
    using ok l tok by (intro users_part_reserve [OF _ u]) (simp_all add: db_ok_def)
  have ip: "intents_part ?us (accounts d) (sessions d) (intents d) (nid + 2)"
  proof (rule intents_part_users)
    have "intents_part (users d) (accounts d) (sessions d) (intents d) (next_id d)" using ok by (simp add: db_ok_def)
    then show "intents_part (users d) (accounts d) (sessions d) (intents d) (nid + 2)"
      using nid(1) by (rule intents_part_mono [OF _ trans_le_add1])
    show "\<exists>u \<in> set (users d). u_id u = i \<Longrightarrow> \<exists>u \<in> set ?us. u_id u = i" for i
      by (erule update_user_ids) simp
  qed
  have rowok: "intent_row_ok ?us (accounts d) (sessions d) (nid + 2) ?q"
  proof -
    have "\<exists>u \<in> set (users d). u_id u = i_userId row" using u by (auto simp: may_reserve_def)
    then have "\<exists>u \<in> set ?us. u_id u = i_userId row" by (rule update_user_ids) simp
    then show ?thesis using acc sess tok nid by (simp add: intent_row_ok_def tokens_of_def)
  qed
  have "\<not> key_conflict (\<lambda>r. Some (i_id r)) ?q (intents d)" using lt nid by (auto simp: key_conflict_iff)
  moreover have "\<not> key_conflict user_request_key ?q (intents d)" "\<not> key_conflict active_account_key ?q (intents d)"
    using nc st by (auto simp: key_conflict_iff user_request_key_def active_account_key_def split: if_splits)
  ultimately have P2: "intents_part ?us (accounts d) (sessions d) (intents d @ [?q]) (nid + 2)"
    using ip rowok by (simp add: intents_part_def unique_on_snoc)
  have lp: "ledger_part (intents d) (token_ledger d)" using ok by (simp add: db_ok_def)
  have new: "kinds_of nid (token_ledger d) = []" "links_of nid (trades d) = []" "topics_of nid (outbox d) = []"
  proof -
    show "kinds_of nid (token_ledger d) = []"
      using f nid(1) by (auto simp: kinds_of_def filter_empty_conv fresh_id_def)
    have "\<forall>t \<in> set (trades d). trade_row_ok (intents d) (next_id d) t" using ok by (simp add: db_ok_def trades_part_def)
    then have "t_intentId t \<noteq> Some nid" if "t \<in> set (trades d)" for t
      using that lt unfolding trade_row_ok_def by (metis less_irrefl)
    then show "links_of nid (trades d) = []" by (auto simp: links_of_def filter_empty_conv)
    show "topics_of nid (outbox d) = []"
      using f nid(1) by (auto simp: topics_of_def filter_empty_conv fresh_id_def)
  qed
  have P3: "ledger_part (intents d @ [?q]) (token_ledger d @ [l])"
    unfolding ledger_part_def
  proof (intro conjI ballI allI impI)
    fix m i assume m: "m \<in> set (token_ledger d @ [l])" "l_intentId m = Some i"
    show "\<exists>r \<in> set (intents d @ [?q]). i_id r = i \<and> i_userId r = l_userId m"
    proof (cases "m \<in> set (token_ledger d)")
      case True
      then have "\<exists>r \<in> set (intents d). i_id r = i \<and> i_userId r = l_userId m" using lp m(2) by (simp add: ledger_part_def)
      then show ?thesis by auto
    next
      case False
      then show ?thesis using m l by auto
    qed
  next
    fix m assume "m \<in> set (token_ledger d @ [l])"
    then show "(l_kind m = LReserve \<or> l_kind m = LRelease \<or> l_kind m = LSettle) = (l_intentId m \<noteq> None)"
      using lp l unfolding ledger_part_def by (cases "m = l") auto
  next
    fix r assume "r \<in> set (intents d @ [?q])"
    then show "kinds_of (i_id r) (token_ledger d @ [l]) = ledger_kinds (i_status r)"
      using lp l lt nid new(1) by (cases "r = ?q") (auto simp: ledger_part_def kinds_of_append ledger_kinds_def)
  qed
  have tp: "trades_part (intents d) (trades d) (nid + 2)"
    using ok nid(1) trades_part_mono [of "intents d" "trades d" "next_id d" "nid + 2"] by (simp add: db_ok_def)
  have mono: "trade_row_ok (intents d) (nid + 2) t \<Longrightarrow> trade_row_ok (intents d @ [?q]) (nid + 2) t" for t
    by (auto simp: trade_row_ok_def)
  have P4: "trades_part (intents d @ [?q]) (trades d) (nid + 2)"
    using tp mono new(2) nid unfolding trades_part_def by (auto simp: link_statuses_def)
  have op: "outbox_part (intents d) (outbox d) nid"
    using ok nid(1) outbox_part_mono [of "intents d" "outbox d" "next_id d" nid] by (simp add: db_ok_def)
  have "topics_ok (i_status x) (topics_of (i_id x) (outbox d @ [w]))" if "x \<in> set (intents d)" for x
    using op that lt w nid by (auto simp: outbox_part_def topics_of_append)
  moreover have "topics_ok Queued (topics_of nid (outbox d @ [w]))" using w new(3) nid by (simp add: topics_of_append topics_ok_def)
  moreover have "unique_on (\<lambda>r. Some (o_id r)) (outbox d @ [w])"
    using op w by (auto simp: outbox_part_def unique_on_snoc key_conflict_iff)
  ultimately have P5: "outbox_part (intents d @ [?q]) (outbox d @ [w]) (nid + 2)"
    using op w nid by (auto simp: outbox_part_def)
  have "accounts_part (accounts d)" "sessions_part (accounts d) (sessions d) (nid + 2)"
    using ok nid(1) sessions_part_mono [of "accounts d" "sessions d" "next_id d" "nid + 2"] by (auto simp: db_ok_def)
  moreover have "people_part (map u_id ?us) (map (\<lambda>a. (a_id a, a_userId a)) (accounts d)) (map l_userId (token_ledger d) @ [i_userId row]) (Suc (Suc nid))"
  proof -
    have "people_of d (nid + 2)" using ok nid(1) people_part_mono [of _ _ _ "next_id d" "nid + 2"] by (auto simp: db_ok_def)
    moreover have "i_userId row \<in> set (map u_id (users d))" using u by (force simp: may_reserve_def)
    ultimately show ?thesis by (simp add: map_sql_update people_part_ledger)
  qed
  ultimately show ?thesis using P1 P2 P3 P4 P5 unfolding db_ok_def queued_state_def by (simp add: led obx)
qed

section \<open>Creation under concurrency\<close>

text \<open>
  What an earlier state leaves in a later one: users, accounts and intents are never deleted, and the
  columns that identify them and the terms of an intent never change.
\<close>

definition same_terms :: "intent_row \<Rightarrow> intent_row \<Rightarrow> bool" where
  "same_terms r r' \<longleftrightarrow> same_intent r r' \<and> i_assetId r' = i_assetId r \<and> i_amount r' = i_amount r
     \<and> i_action r' = i_action r \<and> i_durationSec r' = i_durationSec r"

definition grows :: "'p db \<Rightarrow> 'p db \<Rightarrow> bool" where
  "grows d d' \<longleftrightarrow>
     (\<forall>u \<in> set (users d). \<exists>u' \<in> set (users d'). u_id u' = u_id u \<and> u_telegramUserId u' = u_telegramUserId u)
     \<and> (\<forall>a \<in> set (accounts d). \<exists>a' \<in> set (accounts d'). a_id a' = a_id a \<and> a_userId a' = a_userId a)
     \<and> (\<forall>r \<in> set (intents d). \<exists>r' \<in> set (intents d'). same_terms r r')"

lemma grows_refl [simp]: "grows d d"
  unfolding grows_def same_terms_def by (metis same_intent_refl)

text \<open>The reserve, ready for the rest of the transaction.\<close>

definition reserve_token :: "nat \<Rightarrow> trade_mode \<Rightarrow> 'p db \<Rightarrow> 'p db" where
  "reserve_token uid m d =
     d\<lparr>users := sql_update (may_reserve uid m) (\<lambda>u. u\<lparr>u_tokenReserved := u_tokenReserved u + TOKENS_PER_INTENT\<rparr>) (users d)\<rparr>"

lemma reserve_token_simps [simp]:
  "intents (reserve_token uid m d) = intents d" "accounts (reserve_token uid m d) = accounts d"
  "sessions (reserve_token uid m d) = sessions d" "next_id (reserve_token uid m d) = next_id d"
  "now (reserve_token uid m d) = now d" "token_ledger (reserve_token uid m d) = token_ledger d"
  "outbox (reserve_token uid m d) = outbox d" "decisions (reserve_token uid m d) = decisions d"
  by (simp_all add: reserve_token_def)

text \<open>The error of a creation that is neither a lost race nor a bug.\<close>

fun creation_refusal :: "tx_error \<Rightarrow> bool" where
  "creation_refusal (IntentRefused _) = True"
| "creation_refusal (SessionNotActive _) = True"
| "creation_refusal (CheckViolation _) = True"
| "creation_refusal _ = False"

definition lost_race :: "tx_error \<Rightarrow> bool" where
  "lost_race e \<longleftrightarrow> e = UniqueViolation ''trade_intents_user_request_idx'' \<or> e = UniqueViolation ''trade_intents_active_account_idx''"

lemma planned_row_simps [simp]:
  "i_id (planned_row input session uid acc dec d) = next_id d" "i_status (planned_row input session uid acc dec d) = Planned"
  "i_version (planned_row input session uid acc dec d) = 1" "i_userId (planned_row input session uid acc dec d) = uid"
  "i_accountId (planned_row input session uid acc dec d) = acc" "i_mode (planned_row input session uid acc dec d) = cq_mode input"
  "i_sessionId (planned_row input session uid acc dec d) = map_option is_id session"
  "i_tokensReserved (planned_row input session uid acc dec d) = TOKENS_PER_INTENT"
  "i_clientRequestId (planned_row input session uid acc dec d) = cq_clientRequestId input"
  "i_assetId (planned_row input session uid acc dec d) = cq_assetId input" "i_amount (planned_row input session uid acc dec d) = cq_amount input"
  "i_action (planned_row input session uid acc dec d) = cq_action input"
  "i_durationSec (planned_row input session uid acc dec d) = cq_durationSec input"
  by (simp_all add: planned_row_def)

lemma record_signal_decision_Inr:
  "record_signal_decision di d = Inr (k, d') \<Longrightarrow> \<exists>ds. d' = d\<lparr>decisions := ds, next_id := next_id d + 1\<rparr>"
  by (auto simp: record_signal_decision_def split: if_splits)

lemma create_reserved_cases:
  assumes ok: "db_ok d" and u: "u0 \<in> set (users d)" "may_reserve uid (cq_mode input) u0"
    and acc: "\<exists>a \<in> set (accounts d). a_id a = accountId \<and> a_userId a = uid"
    and res: "create_reserved input session uid accountId (reserve_token uid (cq_mode input) d) = res"
  shows "(\<exists>e. res = Inl e \<and> (creation_refusal e \<or> lost_race e))
    \<or> (\<exists>dec nid ds err row. next_id d \<le> nid
        \<and> row = planned_row input session uid accountId dec ((reserve_token uid (cq_mode input) d)\<lparr>next_id := nid\<rparr>)
        \<and> (\<exists>a \<in> set (accounts d). a_id a = accountId \<and> a_status a = AActive \<and> \<not> a_tradingHalted a)
        \<and> res = Inr (\<lparr>cr_intent = queued_row row (now d), cr_created = True, cr_decisionError = err\<rparr>,
            queued_state row ((reserve_token uid (cq_mode input) d)\<lparr>decisions := ds, next_id := nid\<rparr>))
        \<and> db_ok (queued_state row ((reserve_token uid (cq_mode input) d)\<lparr>decisions := ds, next_id := nid\<rparr>)))"
proof (cases "sql_first (\<lambda>a. a_id a = accountId \<and> a_status a = AActive \<and> \<not> a_tradingHalted a) (accounts d)")
  case None
  then show ?thesis using res by (intro disjI1) (auto simp: create_reserved_def)
next
  case (Some a)
  then have a: "a \<in> set (accounts d) \<and> a_id a = accountId \<and> a_status a = AActive \<and> \<not> a_tradingHalted a"
    by (rule sql_first_Some)
  let ?d = "reserve_token uid (cq_mode input) d"
  let ?bad = "case session of None \<Rightarrow> False
          | Some s \<Rightarrow> sql_first (\<lambda>r. s_id r = is_id s \<and> s_accountId r = accountId \<and> s_mode r = cq_mode input
                       \<and> s_status r = SActive) (sessions d) = None"
  show ?thesis
  proof (cases ?bad)
    case True
    then show ?thesis using res Some by (intro disjI1) (auto simp: create_reserved_def split: option.splits)
  next
    case False
    have sess: "\<exists>sr \<in> set (sessions d). s_id sr = is_id s \<and> s_accountId sr = accountId \<and> s_mode sr = cq_mode input"
      if s: "session = Some s" for s
    proof -
      obtain sr where "sql_first (\<lambda>r. s_id r = is_id s \<and> s_accountId r = accountId \<and> s_mode r = cq_mode input
                       \<and> s_status r = SActive) (sessions d) = Some sr" using False s by auto
      then show ?thesis by (auto dest: sql_first_Some)
    qed
    have self: "?d = ?d\<lparr>decisions := decisions ?d, next_id := next_id d\<rparr>" by (simp add: reserve_token_def)
    have "\<exists>dec err ds nid. (case Option.bind session is_decision of None \<Rightarrow> (None, None, ?d)
           | Some di \<Rightarrow> (case record_signal_decision di ?d of
               Inl e \<Rightarrow> (None, Some e, ?d)
             | Inr (dec, d') \<Rightarrow> (Some dec, None, d'))) = (dec, err, ?d\<lparr>decisions := ds, next_id := nid\<rparr>) \<and> next_id d \<le> nid"
    proof (cases "Option.bind session is_decision")
      case None
      then show ?thesis using self by (intro exI [of _ None] exI [of _ "decisions ?d"] exI [of _ "next_id d"]) simp
    next
      case (Some di)
      show ?thesis
      proof (cases "record_signal_decision di ?d")
        case (Inl e)
        then show ?thesis using self Some
          by (intro exI [of _ None] exI [of _ "Some e"] exI [of _ "decisions ?d"] exI [of _ "next_id d"]) simp
      next
        case (Inr q)
        obtain k d' where q: "q = (k, d')" by (cases q)
        obtain ds where "d' = ?d\<lparr>decisions := ds, next_id := next_id d + 1\<rparr>"
          using record_signal_decision_Inr [OF Inr [unfolded q]] by auto
        then show ?thesis using Some Inr q
          by (intro exI [of _ "Some k"] exI [of _ None] exI [of _ ds] exI [of _ "next_id d + 1"]) simp
      qed
    qed
    then obtain dec err ds nid where dec: "(case Option.bind session is_decision of None \<Rightarrow> (None, None, ?d)
           | Some di \<Rightarrow> (case record_signal_decision di ?d of
               Inl e \<Rightarrow> (None, Some e, ?d)
             | Inr (dec, d') \<Rightarrow> (Some dec, None, d'))) = (dec, err, ?d\<lparr>decisions := ds, next_id := nid\<rparr>)"
      and nid: "next_id d \<le> nid" by blast
    let ?d1 = "?d\<lparr>decisions := ds, next_id := nid\<rparr>"
    let ?row = "planned_row input session uid accountId dec ?d1"
    have row: "?row = planned_row input session uid accountId dec (?d\<lparr>next_id := nid\<rparr>)" by (simp add: planned_row_def)
    have f: "fresh_id ?d1" using db_ok_fresh [OF ok] nid by (auto simp: fresh_id_def intro: less_le_trans)
    have res': "res = (case queue_intent ?row ?d1 of Inl e \<Rightarrow> Inl e
        | Inr (queued, d2) \<Rightarrow> Inr (\<lparr>cr_intent = queued, cr_created = True, cr_decisionError = err\<rparr>, d2))"
      using res Some False dec unfolding create_reserved_def by (auto split: option.splits)
    have pr: "i_id ?row = next_id ?d1" "i_status ?row = Planned" "i_version ?row = 1" by simp_all
    from queue_intent_cases [OF f pr] show ?thesis
    proof (elim disjE exE conjE)
      assume nc: "\<not> key_conflict user_request_key ?row (intents ?d1)" "\<not> key_conflict active_account_key ?row (intents ?d1)"
        and q: "queue_intent ?row ?d1 = Inr (queued_row ?row (now ?d1), queued_state ?row ?d1)"
      have eq: "?d1 = d\<lparr>users := sql_update (may_reserve (i_userId ?row) (cq_mode input))
          (\<lambda>u. u\<lparr>u_tokenReserved := u_tokenReserved u + TOKENS_PER_INTENT\<rparr>) (users d), decisions := ds, next_id := nid\<rparr>"
        by (simp add: reserve_token_def)
      have "db_ok (queued_state ?row (d\<lparr>users := sql_update (may_reserve (i_userId ?row) (cq_mode input))
          (\<lambda>u. u\<lparr>u_tokenReserved := u_tokenReserved u + TOKENS_PER_INTENT\<rparr>) (users d), decisions := ds, next_id := nid\<rparr>))"
        using u acc sess nid nc by (intro queued_state_ok [OF ok u(1)]) auto
      then have "db_ok (queued_state ?row ?d1)" using eq by simp
      then show ?thesis using res' q a nid unfolding row
        by (intro disjI2 exI [of _ dec] exI [of _ nid] exI [of _ ds] exI [of _ err] exI [of _ ?row])
          (auto simp: row)
    qed (rule disjI1, use res' in \<open>simp add: lost_race_def\<close>)+
  qed
qed

lemma resolve_trading_account_owner:
  assumes "resolve_trading_account d uid acc = Inr k"
  shows "\<exists>a \<in> set (accounts d). a_id a = k \<and> a_userId a = uid"
proof (cases acc)
  case None
  then obtain a where "filter (\<lambda>a. a_status a = AActive) (filter (\<lambda>a. a_userId a = uid) (accounts d)) = [a]" "k = a_id a"
    using assms by (auto simp: resolve_trading_account_def Let_def split: list.splits)
  then have "a \<in> set (filter (\<lambda>a. a_status a = AActive) (filter (\<lambda>a. a_userId a = uid) (accounts d)))" by simp
  then show ?thesis using \<open>k = a_id a\<close> by auto
next
  case (Some i)
  then show ?thesis using assms
    by (auto simp: resolve_trading_account_def dest!: sql_first_Some split: option.splits)
qed

lemma resolve_trading_account_named:
  "resolve_trading_account d uid acc = Inr k \<Longrightarrow> acc = None \<or> acc = Some k"
  by (auto simp: resolve_trading_account_def dest!: sql_first_Some split: option.splits)

lemma find_replay_Some:
  "find_replay d uid input = Inr (Some res) \<Longrightarrow> \<exists>r \<in> set (intents d). res = \<lparr>cr_intent = r, cr_created = False, cr_decisionError = None\<rparr>
     \<and> i_userId r = uid \<and> i_clientRequestId r = cq_clientRequestId input \<and> same_request r input"
  by (auto simp: find_replay_def dest!: sql_first_Some split: option.splits if_splits)

lemma find_replay_Inl: "find_replay d uid input = Inl e \<Longrightarrow> e = IntentRefused ClientRequestIdConflict"
  by (auto simp: find_replay_def split: option.splits if_splits)

lemma find_user_Some: "find_user d tg = Some u \<Longrightarrow> u \<in> set (users d) \<and> u_telegramUserId u = tg"
  unfolding find_user_def by (drule sql_first_Some) simp

text \<open>The three ends of a creation, over the state the reads saw and the state the lock found.\<close>

definition replay_of :: "create_request \<Rightarrow> 'p db \<Rightarrow> create_result \<Rightarrow> bool" where
  "replay_of input d res \<longleftrightarrow> \<not> cr_created res \<and> cr_decisionError res = None \<and> cr_intent res \<in> set (intents d)
     \<and> i_clientRequestId (cr_intent res) = cq_clientRequestId input \<and> same_request (cr_intent res) input
     \<and> (\<exists>u \<in> set (users d). u_telegramUserId u = cq_telegramUserId input \<and> u_id u = i_userId (cr_intent res))"

definition created_in ::
  "'p db \<Rightarrow> create_request \<Rightarrow> intent_session option \<Rightarrow> 'p db \<Rightarrow> create_result \<Rightarrow> 'p db \<Rightarrow> bool" where
  "created_in seen input session d res d' \<longleftrightarrow>
     (\<exists>u accountId dec nid ds.
        u \<in> set (users d) \<and> may_reserve (u_id u) (cq_mode input) u
        \<and> u_telegramUserId u = cq_telegramUserId input \<and> is_trading_open (trading_switch seen)
        \<and> (cq_brokerAccountId input = None \<or> cq_brokerAccountId input = Some accountId)
        \<and> (\<exists>a \<in> set (accounts d). a_id a = accountId \<and> a_userId a = u_id u \<and> a_status a = AActive \<and> \<not> a_tradingHalted a)
        \<and> next_id d \<le> nid
        \<and> cr_intent res = queued_row (planned_row input session (u_id u) accountId dec
             ((reserve_token (u_id u) (cq_mode input) d)\<lparr>next_id := nid\<rparr>)) (now d)
        \<and> cr_created res
        \<and> d' = queued_state (planned_row input session (u_id u) accountId dec
             ((reserve_token (u_id u) (cq_mode input) d)\<lparr>next_id := nid\<rparr>))
             ((reserve_token (u_id u) (cq_mode input) d)\<lparr>decisions := ds, next_id := nid\<rparr>))"

lemma create_in_transaction_cases:
  assumes ok: "db_ok d" and g: "grows seen d" and ok0: "db_ok seen"
  shows "(\<exists>e. create_in_transaction seen input session opts d = Inl e \<and> (creation_refusal e \<or> lost_race e))
    \<or> (\<exists>res. create_in_transaction seen input session opts d = Inr (res, d) \<and> replay_of input seen res)
    \<or> (\<exists>res d'. create_in_transaction seen input session opts d = Inr (res, d') \<and> created_in seen input session d res d' \<and> db_ok d')"
proof (cases "find_user seen (cq_telegramUserId input)")
  case None
  then show ?thesis by (simp add: create_in_transaction_def)
next
  case (Some user)
  then have user: "user \<in> set (users seen) \<and> u_telegramUserId user = cq_telegramUserId input" by (rule find_user_Some)
  show ?thesis
  proof (cases "find_replay seen (u_id user) input")
    case (Inl e)
    then show ?thesis using Some find_replay_Inl by (fastforce simp: create_in_transaction_def)
  next
    case (Inr mr)
    show ?thesis
    proof (cases mr)
      case (Some res)
      with Inr have "find_replay seen (u_id user) input = Inr (Some res)" by simp
      from find_replay_Some [OF this] have "replay_of input seen res" using user by (auto simp: replay_of_def)
      then show ?thesis using \<open>find_user _ _ = Some user\<close> Inr Some by (simp add: create_in_transaction_def)
    next
      case None
      let ?t = "create_in_transaction seen input session opts d"
      let ?m = "cq_mode input"
      show ?thesis
      proof (cases "\<exists>e. ?t = Inl e \<and> creation_refusal e")
        case True
        then show ?thesis by blast
      next
        case no: False
        have noR: "?t \<noteq> Inl (IntentRefused e)" for e using no by auto
        have body: "?t = (if co_demoOnly opts \<and> ?m = Real then Inl (IntentRefused DemoOnly)
            else if \<not> is_trading_open (trading_switch seen) then Inl (IntentRefused TradingPaused)
            else case resolve_trading_account seen (u_id user) (cq_brokerAccountId input) of
              Inl code \<Rightarrow> Inl (IntentRefused code)
            | Inr accountId \<Rightarrow>
            (case stake_refused seen accountId input opts of Some code \<Rightarrow> Inl (IntentRefused code)
             | None \<Rightarrow>
            if sql_first (may_reserve (u_id user) ?m) (users d) = None
            then Inl (IntentRefused (reserve_refusal d (u_id user) ?m))
            else create_reserved input session (u_id user) accountId (reserve_token (u_id user) ?m d)))"
          using \<open>find_user _ _ = Some user\<close> Inr None
          by (simp add: create_in_transaction_def Let_def reserve_token_def cong: if_cong option.case_cong sum.case_cong)
        have no1: "\<not> (co_demoOnly opts \<and> ?m = Real)"
        proof
          assume "co_demoOnly opts \<and> ?m = Real"
          then show False using noR [of DemoOnly] body by simp
        qed
        have sw: "is_trading_open (trading_switch seen)"
        proof (rule ccontr)
          assume "\<not> is_trading_open (trading_switch seen)"
          then show False using noR [of TradingPaused] body no1 by simp
        qed
        obtain acc where acc: "resolve_trading_account seen (u_id user) (cq_brokerAccountId input) = Inr acc"
          using noR body no1 sw by (cases "resolve_trading_account seen (u_id user) (cq_brokerAccountId input)") auto
        have st: "stake_refused seen acc input opts = None"
          using noR body no1 sw acc by (cases "stake_refused seen acc input opts") auto
        obtain u0 where u0: "sql_first (may_reserve (u_id user) ?m) (users d) = Some u0"
          using noR body no1 sw acc st by (cases "sql_first (may_reserve (u_id user) ?m) (users d)") auto
        have eq: "?t = create_reserved input session (u_id user) acc (reserve_token (u_id user) ?m d)"
          using body no1 sw acc st u0 by simp
        have u: "u0 \<in> set (users d)" "may_reserve (u_id user) ?m u0" using sql_first_Some [OF u0] by auto
        have uid: "u_id u0 = u_id user" using u(2) by (simp add: may_reserve_def)
        have tg: "u_telegramUserId u0 = cq_telegramUserId input"
        proof -
          obtain u' where "u' \<in> set (users d)" "u_id u' = u_id user" "u_telegramUserId u' = u_telegramUserId user"
            using g user unfolding grows_def by blast
          moreover have "unique_on (\<lambda>u. Some (u_id u)) (users d)" using ok by (simp add: db_ok_def users_part_def)
          ultimately have "u' = u0" using u(1) uid unique_on_same [of "\<lambda>u. Some (u_id u)" "users d" u' u0] by auto
          then show ?thesis using \<open>u_telegramUserId u' = u_telegramUserId user\<close> user by simp
        qed
        obtain a where a: "a \<in> set (accounts d)" "a_id a = acc" "a_userId a = u_id user"
          using resolve_trading_account_owner [OF acc] g unfolding grows_def by metis
        then have owner: "\<exists>a \<in> set (accounts d). a_id a = acc \<and> a_userId a = u_id user" by blast
        have uniq: "unique_on (\<lambda>a. Some (a_id a)) (accounts d)" using ok by (simp add: db_ok_def accounts_part_def)
        from create_reserved_cases [OF ok u owner refl, of session] show ?thesis
        proof (elim disjE exE conjE)
          fix e assume "create_reserved input session (u_id user) acc (reserve_token (u_id user) ?m d) = Inl e" "creation_refusal e"
          then show ?thesis using no eq by simp
        next
          fix e assume "create_reserved input session (u_id user) acc (reserve_token (u_id user) ?m d) = Inl e" "lost_race e"
          then show ?thesis using eq by simp
        next
          fix dec nid ds err row
          assume c: "next_id d \<le> nid" "row = planned_row input session (u_id user) acc dec ((reserve_token (u_id user) ?m d)\<lparr>next_id := nid\<rparr>)"
            "\<exists>a \<in> set (accounts d). a_id a = acc \<and> a_status a = AActive \<and> \<not> a_tradingHalted a"
            "create_reserved input session (u_id user) acc (reserve_token (u_id user) ?m d)
              = Inr (\<lparr>cr_intent = queued_row row (now d), cr_created = True, cr_decisionError = err\<rparr>,
                  queued_state row ((reserve_token (u_id user) ?m d)\<lparr>decisions := ds, next_id := nid\<rparr>))"
            "db_ok (queued_state row ((reserve_token (u_id user) ?m d)\<lparr>decisions := ds, next_id := nid\<rparr>))"
          have "a_status a = AActive \<and> \<not> a_tradingHalted a"
          proof -
            obtain b where b: "b \<in> set (accounts d)" "a_id b = acc" "a_status b = AActive \<and> \<not> a_tradingHalted b"
              using c(3) by blast
            then have "b = a" using unique_on_same [OF uniq b(1) a(1), of acc] a(2) by simp
            then show ?thesis using b(3) by simp
          qed
          then have "created_in seen input session d \<lparr>cr_intent = queued_row row (now d), cr_created = True, cr_decisionError = err\<rparr>
              (queued_state row ((reserve_token (u_id user) ?m d)\<lparr>decisions := ds, next_id := nid\<rparr>))"
            unfolding created_in_def using u uid tg sw a c(1,2) resolve_trading_account_named [OF acc]
            by (intro exI [of _ u0] exI [of _ acc] exI [of _ dec] exI [of _ nid] exI [of _ ds]) auto
          moreover have "?t = Inr (\<lparr>cr_intent = queued_row row (now d), cr_created = True, cr_decisionError = err\<rparr>,
                  queued_state row ((reserve_token (u_id user) ?m d)\<lparr>decisions := ds, next_id := nid\<rparr>))"
            using c(4) eq by simp
          ultimately show ?thesis using c(5) by blast
        qed
      qed
    qed
  qed
qed

lemma create_trade_intent_cases:
  assumes ok: "db_ok d" and g: "grows seen d" and ok0: "db_ok seen"
  shows "(\<exists>e. create_trade_intent seen input session opts d = (Inl e, d) \<and> creation_refusal e)
    \<or> (\<exists>res. create_trade_intent seen input session opts d = (Inr res, d) \<and> (replay_of input seen res \<or> replay_of input d res))
    \<or> (\<exists>res d'. create_trade_intent seen input session opts d = (Inr res, d') \<and> created_in seen input session d res d' \<and> db_ok d')"
  using create_in_transaction_cases [OF ok g ok0, of input session opts]
proof (elim disjE exE conjE)
  fix e assume t: "create_in_transaction seen input session opts d = Inl e" and e: "lost_race e"
  then have eq: "create_trade_intent seen input session opts d =
      (case find_user d (cq_telegramUserId input) of None \<Rightarrow> (Inl (IntentRefused UserNotFound), d)
         | Some user \<Rightarrow> (case find_replay d (u_id user) input of Inl e' \<Rightarrow> (Inl e', d)
            | Inr (Some replay) \<Rightarrow> (Inr replay, d)
            | Inr None \<Rightarrow> (Inl (IntentRefused ActiveIntentExists), d)))"
    by (auto simp: create_trade_intent_def run_transaction_Inl REPLAY_CONSTRAINTS_def lost_race_def)
  show ?thesis
  proof (cases "find_user d (cq_telegramUserId input)")
    case None
    then show ?thesis by (simp add: eq)
  next
    case (Some u)
    then have u: "u \<in> set (users d) \<and> u_telegramUserId u = cq_telegramUserId input" by (rule find_user_Some)
    show ?thesis
    proof (cases "find_replay d (u_id u) input")
      case (Inl e')
      then show ?thesis using Some find_replay_Inl [OF Inl] by (simp add: eq)
    next
      case (Inr mr)
      show ?thesis
      proof (cases mr)
        case None
        then show ?thesis using Some Inr by (simp add: eq)
      next
        case s: (Some res)
        have "find_replay d (u_id u) input = Inr (Some res)" using Inr s by simp
        from find_replay_Some [OF this] have "replay_of input d res" using u by (auto simp: replay_of_def)
        then show ?thesis using Some Inr s by (simp add: eq)
      qed
    qed
  qed
next
  fix e assume t: "create_in_transaction seen input session opts d = Inl e" and e: "creation_refusal e"
  then have "unique_violation e = None" by (cases e) auto
  then show ?thesis using t e by (simp add: create_trade_intent_def run_transaction_Inl)
qed (auto simp: create_trade_intent_def run_transaction_Inr)

end
