(* ===== verification/Operator.thy ===== *)
theory Operator
  imports Intents_Safe
begin

text \<open>
  What an operator changes: a user's tokens (\<^verbatim>\<open>packages/db/src/token-adjustment-ops.ts\<close> with its checks
  in \<^verbatim>\<open>packages/shared/src/ledger.ts\<close>) and the global trading switch
  (\<^verbatim>\<open>packages/db/src/trading-switch-ops.ts\<close>).
\<close>

section \<open>The manual token adjustment\<close>

definition TOKEN_ADJUSTMENT_MAX_TOKENS :: int where "TOKEN_ADJUSTMENT_MAX_TOKENS = 1000"
definition TOKEN_LEDGER_NOTE_MAX :: nat where "TOKEN_LEDGER_NOTE_MAX = 512"

datatype adjustment_problem = AdjustZero | OverLimit | NoteEmpty | NoteTooLong | NoteControlChars

definition check_token_delta :: "int \<Rightarrow> adjustment_problem option" where
  "check_token_delta delta =
     (if delta = 0 then Some AdjustZero
      else let magnitude = (if delta < 0 then - delta else delta) in
        if TOKEN_ADJUSTMENT_MAX_TOKENS < magnitude then Some OverLimit else None)"

text \<open>\<open>\p{C}\<close> over the characters of the model: the C0 and C1 controls, DEL and the soft hyphen.\<close>

definition is_control :: "char \<Rightarrow> bool" where
  "is_control c \<longleftrightarrow> (let n = (of_char c :: nat) in n < 32 \<or> (127 \<le> n \<and> n \<le> 159) \<or> n = 173)"

definition check_token_note :: "string \<Rightarrow> adjustment_problem option" where
  "check_token_note note =
     (if js_trim note = [] then Some NoteEmpty
      else if TOKEN_LEDGER_NOTE_MAX < length note then Some NoteTooLong
      else if list_ex is_control note then Some NoteControlChars else None)"

definition check_token_adjustment :: "int \<Rightarrow> string \<Rightarrow> adjustment_problem option" where
  "check_token_adjustment delta note =
     (case check_token_delta delta of Some p \<Rightarrow> Some p | None \<Rightarrow> check_token_note note)"

datatype adjust_result =
  Adjusted ledger_row int int int
| AdjustNotFound
| BalanceChanged int int
| InsufficientAvailable int int

definition adjust_tokens ::
  "nat \<Rightarrow> int \<Rightarrow> string \<Rightarrow> int option \<Rightarrow> 'p db \<Rightarrow> tx_error + adjust_result \<times> 'p db" where
  "adjust_tokens userId delta note expectedBalance d =
     (if check_token_adjustment delta note \<noteq> None then Inl (Thrown ''InvalidTokenAdjustment'')
      else case sql_first (\<lambda>u. u_id u = userId) (users d) of
        None \<Rightarrow> Inr (AdjustNotFound, d)
      | Some user \<Rightarrow>
      let balance = u_tokenBalance user; reserve = u_tokenReserved user in
      if expectedBalance \<noteq> None \<and> expectedBalance \<noteq> Some balance then Inr (BalanceChanged balance reserve, d)
      else if balance + delta < reserve then Inr (InsufficientAvailable balance reserve, d)
      else
      let row = \<lparr>l_userId = userId, l_kind = LAdjustment, l_balanceDelta = delta, l_reservedDelta = 0,
            l_intentId = None, l_accountId = None, l_starPaymentId = None, l_referralId = None, l_bonusRule = None,
         l_note = Some note, l_createdAt = now d\<rparr>;
          p = (\<lambda>u. u_id u = userId \<and> u_tokenReserved u \<le> u_tokenBalance u + delta) in
      (case insert_ledger row d of Inl e \<Rightarrow> Inl e
       | Inr d1 \<Rightarrow>
      (case sql_first p (users d1) of
         None \<Rightarrow> Inl (Thrown ''token adjustment underflow for user'')
       | Some u \<Rightarrow>
           Inr (Adjusted row balance (u_tokenBalance u + delta) reserve,
             d1\<lparr>users := sql_update p (\<lambda>u. u\<lparr>u_tokenBalance := u_tokenBalance u + delta\<rparr>) (users d1)\<rparr>))))"

section \<open>The trading switch\<close>

record switch_change =
  sc_changed :: bool
  sc_state :: switch_row

definition locked_state :: "'p db \<Rightarrow> tx_error + switch_row" where
  "locked_state d = (case trading_switch d of None \<Rightarrow> Inl (Thrown ''trading_switch row vanished inside its writer'')
     | Some r \<Rightarrow> Inr r)"

definition audit :: "bool \<Rightarrow> switch_source \<Rightarrow> string option \<Rightarrow> 'p db \<Rightarrow> 'p db" where
  "audit resumed source reason d = d\<lparr>audit_log := audit_log d @ [AuditSwitch resumed source reason]\<rparr>"

text \<open>Insert the row where there is none, else flip it where it stands the other way.\<close>

definition write_switch :: "switch_row \<Rightarrow> 'p db \<Rightarrow> tx_error + switch_change \<times> 'p db" where
  "write_switch target d =
     (case trading_switch d of
        None \<Rightarrow> Inr (\<lparr>sc_changed = True, sc_state = target\<rparr>,
          audit (sw_tradingEnabled target) (sw_source target) (sw_reason target) (d\<lparr>trading_switch := Some target\<rparr>))
      | Some r \<Rightarrow>
          if sw_tradingEnabled r \<noteq> sw_tradingEnabled target
          then Inr (\<lparr>sc_changed = True, sc_state = target\<rparr>,
            audit (sw_tradingEnabled target) (sw_source target) (sw_reason target) (d\<lparr>trading_switch := Some target\<rparr>))
          else (case locked_state d of Inl e \<Rightarrow> Inl e
                | Inr st \<Rightarrow> Inr (\<lparr>sc_changed = False, sc_state = st\<rparr>, d)))"

definition stop_trading :: "switch_source \<Rightarrow> string \<Rightarrow> 'p db \<Rightarrow> tx_error + switch_change \<times> 'p db" where
  "stop_trading source reason d =
     write_switch \<lparr>sw_tradingEnabled = False, sw_source = source, sw_reason = Some reason, sw_changedAt = now d\<rparr> d"

definition open_trading :: "string option \<Rightarrow> 'p db \<Rightarrow> tx_error + switch_change \<times> 'p db" where
  "open_trading reason d =
     write_switch \<lparr>sw_tradingEnabled = True, sw_source = ByOperator, sw_reason = reason, sw_changedAt = now d\<rparr> d"

section \<open>Lemmas\<close>

lemma db_ok_switch [simp]: "db_ok (d\<lparr>trading_switch := s\<rparr>) = db_ok d" "db_ok (audit b src reason d) = db_ok d"
  "db_ok (d\<lparr>now := t\<rparr>) = db_ok d" "db_ok (d\<lparr>snapshots := sn\<rparr>) = db_ok d"
  by (simp_all add: db_ok_def audit_def)

lemma write_switch_ok: "db_ok d \<Longrightarrow> write_switch r d = Inr (x, d1) \<Longrightarrow> db_ok d1"
  by (auto simp: write_switch_def split: option.splits if_splits sum.splits)

text \<open>
  One ledger row outside the intents moves one user's balance by its delta: the adjustment, a bonus,
  a Stars purchase and its refund.
\<close>

definition balance_moved :: "ledger_row \<Rightarrow> 'p db \<Rightarrow> 'p db" where
  "balance_moved l d = d\<lparr>token_ledger := token_ledger d @ [l],
     users := sql_update (\<lambda>u. u_id u = l_userId l) (\<lambda>u. u\<lparr>u_tokenBalance := u_tokenBalance u + l_balanceDelta l\<rparr>) (users d)\<rparr>"

definition balance_row :: "ledger_row \<Rightarrow> bool" where
  "balance_row l \<longleftrightarrow> l_intentId l = None \<and> l_reservedDelta l = 0 \<and> l_kind l \<noteq> LReserve \<and> l_kind l \<noteq> LRelease \<and> l_kind l \<noteq> LSettle"

lemma user_by_key:
  assumes "db_ok d" "u \<in> set (users d)" "v \<in> set (users d)" "u_id u = u_id v" shows "u = v"
  using assms unique_on_same [of "\<lambda>u. Some (u_id u)" "users d" u v] by (simp add: db_ok_def users_part_def)

lemma balance_moved_ok:
  assumes ok: "db_ok d" and l: "balance_row l" and u: "u0 \<in> set (users d)" "u_id u0 = l_userId l"
    and covers: "u_tokenReserved u0 \<le> u_tokenBalance u0 + l_balanceDelta l"
  shows "db_ok (balance_moved l d)"
proof -
  let ?f = "\<lambda>u. u\<lparr>u_tokenBalance := u_tokenBalance u + l_balanceDelta l\<rparr>"
  let ?us = "sql_update (\<lambda>u. u_id u = l_userId l) ?f (users d)"
  have up: "users_part (users d) (intents d) (token_ledger d)" using ok by (simp add: db_ok_def)
  have "user_row_ok (intents d) (token_ledger d @ [l]) (if u_id v = l_userId l then ?f v else v)" if "v \<in> set (users d)" for v
  proof -
    have "user_row_ok (intents d) (token_ledger d) v" using up that by (simp add: users_part_def)
    moreover have "u_id v = l_userId l \<Longrightarrow> v = u0" using user_by_key [OF ok that u(1)] u(2) by simp
    ultimately show ?thesis using l covers
      by (cases "u_id v = l_userId l") (auto simp: user_row_ok_def ledger_sum_append balance_row_def)
  qed
  moreover have "unique_on (\<lambda>u. Some (u_id u)) ?us" "unique_on (\<lambda>u. Some (u_telegramUserId u)) ?us"
    using up by (auto simp: users_part_def intro!: unique_on_update)
  ultimately have P1: "users_part ?us (intents d) (token_ledger d @ [l])"
    by (simp add: users_part_def ball_sql_update)
  have P2: "intents_part ?us (accounts d) (sessions d) (intents d) (next_id d)"
  proof (rule intents_part_users)
    show "intents_part (users d) (accounts d) (sessions d) (intents d) (next_id d)" using ok by (simp add: db_ok_def)
    show "\<exists>u \<in> set (users d). u_id u = i \<Longrightarrow> \<exists>u \<in> set ?us. u_id u = i" for i
      by (erule update_user_ids) simp
  qed
  have P3: "ledger_part (intents d) (token_ledger d @ [l])"
    using ok l by (auto simp: db_ok_def ledger_part_def kinds_of_append balance_row_def)
  have P4: "people_part (map u_id ?us) (map (\<lambda>a. (a_id a, a_userId a)) (accounts d)) (map l_userId (token_ledger d) @ [l_userId l]) (next_id d)"
    using ok u by (force simp: db_ok_def map_sql_update people_part_ledger)
  show ?thesis using ok P1 P2 P3 P4 by (simp add: db_ok_def balance_moved_def)
qed

lemma adjust_tokens_ok:
  assumes ok: "db_ok d" and t: "adjust_tokens uid delta note ex d = Inr (x, d1)"
  shows "db_ok d1"
proof (cases "\<exists>row b a rs. x = Adjusted row b a rs")
  case False
  then show ?thesis using t ok
    by (auto simp: adjust_tokens_def Let_def split: if_splits option.splits sum.splits)
next
  case True
  let ?p = "\<lambda>u. u_id u = uid \<and> u_tokenReserved u \<le> u_tokenBalance u + delta"
  let ?f = "\<lambda>u. u\<lparr>u_tokenBalance := u_tokenBalance u + delta\<rparr>"
  let ?l = "\<lparr>l_userId = uid, l_kind = LAdjustment, l_balanceDelta = delta, l_reservedDelta = 0,
            l_intentId = None, l_accountId = None, l_starPaymentId = None, l_referralId = None, l_bonusRule = None,
         l_note = Some note, l_createdAt = now d\<rparr>"
  have ins: "insert_ledger ?l d = Inr (d\<lparr>token_ledger := token_ledger d @ [?l]\<rparr>)"
    by (simp add: insert_ledger_def)
  obtain u0 where u0: "sql_first ?p (users d) = Some u0"
    and d1: "d1 = d\<lparr>token_ledger := token_ledger d @ [?l], users := sql_update ?p ?f (users d)\<rparr>"
    using t True by (auto simp: adjust_tokens_def ins Let_def split: if_splits option.splits)
  have u: "u0 \<in> set (users d) \<and> ?p u0" using u0 by (rule sql_first_Some)
  have eq: "sql_update ?p ?f (users d) = sql_update (\<lambda>u. u_id u = uid) ?f (users d)"
    using u user_by_key [OF ok] by (intro finish_users) auto
  have "db_ok (balance_moved ?l d)" using u by (intro balance_moved_ok [OF ok]) (auto simp: balance_row_def)
  then show ?thesis unfolding d1 eq by (simp add: balance_moved_def)
qed

end
