(* ===== verification/Progress.thy ===== *)
theory Progress
  imports Intents_Settle Operator
begin

text \<open>
  What every operation respects along time: users and accounts persist, an intent persists with its
  terms, its version only grows and its status walks the transition table. Each operation but
  creation moves at most one intent.
\<close>

section \<open>How an intent moves\<close>

definition advanced :: "intent_row \<Rightarrow> intent_row \<Rightarrow> bool" where
  "advanced r r' \<longleftrightarrow> same_terms r r' \<and> i_version r \<le> i_version r'
     \<and> (\<exists>ts. status_walk (i_status r) ts \<and> last (i_status r # ts) = i_status r')
     \<and> (i_version r = i_version r' \<longrightarrow> i_status r' = i_status r)"

lemma status_walk_append:
  "status_walk s (xs @ ys) \<longleftrightarrow> status_walk s xs \<and> status_walk (last (s # xs)) ys"
  by (induction xs arbitrary: s) auto

lemma same_terms_refl [simp]: "same_terms r r"
  by (simp add: same_terms_def)

lemma same_terms_trans: "same_terms r s \<Longrightarrow> same_terms s t \<Longrightarrow> same_terms r t"
  by (simp add: same_terms_def same_intent_def)

lemma advanced_refl [simp]: "advanced r r"
  by (auto simp: advanced_def intro: exI [of _ "[]"])

lemma advanced_trans:
  assumes "advanced r s" "advanced s t" shows "advanced r t"
proof -
  obtain xs ys where w: "status_walk (i_status r) xs" "last (i_status r # xs) = i_status s"
    "status_walk (i_status s) ys" "last (i_status s # ys) = i_status t"
    using assms by (auto simp: advanced_def)
  then have "status_walk (i_status r) (xs @ ys)" by (simp only: status_walk_append)
  moreover have "last (i_status r # xs @ ys) = i_status t"
    using w(2,4) by (cases "ys = []") auto
  moreover have "same_terms r t" "i_version r \<le> i_version t"
    using assms same_terms_trans by (auto simp: advanced_def)
  moreover have "i_version r = i_version t \<longrightarrow> i_status t = i_status r"
    using assms by (auto simp: advanced_def)
  ultimately show ?thesis unfolding advanced_def by blast
qed

definition progress :: "'p db \<Rightarrow> 'p db \<Rightarrow> bool" where
  "progress d d' \<longleftrightarrow>
     (\<forall>u \<in> set (users d). \<exists>u' \<in> set (users d'). u_id u' = u_id u \<and> u_telegramUserId u' = u_telegramUserId u)
     \<and> (\<forall>a \<in> set (accounts d). \<exists>a' \<in> set (accounts d'). a_id a' = a_id a \<and> a_userId a' = a_userId a)
     \<and> (\<forall>r \<in> set (intents d). \<exists>r' \<in> set (intents d'). advanced r r')"

lemma progress_refl [simp]: "progress d d"
  unfolding progress_def using advanced_refl by blast

lemma ball_ex_trans:
  assumes "\<forall>x \<in> A. \<exists>y \<in> B. P x y" "\<forall>y \<in> B. \<exists>z \<in> C. Q y z" "\<And>x y z. P x y \<Longrightarrow> Q y z \<Longrightarrow> R x z"
  shows "\<forall>x \<in> A. \<exists>z \<in> C. R x z"
  using assms by blast

lemma progress_trans:
  assumes "progress d e" "progress e f" shows "progress d f"
  unfolding progress_def
proof (intro conjI)
  show "\<forall>u \<in> set (users d). \<exists>u' \<in> set (users f). u_id u' = u_id u \<and> u_telegramUserId u' = u_telegramUserId u"
    by (rule ball_ex_trans [OF conjunct1 [OF assms(1) [unfolded progress_def]] conjunct1 [OF assms(2) [unfolded progress_def]]]) simp
  show "\<forall>a \<in> set (accounts d). \<exists>a' \<in> set (accounts f). a_id a' = a_id a \<and> a_userId a' = a_userId a"
    by (rule ball_ex_trans [OF conjunct1 [OF conjunct2 [OF assms(1) [unfolded progress_def]]]
        conjunct1 [OF conjunct2 [OF assms(2) [unfolded progress_def]]]]) simp
  show "\<forall>r \<in> set (intents d). \<exists>r' \<in> set (intents f). advanced r r'"
    by (rule ball_ex_trans [OF conjunct2 [OF conjunct2 [OF assms(1) [unfolded progress_def]]]
        conjunct2 [OF conjunct2 [OF assms(2) [unfolded progress_def]]]]) (rule advanced_trans)
qed

lemma progress_grows: "progress d d' \<Longrightarrow> grows d d'"
  unfolding progress_def grows_def advanced_def by blast

text \<open>The shape every operation but creation has: at most one intent moves.\<close>

definition one_move :: "'p db \<Rightarrow> 'p db \<Rightarrow> bool" where
  "one_move d d' \<longleftrightarrow>
     map (\<lambda>u. (u_id u, u_telegramUserId u)) (users d') = map (\<lambda>u. (u_id u, u_telegramUserId u)) (users d)
     \<and> map (\<lambda>a. (a_id a, a_userId a)) (accounts d') = map (\<lambda>a. (a_id a, a_userId a)) (accounts d)
     \<and> (intents d' = intents d
        \<or> (\<exists>r row. r \<in> set (intents d) \<and> intents d' = put row (intents d) \<and> same_terms r row
             \<and> i_version row = i_version r + 1
             \<and> (can_transition (i_status r) (i_status row) \<or> i_status row = i_status r)))"

lemma one_moveI:
  assumes "r \<in> set (intents d)" "intents d' = put row (intents d)" "same_terms r row" "i_version row = i_version r + 1"
    "can_transition (i_status r) (i_status row)"
    "map (\<lambda>u. (u_id u, u_telegramUserId u)) (users d') = map (\<lambda>u. (u_id u, u_telegramUserId u)) (users d)"
    "map (\<lambda>a. (a_id a, a_userId a)) (accounts d') = map (\<lambda>a. (a_id a, a_userId a)) (accounts d)"
  shows "one_move d d'"
  unfolding one_move_def using assms by blast

lemma map_eq_members: "map f xs = map f ys \<Longrightarrow> x \<in> set xs \<Longrightarrow> \<exists>y \<in> set ys. f y = f x"
  by (metis imageE image_eqI set_map)

lemma one_move_advanced:
  assumes "unique_ids (intents d)" "one_move d d'" "r \<in> set (intents d)"
  shows "\<exists>r' \<in> set (intents d'). advanced r r'"
proof (cases "intents d' = intents d")
  case True
  then show ?thesis using assms(3) by (intro bexI [of _ r]) auto
next
  case False
  then obtain r0 row where m: "r0 \<in> set (intents d)" "intents d' = put row (intents d)" "same_terms r0 row"
    "i_version row = i_version r0 + 1" "can_transition (i_status r0) (i_status row) \<or> i_status row = i_status r0"
    using assms(2) by (auto simp: one_move_def)
  have set: "set (intents d') = insert row (set (intents d) - {r0})"
    unfolding m(2) using m(3) by (intro set_put [OF assms(1) m(1)]) (simp add: same_terms_def same_intent_def)
  have "advanced r0 row"
    using m(5)
  proof
    assume "can_transition (i_status r0) (i_status row)"
    then have "status_walk (i_status r0) [i_status row] \<and> last (i_status r0 # [i_status row]) = i_status row" by simp
    then have "\<exists>ts. status_walk (i_status r0) ts \<and> last (i_status r0 # ts) = i_status row" by blast
    then show ?thesis using m(3,4) by (simp add: advanced_def)
  next
    assume "i_status row = i_status r0"
    then have "status_walk (i_status r0) [] \<and> last (i_status r0 # []) = i_status row" by simp
    then have "\<exists>ts. status_walk (i_status r0) ts \<and> last (i_status r0 # ts) = i_status row" by blast
    then show ?thesis using m(3,4) by (simp add: advanced_def)
  qed
  show ?thesis
  proof (cases "r = r0")
    case True
    then show ?thesis using \<open>advanced r0 row\<close> set by (intro bexI [of _ row]) simp_all
  next
    case False
    then show ?thesis using assms(3) set by (intro bexI [of _ r]) simp_all
  qed
qed

lemma one_move_progress:
  assumes "db_ok d" "one_move d d'"
  shows "progress d d'"
proof -
  have "\<exists>u' \<in> set (users d'). u_id u' = u_id u \<and> u_telegramUserId u' = u_telegramUserId u" if "u \<in> set (users d)" for u
    using map_eq_members [of "\<lambda>u. (u_id u, u_telegramUserId u)" "users d" "users d'" u] assms(2) that
    by (auto simp: one_move_def)
  moreover have "\<exists>a' \<in> set (accounts d'). a_id a' = a_id a \<and> a_userId a' = a_userId a" if "a \<in> set (accounts d)" for a
    using map_eq_members [of "\<lambda>a. (a_id a, a_userId a)" "accounts d" "accounts d'" a] assms(2) that
    by (auto simp: one_move_def)
  ultimately show ?thesis
    using one_move_advanced [OF db_ok_unique [OF assms(1)] assms(2)] by (simp add: progress_def)
qed

lemma one_move_refl [simp]: "one_move d d"
  by (simp add: one_move_def)

lemma transition_one_move:
  assumes "unique_ids (intents d)" "transition_intent iid a b ex patch whr d = Inr (x, d1)" "\<And>r. same_terms r (patch r)"
  shows "one_move d d1"
proof (cases x)
  case None
  then show ?thesis using assms(2) by (auto dest: transition_None)
next
  case (Some row)
  have id: "i_id (patch r) = i_id r" for r using assms(3) [of r] by (simp add: same_terms_def same_intent_def)
  obtain r ns where r: "r \<in> set (intents d)" "cas_matches iid a ex whr r" "can_transition a b"
    "row = moved_to b (now d) patch r" "d1 = d\<lparr>intents := put row (intents d), notices := ns\<rparr>"
    by (rule transition_Some [OF assms(1) assms(2) [unfolded Some] id])
  have same: "same_terms r row" using assms(3) [of r] by (simp add: r(4) moved_to_def same_terms_def same_intent_def)
  have version: "i_version row = i_version r + 1" unfolding r(4) by simp
  have "i_status row = b" unfolding r(4) by simp
  moreover have "i_status r = a" using r(2) by (simp add: cas_matches_def)
  ultimately have status: "can_transition (i_status r) (i_status row)" using r(3) by (simp only:)
  show ?thesis by (rule one_moveI [OF r(1) _ same version status]) (simp_all add: r(5))
qed

lemma finished_one_move:
  assumes "r \<in> set (intents d)" "same_terms r row" "i_version row = i_version r + 1" "can_transition (i_status r) (i_status row)"
  shows "one_move d ((finished r row k b ns d)\<lparr>trades := trs, next_id := nid\<rparr>)"
    "one_move d (finished r row k b ns d)"
  using assms by (auto simp: finished_simps map_sql_update intro!: one_moveI [OF assms(1)])

lemma moved_to_terms: "same_terms r (patch r) \<Longrightarrow> same_terms r (moved_to st t patch r)"
  by (simp add: moved_to_def same_terms_def same_intent_def)

lemma patch_terms [simp]:
  "same_terms r (r\<lparr>i_submittedAt := x1\<rparr>)" "same_terms r (r\<lparr>i_lastError := x2\<rparr>)"
  "same_terms r (r\<lparr>i_tokensReserved := n\<rparr>)" "same_terms r (r\<lparr>i_lastError := x2, i_tokensReserved := n\<rparr>)"
  "same_terms r (r\<lparr>i_transport := tr\<rparr>)"
  by (simp_all add: same_terms_def same_intent_def)

lemma one_move_outside:
  assumes "one_move d d1" "users d2 = users d1" "intents d2 = intents d1"
    "map (\<lambda>a. (a_id a, a_userId a)) (accounts d2) = map (\<lambda>a. (a_id a, a_userId a)) (accounts d1)"
  shows "one_move d d2"
  using assms by (simp add: one_move_def)

lemma take_intent_one_move:
  "db_ok d \<Longrightarrow> take_intent iid v ms d = Inr (x, d1) \<Longrightarrow> one_move d d1"
  unfolding take_intent_def by (rule transition_one_move [OF db_ok_unique]) auto

lemma start_reconciling_one_move:
  "db_ok d \<Longrightarrow> start_reconciling iid v d = Inr (x, d1) \<Longrightarrow> one_move d d1"
  unfolding start_reconciling_def by (rule transition_one_move [OF db_ok_unique]) auto

lemma mark_intent_manual_review_one_move:
  "db_ok d \<Longrightarrow> mark_intent_manual_review iid v reason d = Inr (x, d1) \<Longrightarrow> one_move d d1"
  unfolding mark_intent_manual_review_def by (rule transition_one_move [OF db_ok_unique]) auto

lemma mark_intent_unknown_one_move:
  assumes ok: "db_ok d" and t: "mark_intent_unknown iid reason ex ms d = Inr (x, d1)"
  shows "one_move d d1"
proof -
  obtain y d2 where t2: "transition_intent iid Submitting Unknown ex (\<lambda>r. r\<lparr>i_lastError := Some reason\<rparr>)
      (submitted_before d ms) d = Inr (y, d2)" and d1: "d1 = d2 \<or> d1 = insert_outbox_once iid TradingReconciliation d2"
    using t by (auto simp: mark_intent_unknown_def split: sum.splits option.splits)
  have "one_move d d2" by (rule transition_one_move [OF db_ok_unique [OF ok] t2]) simp
  then show ?thesis using d1 by (elim disjE) (auto simp: insert_outbox_once_def elim: one_move_outside)
qed

lemma halt_account_one_move:
  assumes ok: "db_ok d" and t: "halt_account_for_manual_review iid v reason d = Inr (x, d1)"
  shows "one_move d d1"
proof (cases x)
  case None
  then show ?thesis using t mark_intent_manual_review_one_move [OF ok]
    by (auto simp: halt_account_for_manual_review_def split: sum.splits option.splits)
next
  case (Some row)
  then obtain k d2 where m: "mark_intent_manual_review iid v (review_failure reason) d = Inr (Some row, d2)"
    and d1: "d1 = d2\<lparr>accounts := sql_update (\<lambda>a. a_id a = k)
      (\<lambda>a. a\<lparr>a_tradingHalted := True, a_haltedReason := Some (HALT_REASON_FOR reason)\<rparr>) (accounts d2)\<rparr>"
    using t by (auto simp: halt_account_for_manual_review_def split: sum.splits option.splits)
  show ?thesis
    unfolding d1 by (rule one_move_outside [OF mark_intent_manual_review_one_move [OF ok m]]) (simp_all add: map_sql_update)
qed

lemma reject_intent_one_move:
  assumes ok: "db_ok d" and t: "reject_intent iid a ex reason whr d = Inr (x, d1)"
  shows "one_move d d1"
proof (cases "can_transition a Rejected")
  case True
  from reject_intent_cases [OF ok True, of iid ex reason whr] show ?thesis
  proof (elim disjE exE conjE)
    fix r ns row
    assume r: "r \<in> set (intents d)" "cas_matches iid a ex whr r"
      and row: "row = moved_to Rejected (now d) (\<lambda>r. r\<lparr>i_lastError := Some reason, i_tokensReserved := 0\<rparr>) r"
      and eq: "reject_intent iid a ex reason whr d = Inr (Some row, finished r row LRelease 0 ns d)"
    have "d1 = finished r row LRelease 0 ns d" using t eq by simp
    moreover have "one_move d (finished r row LRelease 0 ns d)"
      using r(2) True unfolding row by (intro finished_one_move(2) r(1) moved_to_terms) (auto simp: cas_matches_def)
    ultimately show ?thesis by (simp only:)
  qed (use t in simp)
next
  case False
  then have "d1 = d" using t
    by (auto simp: reject_intent_def transition_intent_def split: option.splits if_splits)
  then show ?thesis by simp
qed

lemma mark_intent_accepted_one_move:
  assumes ok: "db_ok d" and can: "can_transition a Accepted" and t: "mark_intent_accepted iid v a tr trade d = Inr (x, d1)"
  shows "one_move d d1"
  using mark_intent_accepted_cases [OF ok can, of iid v tr trade]
proof (elim disjE exE conjE)
  fix r ns row assume r: "r \<in> set (intents d)" "i_status r = a"
    and row: "row = moved_to Accepted (now d) (\<lambda>r. r\<lparr>i_transport := tr\<rparr>) r"
    and eq: "mark_intent_accepted iid v a tr trade d = Inr (Some row,
            d\<lparr>intents := put row (intents d), notices := ns,
              trades := trades d @ [open_values trade (trade_row_of row trade (next_id d))], next_id := next_id d + 1\<rparr>)"
  have s: "same_terms r row" unfolding row by (rule moved_to_terms) simp
  have v: "i_version row = i_version r + 1" unfolding row by simp
  have c: "can_transition (i_status r) (i_status row)" unfolding row r(2) using can by simp
  show ?thesis using t eq by (intro one_moveI [OF r(1) _ s v c]) auto
qed (use t in auto)

lemma settle_intent_one_move:
  assumes ok: "db_ok d" and a: "a = Accepted \<or> a = ManualReview" and c: "is_closed_trade trade"
    and t: "settle_intent iid ex a trade d = Inr (x, d1)"
  shows "one_move d d1"
  using settle_intent_cases [OF ok a c, of iid ex]
proof (elim disjE exE conjE)
  fix r ns row trs nid
  assume r: "r \<in> set (intents d)" "cas_matches iid a ex (\<lambda>_. True) r"
    and row: "row = moved_to Settled (now d) (\<lambda>r. r\<lparr>i_tokensReserved := 0\<rparr>) r"
    and eq: "settle_intent iid ex a trade d = Inr (Some row,
            (finished r row LSettle (i_tokensReserved r) ns d)\<lparr>trades := trs, next_id := nid\<rparr>)"
  have "d1 = (finished r row LSettle (i_tokensReserved r) ns d)\<lparr>trades := trs, next_id := nid\<rparr>" using t eq by simp
  moreover have "one_move d ((finished r row LSettle (i_tokensReserved r) ns d)\<lparr>trades := trs, next_id := nid\<rparr>)"
    using r(2) a unfolding row by (intro finished_one_move(1) r(1) moved_to_terms) (auto simp: cas_matches_def)
  ultimately show ?thesis by (simp only:)
qed (use t in auto)

lemma claim_reconciling_one_move:
  assumes ok: "db_ok d" shows "one_move d (snd (claim_reconciling iid ms d))"
proof -
  let ?p = "\<lambda>r. i_id r = iid \<and> i_status r = Reconciling \<and> reconcile_lease_expired d ms r"
  let ?f = "\<lambda>r. r\<lparr>i_reconcileClaimedAt := Some (now d), i_version := i_version r + 1, i_updatedAt := now d\<rparr>"
  show ?thesis
  proof (cases "sql_first ?p (intents d)")
    case None
    then show ?thesis by (simp add: claim_reconciling_def Let_def sql_update_none)
  next
    case (Some r)
    then have r: "r \<in> set (intents d) \<and> ?p r" by (rule sql_first_Some)
    have "sql_update ?p ?f (intents d) = put (?f r) (intents d)"
      using r by (intro cas_update_put [OF db_ok_unique [OF ok]]) auto
    then have "intents (snd (claim_reconciling iid ms d)) = put (?f r) (intents d)"
      by (simp add: claim_reconciling_def Let_def)
    moreover have "same_terms r (?f r)" by (simp add: same_terms_def same_intent_def)
    moreover have "i_version (?f r) = i_version r + 1" "i_status (?f r) = i_status r" by simp_all
    moreover have "users (snd (claim_reconciling iid ms d)) = users d" "accounts (snd (claim_reconciling iid ms d)) = accounts d"
      by (simp_all add: claim_reconciling_def Let_def)
    ultimately show ?thesis using r unfolding one_move_def by metis
  qed
qed

section \<open>Every operation as a step\<close>

lemma settle_closed_trade_change:
  assumes ok: "db_ok d" and c: "is_closed_trade trade" and t: "settle_closed_trade accountId trade d = (res, d1)"
  shows "db_ok d1 \<and> one_move d d1"
proof (cases "classify_link (bt_id trade) (trade_link accountId (bt_id trade) d)")
  case (Inl out)
  then show ?thesis using ok t by (simp add: settle_closed_trade_def)
next
  case (Inr iid)
  show ?thesis
  proof (cases "settle_intent iid None Accepted trade d")
    case (Inl e)
    then show ?thesis using ok t Inr by (simp add: settle_closed_trade_def run_transaction_def)
  next
    case s: (Inr p)
    obtain x d2 where p: "p = (x, d2)" by (cases p)
    have "d1 = d2" using t Inr s p
      by (auto simp: settle_closed_trade_def run_transaction_def split: option.splits sum.splits)
    then show ?thesis
      using settle_intent_ok [OF ok disjI1 [OF refl] c] settle_intent_one_move [OF ok disjI1 [OF refl] c] s p by blast
  qed
qed

lemma conclude_reconciled_progress:
  assumes ok: "db_ok d" and t: "conclude_reconciled iid v trade d = Inr (x, d1)"
  shows "progress d d1"
proof (cases "find_intent_row iid d")
  case None
  then show ?thesis using t by (simp add: conclude_reconciled_def)
next
  case (Some cur)
  have can: "can_transition Reconciling Accepted" by simp
  from t Some obtain y d2 where m: "mark_intent_accepted iid v Reconciling (i_transport cur) trade d = Inr (y, d2)"
    and d1: "d1 = d2 \<or> (\<exists>vs z. is_closed_trade trade \<and> settle_intent iid (Some vs) Accepted trade d2 = Inr (z, d1))"
    by (fastforce simp: conclude_reconciled_def split: sum.splits option.splits if_splits)
  have ok2: "db_ok d2" by (rule mark_intent_accepted_ok [OF ok can m])
  have p2: "progress d d2" by (rule one_move_progress [OF ok mark_intent_accepted_one_move [OF ok can m]])
  from d1 show ?thesis
  proof (elim disjE conjE exE)
    fix vs z assume "is_closed_trade trade" "settle_intent iid (Some vs) Accepted trade d2 = Inr (z, d1)"
    from settle_intent_one_move [OF ok2 disjI1 [OF refl] this]
    show ?thesis by (intro progress_trans [OF p2] one_move_progress ok2)
  qed (use p2 in simp)
qed

lemma progress_users:
  assumes "\<And>u. u_id (f u) = u_id u \<and> u_telegramUserId (f u) = u_telegramUserId u"
    "users d' = sql_update p f (users d)" "accounts d' = accounts d" "set (intents d) \<subseteq> set (intents d')"
  shows "progress d d'"
proof -
  have "\<exists>u' \<in> set (users d'). u_id u' = u_id u \<and> u_telegramUserId u' = u_telegramUserId u" if "u \<in> set (users d)" for u
    using that assms(1) unfolding assms(2) by (auto simp: bex_sql_update)
  moreover have "\<exists>r' \<in> set (intents d'). advanced r r'" if "r \<in> set (intents d)" for r
    using that assms(4) by (intro bexI [of _ r]) auto
  ultimately show ?thesis using assms(3) by (auto simp: progress_def)
qed

lemma adjust_tokens_progress:
  assumes "adjust_tokens uid delta note ex d = Inr (x, d1)"
  shows "progress d d1"
proof (cases "d1 = d")
  case False
  then have "\<exists>p. users d1 = sql_update p (\<lambda>u. u\<lparr>u_tokenBalance := u_tokenBalance u + delta\<rparr>) (users d)
      \<and> accounts d1 = accounts d \<and> intents d1 = intents d"
    using assms by (auto simp: adjust_tokens_def insert_ledger_def Let_def split: if_splits option.splits sum.splits)
  then show ?thesis by (elim exE conjE, intro progress_users) auto
qed simp

lemma created_in_progress:
  assumes "created_in seen input session d res d'"
  shows "progress d d'"
proof -
  obtain row uid nid ds where d': "d' = queued_state row ((reserve_token uid (cq_mode input) d)\<lparr>decisions := ds, next_id := nid\<rparr>)"
    using assms unfolding created_in_def by blast
  show ?thesis
    by (rule progress_users [where p = "may_reserve uid (cq_mode input)"
        and f = "\<lambda>u. u\<lparr>u_tokenReserved := u_tokenReserved u + TOKENS_PER_INTENT\<rparr>"])
      (auto simp: d' queued_state_def reserve_token_def)
qed

end
