(* ===== verification/Sessions_Safe.thy ===== *)
theory Sessions_Safe
  imports Sessions Progress
begin

text \<open>
  The session operations keep the invariant of the trading tables, never touch users, accounts,
  intents or trades, and never change a stopped session's end.
\<close>

section \<open>The invariant\<close>

lemma db_ok_sessions:
  assumes ok: "db_ok d" and keep: "\<And>s. s_id (f s) = s_id s \<and> s_accountId (f s) = s_accountId s \<and> s_mode (f s) = s_mode s"
    and row: "\<And>s. s \<in> set (sessions d) \<Longrightarrow> p s \<Longrightarrow> session_row_ok (accounts d) (next_id d) s \<Longrightarrow> session_row_ok (accounts d) (next_id d) (f s)"
    and act: "\<And>s. p s \<Longrightarrow> s_status (f s) = SActive \<Longrightarrow> s_status s = SActive"
  shows "db_ok (d\<lparr>sessions := sql_update p f (sessions d)\<rparr>)"
proof -
  have ex: "(\<exists>s \<in> set (sql_update p f (sessions d)). s_id s = i \<and> s_accountId s = a \<and> s_mode s = m)
      \<longleftrightarrow> (\<exists>s \<in> set (sessions d). s_id s = i \<and> s_accountId s = a \<and> s_mode s = m)" for i a m
    using keep by (auto simp: bex_sql_update)
  have sp: "sessions_part (accounts d) (sessions d) (next_id d)" using ok by (simp add: db_ok_def)
  have key: "active_session_key (f s) = active_session_key s \<or> active_session_key (f s) = None" if "p s" for s
    using keep [of s] act [OF that] by (simp add: active_session_key_def)
  have "unique_on (\<lambda>s. Some (s_id s)) (sql_update p f (sessions d))"
    using sp keep by (auto simp: sessions_part_def intro!: unique_on_update)
  moreover have "unique_on active_session_key (sql_update p f (sessions d))"
    by (rule unique_on_update) (use sp key in \<open>simp_all add: sessions_part_def\<close>)
  moreover have "\<forall>s \<in> set (sql_update p f (sessions d)). session_row_ok (accounts d) (next_id d) s"
    using sp row by (simp add: sessions_part_def ball_sql_update)
  ultimately show ?thesis using ok by (simp add: db_ok_def sessions_part_def intents_part_def intent_row_ok_def ex)
qed

lemma stopped_by_simps [simp]:
  "s_id (stopped_by r t s) = s_id s" "s_accountId (stopped_by r t s) = s_accountId s" "s_mode (stopped_by r t s) = s_mode s"
  "s_status (stopped_by r t s) = SStopped" "s_stopReason (stopped_by r t s) = Some r" "s_endedAt (stopped_by r t s) = Some t"
  by (simp_all add: stopped_by_def)

lemma hand_over_simps [simp]:
  "s_id (hand_over m s) = s_id s" "s_accountId (hand_over m s) = s_accountId s" "s_mode (hand_over m s) = s_mode s"
  "s_status (hand_over m s) = s_status s" "s_stopReason (hand_over m s) = s_stopReason s" "s_endedAt (hand_over m s) = s_endedAt s"
  by (simp_all add: hand_over_def split: option.split)

lemma stop_where_ok: "db_ok d \<Longrightarrow> db_ok (snd (stop_where reason whr d))"
  unfolding stop_where_def Let_def snd_conv by (rule db_ok_sessions) (auto simp: session_row_ok_def)

lemma stop_trading_session_ok: "db_ok d \<Longrightarrow> db_ok (snd (stop_trading_session sid reason m d))"
  unfolding stop_trading_session_def Let_def snd_conv by (rule db_ok_sessions) (auto simp: session_row_ok_def)

lemma stop_sweeps [simp]:
  "db_ok d \<Longrightarrow> db_ok (snd (stop_expired_sessions pick ms n d))" "db_ok d \<Longrightarrow> db_ok (snd (stop_paused_sessions pick n d))"
  "db_ok d \<Longrightarrow> db_ok (snd (stop_halted_sessions pick n d))" "db_ok d \<Longrightarrow> db_ok (snd (stop_user_sessions tg d))"
  "db_ok d \<Longrightarrow> db_ok (snd (stop_trading_sessions ids reason d))"
  by (simp_all add: stop_expired_sessions_def stop_paused_sessions_def stop_halted_sessions_def stop_user_sessions_def
      stop_trading_sessions_def stop_where_ok)

lemma mark_session_decisions_ok: "db_ok d \<Longrightarrow> db_ok (mark_session_decisions ids d)"
  unfolding mark_session_decisions_def by (auto intro!: db_ok_sessions simp: session_row_ok_def)

lemma status_message_ok:
  "db_ok d \<Longrightarrow> db_ok (snd (record_session_status_message sid tg m d))"
  "db_ok d \<Longrightarrow> db_ok (snd (forget_session_status_message sid tg m d))"
  unfolding record_session_status_message_def forget_session_status_message_def Let_def snd_conv
  by (auto intro!: db_ok_sessions simp: session_row_ok_def)

lemma claim_session_summary_ok: "db_ok d \<Longrightarrow> claim_session_summary st sid tg d = Inr (x, d1) \<Longrightarrow> db_ok d1"
  by (auto simp: claim_session_summary_def Let_def session_row_ok_def split: option.splits intro!: db_ok_sessions)

lemma intent_row_ok_sessions_mono:
  "intent_row_ok us accs ss nid r \<Longrightarrow> set ss \<subseteq> set ss' \<Longrightarrow> nid \<le> nid' \<Longrightarrow> intent_row_ok us accs ss' nid' r"
  unfolding intent_row_ok_def by (elim conjE, intro conjI) (simp_all, blast)

lemma intents_part_sessions_mono:
  "intents_part us accs ss ints nid \<Longrightarrow> set ss \<subseteq> set ss' \<Longrightarrow> nid \<le> nid' \<Longrightarrow> intents_part us accs ss' ints nid'"
  unfolding intents_part_def using intent_row_ok_sessions_mono by blast

lemma insert_session_ok:
  assumes ok: "db_ok d" and acc: "\<exists>a \<in> set (accounts d). a_id a = cs_brokerAccountId input"
    and t: "insert_session (new_session input d) d = Inr (row, d1)"
  shows "db_ok d1 \<and> row = new_session input d \<and> d1 = d\<lparr>sessions := sessions d @ [row], next_id := next_id d + 1\<rparr>"
proof -
  let ?s = "new_session input d"
  have nc: "\<not> key_conflict active_session_key ?s (sessions d)" and eq: "row = ?s" "d1 = d\<lparr>sessions := sessions d @ [?s], next_id := next_id d + 1\<rparr>"
    using t by (auto simp: insert_session_def split: if_splits)
  have sp: "sessions_part (accounts d) (sessions d) (next_id d)" using ok by (simp add: db_ok_def)
  have "\<not> key_conflict (\<lambda>s. Some (s_id s)) ?s (sessions d)"
    using sp by (auto simp: sessions_part_def session_row_ok_def key_conflict_iff new_session_def)
  moreover have "session_row_ok (accounts d) (next_id d + 1) ?s"
    using acc by (simp add: session_row_ok_def new_session_def)
  moreover have "sessions_part (accounts d) (sessions d) (next_id d + 1)"
    by (rule sessions_part_mono [OF sp]) simp
  ultimately have "sessions_part (accounts d) (sessions d @ [?s]) (next_id d + 1)"
    using nc by (simp add: sessions_part_def unique_on_snoc)
  moreover have "intents_part (users d) (accounts d) (sessions d @ [?s]) (intents d) (next_id d + 1)"
    by (rule intents_part_sessions_mono [of "users d" "accounts d" "sessions d" "intents d" "next_id d"])
      (use ok in \<open>auto simp: db_ok_def\<close>)
  moreover have "trades_part (intents d) (trades d) (next_id d + 1)"
    by (rule trades_part_mono [of "intents d" "trades d" "next_id d"]) (use ok in \<open>simp_all add: db_ok_def\<close>)
  moreover have "outbox_part (intents d) (outbox d) (next_id d + 1)"
    by (rule outbox_part_mono [of "intents d" "outbox d" "next_id d"]) (use ok in \<open>simp_all add: db_ok_def\<close>)
  ultimately have "db_ok d1" using ok unfolding eq(2) by (simp add: db_ok_def)
  then show ?thesis using eq by blast
qed

text \<open>How a session's creation ends.\<close>

lemma create_trading_session_cases:
  assumes ok: "db_ok d" and t: "create_trading_session seen input demoOnly d = (res, d1)"
  shows "(\<exists>e. res = Inl (SessionRefused e) \<and> d1 = d)
    \<or> (res = Inr (new_session input d) \<and> db_ok d1
        \<and> d1 = d\<lparr>sessions := sessions d @ [new_session input d], next_id := next_id d + 1\<rparr>
        \<and> is_trading_open (trading_switch d)
        \<and> (\<exists>a \<in> set (accounts d). a_id a = cs_brokerAccountId input \<and> a_status a = AActive \<and> \<not> a_tradingHalted a)
        \<and> (\<exists>u \<in> set (users d). u_status u = UActive \<and> u_tradingMode u = cs_mode input))"
proof (cases "create_session_tx seen input d")
  case (Inl e)
  then have e: "(\<exists>c. e = SessionRefused c) \<or> e = UniqueViolation ''trading_sessions_active_account_idx''"
    by (auto simp: create_session_tx_def insert_session_def split: option.splits if_splits)
  then show ?thesis using t Inl by (auto simp: create_trading_session_def run_transaction_def split: if_splits)
next
  case (Inr q)
  obtain row d2 where q: "q = (row, d2)" by (cases q)
  from Inr q obtain uid user locked where
    u: "sql_first (\<lambda>u. u_id u = uid \<and> u_status u = UActive) (users d) = Some user" "u_tradingMode user = cs_mode input"
    and l: "sql_first (\<lambda>a. a_id a = cs_brokerAccountId input) (accounts d) = Some locked"
      "a_status locked \<noteq> ARevoked" "a_status locked \<noteq> APending" "\<not> a_tradingHalted locked"
    and sw: "is_trading_open (trading_switch d)" and ins: "insert_session (new_session input d) d = Inr (row, d2)"
    by (auto simp: create_session_tx_def split: option.splits if_splits)
  have acc: "locked \<in> set (accounts d) \<and> a_id locked = cs_brokerAccountId input" by (rule sql_first_Some [OF l(1)])
  have user: "user \<in> set (users d) \<and> u_id user = uid \<and> u_status user = UActive" by (rule sql_first_Some [OF u(1)])
  have "a_status locked = AActive" using l(2,3) by (cases "a_status locked") auto
  moreover have "db_ok d2 \<and> row = new_session input d \<and> d2 = d\<lparr>sessions := sessions d @ [row], next_id := next_id d + 1\<rparr>"
    using insert_session_ok [OF ok _ ins] acc by blast
  ultimately show ?thesis using t Inr q acc user u(2) l(4) sw
    by (auto simp: create_trading_session_def run_transaction_def split: if_splits)
qed

section \<open>What a session keeps\<close>

text \<open>A session's identity and settings never change, and a stopped one never runs or ends again.\<close>

definition session_after :: "session_row \<Rightarrow> session_row \<Rightarrow> bool" where
  "session_after s s' \<longleftrightarrow>
     s_id s' = s_id s \<and> s_accountId s' = s_accountId s \<and> s_mode s' = s_mode s \<and> s_settings s' = s_settings s
     \<and> (s_status s = SStopped \<longrightarrow> s_status s' = SStopped \<and> s_stopReason s' = s_stopReason s \<and> s_endedAt s' = s_endedAt s)
     \<and> (s_summarySentAt s \<noteq> None \<longrightarrow> s_summarySentAt s' = s_summarySentAt s)"

definition keeps_sessions :: "'p db \<Rightarrow> 'p db \<Rightarrow> bool" where
  "keeps_sessions d d' \<longleftrightarrow> (\<forall>s \<in> set (sessions d). \<exists>s' \<in> set (sessions d'). session_after s s')"

lemma session_after_refl [simp]: "session_after s s"
  by (simp add: session_after_def)

lemma session_after_trans: "session_after s t \<Longrightarrow> session_after t u \<Longrightarrow> session_after s u"
  unfolding session_after_def by auto

lemma keeps_sessions_refl [simp]: "keeps_sessions d d"
  unfolding keeps_sessions_def using session_after_refl by blast

lemma keeps_sessions_trans: "keeps_sessions d e \<Longrightarrow> keeps_sessions e f \<Longrightarrow> keeps_sessions d f"
  unfolding keeps_sessions_def using session_after_trans by blast

lemma keeps_sessions_same: "sessions d' = sessions d \<Longrightarrow> keeps_sessions d d'"
proof -
  assume eq: "sessions d' = sessions d"
  show ?thesis unfolding keeps_sessions_def eq using session_after_refl by blast
qed

lemma keeps_sessions_append: "sessions d' = sessions d @ ss \<Longrightarrow> keeps_sessions d d'"
  unfolding keeps_sessions_def using session_after_refl by (metis UnCI set_append)

lemma keeps_sessions_update:
  "sessions d' = sql_update p f (sessions d) \<Longrightarrow> (\<And>s. p s \<Longrightarrow> session_after s (f s)) \<Longrightarrow> keeps_sessions d d'"
proof -
  assume eq: "sessions d' = sql_update p f (sessions d)" and a: "\<And>s. p s \<Longrightarrow> session_after s (f s)"
  have "session_after s (if p s then f s else s)" for s using a by simp
  then show ?thesis unfolding keeps_sessions_def eq bex_sql_update by blast
qed

lemma stop_where_keeps: "keeps_sessions d (snd (stop_where reason whr d))"
  unfolding stop_where_def Let_def snd_conv
  by (rule keeps_sessions_update [of _ "\<lambda>s. s_status s = SActive \<and> whr s" "stopped_by reason (now d)"])
    (auto simp: session_after_def stopped_by_def)

section \<open>Every operation at once\<close>

text \<open>The state changes an operation on existing sessions can make, as one relation.\<close>

inductive session_change :: "'p db \<Rightarrow> 'p db \<Rightarrow> bool" where
  StopExpired: "stop_expired_sessions pick maxMs limit d = (out, d') \<Longrightarrow> session_change d d'"
| StopPaused: "stop_paused_sessions pick limit d = (out, d') \<Longrightarrow> session_change d d'"
| StopHalted: "stop_halted_sessions pick limit d = (out, d') \<Longrightarrow> session_change d d'"
| StopOne: "stop_trading_session sid reason m d = (row, d') \<Longrightarrow> session_change d d'"
| StopUser: "stop_user_sessions tg d = (out, d') \<Longrightarrow> session_change d d'"
| StopMany: "stop_trading_sessions ids reason d = (out, d') \<Longrightarrow> session_change d d'"
| MarkDecisions: "session_change d (mark_session_decisions ids d)"
| ClaimSummary: "claim_session_summary sum_text sid tg d = Inr (x, d') \<Longrightarrow> session_change d d'"
| RecordStatus: "record_session_status_message sid tg msg d = (b, d') \<Longrightarrow> session_change d d'"
| ForgetStatus: "forget_session_status_message sid tg msg d = (b, d') \<Longrightarrow> session_change d d'"

inductive_cases session_changeE: "session_change d d'"

definition only_sessions :: "'p db \<Rightarrow> 'p db \<Rightarrow> bool" where
  "only_sessions d d' \<longleftrightarrow> d' = d\<lparr>sessions := sessions d'\<rparr>"

lemma only_sessions_update [simp]: "only_sessions d (d\<lparr>sessions := ss\<rparr>)" "only_sessions d d"
  by (simp_all add: only_sessions_def)

lemma only_sessions_same:
  assumes "only_sessions d d'"
  shows "users d' = users d" "accounts d' = accounts d" "intents d' = intents d" "trades d' = trades d"
    "outbox d' = outbox d" "token_ledger d' = token_ledger d"
proof -
  have eq: "d' = d\<lparr>sessions := sessions d'\<rparr>" using assms by (simp only: only_sessions_def)
  show "users d' = users d" using arg_cong [OF eq, of users] by simp
  show "accounts d' = accounts d" using arg_cong [OF eq, of accounts] by simp
  show "intents d' = intents d" using arg_cong [OF eq, of intents] by simp
  show "trades d' = trades d" using arg_cong [OF eq, of trades] by simp
  show "outbox d' = outbox d" using arg_cong [OF eq, of outbox] by simp
  show "token_ledger d' = token_ledger d" using arg_cong [OF eq, of token_ledger] by simp
qed

lemma stop_where_only: "only_sessions d (snd (stop_where reason whr d))"
  by (simp add: stop_where_def Let_def)

lemmas stop_sweep_defs = stop_expired_sessions_def stop_paused_sessions_def stop_halted_sessions_def
  stop_user_sessions_def stop_trading_sessions_def

lemma sweep_facts:
  assumes "stop_where reason whr d = (out, d')"
  shows "only_sessions d d' \<and> keeps_sessions d d'" "db_ok d \<Longrightarrow> db_ok d'"
  using assms stop_where_only [of d reason whr] stop_where_keeps [of d reason whr] stop_where_ok [of d reason whr] by simp_all

lemma keeps_field:
  assumes "\<And>s. session_after s (f s)" shows "keeps_sessions d (d\<lparr>sessions := sql_update p f (sessions d)\<rparr>)"
  using assms by (intro keeps_sessions_update [of _ p f]) simp_all

lemma stop_trading_session_keeps: "keeps_sessions d (snd (stop_trading_session sid reason m d))"
  unfolding stop_trading_session_def Let_def snd_conv
  by (rule keeps_sessions_update [of _ "\<lambda>s. s_id s = sid \<and> s_status s = SActive" "\<lambda>s. hand_over m (stopped_by reason (now d) s)"])
    (auto simp: session_after_def stopped_by_def hand_over_def split: option.split)

lemma status_message_keeps:
  "keeps_sessions d (snd (record_session_status_message sid tg m d))"
  "keeps_sessions d (snd (forget_session_status_message sid tg m d))"
  unfolding record_session_status_message_def forget_session_status_message_def Let_def snd_conv
  by (rule keeps_field, simp add: session_after_def)+

lemma mark_session_decisions_keeps: "keeps_sessions d (mark_session_decisions ids d)"
  unfolding mark_session_decisions_def by (auto intro!: keeps_field simp: session_after_def)

lemma claim_session_summary_keeps:
  assumes "claim_session_summary st sid tg d = Inr (x, d1)"
  shows "only_sessions d d1 \<and> keeps_sessions d d1"
proof (cases x)
  case None
  then show ?thesis using assms by (auto simp: claim_session_summary_def Let_def split: option.splits)
next
  case (Some sm)
  let ?p = "\<lambda>s. s_id s = sid \<and> summary_due d tg s"
  have d1: "d1 = d\<lparr>sessions := sql_update ?p (\<lambda>s. s\<lparr>s_summarySentAt := Some (now d)\<rparr>) (sessions d)\<rparr>"
    using assms Some by (auto simp: claim_session_summary_def Let_def split: option.splits)
  show ?thesis unfolding d1
    by (intro conjI keeps_sessions_update [of _ ?p "\<lambda>s. s\<lparr>s_summarySentAt := Some (now d)\<rparr>"])
      (auto simp: session_after_def summary_due_def)
qed

lemma session_change_facts:
  assumes "session_change d d'"
  shows "only_sessions d d' \<and> keeps_sessions d d' \<and> (db_ok d \<longrightarrow> db_ok d')"
  using assms
proof (cases rule: session_change.cases)
  case (StopOne sid reason m row)
  then show ?thesis
    using stop_trading_session_keeps [of d sid reason m] stop_trading_session_ok [of d sid reason m]
    by (auto simp: stop_trading_session_def Let_def)
next
  case (StopMany ids reason out)
  then show ?thesis by (cases "ids = []") (auto simp: stop_sweep_defs dest: sweep_facts)
next
  case (MarkDecisions ids)
  then show ?thesis using mark_session_decisions_keeps [of d ids] mark_session_decisions_ok [of d ids]
    by (simp add: mark_session_decisions_def)
next
  case (ClaimSummary sum_text sid tg x)
  then show ?thesis using claim_session_summary_keeps claim_session_summary_ok by blast
next
  case (RecordStatus sid tg msg b)
  then show ?thesis using status_message_keeps(1) [of d sid tg msg] status_message_ok(1) [of d sid tg msg]
    by (auto simp: record_session_status_message_def Let_def)
next
  case (ForgetStatus sid tg msg b)
  then show ?thesis using status_message_keeps(2) [of d sid tg msg] status_message_ok(2) [of d sid tg msg]
    by (auto simp: forget_session_status_message_def Let_def)
qed (auto simp: stop_sweep_defs dest: sweep_facts)

lemma create_trading_session_facts:
  assumes "db_ok d" "create_trading_session seen input demoOnly d = (res, d1)"
  shows "db_ok d1 \<and> keeps_sessions d d1 \<and> users d1 = users d \<and> accounts d1 = accounts d \<and> intents d1 = intents d
    \<and> trades d1 = trades d \<and> outbox d1 = outbox d \<and> token_ledger d1 = token_ledger d"
  using create_trading_session_cases [OF assms] assms(1) by (auto intro: keeps_sessions_append)

text \<open>The intent operations never touch the sessions table.\<close>

lemma transition_sessions: "transition_intent iid a b ex patch whr d = Inr (x, d1) \<Longrightarrow> sessions d1 = sessions d"
  by (auto simp: transition_intent_def Let_def split: if_splits option.splits)

lemma tokens_sessions:
  "release_tokens u i n d = Inr d1 \<Longrightarrow> sessions d1 = sessions d" "consume_tokens u i n d = Inr d1 \<Longrightarrow> sessions d1 = sessions d"
  by (auto simp: release_tokens_def consume_tokens_def insert_ledger_def Let_def split: if_splits sum.splits)

lemma insert_trade_sessions: "insert_trade r trade vals d = Inr d1 \<Longrightarrow> sessions d1 = sessions d"
  by (auto simp: insert_trade_def Let_def split: option.splits if_splits)

lemma accept_sessions: "mark_intent_accepted iid v a tr trade d = Inr (x, d1) \<Longrightarrow> sessions d1 = sessions d"
  by (auto simp: mark_intent_accepted_def dest!: transition_sessions insert_trade_sessions split: option.splits sum.splits)

lemma settle_sessions: "settle_intent iid ex a trade d = Inr (x, d1) \<Longrightarrow> sessions d1 = sessions d"
  by (auto simp: settle_intent_def dest!: transition_sessions tokens_sessions insert_trade_sessions split: option.splits if_splits sum.splits)

lemma settle_closed_trade_sessions:
  assumes "settle_closed_trade accountId trade d = (res, d1)" shows "sessions d1 = sessions d"
proof -
  have "d1 = d \<or> (\<exists>iid x. settle_intent iid None Accepted trade d = Inr (x, d1))"
    using assms by (auto simp: settle_closed_trade_def run_transaction_def split: sum.splits option.splits prod.splits)
  then show ?thesis using settle_sessions by blast
qed

lemma intent_ops_sessions:
  "take_intent iid v ms d = Inr (x, d1) \<Longrightarrow> sessions d1 = sessions d"
  "start_reconciling iid v d = Inr (x, d1) \<Longrightarrow> sessions d1 = sessions d"
  "reject_intent iid a ex reason whr d = Inr (x, d1) \<Longrightarrow> sessions d1 = sessions d"
  "mark_intent_unknown iid reason ex older d = Inr (x, d1) \<Longrightarrow> sessions d1 = sessions d"
  "conclude_reconciled iid v trade d = Inr (x, d1) \<Longrightarrow> sessions d1 = sessions d"
  "halt_account_for_manual_review iid v review d = Inr (x, d1) \<Longrightarrow> sessions d1 = sessions d"
  by (auto simp: take_intent_def start_reconciling_def reject_intent_def mark_intent_unknown_def insert_outbox_once_def
      insert_outbox_def conclude_reconciled_def halt_account_for_manual_review_def mark_intent_manual_review_def
      dest!: transition_sessions tokens_sessions accept_sessions settle_sessions split: option.splits sum.splits if_splits)

lemma operator_sessions:
  "adjust_tokens uid delta note ex d = Inr (adj, d1) \<Longrightarrow> sessions d1 = sessions d"
  "write_switch target d = Inr (sw, d1) \<Longrightarrow> sessions d1 = sessions d"
  "claim_reconciling iid ms d = (y, d1) \<Longrightarrow> sessions d1 = sessions d"
  by (auto simp: adjust_tokens_def insert_ledger_def write_switch_def audit_def claim_reconciling_def Let_def
      split: sum.splits option.splits if_splits)

end
