(* ===== verification/Later.thy ===== *)
theory Later
  imports Sessions_Safe
begin

text \<open>
  What time keeps, whatever runs: trades are only added and closed, sessions never run again once
  stopped, intents advance. The order \<open>later\<close> of the platform's machine is these three.
\<close>

section \<open>A settled trade stays settled\<close>

lemma transition_trades: "transition_intent iid a b ex patch whr d = Inr (x, d1) \<Longrightarrow> trades d1 = trades d"
  by (auto simp: transition_intent_def Let_def split: if_splits option.splits)

lemma consume_trades: "consume_tokens u i n d = Inr d1 \<Longrightarrow> trades d1 = trades d"
  by (auto simp: consume_tokens_def insert_ledger_def Let_def split: if_splits sum.splits)

lemma settle_intent_trades:
  assumes "settle_intent iid ex a trade d = Inr (Some row, d1)" "sql_first (\<lambda>t. t_intentId t = Some iid) (trades d) = Some l"
  shows "t_brokerTradeId l = bt_id trade \<and> trades d1 = sql_update (\<lambda>t. t_id t = t_id l) (closing_values trade) (trades d)"
  using assms
  by (auto simp: settle_intent_def dest!: transition_trades consume_trades split: option.splits if_splits sum.splits)

text \<open>The row a settled outcome speaks of: one trade of the account, now closed, of one settled intent.\<close>

definition closed_link :: "nat \<Rightarrow> string \<Rightarrow> nat \<Rightarrow> 'p db \<Rightarrow> bool" where
  "closed_link accountId tradeId iid d \<longleftrightarrow>
     (\<exists>t \<in> set (trades d). t_accountId t = accountId \<and> t_brokerTradeId t = tradeId \<and> t_intentId t = Some iid \<and> t_status t = TClosed)"

lemma closed_link_settled:
  assumes ok: "db_ok d" and c: "closed_link accountId tradeId iid d"
  shows "classify_link tradeId (trade_link accountId tradeId d) = Inl (AlreadySettled tradeId iid)"
proof -
  obtain t where t: "t \<in> set (trades d)" "t_accountId t = accountId" "t_brokerTradeId t = tradeId" "t_intentId t = Some iid" "t_status t = TClosed"
    using c by (auto simp: closed_link_def)
  have tp: "unique_on account_trade_key (trades d)" "trade_row_ok (intents d) (next_id d) t"
    using ok t(1) by (auto simp: db_ok_def trades_part_def)
  have "sql_first (\<lambda>t. t_accountId t = accountId \<and> t_brokerTradeId t = tradeId) (trades d) = Some t"
    using t by (intro sql_first_unique [OF tp(1) t(1)]) (auto simp: account_trade_key_def)
  moreover obtain r where r: "r \<in> set (intents d)" "i_id r = iid" using tp(2) t(4) by (auto simp: trade_row_ok_def)
  moreover have "find_intent_row iid d = Some r" using find_intent_unique [OF db_ok_unique [OF ok] r(1)] r(2) by simp
  ultimately show ?thesis using t by (simp add: classify_link_def trade_link_def)
qed

lemma settle_closed_trade_settles:
  assumes ok: "db_ok d" and c: "is_closed_trade trade"
    and t: "settle_closed_trade accountId trade d = (Inr (OutcomeSettled tid iid), d1)"
  shows "tid = bt_id trade \<and> closed_link accountId (bt_id trade) iid d1
    \<and> (\<exists>r ns row trs nid. r \<in> set (intents d) \<and> i_id r = iid \<and> i_status r = Accepted
         \<and> row = moved_to Settled (now d) (\<lambda>r. r\<lparr>i_tokensReserved := 0\<rparr>) r
         \<and> d1 = (finished r row LSettle (i_tokensReserved r) ns d)\<lparr>trades := trs, next_id := nid\<rparr>)"
proof -
  from t obtain row where cl: "classify_link (bt_id trade) (trade_link accountId (bt_id trade) d) = Inr iid"
    and s: "settle_intent iid None Accepted trade d = Inr (Some row, d1)" and tid: "tid = bt_id trade"
    by (auto simp: settle_closed_trade_def run_transaction_def classify_link_def split: sum.splits option.splits prod.splits if_splits)
  from cl obtain t where t0: "sql_first (\<lambda>t. t_accountId t = accountId \<and> t_brokerTradeId t = bt_id trade) (trades d) = Some t"
    and ti: "t_intentId t = Some iid"
    by (auto simp: classify_link_def trade_link_def split: option.splits prod.splits if_splits)
  have t: "t \<in> set (trades d) \<and> t_accountId t = accountId \<and> t_brokerTradeId t = bt_id trade" by (rule sql_first_Some [OF t0])
  from settle_intent_cases [OF ok disjI1 [OF refl] c, of iid None] s
  obtain r ns trs nid where r: "r \<in> set (intents d)" "cas_matches iid Accepted None (\<lambda>_. True) r"
    "row = moved_to Settled (now d) (\<lambda>r. r\<lparr>i_tokensReserved := 0\<rparr>) r"
    "d1 = (finished r row LSettle (i_tokensReserved r) ns d)\<lparr>trades := trs, next_id := nid\<rparr>" by auto
  have id: "i_id r = iid" "i_status r = Accepted" using r(2) by (auto simp: cas_matches_def)
  have "sql_first (\<lambda>t. t_intentId t = Some iid) (trades d) \<noteq> None" using t ti by (auto simp: sql_first_None)
  then obtain l where l0: "sql_first (\<lambda>t. t_intentId t = Some iid) (trades d) = Some l" by blast
  have l: "l \<in> set (trades d) \<and> t_intentId l = Some iid" by (rule sql_first_Some [OF l0])
  have acc: "t_accountId l = accountId"
  proof -
    have rows: "trade_row_ok (intents d) (next_id d) l" "trade_row_ok (intents d) (next_id d) t"
      using ok l t by (auto simp: db_ok_def trades_part_def)
    have "i_accountId r = t_accountId x" if "trade_row_ok (intents d) (next_id d) x" "t_intentId x = Some iid" for x :: "'a trade_row"
      using that r(1) id(1) unique_ids_eq [OF db_ok_unique [OF ok] r(1)] unfolding trade_row_ok_def by metis
    then show ?thesis using rows l t ti by metis
  qed
  have tr: "t_brokerTradeId l = bt_id trade \<and> trades d1 = sql_update (\<lambda>t. t_id t = t_id l) (closing_values trade) (trades d)"
    by (rule settle_intent_trades [OF s l0])
  have "closing_values trade l \<in> set (trades d1)" using l tr by (auto simp: set_sql_update)
  then have "closed_link accountId (bt_id trade) iid d1"
    using l acc tr c unfolding closed_link_def by (intro bexI [of _ "closing_values trade l"]) (auto simp: closing_values_simps)
  then show ?thesis using tid r id by blast
qed

text \<open>Trades are only added and closed.\<close>

definition keeps_trades :: "'p db \<Rightarrow> 'p db \<Rightarrow> bool" where
  "keeps_trades d d' \<longleftrightarrow> (\<forall>a t i. closed_link a t i d \<longrightarrow> closed_link a t i d')"

lemma keeps_same: "trades d' = trades d \<Longrightarrow> keeps_trades d d'"
  by (simp add: keeps_trades_def closed_link_def)

lemma keeps_append: "trades d' = trades d @ ts \<Longrightarrow> keeps_trades d d'"
  by (auto simp: keeps_trades_def closed_link_def)

lemma keeps_close: "trades d' = sql_update p (closing_values trade) (trades d) \<Longrightarrow> is_closed_trade trade \<Longrightarrow> keeps_trades d d'"
  unfolding keeps_trades_def closed_link_def by (auto simp: bex_sql_update closing_values_simps)

lemma keeps_trans: "keeps_trades d e \<Longrightarrow> keeps_trades e f \<Longrightarrow> keeps_trades d f"
  by (simp add: keeps_trades_def)

lemma insert_trade_trades: "insert_trade r trade vals d = Inr d1 \<Longrightarrow> \<exists>ts. trades d1 = trades d @ ts"
  by (auto simp: insert_trade_def Let_def split: option.splits if_splits)

lemma release_trades: "release_tokens u i n d = Inr d1 \<Longrightarrow> trades d1 = trades d"
  by (auto simp: release_tokens_def insert_ledger_def Let_def split: if_splits sum.splits)

lemma settle_keeps:
  assumes "settle_intent iid ex a trade d = Inr (x, d1)" "is_closed_trade trade"
  shows "keeps_trades d d1"
proof -
  have "trades d1 = trades d \<or> (\<exists>ts. trades d1 = trades d @ ts)
      \<or> (\<exists>k. trades d1 = sql_update (\<lambda>t. t_id t = k) (closing_values trade) (trades d))"
    using assms(1)
    by (auto simp: settle_intent_def dest!: transition_trades consume_trades insert_trade_trades split: option.splits if_splits sum.splits; blast)
  then show ?thesis using assms(2) keeps_same keeps_append keeps_close by blast
qed

lemma accept_keeps: "mark_intent_accepted iid v a tr trade d = Inr (x, d1) \<Longrightarrow> keeps_trades d d1"
  by (rule exE [of "\<lambda>ts. trades d1 = trades d @ ts"])
    (auto simp: mark_intent_accepted_def dest!: transition_trades insert_trade_trades intro: keeps_append split: option.splits sum.splits)

lemma reject_keeps: "reject_intent iid a ex reason whr d = Inr (x, d1) \<Longrightarrow> keeps_trades d d1"
  by (rule keeps_same)
    (auto simp: reject_intent_def dest!: transition_trades release_trades split: option.splits sum.splits if_splits)

lemma settle_closed_trade_keeps:
  assumes "settle_closed_trade accountId trade d = (res, d1)" "is_closed_trade trade"
  shows "keeps_trades d d1"
proof -
  have "d1 = d \<or> (\<exists>iid x. settle_intent iid None Accepted trade d = Inr (x, d1))"
    using assms(1) by (auto simp: settle_closed_trade_def run_transaction_def split: sum.splits option.splits prod.splits)
  then show ?thesis using settle_keeps assms(2) keeps_same by blast
qed

lemma conclude_keeps:
  assumes "conclude_reconciled iid v trade d = Inr (x, d1)" shows "keeps_trades d d1"
proof -
  have "d1 = d \<or> (\<exists>d2. keeps_trades d d2 \<and> (d1 = d2 \<or> keeps_trades d2 d1))"
    using assms by (auto simp: conclude_reconciled_def dest!: accept_keeps settle_keeps split: option.splits sum.splits if_splits)
  then show ?thesis using keeps_trans keeps_same by blast
qed

lemma keeps_transition: "transition_intent iid a b ex patch whr d = Inr (x, d1) \<Longrightarrow> keeps_trades d d1"
  by (rule keeps_same [OF transition_trades])

lemma unknown_keeps: "mark_intent_unknown iid reason ex ms d = Inr (x, d1) \<Longrightarrow> keeps_trades d d1"
  by (auto simp: mark_intent_unknown_def insert_outbox_once_def insert_outbox_def dest!: transition_trades
      intro!: keeps_same split: sum.splits option.splits)

lemma halt_keeps: "halt_account_for_manual_review iid v reason d = Inr (x, d1) \<Longrightarrow> keeps_trades d d1"
  by (auto simp: halt_account_for_manual_review_def mark_intent_manual_review_def dest!: transition_trades
      intro!: keeps_same split: sum.splits option.splits)

lemma operator_keeps:
  "adjust_tokens uid delta note ex d = Inr (adj, d1) \<Longrightarrow> keeps_trades d d1"
  "write_switch target d = Inr (sw, d1) \<Longrightarrow> keeps_trades d d1"
  "claim_reconciling iid ms d = (y, d1) \<Longrightarrow> keeps_trades d d1"
  by (auto simp: adjust_tokens_def insert_ledger_def write_switch_def audit_def claim_reconciling_def Let_def
      intro!: keeps_same split: sum.splits option.splits if_splits)

lemma only_sessions_keeps: "only_sessions d d' \<Longrightarrow> keeps_trades d d'"
  by (rule keeps_same) (simp add: only_sessions_same)

lemma keeps_trades_refl [simp]: "keeps_trades d d"
  by (simp add: keeps_trades_def)

lemma create_keeps:
  assumes "db_ok d" "progress seen d" "db_ok seen" "create_trade_intent seen input session opts d = (res, d')"
  shows "keeps_trades d d'"
  using create_trade_intent_cases [OF assms(1) progress_grows [OF assms(2)] assms(3), of input session opts] assms(4)
  by (auto intro!: keeps_same simp: created_in_def queued_state_def reserve_token_def)

lemma create_sessions:
  assumes "db_ok d" "progress seen d" "db_ok seen" "create_trade_intent seen input session opts d = (res, d')"
  shows "sessions d' = sessions d"
  using create_trade_intent_cases [OF assms(1) progress_grows [OF assms(2)] assms(3), of input session opts] assms(4)
  by (auto simp: created_in_def queued_state_def reserve_token_def)

definition later :: "'p db \<Rightarrow> 'p db \<Rightarrow> bool" where
  "later d d' \<longleftrightarrow> progress d d' \<and> keeps_trades d d' \<and> keeps_sessions d d'"

lemma later_refl [simp]: "later d d"
  by (simp add: later_def)

lemma later_trans: "later d e \<Longrightarrow> later e f \<Longrightarrow> later d f"
  unfolding later_def using progress_trans keeps_trans keeps_sessions_trans by blast

lemma laterD: "later d d' \<Longrightarrow> progress d d'" "later d d' \<Longrightarrow> keeps_trades d d'" "later d d' \<Longrightarrow> keeps_sessions d d'"
  by (simp_all add: later_def)

end
