(* ===== verification/Stars.thy ===== *)
theory Stars
  imports Later
begin

text \<open>
  Tokens for Telegram Stars: the packages and the payload of \<^verbatim>\<open>packages/shared/src/stars.ts\<close>, the
  credit, the refund and the refund request of \<^verbatim>\<open>packages/db/src/star-payment-ops.ts\<close>, and their
  callers in \<^verbatim>\<open>apps/backend/src/payments\<close>: the pre-checkout, the answer to the bot and one pass of the
  reconciler. The payload names its user by the text of an id; \<open>user_of\<close> is the id it denotes.
\<close>

section \<open>Packages and the invoice payload\<close>

record star_package =
  pack_code :: string
  pack_tokens :: int
  pack_stars :: int

definition STAR_PACKAGES :: "star_package list" where
  "STAR_PACKAGES =
     [\<lparr>pack_code = ''p50'', pack_tokens = 50, pack_stars = 100\<rparr>,
      \<lparr>pack_code = ''p150'', pack_tokens = 150, pack_stars = 250\<rparr>,
      \<lparr>pack_code = ''p500'', pack_tokens = 500, pack_stars = 750\<rparr>]"

definition star_package_of :: "string \<Rightarrow> star_package option" where
  "star_package_of code = sql_first (\<lambda>p. pack_code p = code) STAR_PACKAGES"

definition STARS_CURRENCY :: string where "STARS_CURRENCY = ''XTR''"
definition STAR_CHARGE_ID_MAX :: nat where "STAR_CHARGE_ID_MAX = 255"
definition STARS_PAYSUPPORT_LIST_LIMIT :: nat where "STARS_PAYSUPPORT_LIST_LIMIT = 5"

definition stars_invoice_payload :: "string \<Rightarrow> string \<Rightarrow> string" where
  "stars_invoice_payload code userId = ''stars:'' @ code @ '':'' @ userId"

definition is_lower_digit :: "char \<Rightarrow> bool" where
  "is_lower_digit c \<longleftrightarrow> (let n = (of_char c :: nat) in (48 \<le> n \<and> n \<le> 57) \<or> (97 \<le> n \<and> n \<le> 122))"

definition is_lower_hex :: "char \<Rightarrow> bool" where
  "is_lower_hex c \<longleftrightarrow> (let n = (of_char c :: nat) in (48 \<le> n \<and> n \<le> 57) \<or> (97 \<le> n \<and> n \<le> 102))"

text \<open>The pattern of a UUID: groups of 8, 4, 4, 4 and 12 lower-case hexadecimal digits.\<close>

fun hex_groups :: "nat list \<Rightarrow> string \<Rightarrow> bool" where
  "hex_groups [] s \<longleftrightarrow> s = []"
| "hex_groups [n] s \<longleftrightarrow> length s = n \<and> list_all is_lower_hex s"
| "hex_groups (n # ns) s \<longleftrightarrow>
     n < length s \<and> list_all is_lower_hex (take n s) \<and> s ! n = CHR ''-'' \<and> hex_groups ns (drop (Suc n) s)"

definition is_uuid :: "string \<Rightarrow> bool" where
  "is_uuid s \<longleftrightarrow> hex_groups [8, 4, 4, 4, 12] s"

text \<open>The parse of the pattern: the code is up to the next colon, which a code cannot hold.\<close>

definition parse_stars_invoice_payload :: "string \<Rightarrow> (string \<times> string) option" where
  "parse_stars_invoice_payload payload =
     (if take 6 payload \<noteq> ''stars:'' then None
      else let rest = drop 6 payload;
               code = takeWhile is_lower_digit rest;
               tail = dropWhile is_lower_digit rest in
        if code = [] \<or> 16 < length code \<or> tail = [] \<or> hd tail \<noteq> CHR '':'' \<or> \<not> is_uuid (tl tail) then None
        else Some (code, tl tail))"

section \<open>The buyer\<close>

record stars_buyer =
  buyer_userId :: nat
  buyer_status :: user_status
  buyer_active :: bool

definition read_stars_buyer :: "int \<Rightarrow> 'p db \<Rightarrow> stars_buyer option" where
  "read_stars_buyer telegramUserId d =
     (case sql_first (\<lambda>u. u_telegramUserId u = telegramUserId) (users d) of
        None \<Rightarrow> None
      | Some u \<Rightarrow> Some \<lparr>buyer_userId = u_id u, buyer_status = u_status u,
          buyer_active = list_ex (\<lambda>a. a_userId a = u_id u \<and> a_status a = AActive) (accounts d)\<rparr>)"

definition list_known_star_charges :: "string list \<Rightarrow> 'p db \<Rightarrow> string list" where
  "list_known_star_charges ids d = filter (\<lambda>c. List.member ids c) (map sp_chargeId (star_payments d))"

section \<open>The credit\<close>

record star_payment_input =
  pi_chargeId :: string
  pi_providerChargeId :: "string option"
  pi_packageCode :: string
  pi_userId :: nat
  pi_currency :: string
  pi_totalAmount :: int
  pi_payer :: int
  pi_paidAt :: int

datatype star_hold_reason = HoldCurrency | HoldAmount | HoldPackage | HoldPayer

datatype star_verdict = HoldVerdict star_hold_reason "int option" | CreditVerdict int

definition verdict_of :: "star_payment_input \<Rightarrow> int \<Rightarrow> star_verdict" where
  "verdict_of payment payerOfPayload =
     (let pack = star_package_of (pi_packageCode payment); tokens = map_option pack_tokens pack in
      if pi_currency payment \<noteq> STARS_CURRENCY then HoldVerdict HoldCurrency tokens
      else case pack of
        None \<Rightarrow> HoldVerdict HoldPackage tokens
      | Some p \<Rightarrow>
          if pi_totalAmount payment \<noteq> pack_stars p then HoldVerdict HoldAmount tokens
          else if pi_payer payment \<noteq> payerOfPayload then HoldVerdict HoldPayer tokens
          else CreditVerdict (pack_tokens p))"

datatype star_credit =
  StarsCredited nat int int
| StarsHeld nat star_hold_reason
| StarsAlreadyRecorded nat star_payment_status "int option" int
| StarsUserUnknown

fun verdict_tokens :: "star_verdict \<Rightarrow> int option" where
  "verdict_tokens (HoldVerdict _ tokens) = tokens"
| "verdict_tokens (CreditVerdict tokens) = Some tokens"

fun verdict_status :: "star_verdict \<Rightarrow> star_payment_status" where
  "verdict_status (HoldVerdict _ _) = StarHeld"
| "verdict_status (CreditVerdict _) = StarPaid"

definition new_star_payment :: "star_payment_input \<Rightarrow> star_verdict \<Rightarrow> 'p db \<Rightarrow> star_payment_row" where
  "new_star_payment payment verdict d =
     \<lparr>sp_id = next_id d, sp_userId = pi_userId payment, sp_chargeId = pi_chargeId payment,
      sp_providerChargeId = pi_providerChargeId payment, sp_packageCode = pi_packageCode payment,
      sp_currency = pi_currency payment, sp_totalAmount = pi_totalAmount payment, sp_tokens = verdict_tokens verdict,
      sp_payer = pi_payer payment, sp_status = verdict_status verdict, sp_paidAt = pi_paidAt payment, sp_refundedAt = None\<rparr>"

text \<open>The table's CHECKs on the columns a caller fills.\<close>

definition star_payment_checks :: "star_payment_row \<Rightarrow> bool" where
  "star_payment_checks p \<longleftrightarrow> 1 \<le> length (sp_chargeId p) \<and> length (sp_chargeId p) \<le> STAR_CHARGE_ID_MAX
     \<and> 0 < sp_totalAmount p \<and> 0 < sp_payer p
     \<and> (case sp_tokens p of None \<Rightarrow> True | Some t \<Rightarrow> 0 < t)
     \<and> (sp_status p \<noteq> StarPaid \<or> (sp_tokens p \<noteq> None \<and> sp_currency p = STARS_CURRENCY))
     \<and> (sp_status p = StarRefunded) = (sp_refundedAt p \<noteq> None)"

definition add_balance :: "nat \<Rightarrow> int \<Rightarrow> 'p db \<Rightarrow> 'p db" where
  "add_balance userId delta d =
     d\<lparr>users := sql_update (\<lambda>u. u_id u = userId) (\<lambda>u. u\<lparr>u_tokenBalance := u_tokenBalance u + delta\<rparr>) (users d)\<rparr>"

definition star_ledger_row :: "star_payment_row \<Rightarrow> ledger_kind \<Rightarrow> int \<Rightarrow> int \<Rightarrow> ledger_row" where
  "star_ledger_row p kind delta t =
     \<lparr>l_userId = sp_userId p, l_kind = kind, l_balanceDelta = delta, l_reservedDelta = 0, l_intentId = None,
      l_accountId = None, l_starPaymentId = Some (sp_id p), l_referralId = None, l_bonusRule = None,
      l_note = None, l_createdAt = t\<rparr>"

definition credit_star_payment :: "star_payment_input \<Rightarrow> 'p db \<Rightarrow> tx_error + star_credit \<times> 'p db" where
  "credit_star_payment payment d =
     (case sql_first (\<lambda>u. u_id u = pi_userId payment) (users d) of
        None \<Rightarrow> Inr (StarsUserUnknown, d)
      | Some user \<Rightarrow>
      let verdict = verdict_of payment (u_telegramUserId user); p = new_star_payment payment verdict d in
      if \<not> star_payment_checks p then Inl (CheckViolation ''star_payments'')
      else case sql_first (\<lambda>q. sp_chargeId q = pi_chargeId payment) (star_payments d) of
        Some stored \<Rightarrow> Inr (StarsAlreadyRecorded (sp_id stored) (sp_status stored) (sp_tokens stored) (u_tokenBalance user), d)
      | None \<Rightarrow>
      let d1 = d\<lparr>star_payments := star_payments d @ [p], next_id := next_id d + 1\<rparr> in
      (case verdict of
         HoldVerdict reason _ \<Rightarrow>
           Inr (StarsHeld (sp_id p) reason, d1\<lparr>audit_log := audit_log d1 @ [AuditStarsHeld (sp_id p) (pi_totalAmount payment)]\<rparr>)
       | CreditVerdict tokens \<Rightarrow>
           (case insert_ledger (star_ledger_row p LPurchase tokens (now d)) d1 of
              Inl e \<Rightarrow> Inl e
            | Inr d2 \<Rightarrow>
                (let d3 = add_balance (pi_userId payment) tokens d2 in
                 Inr (StarsCredited (sp_id p) tokens (u_tokenBalance user + tokens),
                   d3\<lparr>audit_log := audit_log d3 @ [AuditStarsPurchased (sp_id p) tokens (pi_totalAmount payment)]\<rparr>)))))"

section \<open>The refund\<close>

record star_refund_facts =
  sr_paymentId :: nat
  sr_fromStatus :: star_payment_status
  sr_taken :: int
  sr_notRecovered :: int
  sr_balance :: int

datatype star_refund =
  RefundRecorded star_refund_facts
| RefundAlreadyRecorded nat int
| ReceiverMismatch nat
| RefundNotFound

definition record_star_refund :: "string \<Rightarrow> int option \<Rightarrow> 'p db \<Rightarrow> tx_error + star_refund \<times> 'p db" where
  "record_star_refund chargeId receiver d =
     (case sql_first (\<lambda>p. sp_chargeId p = chargeId) (star_payments d) of
        None \<Rightarrow> Inr (RefundNotFound, d)
      | Some payment \<Rightarrow>
     (case sql_first (\<lambda>u. u_id u = sp_userId payment) (users d) of
        None \<Rightarrow> Inl (Thrown ''star refund lost its users row'')
      | Some user \<Rightarrow>
      if sp_status payment = StarRefunded then
        Inr (RefundAlreadyRecorded (sp_id payment) (case sp_refundedAt payment of None \<Rightarrow> 0 | Some t \<Rightarrow> t), d)
      else if receiver \<noteq> None \<and> receiver \<noteq> Some (sp_payer payment) then Inr (ReceiverMismatch (sp_id payment), d)
      else
      let credited = (if sp_status payment = StarPaid then (case sp_tokens payment of None \<Rightarrow> 0 | Some t \<Rightarrow> t) else 0);
          available = u_tokenBalance user - u_tokenReserved user;
          taken = (if credited < available then credited else available);
          refunded = (\<lambda>e. e\<lparr>star_payments := sql_update (\<lambda>p. sp_id p = sp_id payment \<and> (sp_status p = StarPaid \<or> sp_status p = StarHeld))
            (\<lambda>p. p\<lparr>sp_status := StarRefunded, sp_refundedAt := Some (now d)\<rparr>) (star_payments e)\<rparr>);
          facts = \<lparr>sr_paymentId = sp_id payment, sr_fromStatus = sp_status payment, sr_taken = taken,
            sr_notRecovered = credited - taken, sr_balance = u_tokenBalance user - (if 0 < taken then taken else 0)\<rparr> in
      if 0 < taken then
        (case insert_ledger (star_ledger_row payment LRefund (- taken) (now d)) d of
           Inl e \<Rightarrow> Inl e
         | Inr d1 \<Rightarrow>
             let q = (\<lambda>u. u_id u = sp_userId payment \<and> u_tokenReserved u \<le> u_tokenBalance u - taken) in
             (case sql_first q (users d1) of
                None \<Rightarrow> Inl (Thrown ''star refund: the balance cache diverged'')
              | Some _ \<Rightarrow> Inr (RefundRecorded facts,
                  refunded (d1\<lparr>users := sql_update q (\<lambda>u. u\<lparr>u_tokenBalance := u_tokenBalance u - taken\<rparr>) (users d1)\<rparr>))))
      else Inr (RefundRecorded facts, refunded d)))"

definition record_star_refund_by_system :: "string \<Rightarrow> int option \<Rightarrow> 'p db \<Rightarrow> tx_error + star_refund \<times> 'p db" where
  "record_star_refund_by_system chargeId receiver d =
     (case record_star_refund chargeId receiver d of
        Inl e \<Rightarrow> Inl e
      | Inr (RefundRecorded f, d1) \<Rightarrow>
          Inr (RefundRecorded f, d1\<lparr>audit_log := audit_log d1 @ [AuditStarsRefunded (sr_paymentId f) None (sr_taken f) (sr_notRecovered f)]\<rparr>)
      | Inr (r, d1) \<Rightarrow> Inr (r, d1))"

text \<open>\<open>answered\<close>: Telegram was asked; without it a refund recorded now is a bug and throws.\<close>

definition record_star_refund_by_staff :: "string \<Rightarrow> bool \<Rightarrow> nat \<Rightarrow> 'p db \<Rightarrow> tx_error + star_refund \<times> 'p db" where
  "record_star_refund_by_staff chargeId answered staffId d =
     (case record_star_refund chargeId None d of
        Inl e \<Rightarrow> Inl e
      | Inr (RefundRecorded f, d1) \<Rightarrow>
          if \<not> answered then Inl (Thrown ''a refund recorded without an answer'')
          else Inr (RefundRecorded f,
            d1\<lparr>audit_log := audit_log d1 @ [AuditStarsRefunded (sr_paymentId f) (Some staffId) (sr_taken f) (sr_notRecovered f)]\<rparr>)
      | Inr (RefundAlreadyRecorded pid t, d1) \<Rightarrow>
          Inr (RefundAlreadyRecorded pid t,
            d1\<lparr>audit_log := audit_log d1 @ [AuditRefundAttempt staffId (Some pid) ''already_recorded'']\<rparr>)
      | Inr (r, d1) \<Rightarrow> Inr (r, d1))"

definition record_star_refund_attempt_by_staff :: "nat \<Rightarrow> string \<Rightarrow> nat option \<Rightarrow> 'p db \<Rightarrow> 'p db" where
  "record_star_refund_attempt_by_staff staffId result paymentId d =
     d\<lparr>audit_log := audit_log d @ [AuditRefundAttempt staffId paymentId result]\<rparr>"

section \<open>The refund request and the reads\<close>

datatype refund_request_result = Requested star_payment_row | AlreadyRequested | AlreadyRefunded | RequestNotFound

definition request_star_refund :: "int \<Rightarrow> nat \<Rightarrow> 'p db \<Rightarrow> tx_error + refund_request_result \<times> 'p db" where
  "request_star_refund telegramUserId paymentId d =
     (let own = (\<lambda>p. sp_id p = paymentId \<and> sp_payer p = telegramUserId);
          asked = list_ex (\<lambda>r. rr_paymentId r = paymentId) (refund_requests d) in
      case sql_first own (star_payments d) of
        None \<Rightarrow> Inr (RequestNotFound, d)
      | Some payment \<Rightarrow>
          if sp_status payment = StarRefunded then Inr (AlreadyRefunded, d)
          else if asked then Inr (AlreadyRequested, d)
          else if \<not> 0 < telegramUserId then Inl (CheckViolation ''star_refund_requests_requested_by_check'')
          else Inr (Requested payment,
            d\<lparr>refund_requests := refund_requests d @ [\<lparr>rr_id = next_id d, rr_paymentId = paymentId,
                 rr_requestedBy = telegramUserId, rr_requestedAt = now d\<rparr>],
              next_id := next_id d + 1, audit_log := audit_log d @ [AuditRefundRequested paymentId telegramUserId]\<rparr>))"

definition requested_at :: "'p db \<Rightarrow> star_payment_row \<Rightarrow> int option" where
  "requested_at d p = map_option rr_requestedAt (sql_first (\<lambda>r. rr_paymentId r = sp_id p) (refund_requests d))"

definition read_star_payment_by_id :: "nat \<Rightarrow> 'p db \<Rightarrow> (star_payment_row \<times> int option) option" where
  "read_star_payment_by_id pid d =
     map_option (\<lambda>p. (p, requested_at d p)) (sql_first (\<lambda>p. sp_id p = pid) (star_payments d))"

definition read_star_payment_by_charge :: "string \<Rightarrow> 'p db \<Rightarrow> star_payment_row option" where
  "read_star_payment_by_charge chargeId d = sql_first (\<lambda>p. sp_chargeId p = chargeId) (star_payments d)"

text \<open>Newest first: by \<open>paid_at\<close>, then by the id.\<close>

definition newest_payments :: "star_payment_row list \<Rightarrow> star_payment_row list" where
  "newest_payments ps = rev (sort_key sp_paidAt (sort_key sp_id ps))"

definition list_star_payments_for_admin :: "nat \<Rightarrow> nat \<Rightarrow> 'p db \<Rightarrow> (star_payment_row \<times> int option) list" where
  "list_star_payments_for_admin userId limit d =
     map (\<lambda>p. (p, requested_at d p)) (take limit (newest_payments (filter (\<lambda>p. sp_userId p = userId) (star_payments d))))"

definition list_star_charges_to_refund :: "string list \<Rightarrow> 'p db \<Rightarrow> string list" where
  "list_star_charges_to_refund ids d =
     map sp_chargeId (filter (\<lambda>p. List.member ids (sp_chargeId p) \<and> (sp_status p = StarPaid \<or> sp_status p = StarHeld)) (star_payments d))"

record star_payment_view =
  pv_id :: nat
  pv_paidAt :: int
  pv_packageCode :: string
  pv_totalAmount :: int
  pv_status :: star_payment_status
  pv_requested :: bool

definition list_star_payments_for_payer :: "int \<Rightarrow> 'p db \<Rightarrow> star_payment_view list" where
  "list_star_payments_for_payer payer d =
     map (\<lambda>p. \<lparr>pv_id = sp_id p, pv_paidAt = sp_paidAt p div 1000, pv_packageCode = sp_packageCode p,
         pv_totalAmount = sp_totalAmount p, pv_status = sp_status p, pv_requested = (requested_at d p \<noteq> None)\<rparr>)
       (take STARS_PAYSUPPORT_LIST_LIMIT (newest_payments (filter (\<lambda>p. sp_payer p = payer) (star_payments d))))"

text \<open>A page of the open requests, oldest first, after the cursor's request; a cursor that names no request yields none.\<close>

definition request_before :: "refund_request_row \<Rightarrow> refund_request_row \<Rightarrow> bool" where
  "request_before r s \<longleftrightarrow> rr_requestedAt r < rr_requestedAt s \<or> (rr_requestedAt r = rr_requestedAt s \<and> rr_id r < rr_id s)"

definition after_cursor :: "nat option \<Rightarrow> 'p db \<Rightarrow> refund_request_row \<Rightarrow> bool" where
  "after_cursor cursor d r \<longleftrightarrow>
     (case cursor of None \<Rightarrow> True
      | Some c \<Rightarrow> (case sql_first (\<lambda>q. rr_id q = c) (refund_requests d) of None \<Rightarrow> False | Some q \<Rightarrow> request_before q r))"

definition open_request :: "'p db \<Rightarrow> refund_request_row \<Rightarrow> bool" where
  "open_request d r \<longleftrightarrow> list_ex (\<lambda>p. sp_id p = rr_paymentId r \<and> sp_status p \<noteq> StarRefunded) (star_payments d)"

definition list_open_star_refund_requests :: "nat option \<Rightarrow> nat \<Rightarrow> 'p db \<Rightarrow> refund_request_row list \<times> nat option" where
  "list_open_star_refund_requests cursor limit d =
     (let rows = take (limit + 1) (sort_key rr_requestedAt (sort_key rr_id
           (filter (\<lambda>r. open_request d r \<and> after_cursor cursor d r) (refund_requests d))));
          page = take limit rows in
      (page, if limit < length rows \<and> page \<noteq> [] then Some (rr_id (last page)) else None))"

section \<open>The routes\<close>

datatype pre_checkout_refusal_reason =
  RefusePayload | RefusePackage | RefuseCurrency | RefuseAmount | RefusePayer | RefuseUserNotFound
| RefuseUserBlocked | RefuseNoActiveAccount

record pre_checkout_query =
  pq_telegramUserId :: int
  pq_payload :: string
  pq_currency :: string
  pq_totalAmount :: int

definition pre_checkout_refusal :: "(string \<Rightarrow> nat) \<Rightarrow> pre_checkout_query \<Rightarrow> 'p db \<Rightarrow> pre_checkout_refusal_reason option" where
  "pre_checkout_refusal user_of query d =
     (case parse_stars_invoice_payload (pq_payload query) of
        None \<Rightarrow> Some RefusePayload
      | Some (code, userText) \<Rightarrow>
     (case star_package_of code of
        None \<Rightarrow> Some RefusePackage
      | Some pack \<Rightarrow>
      if pq_currency query \<noteq> STARS_CURRENCY then Some RefuseCurrency
      else if pq_totalAmount query \<noteq> pack_stars pack then Some RefuseAmount
      else case read_stars_buyer (pq_telegramUserId query) d of
        None \<Rightarrow> Some RefuseUserNotFound
      | Some buyer \<Rightarrow>
          if buyer_userId buyer \<noteq> user_of userText then Some RefusePayer
          else if buyer_status buyer = UBlocked then Some RefuseUserBlocked
          else if \<not> buyer_active buyer then Some RefuseNoActiveAccount
          else None))"

datatype stars_error = StarsUserNotFound | StarsUserBlocked | StarsNoActiveAccount | StarsPackageUnknown | StarsPayloadUnknown

text \<open>The invoice route: the payload and the package; \<open>text_of\<close> writes a user's id.\<close>

definition stars_invoice :: "(nat \<Rightarrow> string) \<Rightarrow> int \<Rightarrow> string \<Rightarrow> 'p db \<Rightarrow> stars_error + string \<times> star_package" where
  "stars_invoice text_of telegramUserId packageCode d =
     (case read_stars_buyer telegramUserId d of
        None \<Rightarrow> Inl StarsUserNotFound
      | Some buyer \<Rightarrow>
          if buyer_status buyer = UBlocked then Inl StarsUserBlocked
          else if \<not> buyer_active buyer then Inl StarsNoActiveAccount
          else case star_package_of packageCode of
            None \<Rightarrow> Inl StarsPackageUnknown
          | Some pack \<Rightarrow> Inr (stars_invoice_payload (pack_code pack) (text_of (buyer_userId buyer)), pack))"

datatype paid_response = PaidCredited int int | PaidAlreadyCredited int int | PaidHeld

fun paid_answer :: "star_credit \<Rightarrow> paid_response option" where
  "paid_answer (StarsCredited _ tokens balance) = Some (PaidCredited tokens balance)"
| "paid_answer (StarsAlreadyRecorded _ status tokens balance) =
     Some (case tokens of Some t \<Rightarrow> if status = StarPaid then PaidAlreadyCredited t balance else PaidHeld | None \<Rightarrow> PaidHeld)"
| "paid_answer (StarsHeld _ _) = Some PaidHeld"
| "paid_answer StarsUserUnknown = None"

record paid_request =
  pr_telegramUserId :: int
  pr_chargeId :: string
  pr_providerChargeId :: "string option"
  pr_payload :: string
  pr_currency :: string
  pr_totalAmount :: int
  pr_paidAt :: int

text \<open>The route of a successful payment: thrown, refused, or the answer to the bot.\<close>

definition stars_paid :: "(string \<Rightarrow> nat) \<Rightarrow> paid_request \<Rightarrow> 'p db \<Rightarrow> tx_error + (stars_error + paid_response) \<times> 'p db" where
  "stars_paid user_of paid d =
     (case parse_stars_invoice_payload (pr_payload paid) of
        None \<Rightarrow> Inr (Inl StarsPayloadUnknown, d)
      | Some (code, userText) \<Rightarrow>
     (case credit_star_payment \<lparr>pi_chargeId = pr_chargeId paid, pi_providerChargeId = pr_providerChargeId paid,
           pi_packageCode = code, pi_userId = user_of userText, pi_currency = pr_currency paid,
           pi_totalAmount = pr_totalAmount paid, pi_payer = pr_telegramUserId paid, pi_paidAt = pr_paidAt paid * 1000\<rparr> d of
        Inl e \<Rightarrow> Inl e
      | Inr (credit, d1) \<Rightarrow>
          Inr (case paid_answer credit of None \<Rightarrow> Inl StarsPayloadUnknown | Some answer \<Rightarrow> Inr answer, d1)))"

section \<open>The reconciler's pass\<close>

text \<open>A Star transaction: an invoice payment to us, a transfer to a user, or another kind.\<close>

datatype star_partner =
  InvoicePaymentBy int string
| OutgoingTo int
| OtherPartner

record star_transaction =
  st_id :: string
  st_amount :: int
  st_date :: int
  st_partner :: star_partner

fun invoice_payment :: "star_transaction \<Rightarrow> bool" where
  "invoice_payment t \<longleftrightarrow> (case st_partner t of InvoicePaymentBy _ _ \<Rightarrow> True | _ \<Rightarrow> False)"

fun outgoing_to_user :: "star_transaction \<Rightarrow> bool" where
  "outgoing_to_user t \<longleftrightarrow> (case st_partner t of OutgoingTo _ \<Rightarrow> True | _ \<Rightarrow> False)"

definition settle_payment :: "(string \<Rightarrow> nat) \<Rightarrow> star_transaction \<Rightarrow> 'p db \<Rightarrow> tx_error + star_credit option \<times> 'p db" where
  "settle_payment user_of t d =
     (case st_partner t of
        InvoicePaymentBy payer payload \<Rightarrow>
          (case parse_stars_invoice_payload payload of
             None \<Rightarrow> Inr (None, d)
           | Some (code, userText) \<Rightarrow>
               (case credit_star_payment \<lparr>pi_chargeId = st_id t, pi_providerChargeId = None, pi_packageCode = code,
                     pi_userId = user_of userText, pi_currency = STARS_CURRENCY, pi_totalAmount = st_amount t,
                     pi_payer = payer, pi_paidAt = st_date t * 1000\<rparr> d of
                  Inl e \<Rightarrow> Inl e | Inr (c, d1) \<Rightarrow> Inr (Some c, d1)))
      | _ \<Rightarrow> Inr (None, d))"

definition settle_refund :: "star_transaction \<Rightarrow> 'p db \<Rightarrow> tx_error + star_refund option \<times> 'p db" where
  "settle_refund t d =
     (case st_partner t of
        OutgoingTo receiver \<Rightarrow>
          (case record_star_refund_by_system (st_id t) (Some receiver) d of
             Inl e \<Rightarrow> Inl e | Inr (r, d1) \<Rightarrow> Inr (Some r, d1))
      | _ \<Rightarrow> Inr (None, d))"

text \<open>Each transaction in a transaction of its own, a throw ending the pass with what was committed.\<close>

fun each_committed :: "('a \<Rightarrow> bool) \<Rightarrow> ('t \<Rightarrow> 'p db \<Rightarrow> tx_error + 'a \<times> 'p db) \<Rightarrow> 't list \<Rightarrow> 'p db \<Rightarrow> (tx_error + nat) \<times> 'p db" where
  "each_committed counted f [] d = (Inr 0, d)"
| "each_committed counted f (t # ts) d =
     (case f t d of
        Inl e \<Rightarrow> (Inl e, d)
      | Inr (a, d1) \<Rightarrow>
          (case each_committed counted f ts d1 of
             (Inl e, d2) \<Rightarrow> (Inl e, d2)
           | (Inr n, d2) \<Rightarrow> (Inr (if counted a then n + 1 else n), d2)))"

fun refund_recorded :: "star_refund option \<Rightarrow> bool" where
  "refund_recorded (Some (RefundRecorded _)) \<longleftrightarrow> True"
| "refund_recorded _ \<longleftrightarrow> False"

text \<open>
  One page: the payments inside the window whose charge is not known, then the refunds of charges
  that are paid or held, both read before the first of their kind is written.
\<close>

definition reconcile_page :: "(string \<Rightarrow> nat) \<Rightarrow> int \<Rightarrow> star_transaction list \<Rightarrow> 'p db \<Rightarrow> (tx_error + nat) \<times> 'p db" where
  "reconcile_page user_of oldest ts d =
     (let payments = filter (\<lambda>t. invoice_payment t \<and> oldest \<le> st_date t) ts;
          known = list_known_star_charges (map st_id payments) d in
      case each_committed (\<lambda>_. True) (settle_payment user_of) (filter (\<lambda>t. \<not> List.member known (st_id t)) payments) d of
        (Inl e, d1) \<Rightarrow> (Inl e, d1)
      | (Inr n, d1) \<Rightarrow>
          (let outgoing = filter (\<lambda>t. outgoing_to_user t \<and> oldest \<le> st_date t) ts;
               refundable = list_star_charges_to_refund (map st_id outgoing) d1 in
           case each_committed refund_recorded settle_refund (filter (\<lambda>t. List.member refundable (st_id t)) outgoing) d1 of
             (Inl e, d2) \<Rightarrow> (Inl e, d2)
           | (Inr m, d2) \<Rightarrow> (Inr (n + m), d2)))"

text \<open>The pass over the pages Telegram answers, up to a short page or the ceiling.\<close>

fun reconcile_pages ::
  "(string \<Rightarrow> nat) \<Rightarrow> int \<Rightarrow> nat \<Rightarrow> star_transaction list list \<Rightarrow> nat \<Rightarrow> 'p db \<Rightarrow> (tx_error + nat option) \<times> 'p db" where
  "reconcile_pages user_of oldest pageSize pages n d =
     (case pages of
        [] \<Rightarrow> (Inr None, d)
      | ts # rest \<Rightarrow>
          (case reconcile_page user_of oldest ts d of
             (Inl e, d1) \<Rightarrow> (Inl e, d1)
           | (Inr m, d1) \<Rightarrow>
               if length ts < pageSize then (Inr (Some (n + m)), d1)
               else reconcile_pages user_of oldest pageSize rest (n + m) d1))"

end
