(* ===== verification/Outbox.thy ===== *)
theory Outbox
  imports Later
begin

text \<open>
  The backend's outbox publisher, \<^verbatim>\<open>apps/backend/src/outbox/store.ts\<close> and \<^verbatim>\<open>publisher.ts\<close>: one
  transaction per row claims it, hands its job to the queue and records the delivery or the failure;
  the sweep re-pends rows whose job is gone. What the queue answered is an argument.
\<close>

section \<open>The store\<close>

definition list_pending_outbox :: "nat \<Rightarrow> 'p db \<Rightarrow> nat list" where
  "list_pending_outbox limit d =
     map o_id (take limit (sort_key o_availableAt (filter (\<lambda>w. o_status w = OPending \<and> o_availableAt w \<le> now d) (outbox d))))"

definition claim_outbox_row :: "nat \<Rightarrow> outbox_status \<Rightarrow> 'p db \<Rightarrow> outbox_row option" where
  "claim_outbox_row oid status d = sql_first (\<lambda>w. o_id w = oid \<and> o_status w = status) (outbox d)"

definition set_outbox :: "nat \<Rightarrow> (outbox_row \<Rightarrow> outbox_row) \<Rightarrow> 'p db \<Rightarrow> 'p db" where
  "set_outbox oid f d = d\<lparr>outbox := sql_update (\<lambda>w. o_id w = oid) f (outbox d)\<rparr>"

definition mark_published :: "nat \<Rightarrow> 'p db \<Rightarrow> 'p db" where
  "mark_published oid d =
     set_outbox oid (\<lambda>w. w\<lparr>o_status := OPublished, o_publishedAt := Some (now d), o_lastError := None\<rparr>) d"

text \<open>\<open>policy_reject\<close> is whether giving up rejects the intent: the policy's \<open>onExhausted\<close>.\<close>

record delivery_policy =
  policy_maxAttempts :: "nat option"
  policy_reject :: bool

definition MAX_BACKOFF_MS :: int where "MAX_BACKOFF_MS = 16000"

definition backoff_ms :: "nat \<Rightarrow> int" where
  "backoff_ms attempts = min MAX_BACKOFF_MS (1000 * 2 ^ (attempts - 1))"

definition record_delivery_failure :: "outbox_row \<Rightarrow> delivery_policy \<Rightarrow> 'p db \<Rightarrow> tx_error + bool \<times> 'p db" where
  "record_delivery_failure row policy d =
     (let attempts = o_attempts row + 1;
          exhausted = (case policy_maxAttempts policy of None \<Rightarrow> False | Some n \<Rightarrow> n \<le> attempts);
          d1 = set_outbox (o_id row) (\<lambda>w. w\<lparr>o_attempts := attempts, o_status := (if exhausted then OFailed else OPending),
                 o_availableAt := (if exhausted then o_availableAt w else now d + backoff_ms attempts),
                 o_lastError := Some PublishFailed\<rparr>) d in
      if exhausted \<and> policy_reject policy then
        (case reject_intent (o_intentId row) Queued None PublishFailed (\<lambda>_. True) d1 of
           Inl e \<Rightarrow> Inl e | Inr (_, d2) \<Rightarrow> Inr (True, d2))
      else Inr (exhausted, d1))"

definition list_stale_published :: "outbox_topic \<Rightarrow> intent_status \<Rightarrow> int \<Rightarrow> nat \<Rightarrow> 'p db \<Rightarrow> outbox_row list" where
  "list_stale_published topic intentStatus olderThanMs limit d =
     take limit (sort_key (\<lambda>w. case o_publishedAt w of None \<Rightarrow> 0 | Some t \<Rightarrow> t) (filter (\<lambda>w.
       o_status w = OPublished \<and> o_topic w = topic
       \<and> list_ex (\<lambda>r. i_id r = o_intentId w \<and> i_status r = intentStatus) (intents d)
       \<and> (case o_publishedAt w of None \<Rightarrow> False | Some t \<Rightarrow> t < milliseconds_ago d olderThanMs)) (outbox d)))"

section \<open>The publisher\<close>

record publisher_config =
  pc_batchSize :: nat
  pc_maxAttempts :: nat
  pc_staleQueuedMs :: int

definition DEFAULT_PUBLISHER_CONFIG :: publisher_config where
  "DEFAULT_PUBLISHER_CONFIG = \<lparr>pc_batchSize = 50, pc_maxAttempts = 5, pc_staleQueuedMs = 30000\<rparr>"

definition STALE_TARGETS :: "(outbox_topic \<times> intent_status) list" where
  "STALE_TARGETS = [(TradingIntents, Queued), (TradingReconciliation, Unknown)]"

definition policy_for :: "publisher_config \<Rightarrow> outbox_topic \<Rightarrow> delivery_policy" where
  "policy_for cfg topic =
     (if topic = TradingIntents then \<lparr>policy_maxAttempts = Some (pc_maxAttempts cfg), policy_reject = True\<rparr>
      else \<lparr>policy_maxAttempts = None, policy_reject = False\<rparr>)"

text \<open>\<open>publishOne\<close>: \<open>delivered\<close> is whether the queue took the job within the deadline.\<close>

definition publish_one :: "publisher_config \<Rightarrow> nat \<Rightarrow> bool \<Rightarrow> 'p db \<Rightarrow> tx_error + bool \<times> 'p db" where
  "publish_one cfg oid delivered d =
     (case claim_outbox_row oid OPending d of None \<Rightarrow> Inr (False, d)
      | Some row \<Rightarrow>
      if delivered then Inr (True, mark_published (o_id row) d)
      else case record_delivery_failure row (policy_for cfg (o_topic row)) d of
        Inl e \<Rightarrow> Inl e | Inr (_, d1) \<Rightarrow> Inr (True, d1))"

text \<open>The sweep's transaction on one candidate whose job the queue no longer has.\<close>

definition sweep_one :: "publisher_config \<Rightarrow> nat \<Rightarrow> 'p db \<Rightarrow> tx_error + bool \<times> 'p db" where
  "sweep_one cfg oid d =
     (case claim_outbox_row oid OPublished d of None \<Rightarrow> Inr (False, d)
      | Some row \<Rightarrow>
      (case record_delivery_failure row (policy_for cfg (o_topic row)) d of
         Inl e \<Rightarrow> Inl e | Inr (_, d1) \<Rightarrow> Inr (True, d1)))"

text \<open>
  \<open>tick\<close> without other processes in between: the pending rows one after the other, each in its own
  transaction, a throw ending the pass.
\<close>

fun publish_rows :: "publisher_config \<Rightarrow> (nat \<Rightarrow> bool) \<Rightarrow> nat list \<Rightarrow> 'p db \<Rightarrow> (tx_error + nat) \<times> 'p db" where
  "publish_rows cfg delivered [] d = (Inr 0, d)"
| "publish_rows cfg delivered (oid # oids) d =
     (case publish_one cfg oid (delivered oid) d of
        Inl e \<Rightarrow> (Inl e, d)
      | Inr (done_one, d1) \<Rightarrow>
          (case publish_rows cfg delivered oids d1 of
             (Inl e, d2) \<Rightarrow> (Inl e, d2)
           | (Inr n, d2) \<Rightarrow> (Inr (if done_one then n + 1 else n), d2)))"

definition publisher_tick :: "publisher_config \<Rightarrow> (nat \<Rightarrow> bool) \<Rightarrow> 'p db \<Rightarrow> (tx_error + nat) \<times> 'p db" where
  "publisher_tick cfg delivered d = publish_rows cfg delivered (list_pending_outbox (pc_batchSize cfg) d) d"

section \<open>What the transactions keep\<close>

definition same_message :: "outbox_row \<Rightarrow> outbox_row \<Rightarrow> bool" where
  "same_message w w' \<longleftrightarrow> o_id w' = o_id w \<and> o_intentId w' = o_intentId w \<and> o_topic w' = o_topic w \<and> o_payload w' = o_payload w"

lemma unique_outbox_update:
  assumes "unique_on key xs" "\<And>x. key (f x) = key x" shows "unique_on key (sql_update p f xs)"
proof -
  have "key \<circ> (\<lambda>x. if p x then f x else x) = key" using assms(2) by auto
  then have "List.map_filter key (sql_update p f xs) = List.map_filter key xs"
    by (simp add: sql_update_def List.map_filter_def filter_map comp_def fun_eq_iff)
  then show ?thesis using assms(1) by (simp add: unique_on_def)
qed

lemma topics_of_update:
  assumes "\<And>w. same_message w (f w)" shows "topics_of iid (sql_update p f obx) = topics_of iid obx"
  unfolding topics_of_def sql_update_def using assms by (induction obx) (auto simp: same_message_def)

lemma outbox_part_update:
  assumes "outbox_part ints obx nid" "\<And>w. same_message w (f w)"
  shows "outbox_part ints (sql_update p f obx) nid"
proof -
  have "unique_on (\<lambda>r. Some (o_id r)) (sql_update p f obx)"
    using assms by (intro unique_outbox_update) (auto simp: outbox_part_def same_message_def)
  moreover have "\<forall>w \<in> set (sql_update p f obx). o_id w < nid \<and> o_payload w = o_intentId w \<and> (\<exists>r \<in> set ints. i_id r = o_intentId w)"
  proof
    fix w assume "w \<in> set (sql_update p f obx)"
    then obtain v where "v \<in> set obx" "w = (if p v then f v else v)" by (auto simp: set_sql_update)
    then show "o_id w < nid \<and> o_payload w = o_intentId w \<and> (\<exists>r \<in> set ints. i_id r = o_intentId w)"
      using assms by (auto simp: outbox_part_def same_message_def)
  qed
  ultimately show ?thesis using assms(1) by (simp add: outbox_part_def topics_of_update [OF assms(2)])
qed

lemma set_outbox_ok: "db_ok d \<Longrightarrow> (\<And>w. same_message w (f w)) \<Longrightarrow> db_ok (set_outbox oid f d)"
  unfolding db_ok_def set_outbox_def by (simp add: outbox_part_update)

lemma set_outbox_simps [simp]:
  "users (set_outbox oid f d) = users d" "accounts (set_outbox oid f d) = accounts d" "intents (set_outbox oid f d) = intents d"
  "trades (set_outbox oid f d) = trades d" "sessions (set_outbox oid f d) = sessions d" "now (set_outbox oid f d) = now d"
  "token_ledger (set_outbox oid f d) = token_ledger d"
  "outbox (set_outbox oid f d) = sql_update (\<lambda>w. o_id w = oid) f (outbox d)"
  by (simp_all add: set_outbox_def)

text \<open>How a recorded failure ends.\<close>

lemma record_delivery_failure_cases:
  assumes "record_delivery_failure row policy d = Inr (b, d1)"
  shows "\<exists>f. (\<forall>w. same_message w (f w) \<and> o_status (f w) = (if b then OFailed else OPending) \<and> o_attempts (f w) = o_attempts row + 1)
    \<and> (if b \<and> policy_reject policy
       then \<exists>x. reject_intent (o_intentId row) Queued None PublishFailed (\<lambda>_. True) (set_outbox (o_id row) f d) = Inr (x, d1)
       else d1 = set_outbox (o_id row) f d)
    \<and> b = (\<exists>n. policy_maxAttempts policy = Some n \<and> n \<le> o_attempts row + 1)"
proof -
  let ?a = "o_attempts row + 1"
  let ?ex = "case policy_maxAttempts policy of None \<Rightarrow> False | Some n \<Rightarrow> n \<le> ?a"
  let ?f = "\<lambda>w. w\<lparr>o_attempts := ?a, o_status := (if ?ex then OFailed else OPending),
      o_availableAt := (if ?ex then o_availableAt w else now d + backoff_ms ?a), o_lastError := Some PublishFailed\<rparr>"
  have ex: "?ex = (\<exists>n. policy_maxAttempts policy = Some n \<and> n \<le> ?a)" by (simp split: option.split)
  have "b = ?ex \<and> (if b \<and> policy_reject policy
       then \<exists>x. reject_intent (o_intentId row) Queued None PublishFailed (\<lambda>_. True) (set_outbox (o_id row) ?f d) = Inr (x, d1)
       else d1 = set_outbox (o_id row) ?f d)"
    using assms unfolding record_delivery_failure_def Let_def by (auto split: if_splits sum.splits prod.splits)
  then show ?thesis using ex by (intro exI [of _ ?f]) (auto simp: same_message_def)
qed

definition outbox_facts :: "'p db \<Rightarrow> 'p db \<Rightarrow> bool" where
  "outbox_facts d d' \<longleftrightarrow> db_ok d' \<and> progress d d' \<and> keeps_trades d d' \<and> keeps_sessions d d'"

lemma set_outbox_progress: "db_ok d \<Longrightarrow> progress d (set_outbox oid f d)"
  by (rule one_move_progress) (simp_all add: one_move_def)

lemma outbox_facts_set: "db_ok d \<Longrightarrow> (\<And>w. same_message w (f w)) \<Longrightarrow> outbox_facts d (set_outbox oid f d)"
  unfolding outbox_facts_def using set_outbox_ok [of d f oid] set_outbox_progress [of d oid f]
  by (auto intro: keeps_same keeps_sessions_same)

lemma outbox_facts_reject:
  assumes "outbox_facts d d1" "reject_intent iid Queued None reason whr d1 = Inr (x, d2)"
  shows "outbox_facts d d2"
proof -
  have ok: "db_ok d1" using assms(1) by (simp add: outbox_facts_def)
  have "progress d1 d2" by (rule one_move_progress [OF ok reject_intent_one_move [OF ok assms(2)]])
  moreover have "keeps_sessions d1 d2" by (rule keeps_sessions_same) (rule intent_ops_sessions(3) [OF assms(2)])
  ultimately show ?thesis
    using assms(1) reject_intent_ok [OF ok assms(2)] reject_keeps [OF assms(2)]
    unfolding outbox_facts_def by (blast intro: progress_trans keeps_trans keeps_sessions_trans)
qed

lemma record_delivery_failure_facts:
  assumes "db_ok d" "record_delivery_failure row policy d = Inr (b, d1)"
  shows "outbox_facts d d1"
proof -
  from record_delivery_failure_cases [OF assms(2)] obtain f where f: "\<And>w. same_message w (f w)"
    and c: "if b \<and> policy_reject policy
       then \<exists>x. reject_intent (o_intentId row) Queued None PublishFailed (\<lambda>_. True) (set_outbox (o_id row) f d) = Inr (x, d1)
       else d1 = set_outbox (o_id row) f d" by blast
  have "outbox_facts d (set_outbox (o_id row) f d)" by (rule outbox_facts_set [OF assms(1) f])
  then show ?thesis using c outbox_facts_reject by (auto split: if_splits)
qed

inductive outbox_change :: "'p db \<Rightarrow> 'p db \<Rightarrow> bool" where
  PublishOne: "publish_one cfg oid delivered d = Inr (b, d') \<Longrightarrow> outbox_change d d'"
| SweepOne: "sweep_one cfg oid d = Inr (b, d') \<Longrightarrow> outbox_change d d'"

inductive_cases outbox_changeE: "outbox_change d d'"

lemma outbox_facts_refl: "db_ok d \<Longrightarrow> outbox_facts d d"
  by (simp add: outbox_facts_def)

text \<open>The shapes of a publisher's transaction: nothing, a delivery, or a recorded failure of a claimed row.\<close>

lemma outbox_change_cases:
  assumes "outbox_change d d'"
  shows "d' = d \<or> (\<exists>row. row \<in> set (outbox d) \<and> d' = mark_published (o_id row) d)
    \<or> (\<exists>row cfg b. row \<in> set (outbox d) \<and> record_delivery_failure row (policy_for cfg (o_topic row)) d = Inr (b, d'))"
  using assms
proof (cases rule: outbox_change.cases)
  case (PublishOne cfg oid delivered b)
  show ?thesis
  proof (cases "claim_outbox_row oid OPending d")
    case None
    then show ?thesis using PublishOne by (simp add: publish_one_def)
  next
    case (Some row)
    then have "row \<in> set (outbox d)" unfolding claim_outbox_row_def by (auto dest: sql_first_Some)
    then show ?thesis using PublishOne Some by (auto simp: publish_one_def split: if_splits sum.splits prod.splits)
  qed
next
  case (SweepOne cfg oid b)
  show ?thesis
  proof (cases "claim_outbox_row oid OPublished d")
    case None
    then show ?thesis using SweepOne by (simp add: sweep_one_def)
  next
    case (Some row)
    then have "row \<in> set (outbox d)" unfolding claim_outbox_row_def by (auto dest: sql_first_Some)
    then show ?thesis using SweepOne Some by (auto simp: sweep_one_def split: if_splits sum.splits prod.splits)
  qed
qed

lemma outbox_change_facts:
  assumes "outbox_change d d'" "db_ok d" shows "outbox_facts d d'"
  using outbox_change_cases [OF assms(1)]
proof (elim disjE exE conjE)
  assume "d' = d" then show ?thesis using outbox_facts_refl assms(2) by simp
next
  fix row assume d': "d' = mark_published (o_id row) d"
  show ?thesis unfolding d' mark_published_def by (rule outbox_facts_set [OF assms(2)]) (simp add: same_message_def)
next
  fix row cfg b assume "record_delivery_failure row (policy_for cfg (o_topic row)) d = Inr (b, d')"
  then show ?thesis by (rule record_delivery_failure_facts [OF assms(2)])
qed

section \<open>What a failed delivery leaves behind\<close>

text \<open>The publisher gives up only on trading rows, and their intents are not queued any more.\<close>

definition closed_message :: "'p db \<Rightarrow> outbox_row \<Rightarrow> bool" where
  "closed_message d w \<longleftrightarrow> o_topic w = TradingIntents \<and> (\<forall>r \<in> set (intents d). i_id r = o_intentId w \<longrightarrow> i_status r \<noteq> Queued)"

definition failed_ok :: "'p db \<Rightarrow> bool" where
  "failed_ok d \<longleftrightarrow> (\<forall>w \<in> set (outbox d). o_status w = OFailed \<longrightarrow> closed_message d w)"

definition new_pending :: "'p db \<Rightarrow> 'p db \<Rightarrow> bool" where
  "new_pending d d' \<longleftrightarrow> (\<forall>w \<in> set (outbox d'). w \<in> set (outbox d) \<or> o_status w = OPending)"

lemma new_pending_same: "outbox d' = outbox d \<Longrightarrow> new_pending d d'"
  by (simp add: new_pending_def)

lemma new_pending_trans: "new_pending d e \<Longrightarrow> new_pending e f \<Longrightarrow> new_pending d f"
  unfolding new_pending_def by blast

lemma never_queued_again:
  assumes "db_ok d" "r \<in> set (intents d)" "i_status r \<noteq> Queued" "advanced r r'" shows "i_status r' \<noteq> Queued"
proof
  assume q: "i_status r' = Queued"
  obtain ts where w: "status_walk (i_status r) ts" "last (i_status r # ts) = i_status r'"
    using assms(4) unfolding advanced_def by blast
  have "i_status r \<noteq> Planned" "i_status r \<noteq> Reserved"
    using db_ok_row [OF assms(1,2)] by (simp_all add: intent_row_ok_def)
  then have "status_rank (i_status r) < status_rank Queued" using assms(3) by (cases "i_status r") auto
  moreover have "status_rank Queued \<le> status_rank (i_status r)"
    using status_walk_rank [OF w(1)] w(2) q by simp
  ultimately show False by simp
qed

lemma closed_message_step:
  assumes "closed_message d w" "w \<in> set (outbox d)" "db_ok d" "db_ok d'" "progress d d'"
  shows "closed_message d' w"
proof -
  obtain r where r: "r \<in> set (intents d)" "i_id r = o_intentId w"
    using assms(2,3) by (auto simp: db_ok_def outbox_part_def)
  then have nq: "i_status r \<noteq> Queued" using assms(1) by (simp add: closed_message_def)
  obtain r' where r': "r' \<in> set (intents d')" "advanced r r'" using assms(5) r(1) unfolding progress_def by blast
  have "i_id r' = i_id r" using r'(2) by (simp add: advanced_def same_terms_def same_intent_def)
  then have "x = r'" if "x \<in> set (intents d')" "i_id x = o_intentId w" for x
    using unique_ids_eq [OF db_ok_unique [OF assms(4)] that(1) r'(1)] that(2) r(2) by simp
  then show ?thesis
    using assms(1) never_queued_again [OF assms(3) r(1) nq r'(2)] unfolding closed_message_def by blast
qed

lemma failed_ok_step:
  assumes "failed_ok d" "db_ok d" "db_ok d'" "new_pending d d'" "progress d d'"
  shows "failed_ok d'"
  unfolding failed_ok_def
proof (intro ballI impI)
  fix w assume w: "w \<in> set (outbox d')" "o_status w = OFailed"
  then have old: "w \<in> set (outbox d)" using assms(4) by (auto simp: new_pending_def)
  then show "closed_message d' w" using assms(1) w(2) closed_message_step [OF _ old assms(2,3,5)] by (simp add: failed_ok_def)
qed

text \<open>Only the creation and an unknown outcome write the outbox, and what they write is pending.\<close>

lemma transition_outbox: "transition_intent iid a b ex patch whr d = Inr (x, d1) \<Longrightarrow> outbox d1 = outbox d"
  by (auto simp: transition_intent_def Let_def split: if_splits option.splits)

lemma tokens_outbox:
  "release_tokens u i n d = Inr d1 \<Longrightarrow> outbox d1 = outbox d" "consume_tokens u i n d = Inr d1 \<Longrightarrow> outbox d1 = outbox d"
  by (auto simp: release_tokens_def consume_tokens_def insert_ledger_def Let_def split: if_splits sum.splits)

lemma insert_trade_outbox: "insert_trade r trade vals d = Inr d1 \<Longrightarrow> outbox d1 = outbox d"
  by (auto simp: insert_trade_def Let_def split: option.splits if_splits)

lemma accept_outbox: "mark_intent_accepted iid v a tr trade d = Inr (x, d1) \<Longrightarrow> outbox d1 = outbox d"
  by (auto simp: mark_intent_accepted_def dest!: transition_outbox insert_trade_outbox split: option.splits sum.splits)

lemma settle_outbox: "settle_intent iid ex a trade d = Inr (x, d1) \<Longrightarrow> outbox d1 = outbox d"
  by (auto simp: settle_intent_def dest!: transition_outbox tokens_outbox insert_trade_outbox split: option.splits if_splits sum.splits)

lemma settle_closed_trade_outbox:
  assumes "settle_closed_trade accountId trade d = (res, d1)" shows "outbox d1 = outbox d"
proof -
  have "d1 = d \<or> (\<exists>iid x. settle_intent iid None Accepted trade d = Inr (x, d1))"
    using assms by (auto simp: settle_closed_trade_def run_transaction_def split: sum.splits option.splits prod.splits)
  then show ?thesis using settle_outbox by blast
qed

lemma intent_ops_outbox:
  "take_intent iid v ms d = Inr (x, d1) \<Longrightarrow> outbox d1 = outbox d"
  "start_reconciling iid v d = Inr (x, d1) \<Longrightarrow> outbox d1 = outbox d"
  "reject_intent iid a ex reason whr d = Inr (x, d1) \<Longrightarrow> outbox d1 = outbox d"
  "conclude_reconciled iid v trade d = Inr (x, d1) \<Longrightarrow> outbox d1 = outbox d"
  "halt_account_for_manual_review iid v review d = Inr (x, d1) \<Longrightarrow> outbox d1 = outbox d"
  by (auto simp: take_intent_def start_reconciling_def reject_intent_def
      conclude_reconciled_def halt_account_for_manual_review_def mark_intent_manual_review_def
      dest!: transition_outbox tokens_outbox accept_outbox settle_outbox split: option.splits sum.splits if_splits)

lemma unknown_new_pending: "mark_intent_unknown iid reason ex older d = Inr (x, d1) \<Longrightarrow> new_pending d d1"
  by (auto simp: mark_intent_unknown_def insert_outbox_once_def insert_outbox_def new_pending_def
      dest!: transition_outbox split: option.splits sum.splits if_splits)

lemma operator_outbox:
  "adjust_tokens uid delta note ex d = Inr (adj, d1) \<Longrightarrow> outbox d1 = outbox d"
  "write_switch target d = Inr (sw, d1) \<Longrightarrow> outbox d1 = outbox d"
  "claim_reconciling iid ms d = (y, d1) \<Longrightarrow> outbox d1 = outbox d"
  by (auto simp: adjust_tokens_def insert_ledger_def write_switch_def audit_def claim_reconciling_def Let_def
      split: sum.splits option.splits if_splits)

lemma create_new_pending:
  assumes "db_ok d" "progress seen d" "db_ok seen" "create_trade_intent seen input session opts d = (res, d')"
  shows "new_pending d d'"
  using create_trade_intent_cases [OF assms(1) progress_grows [OF assms(2)] assms(3), of input session opts] assms(4)
  by (auto simp: created_in_def queued_state_def reserve_token_def new_pending_def)

lemma reject_intent_leaves:
  assumes ok: "db_ok d" and t: "reject_intent iid Queued None reason (\<lambda>_. True) d = Inr (x, d')"
    and r: "r \<in> set (intents d')" "i_id r = iid"
  shows "i_status r \<noteq> Queued"
  using reject_intent_cases [OF ok can_transition_simps(3) [THEN iffD2, OF disjI2, OF refl], of iid None reason "\<lambda>_. True"]
proof (elim disjE exE conjE)
  assume "reject_intent iid Queued None reason (\<lambda>_. True) d = Inr (None, d)" "\<forall>r \<in> set (intents d). \<not> cas_matches iid Queued None (\<lambda>_. True) r"
  then show ?thesis using t r by (auto simp: cas_matches_def)
next
  fix r0 ns row
  assume c: "r0 \<in> set (intents d)" "cas_matches iid Queued None (\<lambda>_. True) r0"
    "row = moved_to Rejected (now d) (\<lambda>r. r\<lparr>i_lastError := Some reason, i_tokensReserved := 0\<rparr>) r0"
    "reject_intent iid Queued None reason (\<lambda>_. True) d = Inr (Some row, finished r0 row LRelease 0 ns d)"
  have id: "i_id row = i_id r0" using c(3) by (simp add: moved_to_def)
  have row: "row \<in> set (intents d')" using c(4) t set_put [OF db_ok_unique [OF ok] c(1) id] by (simp add: finished_def)
  have "r = row"
    using unique_ids_eq [OF db_ok_unique [OF reject_intent_ok [OF ok t]] r(1) row] id r(2) c(2) by (simp add: cas_matches_def)
  then show ?thesis using c(3) by (simp add: moved_to_def)
qed

lemma outbox_change_failed_ok:
  assumes "outbox_change d d'" "db_ok d" "failed_ok d" shows "failed_ok d'"
  using outbox_change_cases [OF assms(1)]
proof (elim disjE exE conjE)
  assume "d' = d" then show ?thesis using assms(3) by simp
next
  fix row assume d': "d' = mark_published (o_id row) d"
  show ?thesis using assms(3) unfolding d' mark_published_def failed_ok_def closed_message_def
    by (auto simp: set_sql_update split: if_splits)
next
  fix row cfg b
  assume row: "row \<in> set (outbox d)" and t: "record_delivery_failure row (policy_for cfg (o_topic row)) d = Inr (b, d')"
  from record_delivery_failure_cases [OF t] obtain f where
    f: "\<And>w. same_message w (f w) \<and> o_status (f w) = (if b then OFailed else OPending)"
    and c: "if b \<and> policy_reject (policy_for cfg (o_topic row))
       then \<exists>x. reject_intent (o_intentId row) Queued None PublishFailed (\<lambda>_. True) (set_outbox (o_id row) f d) = Inr (x, d')
       else d' = set_outbox (o_id row) f d"
    and b: "b = (\<exists>n. policy_maxAttempts (policy_for cfg (o_topic row)) = Some n \<and> n \<le> o_attempts row + 1)" by blast
  let ?d1 = "set_outbox (o_id row) f d"
  have ok1: "db_ok ?d1" using f by (intro set_outbox_ok [OF assms(2)]) simp
  have old: "w \<in> set (outbox d) \<and> w \<noteq> row \<or> o_id w = o_id row \<and> o_intentId w = o_intentId row \<and> o_topic w = o_topic row \<and> b"
    if wx: "w \<in> set (outbox ?d1)" "o_status w = OFailed" for w
  proof -
    obtain v where v: "v \<in> set (outbox d)" "w = (if o_id v = o_id row then f v else v)"
      using wx(1) by (auto simp: sql_update_def)
    show ?thesis
    proof (cases "o_id v = o_id row")
      case True
      have "unique_on (\<lambda>r. Some (o_id r)) (outbox d)" using assms(2) by (simp add: db_ok_def outbox_part_def)
      then have "v = row" using True v(1) row by (intro unique_on_same [where key = "\<lambda>r. Some (o_id r)" and k = "o_id row"]) auto
      then show ?thesis using v True f [of v] wx(2) by (auto simp: same_message_def split: if_splits)
    next
      case False
      then show ?thesis using v by auto
    qed
  qed
  show ?thesis
  proof (cases b)
    case False
    then have "d' = ?d1" using c by simp
    then show ?thesis using old assms(3) False unfolding failed_ok_def closed_message_def by (simp only: set_outbox_simps) blast
  next
    case True
    then have top: "o_topic row = TradingIntents" using b by (simp add: policy_for_def split: if_splits)
    then obtain x where rj: "reject_intent (o_intentId row) Queued None PublishFailed (\<lambda>_. True) ?d1 = Inr (x, d')"
      using c True by (auto simp: policy_for_def)
    have gone: "i_status r \<noteq> Queued" if "r \<in> set (intents d')" "i_id r = o_intentId row" for r
      using reject_intent_leaves [OF ok1 rj that] .
    have ok': "db_ok d'" and pr: "progress d d'" using outbox_change_facts [OF assms(1,2)] by (simp_all add: outbox_facts_def)
    have "closed_message d' w" if w: "w \<in> set (outbox d')" "o_status w = OFailed" for w
    proof -
      have "w \<in> set (outbox ?d1)" using w(1) intent_ops_outbox(3) [OF rj] by simp
      from old [OF this w(2)] show ?thesis
      proof
        assume o: "w \<in> set (outbox d) \<and> w \<noteq> row"
        then have "closed_message d w" using assms(3) w(2) by (simp add: failed_ok_def)
        then show ?thesis using o closed_message_step [OF _ _ assms(2) ok' pr] by blast
      next
        assume "o_id w = o_id row \<and> o_intentId w = o_intentId row \<and> o_topic w = o_topic row \<and> b"
        then show ?thesis using gone top by (simp add: closed_message_def)
      qed
    qed
    then show ?thesis by (simp add: failed_ok_def)
  qed
qed

end
