(* ===== verification/Treasury.thy ===== *)
theory Treasury
  imports Outbox
begin

text \<open>
  The ledger outside the trades: the rows that refer to a Stars payment, an account's bonus or a
  referral, with the tables they refer to. Trading, the operators, the sessions and the outbox leave all of it as it is and never
  take an identifier back.
\<close>

definition refers :: "ledger_row \<Rightarrow> bool" where
  "refers l \<longleftrightarrow> l_accountId l \<noteq> None \<or> l_starPaymentId l \<noteq> None \<or> l_referralId l \<noteq> None"

definition same_treasury :: "'p db \<Rightarrow> 'p db \<Rightarrow> bool" where
  "same_treasury d d' \<longleftrightarrow>
     star_payments d' = star_payments d \<and> refund_requests d' = refund_requests d \<and> bonus_rules d' = bonus_rules d
     \<and> referrals d' = referrals d \<and> referral_codes d' = referral_codes d \<and> deposits d' = deposits d
     \<and> deliveries d' = deliveries d
     \<and> filter refers (token_ledger d') = filter refers (token_ledger d) \<and> next_id d \<le> next_id d'"

lemma same_treasury_refl [simp]: "same_treasury d d"
  by (simp add: same_treasury_def)

lemma same_treasury_trans: "same_treasury d e \<Longrightarrow> same_treasury e f \<Longrightarrow> same_treasury d f"
  by (simp add: same_treasury_def)

text \<open>The part the Stars payments rest on.\<close>

definition same_stars :: "'p db \<Rightarrow> 'p db \<Rightarrow> bool" where
  "same_stars d d' \<longleftrightarrow> star_payments d' = star_payments d \<and> refund_requests d' = refund_requests d
     \<and> filter (\<lambda>l. l_starPaymentId l \<noteq> None) (token_ledger d') = filter (\<lambda>l. l_starPaymentId l \<noteq> None) (token_ledger d)
     \<and> next_id d \<le> next_id d'"

lemma same_stars_refl [simp]: "same_stars d d"
  by (simp add: same_stars_def)

lemma same_stars_trans: "same_stars d e \<Longrightarrow> same_stars e f \<Longrightarrow> same_stars d f"
  by (simp add: same_stars_def)

lemma filter_filter_eq:
  assumes "filter p xs = filter p ys" "\<And>x. q x \<Longrightarrow> p x" shows "filter q xs = filter q ys"
proof -
  have "filter q zs = filter q (filter p zs)" for zs using assms(2) by (induction zs) auto
  then show ?thesis using assms(1) by metis
qed

lemma same_treasury_stars: "same_treasury d d' \<Longrightarrow> same_stars d d'"
  unfolding same_treasury_def same_stars_def
  by (intro conjI) (auto elim!: filter_filter_eq simp: refers_def)

lemma transition_treasury: "transition_intent iid a b ex patch whr d = Inr (x, d1) \<Longrightarrow> same_treasury d d1"
  by (auto simp: same_treasury_def transition_intent_def Let_def split: if_splits option.splits)

lemma tokens_treasury:
  "release_tokens u i n d = Inr d1 \<Longrightarrow> same_treasury d d1" "consume_tokens u i n d = Inr d1 \<Longrightarrow> same_treasury d d1"
  by (auto simp: same_treasury_def refers_def release_tokens_def consume_tokens_def insert_ledger_def Let_def
      split: if_splits sum.splits)

lemma insert_trade_treasury: "insert_trade r trade vals d = Inr d1 \<Longrightarrow> same_treasury d d1"
  by (auto simp: same_treasury_def insert_trade_def Let_def split: option.splits if_splits)

lemma accept_treasury: "mark_intent_accepted iid v a tr trade d = Inr (x, d1) \<Longrightarrow> same_treasury d d1"
  by (auto simp: mark_intent_accepted_def dest!: transition_treasury insert_trade_treasury
      intro: same_treasury_trans split: option.splits sum.splits)

lemma settle_treasury: "settle_intent iid ex a trade d = Inr (x, d1) \<Longrightarrow> same_treasury d d1"
  by (auto simp: settle_intent_def dest!: transition_treasury tokens_treasury insert_trade_treasury
      intro: same_treasury_trans split: option.splits if_splits sum.splits)
    (auto simp: same_treasury_def)

lemma settle_closed_trade_treasury:
  assumes "settle_closed_trade accountId trade d = (res, d1)" shows "same_treasury d d1"
proof -
  have "d1 = d \<or> (\<exists>iid x. settle_intent iid None Accepted trade d = Inr (x, d1))"
    using assms by (auto simp: settle_closed_trade_def run_transaction_def split: sum.splits option.splits prod.splits)
  then show ?thesis using settle_treasury by auto
qed

lemma intent_ops_treasury:
  "take_intent iid v ms d = Inr (x, d1) \<Longrightarrow> same_treasury d d1"
  "start_reconciling iid v d = Inr (x, d1) \<Longrightarrow> same_treasury d d1"
  "reject_intent iid a ex reason whr d = Inr (x, d1) \<Longrightarrow> same_treasury d d1"
  "conclude_reconciled iid v trade d = Inr (x, d1) \<Longrightarrow> same_treasury d d1"
  "halt_account_for_manual_review iid v review d = Inr (x, d1) \<Longrightarrow> same_treasury d d1"
  "mark_intent_unknown iid reason ex older d = Inr (x, d1) \<Longrightarrow> same_treasury d d1"
proof -
  show "take_intent iid v ms d = Inr (x, d1) \<Longrightarrow> same_treasury d d1"
    "start_reconciling iid v d = Inr (x, d1) \<Longrightarrow> same_treasury d d1"
    by (simp_all add: take_intent_def start_reconciling_def transition_treasury)
  show "reject_intent iid a ex reason whr d = Inr (x, d1) \<Longrightarrow> same_treasury d d1"
    by (auto simp: reject_intent_def dest!: transition_treasury tokens_treasury intro: same_treasury_trans
        split: option.splits sum.splits if_splits)
  show "conclude_reconciled iid v trade d = Inr (x, d1) \<Longrightarrow> same_treasury d d1"
    by (auto simp: conclude_reconciled_def dest!: accept_treasury settle_treasury split: option.splits sum.splits if_splits)
      (blast intro: same_treasury_trans)
  show "halt_account_for_manual_review iid v review d = Inr (x, d1) \<Longrightarrow> same_treasury d d1"
    by (auto simp: halt_account_for_manual_review_def mark_intent_manual_review_def same_treasury_def
        dest!: transition_treasury split: option.splits sum.splits)
  show "mark_intent_unknown iid reason ex older d = Inr (x, d1) \<Longrightarrow> same_treasury d d1"
    by (auto simp: mark_intent_unknown_def insert_outbox_once_def insert_outbox_def same_treasury_def
        dest!: transition_treasury split: option.splits sum.splits if_splits)
qed

lemma operator_treasury:
  "adjust_tokens uid delta note ex d = Inr (adj, d1) \<Longrightarrow> same_treasury d d1"
  "write_switch target d = Inr (sw, d1) \<Longrightarrow> same_treasury d d1"
  "claim_reconciling iid ms d = (y, d1) \<Longrightarrow> same_treasury d d1"
  by (auto simp: same_treasury_def refers_def adjust_tokens_def insert_ledger_def write_switch_def audit_def
      claim_reconciling_def Let_def split: sum.splits option.splits if_splits)

lemma only_sessions_treasury: "only_sessions d d' \<Longrightarrow> same_treasury d d'"
proof -
  assume "only_sessions d d'"
  then have eq: "d' = d\<lparr>sessions := sessions d'\<rparr>" by (simp only: only_sessions_def)
  show ?thesis by (subst eq) (simp add: same_treasury_def)
qed

lemma outbox_change_treasury:
  assumes "outbox_change d d'" shows "same_treasury d d'"
  using outbox_change_cases [OF assms]
proof (elim disjE exE conjE)
  assume "d' = d" then show ?thesis by simp
next
  fix row assume "d' = mark_published (o_id row) d"
  then show ?thesis by (simp add: same_treasury_def mark_published_def set_outbox_def)
next
  fix row cfg b assume "record_delivery_failure row (policy_for cfg (o_topic row)) d = Inr (b, d')"
  then show ?thesis
    by (auto simp: record_delivery_failure_def Let_def set_outbox_def same_treasury_def
        dest!: intent_ops_treasury(3) split: if_splits sum.splits prod.splits)
qed

lemma create_treasury:
  assumes "db_ok d" "progress seen d" "db_ok seen" "create_trade_intent seen input session opts d = (res, d')"
  shows "same_treasury d d'"
  using create_trade_intent_cases [OF assms(1) progress_grows [OF assms(2)] assms(3), of input session opts] assms(4)
  by (auto simp: created_in_def queued_state_def reserve_token_def same_treasury_def refers_def)

lemma create_trading_session_treasury:
  assumes "db_ok d" "create_trading_session seen input demoOnly d = (res, d1)"
  shows "same_treasury d d1"
  using create_trading_session_cases [OF assms] by (auto simp: same_treasury_def)

section \<open>A balance moved beside the trades\<close>

lemma balance_moved_simps [simp]:
  "token_ledger (balance_moved l d) = token_ledger d @ [l]" "intents (balance_moved l d) = intents d"
  "accounts (balance_moved l d) = accounts d" "sessions (balance_moved l d) = sessions d" "trades (balance_moved l d) = trades d"
  "outbox (balance_moved l d) = outbox d" "star_payments (balance_moved l d) = star_payments d"
  "refund_requests (balance_moved l d) = refund_requests d" "bonus_rules (balance_moved l d) = bonus_rules d"
  "referrals (balance_moved l d) = referrals d" "referral_codes (balance_moved l d) = referral_codes d"
  "deposits (balance_moved l d) = deposits d" "deliveries (balance_moved l d) = deliveries d" "next_id (balance_moved l d) = next_id d" "now (balance_moved l d) = now d"
  "audit_log (balance_moved l d) = audit_log d"
  by (simp_all add: balance_moved_def)

lemma db_ok_frame [simp]:
  "db_ok (d\<lparr>star_payments := ps\<rparr>) = db_ok d" "db_ok (d\<lparr>refund_requests := rs\<rparr>) = db_ok d"
  "db_ok (d\<lparr>bonus_rules := bs\<rparr>) = db_ok d" "db_ok (d\<lparr>deposits := ds\<rparr>) = db_ok d"
  "db_ok (d\<lparr>deliveries := dl\<rparr>) = db_ok d"
  "db_ok (d\<lparr>referrals := fs\<rparr>) = db_ok d" "db_ok (d\<lparr>referral_codes := cs\<rparr>) = db_ok d"
  "db_ok (d\<lparr>audit_log := al\<rparr>) = db_ok d"
  by (simp_all add: db_ok_def)

lemma db_ok_next: "db_ok d \<Longrightarrow> next_id d \<le> n \<Longrightarrow> db_ok (d\<lparr>next_id := n\<rparr>)"
  using intents_part_mono [of "users d" "accounts d" "sessions d" "intents d" "next_id d" n]
    sessions_part_mono [of "accounts d" "sessions d" "next_id d" n] trades_part_mono [of "intents d" "trades d" "next_id d" n]
    outbox_part_mono [of "intents d" "outbox d" "next_id d" n] people_part_mono [of _ _ _ "next_id d" n]
  by (simp add: db_ok_def)

text \<open>What the platform's order asks of a change that leaves trades, sessions and the outbox alone.\<close>

definition beside_trades :: "'p db \<Rightarrow> 'p db \<Rightarrow> bool" where
  "beside_trades d d' \<longleftrightarrow> db_ok d' \<and> progress d d' \<and> trades d' = trades d \<and> sessions d' = sessions d
     \<and> outbox d' = outbox d \<and> intents d' = intents d"

lemma beside_tradesI:
  assumes "db_ok d'" "accounts d' = accounts d" "intents d' = intents d" "trades d' = trades d" "sessions d' = sessions d"
    "outbox d' = outbox d" "users d' = sql_update p f (users d)"
    "\<And>u. u_id (f u) = u_id u \<and> u_telegramUserId (f u) = u_telegramUserId u"
  shows "beside_trades d d'"
  using assms unfolding beside_trades_def by (auto intro!: progress_users [where p = p and f = f])

lemma beside_trades_refl: "db_ok d \<Longrightarrow> beside_trades d d"
  by (simp add: beside_trades_def)

end
