(* ===== verification/Stars_Safe.thy ===== *)
theory Stars_Safe
  imports Stars Treasury
begin

text \<open>
  The Stars payments against the ledger: what each payment's rows are by its status, that every
  operation keeps it together with the trading tables' invariant, and how each operation can end.
\<close>

section \<open>The payments and their rows\<close>

definition star_rows :: "nat \<Rightarrow> ledger_row list \<Rightarrow> (ledger_kind \<times> int \<times> nat) list" where
  "star_rows pid led = map (\<lambda>l. (l_kind l, l_balanceDelta l, l_userId l)) (filter (\<lambda>l. l_starPaymentId l = Some pid) led)"

definition payment_ok :: "star_payment_row \<Rightarrow> (ledger_kind \<times> int \<times> nat) list \<Rightarrow> bool" where
  "payment_ok p rows \<longleftrightarrow>
     (case sp_status p of
        StarPaid \<Rightarrow> (\<exists>t. sp_tokens p = Some t \<and> 0 < t \<and> rows = [(LPurchase, t, sp_userId p)])
      | StarHeld \<Rightarrow> rows = []
      | StarRefunded \<Rightarrow> rows = []
          \<or> (\<exists>t. sp_tokens p = Some t \<and> 0 < t \<and> rows = [(LPurchase, t, sp_userId p)])
          \<or> (\<exists>t x. sp_tokens p = Some t \<and> 0 < x \<and> x \<le> t \<and> rows = [(LPurchase, t, sp_userId p), (LRefund, - x, sp_userId p)]))
     \<and> (sp_status p = StarRefunded) = (sp_refundedAt p \<noteq> None)"

definition stars_ok :: "'p db \<Rightarrow> bool" where
  "stars_ok d \<longleftrightarrow>
     unique_on (\<lambda>p. Some (sp_id p)) (star_payments d) \<and> unique_on (\<lambda>p. Some (sp_chargeId p)) (star_payments d)
     \<and> (\<forall>p \<in> set (star_payments d). sp_id p < next_id d \<and> (\<exists>u \<in> set (users d). u_id u = sp_userId p)
          \<and> payment_ok p (star_rows (sp_id p) (token_ledger d)))
     \<and> (\<forall>l \<in> set (token_ledger d). \<forall>pid. l_starPaymentId l = Some pid \<longrightarrow> (\<exists>p \<in> set (star_payments d). sp_id p = pid))"

lemma star_rows_refers: "star_rows pid led = star_rows pid (filter (\<lambda>l. l_starPaymentId l \<noteq> None) led)"
  by (auto simp: star_rows_def intro!: arg_cong [where f = "map _"] filter_cong)

lemma star_rows_append [simp]:
  "star_rows pid (led @ [l]) = star_rows pid led @ (if l_starPaymentId l = Some pid then [(l_kind l, l_balanceDelta l, l_userId l)] else [])"
  by (simp add: star_rows_def)

lemma stars_ok_same:
  assumes "stars_ok d" "same_stars d d'" "progress d d'" shows "stars_ok d'"
proof -
  let ?star = "\<lambda>l. l_starPaymentId l \<noteq> None"
  have led: "filter ?star (token_ledger d') = filter ?star (token_ledger d)" and ps: "star_payments d' = star_payments d"
    and nid: "next_id d \<le> next_id d'" using assms(2) by (simp_all add: same_stars_def)
  have rows: "star_rows pid (token_ledger d') = star_rows pid (token_ledger d)" for pid
    using led star_rows_refers by metis
  have "l \<in> set (token_ledger d)" if "l \<in> set (token_ledger d')" "l_starPaymentId l = Some pid" for l pid
  proof -
    have "l \<in> set (filter ?star (token_ledger d'))" using that by simp
    then show ?thesis unfolding led by simp
  qed
  moreover have "\<exists>u' \<in> set (users d'). u_id u' = k" if "\<exists>u \<in> set (users d). u_id u = k" for k
    using assms(3) that unfolding progress_def by metis
  ultimately show ?thesis
    using assms(1) nid unfolding stars_ok_def ps rows by (meson less_le_trans)
qed

text \<open>A payment along time: it keeps its terms, and its status moves only to \<open>refunded\<close>.\<close>

definition payment_after :: "star_payment_row \<Rightarrow> star_payment_row \<Rightarrow> bool" where
  "payment_after p q \<longleftrightarrow> sp_id q = sp_id p \<and> sp_chargeId q = sp_chargeId p \<and> sp_userId q = sp_userId p \<and> sp_tokens q = sp_tokens p
     \<and> sp_payer q = sp_payer p \<and> (sp_status q = sp_status p \<or> sp_status q = StarRefunded)
     \<and> (sp_status p = StarRefunded \<longrightarrow> q = p)"

definition keeps_payments :: "'p db \<Rightarrow> 'p db \<Rightarrow> bool" where
  "keeps_payments d d' \<longleftrightarrow> (\<forall>p \<in> set (star_payments d). \<exists>q \<in> set (star_payments d'). payment_after p q)"

lemma payment_after_refl [simp]: "payment_after p p"
  by (simp add: payment_after_def)

lemma keeps_payments_same: "star_payments d' = star_payments d \<Longrightarrow> keeps_payments d d'"
  unfolding keeps_payments_def using payment_after_refl by metis

lemma keeps_payments_append: "star_payments d' = star_payments d @ ps \<Longrightarrow> keeps_payments d d'"
  unfolding keeps_payments_def using payment_after_refl by (metis Un_iff set_append)

lemma payment_after_trans: "payment_after p q \<Longrightarrow> payment_after q r \<Longrightarrow> payment_after p r"
  unfolding payment_after_def by auto

lemma keeps_payments_trans: "keeps_payments d e \<Longrightarrow> keeps_payments e f \<Longrightarrow> keeps_payments d f"
  unfolding keeps_payments_def using payment_after_trans by blast

lemma payment_by_charge:
  assumes "stars_ok d" "p \<in> set (star_payments d)" "q \<in> set (star_payments d)" "sp_chargeId p = sp_chargeId q" shows "p = q"
  using assms unique_on_same [of "\<lambda>p. Some (sp_chargeId p)" "star_payments d" p q] by (simp add: stars_ok_def)

lemma payment_by_id:
  assumes "stars_ok d" "p \<in> set (star_payments d)" "q \<in> set (star_payments d)" "sp_id p = sp_id q" shows "p = q"
  using assms unique_on_same [of "\<lambda>p. Some (sp_id p)" "star_payments d" p q] by (simp add: stars_ok_def)

section \<open>The credit\<close>

definition recorded_in :: "star_payment_row \<Rightarrow> audit_row \<Rightarrow> 'p db \<Rightarrow> 'p db" where
  "recorded_in p entry d = d\<lparr>star_payments := star_payments d @ [p], next_id := next_id d + 1, audit_log := audit_log d @ [entry]\<rparr>"

lemma credit_star_payment_cases:
  assumes "credit_star_payment payment d = Inr (c, d')"
  shows "(c = StarsUserUnknown \<and> d' = d)
    \<or> (\<exists>u \<in> set (users d). \<exists>q \<in> set (star_payments d). u_id u = pi_userId payment \<and> sp_chargeId q = pi_chargeId payment
         \<and> c = StarsAlreadyRecorded (sp_id q) (sp_status q) (sp_tokens q) (u_tokenBalance u) \<and> d' = d)
    \<or> (\<exists>u \<in> set (users d). \<exists>v p. u_id u = pi_userId payment \<and> v = verdict_of payment (u_telegramUserId u)
         \<and> p = new_star_payment payment v d \<and> star_payment_checks p \<and> (\<forall>q \<in> set (star_payments d). sp_chargeId q \<noteq> sp_chargeId p)
         \<and> ((\<exists>r ts. v = HoldVerdict r ts \<and> c = StarsHeld (sp_id p) r
               \<and> d' = recorded_in p (AuditStarsHeld (sp_id p) (pi_totalAmount payment)) d)
          \<or> (\<exists>t. v = CreditVerdict t \<and> c = StarsCredited (sp_id p) t (u_tokenBalance u + t)
               \<and> d' = recorded_in p (AuditStarsPurchased (sp_id p) t (pi_totalAmount payment))
                        (balance_moved (star_ledger_row p LPurchase t (now d)) d))))"
proof (cases "sql_first (\<lambda>u. u_id u = pi_userId payment) (users d)")
  case None
  then show ?thesis using assms by (simp add: credit_star_payment_def)
next
  case (Some u)
  have u: "u \<in> set (users d) \<and> u_id u = pi_userId payment" by (rule sql_first_Some [OF Some])
  let ?v = "verdict_of payment (u_telegramUserId u)"
  let ?p = "new_star_payment payment ?v d"
  have chk: "star_payment_checks ?p" using assms Some by (auto simp: credit_star_payment_def Let_def split: if_splits)
  show ?thesis
  proof (cases "sql_first (\<lambda>q. sp_chargeId q = pi_chargeId payment) (star_payments d)")
    case Found: (Some q)
    have "q \<in> set (star_payments d) \<and> sp_chargeId q = pi_chargeId payment" by (rule sql_first_Some [OF Found])
    then show ?thesis using assms Some chk Found u by (auto simp: credit_star_payment_def Let_def)
  next
    case New: None
    then have new: "\<forall>q \<in> set (star_payments d). sp_chargeId q \<noteq> sp_chargeId ?p"
      by (auto simp: sql_first_None_iff list_ex_iff new_star_payment_def)
    have fields: "sp_id ?p = next_id d" "sp_userId ?p = pi_userId payment" by (simp_all add: new_star_payment_def)
    show ?thesis
    proof (cases ?v)
      case (HoldVerdict r ts)
      then have "c = StarsHeld (sp_id ?p) r \<and> d' = recorded_in ?p (AuditStarsHeld (sp_id ?p) (pi_totalAmount payment)) d"
        using assms Some chk New by (auto simp: credit_star_payment_def Let_def recorded_in_def)
      then show ?thesis using u chk new HoldVerdict by blast
    next
      case (CreditVerdict t)
      then have "c = StarsCredited (sp_id ?p) t (u_tokenBalance u + t)
          \<and> d' = recorded_in ?p (AuditStarsPurchased (sp_id ?p) t (pi_totalAmount payment))
                   (balance_moved (star_ledger_row ?p LPurchase t (now d)) d)"
        using assms Some chk New fields
        by (auto simp: credit_star_payment_def Let_def recorded_in_def insert_ledger_def add_balance_def balance_moved_def
            star_ledger_row_def split: sum.splits if_splits)
      then show ?thesis using u chk new CreditVerdict by blast
    qed
  qed
qed

lemma recorded_in_simps [simp]:
  "star_payments (recorded_in p e d) = star_payments d @ [p]" "token_ledger (recorded_in p e d) = token_ledger d"
  "next_id (recorded_in p e d) = next_id d + 1" "users (recorded_in p e d) = users d" "accounts (recorded_in p e d) = accounts d"
  "intents (recorded_in p e d) = intents d" "sessions (recorded_in p e d) = sessions d" "trades (recorded_in p e d) = trades d"
  "outbox (recorded_in p e d) = outbox d" "bonus_rules (recorded_in p e d) = bonus_rules d" "deposits (recorded_in p e d) = deposits d"
  "referrals (recorded_in p e d) = referrals d" "referral_codes (recorded_in p e d) = referral_codes d"
  by (simp_all add: recorded_in_def)

lemma recorded_in_ok: "db_ok d \<Longrightarrow> db_ok (recorded_in p e d)"
  unfolding recorded_in_def db_ok_frame(7) by (simp add: db_ok_def part_Suc)

text \<open>No ledger row names a payment that is not there, so a new payment has none.\<close>

lemma no_star_rows:
  assumes "stars_ok d" "next_id d \<le> pid" shows "star_rows pid (token_ledger d) = []"
proof -
  have "l_starPaymentId l \<noteq> Some pid" if "l \<in> set (token_ledger d)" for l
    using assms that unfolding stars_ok_def by (metis leD)
  then show ?thesis by (auto simp: star_rows_def filter_empty_conv)
qed

lemma stars_ok_recorded:
  assumes ok: "stars_ok d" and p: "sp_id p = next_id d" "\<forall>q \<in> set (star_payments d). sp_chargeId q \<noteq> sp_chargeId p"
    and u: "u \<in> set (users d)" "u_id u = sp_userId p"
    and led: "token_ledger d1 = token_ledger d @ ls" "\<forall>l \<in> set ls. l_starPaymentId l = Some (sp_id p)"
    and rows: "payment_ok p (map (\<lambda>l. (l_kind l, l_balanceDelta l, l_userId l)) ls)"
    and same: "star_payments d1 = star_payments d" "next_id d1 = next_id d" "map u_id (users d1) = map u_id (users d)"
  shows "stars_ok (recorded_in p e d1)"
proof -
  have rows_d1: "star_rows pid (token_ledger d1) = star_rows pid (token_ledger d)
      @ (if pid = sp_id p then map (\<lambda>l. (l_kind l, l_balanceDelta l, l_userId l)) ls else [])" for pid
    using led by (auto simp: star_rows_def filter_empty_conv intro!: arg_cong [where f = "map _"] filter_True)
  have ids: "set (map u_id (users d1)) = set (map u_id (users d))" using same(3) by simp
  have user: "(\<exists>u \<in> set (users d1). u_id u = k) = (\<exists>u \<in> set (users d). u_id u = k)" for k
    using ids by (simp add: set_eq_iff image_iff) metis
  have new: "payment_ok p (star_rows (sp_id p) (token_ledger d1))"
    using rows no_star_rows [OF ok, of "sp_id p"] p(1) by (simp add: rows_d1)
  have old: "sp_id q < next_id d \<and> (\<exists>u \<in> set (users d1). u_id u = sp_userId q) \<and> payment_ok q (star_rows (sp_id q) (token_ledger d1))"
    if "q \<in> set (star_payments d)" for q
    using ok that p(1) unfolding user by (auto simp: stars_ok_def rows_d1)
  have "unique_on (\<lambda>p. Some (sp_id p)) (star_payments d @ [p])" "unique_on (\<lambda>p. Some (sp_chargeId p)) (star_payments d @ [p])"
    using ok p by (auto simp: stars_ok_def unique_on_snoc key_conflict_iff)
  moreover have "\<exists>q \<in> set (star_payments d @ [p]). sp_id q = pid" if "l \<in> set (token_ledger d1)" "l_starPaymentId l = Some pid" for l pid
    using ok led that unfolding stars_ok_def by (cases "l \<in> set ls") auto
  moreover have "\<exists>u \<in> set (users d1). u_id u = sp_userId p" using u unfolding user by blast
  ultimately show ?thesis
    using old new p(1) same(1,2) by (auto simp: stars_ok_def less_Suc_eq)
qed

lemma verdict_checks: "star_payment_checks (new_star_payment payment v d) \<Longrightarrow> v = CreditVerdict t \<Longrightarrow> 0 < t"
  by (simp add: star_payment_checks_def new_star_payment_def)

lemma star_ledger_row_simps [simp]:
  "l_userId (star_ledger_row p k x t) = sp_userId p" "l_starPaymentId (star_ledger_row p k x t) = Some (sp_id p)"
  "l_kind (star_ledger_row p k x t) = k" "l_balanceDelta (star_ledger_row p k x t) = x"
  by (simp_all add: star_ledger_row_def)

lemma star_balance_row [simp]: "k = LPurchase \<or> k = LRefund \<Longrightarrow> balance_row (star_ledger_row p k x t)"
  by (auto simp: star_ledger_row_def balance_row_def)

lemma credit_beside:
  assumes t: "credit_star_payment payment d = Inr (c, d')" and ok: "db_ok d"
  shows "beside_trades d d'"
  using credit_star_payment_cases [OF t]
proof (elim disjE bexE exE conjE)
  fix u v p r ts
  assume d': "d' = recorded_in p (AuditStarsHeld (sp_id p) (pi_totalAmount payment)) d"
  show ?thesis unfolding d'
    by (rule beside_tradesI [where p = "\<lambda>_. False" and f = "\<lambda>u. u"]) (simp_all add: recorded_in_ok ok sql_update_def)
next
  fix u v p t
  assume u: "u \<in> set (users d)" "u_id u = pi_userId payment" and p: "p = new_star_payment payment v d" "star_payment_checks p"
    and v: "v = CreditVerdict t"
    and d': "d' = recorded_in p (AuditStarsPurchased (sp_id p) t (pi_totalAmount payment))
      (balance_moved (star_ledger_row p LPurchase t (now d)) d)"
  let ?l = "star_ledger_row p LPurchase t (now d)"
  have pos: "0 < t" using verdict_checks p v by blast
  have sp: "sp_userId p = pi_userId payment" using p(1) by (simp add: new_star_payment_def)
  have "u_tokenReserved u \<le> u_tokenBalance u" using ok u(1) by (simp add: db_ok_def users_part_def user_row_ok_def)
  then have "db_ok (balance_moved ?l d)" using u pos sp by (intro balance_moved_ok [OF ok _ u(1)]) simp_all
  then show ?thesis unfolding d' using sp
    by (intro beside_tradesI [where p = "\<lambda>u. u_id u = pi_userId payment" and f = "\<lambda>u. u\<lparr>u_tokenBalance := u_tokenBalance u + t\<rparr>"])
      (simp_all add: recorded_in_ok balance_moved_def)
qed (simp_all add: beside_trades_refl ok)

lemma credit_star_payment_ok:
  assumes t: "credit_star_payment payment d = Inr (c, d')" and ok: "stars_ok d"
  shows "stars_ok d' \<and> keeps_payments d d'"
  using credit_star_payment_cases [OF t]
proof (elim disjE bexE exE conjE)
  fix u v p r ts
  assume u: "u \<in> set (users d)" "u_id u = pi_userId payment" and p: "p = new_star_payment payment v d"
    and new: "\<forall>q \<in> set (star_payments d). sp_chargeId q \<noteq> sp_chargeId p"
    and v: "v = HoldVerdict r ts" and d': "d' = recorded_in p (AuditStarsHeld (sp_id p) (pi_totalAmount payment)) d"
  have f: "sp_id p = next_id d" "sp_userId p = pi_userId payment" "payment_ok p []"
    using p v by (simp_all add: new_star_payment_def payment_ok_def)
  have "stars_ok d'" unfolding d' using u f by (intro stars_ok_recorded [OF ok f(1) new u(1), where ls = "[]"]) simp_all
  then show ?thesis using d' by (simp add: keeps_payments_append)
next
  fix u v p t
  assume u: "u \<in> set (users d)" "u_id u = pi_userId payment" and p: "p = new_star_payment payment v d" "star_payment_checks p"
    and new: "\<forall>q \<in> set (star_payments d). sp_chargeId q \<noteq> sp_chargeId p" and v: "v = CreditVerdict t"
    and d': "d' = recorded_in p (AuditStarsPurchased (sp_id p) t (pi_totalAmount payment))
      (balance_moved (star_ledger_row p LPurchase t (now d)) d)"
  let ?l = "star_ledger_row p LPurchase t (now d)"
  have pos: "0 < t" using verdict_checks p v by blast
  have f: "sp_id p = next_id d" "sp_userId p = pi_userId payment" "payment_ok p [(LPurchase, t, sp_userId p)]"
    using p v pos by (simp_all add: new_star_payment_def payment_ok_def)
  have "stars_ok d'" unfolding d' using u f
    by (intro stars_ok_recorded [OF ok f(1) new u(1), where ls = "[?l]"]) (simp_all add: balance_moved_def map_sql_update)
  then show ?thesis using d' by (simp add: keeps_payments_append)
qed (use ok in \<open>simp_all add: keeps_payments_same\<close>)

section \<open>The refund\<close>

definition star_credited :: "star_payment_row \<Rightarrow> int" where
  "star_credited p = (if sp_status p = StarPaid then (case sp_tokens p of None \<Rightarrow> 0 | Some t \<Rightarrow> t) else 0)"

definition star_taken :: "star_payment_row \<Rightarrow> user_row \<Rightarrow> int" where
  "star_taken p u = min (star_credited p) (u_tokenBalance u - u_tokenReserved u)"

definition refunded_in :: "star_payment_row \<Rightarrow> 'p db \<Rightarrow> 'p db" where
  "refunded_in p d = d\<lparr>star_payments := sql_update (\<lambda>q. sp_id q = sp_id p)
     (\<lambda>q. q\<lparr>sp_status := StarRefunded, sp_refundedAt := Some (now d)\<rparr>) (star_payments d)\<rparr>"

definition refund_state :: "star_payment_row \<Rightarrow> user_row \<Rightarrow> 'p db \<Rightarrow> 'p db" where
  "refund_state p u d = refunded_in p
     (if 0 < star_taken p u then balance_moved (star_ledger_row p LRefund (- star_taken p u) (now d)) d else d)"

definition refund_facts :: "star_payment_row \<Rightarrow> user_row \<Rightarrow> star_refund_facts" where
  "refund_facts p u = \<lparr>sr_paymentId = sp_id p, sr_fromStatus = sp_status p, sr_taken = star_taken p u,
     sr_notRecovered = star_credited p - star_taken p u,
     sr_balance = u_tokenBalance u - (if 0 < star_taken p u then star_taken p u else 0)\<rparr>"

lemma paid_rows:
  assumes "stars_ok d" "p \<in> set (star_payments d)" "sp_status p = StarPaid"
  obtains t where "sp_tokens p = Some t" "0 < t" "star_rows (sp_id p) (token_ledger d) = [(LPurchase, t, sp_userId p)]"
proof -
  have "payment_ok p (star_rows (sp_id p) (token_ledger d))" using assms(1,2) by (simp add: stars_ok_def)
  then show ?thesis using assms(3) that by (auto simp: payment_ok_def)
qed

lemma star_refund_key_free:
  assumes "stars_ok d" "p \<in> set (star_payments d)" "sp_status p = StarPaid"
  shows "\<not> key_conflict star_payment_key (star_ledger_row p LRefund x t) (token_ledger d)"
proof
  assume "key_conflict star_payment_key (star_ledger_row p LRefund x t) (token_ledger d)"
  then obtain l where l: "l \<in> set (token_ledger d)" "l_starPaymentId l = Some (sp_id p)" "l_kind l = LRefund"
    by (auto simp: key_conflict_iff star_payment_key_def star_ledger_row_def split: option.splits)
  obtain tk where "star_rows (sp_id p) (token_ledger d) = [(LPurchase, tk, sp_userId p)]" by (rule paid_rows [OF assms])
  moreover have "(LRefund, l_balanceDelta l, l_userId l) \<in> set (star_rows (sp_id p) (token_ledger d))"
    using l by (force simp: star_rows_def)
  ultimately show False by simp
qed

lemma record_star_refund_cases:
  assumes ok: "db_ok d" "stars_ok d"
  shows "(record_star_refund chargeId receiver d = Inr (RefundNotFound, d) \<and> (\<forall>p \<in> set (star_payments d). sp_chargeId p \<noteq> chargeId))
    \<or> (\<exists>p \<in> set (star_payments d). \<exists>u \<in> set (users d). sp_chargeId p = chargeId \<and> u_id u = sp_userId p
         \<and> ((sp_status p = StarRefunded \<and> record_star_refund chargeId receiver d
                = Inr (RefundAlreadyRecorded (sp_id p) (case sp_refundedAt p of None \<Rightarrow> 0 | Some t \<Rightarrow> t), d))
          \<or> (sp_status p \<noteq> StarRefunded \<and> receiver \<noteq> None \<and> receiver \<noteq> Some (sp_payer p)
                \<and> record_star_refund chargeId receiver d = Inr (ReceiverMismatch (sp_id p), d))
          \<or> (sp_status p \<noteq> StarRefunded \<and> (receiver = None \<or> receiver = Some (sp_payer p))
                \<and> record_star_refund chargeId receiver d = Inr (RefundRecorded (refund_facts p u), refund_state p u d))))"
proof (cases "sql_first (\<lambda>p. sp_chargeId p = chargeId) (star_payments d)")
  case None
  then have "\<forall>p \<in> set (star_payments d). sp_chargeId p \<noteq> chargeId" by (auto simp: sql_first_None_iff list_ex_iff)
  then show ?thesis using None by (simp add: record_star_refund_def)
next
  case (Some p)
  have p: "p \<in> set (star_payments d) \<and> sp_chargeId p = chargeId" by (rule sql_first_Some [OF Some])
  obtain u where u: "u \<in> set (users d)" "u_id u = sp_userId p" using ok(2) p by (auto simp: stars_ok_def)
  have su: "sql_first (\<lambda>u. u_id u = sp_userId p) (users d) = Some u"
    using ok(1) u by (intro sql_first_unique [where key = "\<lambda>u. Some (u_id u)" and k = "sp_userId p"])
      (auto simp: db_ok_def users_part_def)
  have cov: "u_tokenReserved u \<le> u_tokenBalance u" using ok(1) u(1) by (simp add: db_ok_def users_part_def user_row_ok_def)
  have upd: "sql_update (\<lambda>q. sp_id q = sp_id p \<and> (sp_status q = StarPaid \<or> sp_status q = StarHeld)) f (star_payments d)
      = sql_update (\<lambda>q. sp_id q = sp_id p) f (star_payments d)" if "sp_status p \<noteq> StarRefunded" for f
    unfolding sql_update_def using that payment_by_id [OF ok(2)] p by (intro map_cong refl) (metis star_payment_status.exhaust)
  have taken: "(if star_credited p < u_tokenBalance u - u_tokenReserved u then star_credited p
      else u_tokenBalance u - u_tokenReserved u) = star_taken p u" by (simp add: star_taken_def min_def)
  have rec: "record_star_refund chargeId receiver d = Inr (RefundRecorded (refund_facts p u), refund_state p u d)"
    if live: "sp_status p \<noteq> StarRefunded" and rcv: "receiver = None \<or> receiver = Some (sp_payer p)"
  proof (cases "0 < star_taken p u")
    case False
    then show ?thesis using live rcv Some su taken
      by (auto simp: record_star_refund_def Let_def star_credited_def [symmetric] upd [OF live]
          refund_facts_def refund_state_def refunded_in_def)
  next
    case True
    then have paid: "sp_status p = StarPaid" by (auto simp: star_taken_def star_credited_def split: if_splits)
    let ?l = "star_ledger_row p LRefund (- star_taken p u) (now d)"
    have ins: "insert_ledger ?l d = Inr (d\<lparr>token_ledger := token_ledger d @ [?l]\<rparr>)"
      using star_refund_key_free [OF ok(2) p [THEN conjunct1] paid] by (simp add: insert_ledger_def) (simp add: star_ledger_row_def)
    let ?q = "\<lambda>v. u_id v = sp_userId p \<and> u_tokenReserved v \<le> u_tokenBalance v - star_taken p u"
    have fit: "u_tokenReserved u \<le> u_tokenBalance u - star_taken p u" using cov by (simp add: star_taken_def)
    have some: "sql_first ?q (users d) \<noteq> None" using u fit by (auto simp: sql_first_None_iff list_ex_iff)
    have us: "sql_update ?q (\<lambda>v. v\<lparr>u_tokenBalance := u_tokenBalance v - star_taken p u\<rparr>) (users d)
        = sql_update (\<lambda>v. u_id v = sp_userId p) (\<lambda>v. v\<lparr>u_tokenBalance := u_tokenBalance v - star_taken p u\<rparr>) (users d)"
    proof (intro finish_users)
      fix v assume v: "v \<in> set (users d)"
      have "u_id v = sp_userId p \<Longrightarrow> v = u" using user_by_key [OF ok(1) v u(1)] u(2) by simp
      then show "?q v \<longleftrightarrow> u_id v = sp_userId p" using fit by auto
    qed simp
    have l: "l_userId ?l = sp_userId p" "l_balanceDelta ?l = - star_taken p u" by (simp_all add: star_ledger_row_def)
    show ?thesis using True live rcv Some su taken some
      by (auto simp: record_star_refund_def Let_def star_credited_def [symmetric] upd [OF live] ins us l
          refund_facts_def refund_state_def refunded_in_def balance_moved_def)
  qed
  show ?thesis
  proof (cases "sp_status p = StarRefunded")
    case True
    then have "record_star_refund chargeId receiver d
        = Inr (RefundAlreadyRecorded (sp_id p) (case sp_refundedAt p of None \<Rightarrow> 0 | Some t \<Rightarrow> t), d)"
      using Some su by (simp add: record_star_refund_def)
    then show ?thesis using p u True by blast
  next
    case live: False
    show ?thesis
    proof (cases "receiver = None \<or> receiver = Some (sp_payer p)")
      case True
      then show ?thesis using rec [OF live] p u live by blast
    next
      case False
      then have "record_star_refund chargeId receiver d = Inr (ReceiverMismatch (sp_id p), d)"
        using Some su live by (auto simp: record_star_refund_def)
      then show ?thesis using p u live False by blast
    qed
  qed
qed

lemma refunded_in_simps [simp]:
  "token_ledger (refunded_in p d) = token_ledger d" "next_id (refunded_in p d) = next_id d" "users (refunded_in p d) = users d"
  "accounts (refunded_in p d) = accounts d" "intents (refunded_in p d) = intents d" "sessions (refunded_in p d) = sessions d"
  "trades (refunded_in p d) = trades d" "outbox (refunded_in p d) = outbox d" "bonus_rules (refunded_in p d) = bonus_rules d"
  "deposits (refunded_in p d) = deposits d" "referrals (refunded_in p d) = referrals d"
  "referral_codes (refunded_in p d) = referral_codes d" "db_ok (refunded_in p d) = db_ok d"
  by (simp_all add: refunded_in_def)

text \<open>The payment a refund marks, with the rows it has then.\<close>

lemma stars_ok_refunded:
  assumes ok: "stars_ok d" and p: "p \<in> set (star_payments d)" "sp_status p \<noteq> StarRefunded"
    and led: "token_ledger d1 = token_ledger d @ ls" "\<forall>l \<in> set ls. l_starPaymentId l = Some (sp_id p)"
    and rows: "payment_ok (p\<lparr>sp_status := StarRefunded, sp_refundedAt := Some (now d1)\<rparr>) (star_rows (sp_id p) (token_ledger d1))"
    and same: "star_payments d1 = star_payments d" "next_id d1 = next_id d" "map u_id (users d1) = map u_id (users d)"
  shows "stars_ok (refunded_in p d1) \<and> keeps_payments d (refunded_in p d1)"
proof -
  let ?f = "\<lambda>q. q\<lparr>sp_status := StarRefunded, sp_refundedAt := Some (now d1)\<rparr>"
  have ps: "star_payments (refunded_in p d1) = sql_update (\<lambda>q. sp_id q = sp_id p) ?f (star_payments d)"
    using same(1) by (simp add: refunded_in_def)
  have eq: "q = p" if "q \<in> set (star_payments d)" "sp_id q = sp_id p" for q using payment_by_id [OF ok that(1) p(1) that(2)] .
  have rows_d1: "star_rows pid (token_ledger d1) = star_rows pid (token_ledger d)" if "pid \<noteq> sp_id p" for pid
    using led that by (auto simp: star_rows_def filter_empty_conv)
  have ids: "set (map u_id (users d1)) = set (map u_id (users d))" using same(3) by simp
  have user: "(\<exists>u \<in> set (users d1). u_id u = k) = (\<exists>u \<in> set (users d). u_id u = k)" for k
    using ids by (simp add: set_eq_iff image_iff) metis
  have one: "sp_id q' < next_id d \<and> (\<exists>u \<in> set (users d1). u_id u = sp_userId q') \<and> payment_ok q' (star_rows (sp_id q') (token_ledger d1))"
    if q: "q \<in> set (star_payments d)" "q' = (if sp_id q = sp_id p then ?f q else q)" for q q'
    using ok q rows rows_d1 eq [OF q(1)] unfolding user by (cases "sp_id q = sp_id p") (auto simp: stars_ok_def)
  have "unique_on (\<lambda>p. Some (sp_id p)) (star_payments (refunded_in p d1))"
    "unique_on (\<lambda>p. Some (sp_chargeId p)) (star_payments (refunded_in p d1))"
    using ok unfolding ps by (auto simp: stars_ok_def intro!: unique_on_update)
  moreover have "\<exists>q \<in> set (star_payments (refunded_in p d1)). sp_id q = pid"
    if "l \<in> set (token_ledger d1)" "l_starPaymentId l = Some pid" for l pid
  proof -
    have "\<exists>q \<in> set (star_payments d). sp_id q = pid"
      using ok led p(1) that unfolding stars_ok_def by (cases "l \<in> set ls") auto
    then obtain q where q: "q \<in> set (star_payments d)" "sp_id q = pid" by blast
    then have "sp_id (if sp_id q = sp_id p then ?f q else q) = pid" by simp
    then show ?thesis unfolding ps bex_sql_update using q(1) by blast
  qed
  moreover have all_ok: "\<forall>q \<in> set (star_payments (refunded_in p d1)). sp_id q < next_id (refunded_in p d1)
      \<and> (\<exists>u \<in> set (users (refunded_in p d1)). u_id u = sp_userId q)
      \<and> payment_ok q (star_rows (sp_id q) (token_ledger (refunded_in p d1)))"
    unfolding ps ball_sql_update refunded_in_simps same(2) using one by blast
  ultimately have "stars_ok (refunded_in p d1)" unfolding stars_ok_def by simp
  moreover have "payment_after q (if sp_id q = sp_id p then ?f q else q)" if "q \<in> set (star_payments d)" for q
    using eq [OF that] p(2) by (auto simp: payment_after_def)
  then have "keeps_payments d (refunded_in p d1)" unfolding keeps_payments_def ps bex_sql_update by blast
  ultimately show ?thesis by blast
qed

lemma refund_state_ok:
  assumes ok: "db_ok d" "stars_ok d" and p: "p \<in> set (star_payments d)" "sp_status p \<noteq> StarRefunded"
    and u: "u \<in> set (users d)" "u_id u = sp_userId p"
  shows "beside_trades d (refund_state p u d) \<and> stars_ok (refund_state p u d) \<and> keeps_payments d (refund_state p u d)"
proof (cases "0 < star_taken p u")
  case False
  have pok: "payment_ok p (star_rows (sp_id p) (token_ledger d))" using ok(2) p(1) by (simp add: stars_ok_def)
  have st: "refund_state p u d = refunded_in p d" using False by (simp add: refund_state_def)
  have "beside_trades d (refund_state p u d)" unfolding st
    by (rule beside_tradesI [where p = "\<lambda>_. False" and f = "\<lambda>u. u"]) (simp_all add: ok sql_update_def)
  moreover have "payment_ok (p\<lparr>sp_status := StarRefunded, sp_refundedAt := Some (now d)\<rparr>) (star_rows (sp_id p) (token_ledger d))"
    using pok p(2) by (auto simp: payment_ok_def split: star_payment_status.splits)
  ultimately show ?thesis using stars_ok_refunded [OF ok(2) p, of d "[]"] unfolding st by simp
next
  case True
  then have paid: "sp_status p = StarPaid" by (auto simp: star_taken_def star_credited_def split: if_splits)
  obtain t where t: "sp_tokens p = Some t" "0 < t" "star_rows (sp_id p) (token_ledger d) = [(LPurchase, t, sp_userId p)]"
    by (rule paid_rows [OF ok(2) p(1) paid])
  let ?l = "star_ledger_row p LRefund (- star_taken p u) (now d)"
  let ?d1 = "balance_moved ?l d"
  have st: "refund_state p u d = refunded_in p ?d1" using True by (simp add: refund_state_def)
  have l: "l_userId ?l = sp_userId p" "l_starPaymentId ?l = Some (sp_id p)" "l_kind ?l = LRefund"
    "l_balanceDelta ?l = - star_taken p u" "balance_row ?l" by (simp_all add: star_ledger_row_def balance_row_def)
  have us: "users ?d1 = sql_update (\<lambda>v. u_id v = sp_userId p) (\<lambda>v. v\<lparr>u_tokenBalance := u_tokenBalance v - star_taken p u\<rparr>) (users d)"
    using l by (simp add: balance_moved_def)
  have "star_taken p u \<le> u_tokenBalance u - u_tokenReserved u" by (simp add: star_taken_def)
  then have "db_ok ?d1" using u l by (intro balance_moved_ok [OF ok(1) l(5) u(1)]) simp_all
  then have "beside_trades d (refund_state p u d)" unfolding st
    by (intro beside_tradesI [where p = "\<lambda>v. u_id v = sp_userId p" and f = "\<lambda>v. v\<lparr>u_tokenBalance := u_tokenBalance v - star_taken p u\<rparr>"])
      (simp_all add: us)
  moreover have "star_taken p u \<le> t" using t(1) paid by (simp add: star_taken_def star_credited_def)
  then have "payment_ok (p\<lparr>sp_status := StarRefunded, sp_refundedAt := Some (now ?d1)\<rparr>) (star_rows (sp_id p) (token_ledger ?d1))"
    using t True l by (auto simp: payment_ok_def)
  ultimately show ?thesis using stars_ok_refunded [OF ok(2) p, of ?d1 "[?l]"] l unfolding st by (simp add: us map_sql_update)
qed

lemma record_star_refund_ok:
  assumes t: "record_star_refund chargeId receiver d = Inr (r, d')" and ok: "db_ok d" "stars_ok d"
  shows "beside_trades d d' \<and> stars_ok d' \<and> keeps_payments d d'"
  using record_star_refund_cases [OF ok, of chargeId receiver] t refund_state_ok [OF ok] ok
  by (auto simp: beside_trades_refl keeps_payments_same)

section \<open>Every operation at once\<close>

inductive star_change :: "'p db \<Rightarrow> 'p db \<Rightarrow> bool" where
  CreditStars: "credit_star_payment payment d = Inr (c, d') \<Longrightarrow> star_change d d'"
| RefundBySystem: "record_star_refund_by_system chargeId receiver d = Inr (r, d') \<Longrightarrow> star_change d d'"
| RefundByStaff: "record_star_refund_by_staff chargeId answered staffId d = Inr (r, d') \<Longrightarrow> star_change d d'"
| RefundAttempt: "star_change d (record_star_refund_attempt_by_staff staffId result pid d)"
| AskRefund: "request_star_refund telegramUserId pid d = Inr (q, d') \<Longrightarrow> star_change d d'"

lemma refund_shape:
  assumes t: "record_star_refund chargeId receiver d = Inr (r, d')"
    and p: "sql_first (\<lambda>p. sp_chargeId p = chargeId) (star_payments d) = Some p"
    and v: "sql_first (\<lambda>u. u_id u = sp_userId p) (users d) = Some v"
  shows "d' = d \<or> (\<exists>ps. d' = d\<lparr>star_payments := ps\<rparr>) \<or> (\<exists>k ps d1 w. 0 < k
    \<and> insert_ledger (star_ledger_row p LRefund (- k) (now d)) d = Inr d1
    \<and> sql_first (\<lambda>u. u_id u = sp_userId p \<and> u_tokenReserved u \<le> u_tokenBalance u - k) (users d1) = Some w
    \<and> d' = d1\<lparr>users := sql_update (\<lambda>u. u_id u = sp_userId p \<and> u_tokenReserved u \<le> u_tokenBalance u - k)
            (\<lambda>u. u\<lparr>u_tokenBalance := u_tokenBalance u - k\<rparr>) (users d1), star_payments := ps\<rparr>)"
proof (cases "sp_status p = StarRefunded \<or> (receiver \<noteq> None \<and> receiver \<noteq> Some (sp_payer p))")
  case True
  then have "d' = d" using t p v
    by (auto simp: record_star_refund_def split: if_splits)
  then show ?thesis by simp
next
  case False
  have taken: "(if star_credited p < u_tokenBalance v - u_tokenReserved v then star_credited p
    else u_tokenBalance v - u_tokenReserved v) = star_taken p v" by (simp add: star_taken_def min_def)
  note rec = t [unfolded record_star_refund_def Let_def star_credited_def [symmetric]]
  show ?thesis
  proof (cases "0 < star_taken p v")
    case low: False
    then show ?thesis using rec False p v by (auto simp: taken)
  next
    case high: True
    obtain d1 where d1: "insert_ledger (star_ledger_row p LRefund (- star_taken p v) (now d)) d = Inr d1"
      using rec False high p v by (auto simp: taken split: sum.splits)
    let ?q = "\<lambda>u. u_id u = sp_userId p \<and> u_tokenReserved u \<le> u_tokenBalance u - star_taken p v"
    obtain w where w: "sql_first ?q (users d1) = Some w"
      using rec False high p v d1 by (auto simp: taken split: option.splits)
    have "\<exists>ps. d' = d1\<lparr>users := sql_update ?q (\<lambda>u. u\<lparr>u_tokenBalance := u_tokenBalance u - star_taken p v\<rparr>) (users d1),
        star_payments := ps\<rparr>"
      using rec False high p v d1 w by (auto simp: taken)
    then show ?thesis using high d1 w by blast
  qed
qed

lemma refund_beside:
  assumes t: "record_star_refund chargeId receiver d = Inr (r, d')" and ok: "db_ok d"
  shows "beside_trades d d'"
proof (cases "sql_first (\<lambda>p. sp_chargeId p = chargeId) (star_payments d)")
  case None
  then show ?thesis using t ok by (auto simp: record_star_refund_def beside_trades_refl)
next
  case (Some p)
  note p = Some
  show ?thesis
  proof (cases "sql_first (\<lambda>u. u_id u = sp_userId p) (users d)")
    case None
    then show ?thesis using t p by (simp add: record_star_refund_def)
  next
    case (Some v)
    from refund_shape [OF t p Some] show ?thesis
    proof (elim disjE exE conjE)
      assume "d' = d" then show ?thesis by (simp add: beside_trades_refl ok)
    next
      fix ps assume "d' = d\<lparr>star_payments := ps\<rparr>"
      then show ?thesis by (intro beside_tradesI [where p = "\<lambda>_. False" and f = "\<lambda>u. u"]) (simp_all add: ok sql_update_def)
    next
      fix k ps d1 w
      let ?l = "star_ledger_row p LRefund (- k) (now d)"
      let ?q = "\<lambda>u. u_id u = sp_userId p \<and> u_tokenReserved u \<le> u_tokenBalance u - k"
      let ?f = "\<lambda>u. u\<lparr>u_tokenBalance := u_tokenBalance u - k\<rparr>"
      assume k: "insert_ledger ?l d = Inr d1" "sql_first ?q (users d1) = Some w"
        "d' = d1\<lparr>users := sql_update ?q ?f (users d1), star_payments := ps\<rparr>"
      have d1: "d1 = d\<lparr>token_ledger := token_ledger d @ [?l]\<rparr>" using k(1) by (simp add: insert_ledger_def split: if_splits)
      have w: "w \<in> set (users d)" "u_id w = sp_userId p" "u_tokenReserved w \<le> u_tokenBalance w - k"
        using sql_first_Some [OF k(2)] d1 by simp_all
      have us: "sql_update ?q ?f (users d) = sql_update (\<lambda>u. u_id u = sp_userId p) ?f (users d)"
      proof (intro finish_users)
        fix x assume x: "x \<in> set (users d)"
        have "u_id x = sp_userId p \<Longrightarrow> x = w" using user_by_key [OF ok x w(1)] w(2) by simp
        then show "?q x \<longleftrightarrow> u_id x = sp_userId p" using w(3) by auto
      qed simp
      have l: "l_userId ?l = sp_userId p" "l_balanceDelta ?l = - k" "balance_row ?l"
        by (simp_all add: star_ledger_row_def balance_row_def)
      have eq: "d' = (balance_moved ?l d)\<lparr>star_payments := ps\<rparr>"
        using l k(3) d1 us by (simp add: balance_moved_def)
      have "db_ok (balance_moved ?l d)" using w l by (intro balance_moved_ok [OF ok l(3) w(1)]) simp_all
      then show ?thesis unfolding eq
        by (intro beside_tradesI [where p = "\<lambda>u. u_id u = sp_userId p" and f = ?f]) (simp_all add: balance_moved_def l)
    qed
  qed
qed

definition star_facts :: "'p db \<Rightarrow> 'p db \<Rightarrow> bool" where
  "star_facts d d' \<longleftrightarrow> beside_trades d d' \<and> stars_ok d' \<and> keeps_payments d d'"

lemma audit_frame [simp]:
  "progress d (d'\<lparr>audit_log := al\<rparr>) = progress d d'" "stars_ok (d'\<lparr>audit_log := al\<rparr>) = stars_ok d'"
  "keeps_payments d (d'\<lparr>audit_log := al\<rparr>) = keeps_payments d d'"
  by (simp_all add: progress_def stars_ok_def keeps_payments_def)

lemma star_facts_audit: "star_facts d d' \<Longrightarrow> star_facts d (d'\<lparr>audit_log := al\<rparr>)"
  by (simp add: star_facts_def beside_trades_def)

lemma star_facts_asked:
  assumes "star_facts d d" "db_ok d" "stars_ok d"
  shows "star_facts d (d\<lparr>refund_requests := rs, next_id := Suc (next_id d)\<rparr>)"
proof -
  have "db_ok (d\<lparr>refund_requests := rs, next_id := Suc (next_id d)\<rparr>)" using assms(2) by (simp add: db_ok_def part_Suc)
  moreover have "stars_ok (d\<lparr>refund_requests := rs, next_id := Suc (next_id d)\<rparr>)"
    using assms(3) by (auto simp: stars_ok_def less_Suc_eq)
  moreover have "progress d (d\<lparr>refund_requests := rs, next_id := Suc (next_id d)\<rparr>) = progress d d" unfolding progress_def by simp
  moreover have "keeps_payments d (d\<lparr>refund_requests := rs, next_id := Suc (next_id d)\<rparr>) = keeps_payments d d"
    unfolding keeps_payments_def by simp
  ultimately show ?thesis using assms(1) by (simp add: star_facts_def beside_trades_def)
qed

lemma star_change_facts:
  assumes "star_change d d'" "db_ok d" "stars_ok d" shows "star_facts d d'"
  using assms(1)
proof (cases rule: star_change.cases)
  case (CreditStars payment c)
  then show ?thesis using credit_star_payment_ok [OF _ assms(3)] credit_beside [OF _ assms(2)] by (simp add: star_facts_def)
next
  case (RefundBySystem chargeId receiver r)
  then obtain r1 d1 al where r: "record_star_refund chargeId receiver d = Inr (r1, d1)" "d' = d1 \<or> d' = d1\<lparr>audit_log := al\<rparr>"
    by (auto simp: record_star_refund_by_system_def split: sum.splits prod.splits star_refund.splits)
  have "star_facts d d1" using record_star_refund_ok [OF r(1) assms(2,3)] by (simp add: star_facts_def)
  then show ?thesis using r(2) star_facts_audit by blast
next
  case (RefundByStaff chargeId answered staffId r)
  then obtain r1 d1 al where r: "record_star_refund chargeId None d = Inr (r1, d1)" "d' = d1 \<or> d' = d1\<lparr>audit_log := al\<rparr>"
    by (auto simp: record_star_refund_by_staff_def split: sum.splits prod.splits star_refund.splits if_splits)
  have "star_facts d d1" using record_star_refund_ok [OF r(1) assms(2,3)] by (simp add: star_facts_def)
  then show ?thesis using r(2) star_facts_audit by blast
next
  case (RefundAttempt staffId result pid)
  have "star_facts d d" using assms by (simp add: star_facts_def beside_trades_refl keeps_payments_same)
  then show ?thesis unfolding RefundAttempt record_star_refund_attempt_by_staff_def by (rule star_facts_audit)
next
  case (AskRefund telegramUserId pid q)
  have same: "star_facts d d" using assms by (simp add: star_facts_def beside_trades_refl keeps_payments_same)
  have asked: "star_facts d (d\<lparr>refund_requests := rs, next_id := Suc (next_id d), audit_log := al\<rparr>)" for rs al
    using star_facts_asked [OF same assms(2,3)] by (rule star_facts_audit)
  show ?thesis using AskRefund same asked
    by (auto simp: request_star_refund_def Let_def split: option.splits if_splits)
qed

text \<open>What does not rest on the payments' own invariant.\<close>

lemma beside_trades_audit: "beside_trades d d' \<Longrightarrow> beside_trades d (d'\<lparr>audit_log := al\<rparr>)"
  by (simp add: beside_trades_def)

lemma star_change_beside:
  assumes "star_change d d'" "db_ok d" shows "beside_trades d d'"
  using assms(1)
proof (cases rule: star_change.cases)
  case (CreditStars payment c)
  then show ?thesis by (rule credit_beside [OF _ assms(2)])
next
  case (RefundBySystem chargeId receiver r)
  then obtain r1 d1 al where r: "record_star_refund chargeId receiver d = Inr (r1, d1)" "d' = d1 \<or> d' = d1\<lparr>audit_log := al\<rparr>"
    by (auto simp: record_star_refund_by_system_def split: sum.splits prod.splits star_refund.splits)
  show ?thesis using refund_beside [OF r(1) assms(2)] r(2) beside_trades_audit by blast
next
  case (RefundByStaff chargeId answered staffId r)
  then obtain r1 d1 al where r: "record_star_refund chargeId None d = Inr (r1, d1)" "d' = d1 \<or> d' = d1\<lparr>audit_log := al\<rparr>"
    by (auto simp: record_star_refund_by_staff_def split: sum.splits prod.splits star_refund.splits if_splits)
  show ?thesis using refund_beside [OF r(1) assms(2)] r(2) beside_trades_audit by blast
next
  case (RefundAttempt staffId result pid)
  show ?thesis unfolding RefundAttempt record_star_refund_attempt_by_staff_def
    by (rule beside_trades_audit [OF beside_trades_refl [OF assms(2)]])
next
  case (AskRefund telegramUserId pid q)
  have "beside_trades d (d\<lparr>refund_requests := rs, next_id := Suc (next_id d)\<rparr>)" for rs
    using assms(2) by (intro beside_tradesI [where p = "\<lambda>_. False" and f = "\<lambda>u. u"]) (simp_all add: db_ok_def part_Suc sql_update_def)
  then show ?thesis using AskRefund beside_trades_audit beside_trades_refl [OF assms(2)]
    by (auto simp: request_star_refund_def Let_def split: option.splits if_splits)
qed

end
