(* ===== verification/Bonus.thy ===== *)
theory Bonus
  imports Later
begin

text \<open>
  The bonus rules and what they pay: the parameters of \<^verbatim>\<open>packages/shared/src/bonus.ts\<close>, the rule engine of
  \<^verbatim>\<open>packages/db/src/bonus-rule-ops.ts\<close> with its command-line writers, the starter pack
  (\<^verbatim>\<open>link-bonus-ops.ts\<close>) and the inviter's reward (\<^verbatim>\<open>referral-reward-ops.ts\<close>). A grant reads its rule
  without a lock, in a statement of its own: the rows it saw are an argument.
\<close>

section \<open>The parameters of a rule\<close>

definition BONUS_RULE_TOKENS_MAX :: int where "BONUS_RULE_TOKENS_MAX = 1000"

definition rule_tokens :: "json_value \<Rightarrow> int option" where
  "rule_tokens v =
     (case v of
        JsonOther \<Rightarrow> None
      | JsonString s \<Rightarrow>
          if s \<noteq> [] \<and> list_all is_dig s \<and> hd s \<noteq> CHR ''0'' \<and> length s \<le> 16 \<and> int (dval s) \<le> BONUS_RULE_TOKENS_MAX
          then Some (int (dval s)) else None)"

definition fits_numeric :: "string \<Rightarrow> bool" where
  "fits_numeric s \<longleftrightarrow> length (dot_int s) \<le> NUMERIC_INTEGER_DIGITS \<and> length (dot_frac s) \<le> NUMERIC_FRACTION_DIGITS"

definition non_negative_decimal :: "json_value \<Rightarrow> string option" where
  "non_negative_decimal v =
     (case v of JsonOther \<Rightarrow> None
      | JsonString s \<Rightarrow> if is_decimal_string s \<and> \<not> starts_minus s \<and> fits_numeric s then Some s else None)"

definition positive_rule_decimal :: "json_value \<Rightarrow> string option" where
  "positive_rule_decimal v =
     (case non_negative_decimal v of None \<Rightarrow> None
      | Some s \<Rightarrow> if list_ex (\<lambda>c. is_dig c \<and> c \<noteq> CHR ''0'') s then Some s else None)"

datatype rule_terms = FixedTokens int | DepositTerms string string string

text \<open>A strict object: the schema's keys and no other.\<close>

definition strict_keys :: "string list \<Rightarrow> (string \<times> json_value) list \<Rightarrow> bool" where
  "strict_keys ks kvs \<longleftrightarrow> list_all (\<lambda>(k, _). List.member ks k) kvs"

definition field :: "(string \<times> json_value) list \<Rightarrow> string \<Rightarrow> (json_value \<Rightarrow> 'a option) \<Rightarrow> 'a option" where
  "field kvs k schema = (case map_of kvs k of None \<Rightarrow> None | Some v \<Rightarrow> schema v)"

definition fixed_tokens_params :: "(string \<times> json_value) list \<Rightarrow> rule_terms option" where
  "fixed_tokens_params kvs =
     (if strict_keys [''tokens''] kvs then map_option FixedTokens (field kvs ''tokens'' rule_tokens) else None)"

definition deposit_bonus_params :: "(string \<times> json_value) list \<Rightarrow> rule_terms option" where
  "deposit_bonus_params kvs =
     (if strict_keys [''tokensPerUsd'', ''minAmountUsd'', ''maxTokens''] kvs then
        (case (field kvs ''tokensPerUsd'' positive_rule_decimal, field kvs ''minAmountUsd'' non_negative_decimal,
               field kvs ''maxTokens'' positive_rule_decimal) of
           (Some t, Some m, Some x) \<Rightarrow> Some (DepositTerms t m x)
         | _ \<Rightarrow> None)
      else None)"

definition parse_bonus_rule_params :: "bonus_rule_kind \<Rightarrow> rule_params \<Rightarrow> rule_terms option" where
  "parse_bonus_rule_params kind params =
     (case params of None \<Rightarrow> None
      | Some kvs \<Rightarrow> (case kind of DepositBonusRule \<Rightarrow> deposit_bonus_params kvs | _ \<Rightarrow> fixed_tokens_params kvs))"

text \<open>Whether \<open>bonusRuleParamsProblem\<close> finds a problem; its wording is not modelled.\<close>

definition bonus_rule_params_refused :: "bonus_rule_kind \<Rightarrow> rule_params \<Rightarrow> bool" where
  "bonus_rule_params_refused kind params \<longleftrightarrow> parse_bonus_rule_params kind params = None"

section \<open>The rule in force\<close>

definition active_rule_where :: "string \<Rightarrow> int \<Rightarrow> bonus_rule_row \<Rightarrow> bool" where
  "active_rule_where code t r \<longleftrightarrow>
     br_code r = code \<and> br_isActive r
     \<and> (case br_validFrom r of None \<Rightarrow> True | Some f \<Rightarrow> f \<le> t)
     \<and> (case br_validTo r of None \<Rightarrow> True | Some e \<Rightarrow> t < e)"

definition invalid_bonus_rule :: "string \<Rightarrow> tx_error" where
  "invalid_bonus_rule code = Thrown (''bonus rule '' @ code @ '' cannot be applied'')"

definition resolve_active_rule ::
  "string \<Rightarrow> bonus_rule_row list \<Rightarrow> int \<Rightarrow> tx_error + (bonus_rule_row \<times> rule_terms) option" where
  "resolve_active_rule code rules t =
     (case sql_first (active_rule_where code t) rules of
        None \<Rightarrow> Inr None
      | Some row \<Rightarrow> (case parse_bonus_rule_params (br_kind row) (br_params row) of
           None \<Rightarrow> Inl (invalid_bonus_rule code)
         | Some terms \<Rightarrow> Inr (Some (row, terms))))"

section \<open>The grant\<close>

text \<open>What a grant refers to, with the kind of rule it may be credited under.\<close>

datatype bonus_reference = AccountReference nat | ReferralReference nat

fun reference_kind :: "bonus_reference \<Rightarrow> bonus_rule_kind" where
  "reference_kind (AccountReference _) = LinkBonusRule"
| "reference_kind (ReferralReference _) = ReferralRewardRule"

fun reference_account :: "bonus_reference \<Rightarrow> nat option" where
  "reference_account (AccountReference a) = Some a"
| "reference_account (ReferralReference _) = None"

fun reference_referral :: "bonus_reference \<Rightarrow> nat option" where
  "reference_referral (AccountReference _) = None"
| "reference_referral (ReferralReference r) = Some r"

text \<open>The arbiter of the conflict clause: the partial index each reference has.\<close>

fun reference_conflict :: "bonus_reference \<Rightarrow> ledger_row \<Rightarrow> ledger_row list \<Rightarrow> bool" where
  "reference_conflict (AccountReference _) l led \<longleftrightarrow> key_conflict link_bonus_user_key l led"
| "reference_conflict (ReferralReference _) l led \<longleftrightarrow> key_conflict referral_key l led"

datatype bonus_skip = NoActiveRule | AlreadyGranted
datatype bonus_grant = BonusGranted int nat nat | BonusSkipped bonus_skip

definition bonus_ledger_row :: "nat \<Rightarrow> bonus_reference \<Rightarrow> bonus_rule_row \<Rightarrow> int \<Rightarrow> int \<Rightarrow> ledger_row" where
  "bonus_ledger_row userId ref rule tokens t =
     \<lparr>l_userId = userId, l_kind = LBonus, l_balanceDelta = tokens, l_reservedDelta = 0, l_intentId = None,
      l_accountId = reference_account ref, l_starPaymentId = None, l_referralId = reference_referral ref,
      l_bonusRule = Some (br_id rule, br_kind rule), l_note = None, l_createdAt = t\<rparr>"

definition apply_bonus ::
  "bonus_rule_row list \<Rightarrow> string \<Rightarrow> nat \<Rightarrow> bonus_reference \<Rightarrow> 'p db \<Rightarrow> tx_error + bonus_grant \<times> 'p db" where
  "apply_bonus rules code userId ref d =
     (case resolve_active_rule code rules (now d) of
        Inl e \<Rightarrow> Inl e
      | Inr None \<Rightarrow> Inr (BonusSkipped NoActiveRule, d)
      | Inr (Some (rule, terms)) \<Rightarrow>
          if br_kind rule \<noteq> reference_kind ref then Inl (invalid_bonus_rule code)
          else case terms of
            DepositTerms _ _ _ \<Rightarrow> Inl (invalid_bonus_rule code)
          | FixedTokens tokens \<Rightarrow>
              let row = bonus_ledger_row userId ref rule tokens (now d) in
              if reference_conflict ref row (token_ledger d) then Inr (BonusSkipped AlreadyGranted, d)
              else case insert_ledger row d of
                Inl e \<Rightarrow> Inl e
              | Inr d1 \<Rightarrow> Inr (BonusGranted tokens (br_id rule) (br_version rule),
                  d1\<lparr>users := sql_update (\<lambda>u. u_id u = userId) (\<lambda>u. u\<lparr>u_tokenBalance := u_tokenBalance u + tokens\<rparr>) (users d1)\<rparr>))"

section \<open>The starter pack\<close>

definition LINK_BONUS_RULE_CODE :: string where "LINK_BONUS_RULE_CODE = ''link_bonus''"

datatype link_bonus_grant = PackGranted int | PackNotPartnerClient | PackSkipped bonus_skip

definition grant_link_bonus ::
  "bonus_rule_row list \<Rightarrow> nat \<Rightarrow> account_row \<Rightarrow> 'p db \<Rightarrow> tx_error + link_bonus_grant \<times> 'p db" where
  "grant_link_bonus rules userId account d =
     (if \<not> a_isPartnerClient account then Inr (PackNotPartnerClient, d)
      else case apply_bonus rules LINK_BONUS_RULE_CODE userId (AccountReference (a_id account)) d of
        Inl e \<Rightarrow> Inl e
      | Inr (BonusGranted tokens _ _, d1) \<Rightarrow> Inr (PackGranted tokens, d1)
      | Inr (BonusSkipped reason, d1) \<Rightarrow> Inr (PackSkipped reason, d1))"

section \<open>The inviter's reward\<close>

definition REFERRAL_REWARD_RULE_CODE :: string where "REFERRAL_REWARD_RULE_CODE = ''referral_reward''"

datatype referral_inviter = NoInviter | InviterPaid nat | InviterOpen nat nat bool

definition lock_referral_inviter :: "nat \<Rightarrow> 'p db \<Rightarrow> tx_error + referral_inviter" where
  "lock_referral_inviter inviteeUserId d =
     (case sql_first (\<lambda>r. rf_inviteeUserId r = inviteeUserId) (referrals d) of
        None \<Rightarrow> Inr NoInviter
      | Some r \<Rightarrow>
          if list_ex (\<lambda>l. l_referralId l = Some (rf_id r)) (token_ledger d) then Inr (InviterPaid (rf_id r))
          else case sql_first (\<lambda>u. u_id u = rf_inviterUserId r) (users d) of
            None \<Rightarrow> Inl (Thrown ''referral inviter vanished'')
          | Some inviter \<Rightarrow> Inr (InviterOpen (rf_id r) (rf_inviterUserId r) (u_status inviter = UBlocked)))"

datatype reward_skip = RewardNotPartnerClient | RewardNoReferral | RewardAlreadyRewarded | RewardInviterBlocked | RewardNoActiveRule

datatype referral_reward =
  Rewarded nat nat int nat nat
| NotRewarded reward_skip "nat option"

definition grant_referral_reward ::
  "bonus_rule_row list \<Rightarrow> referral_inviter \<Rightarrow> account_row \<Rightarrow> 'p db \<Rightarrow> tx_error + referral_reward \<times> 'p db" where
  "grant_referral_reward rules referral account d =
     (if \<not> a_isPartnerClient account then Inr (NotRewarded RewardNotPartnerClient None, d)
      else case referral of
        NoInviter \<Rightarrow> Inr (NotRewarded RewardNoReferral None, d)
      | InviterPaid rid \<Rightarrow> Inr (NotRewarded RewardAlreadyRewarded (Some rid), d)
      | InviterOpen rid inviter blocked \<Rightarrow>
          if blocked then Inr (NotRewarded RewardInviterBlocked (Some rid), d)
          else case apply_bonus rules REFERRAL_REWARD_RULE_CODE inviter (ReferralReference rid) d of
            Inl e \<Rightarrow> Inl e
          | Inr (BonusGranted tokens ruleId version, d1) \<Rightarrow> Inr (Rewarded rid inviter tokens ruleId version, d1)
          | Inr (BonusSkipped NoActiveRule, d1) \<Rightarrow> Inr (NotRewarded RewardNoActiveRule (Some rid), d1)
          | Inr (BonusSkipped AlreadyGranted, d1) \<Rightarrow> Inr (NotRewarded RewardAlreadyRewarded (Some rid), d1))"

section \<open>The rules' writers\<close>

text \<open>The listing; \<open>rank\<close> orders the codes as the database's collation does.\<close>

definition list_bonus_rules :: "(string \<Rightarrow> nat) \<Rightarrow> 'p db \<Rightarrow> bonus_rule_row list" where
  "list_bonus_rules rank d = sort_key (\<lambda>r. rank (br_code r)) (sort_key br_version (bonus_rules d))"

definition lock_code :: "string \<Rightarrow> 'p db \<Rightarrow> bonus_rule_row list" where
  "lock_code code d = sort_key br_version (filter (\<lambda>r. br_code r = code) (bonus_rules d))"

datatype create_rule_result =
  RuleCreated bonus_rule_row | RuleKindRequired | RuleKindMismatch bonus_rule_kind | RuleParamsRefused

definition next_version :: "bonus_rule_row list \<Rightarrow> nat" where
  "next_version rows = (if rows = [] then 0 else br_version (last rows)) + 1"

definition create_bonus_rule_version ::
  "string \<Rightarrow> bonus_rule_kind option \<Rightarrow> rule_params \<Rightarrow> 'p db \<Rightarrow> create_rule_result \<times> 'p db" where
  "create_bonus_rule_version code kind params d =
     (let rows = lock_code code d; existing = (case rows of [] \<Rightarrow> None | r # _ \<Rightarrow> Some (br_kind r)) in
      case (existing, kind) of
        (None, None) \<Rightarrow> (RuleKindRequired, d)
      | (old, new) \<Rightarrow>
          if old \<noteq> None \<and> new \<noteq> None \<and> new \<noteq> old then (RuleKindMismatch (the old), d)
          else let ruleKind = (case old of Some k \<Rightarrow> k | None \<Rightarrow> the new) in
            if bonus_rule_params_refused ruleKind params then (RuleParamsRefused, d)
            else let row = \<lparr>br_id = next_id d, br_code = code, br_version = next_version rows, br_kind = ruleKind,
                   br_isActive = False, br_params = params, br_validFrom = None, br_validTo = None\<rparr> in
              (RuleCreated row, d\<lparr>bonus_rules := bonus_rules d @ [row], next_id := next_id d + 1,
                 audit_log := audit_log d @ [AuditRuleCreated (br_id row)]\<rparr>))"

datatype activate_rule_result =
  RuleActivated bonus_rule_row "nat option" | ActivateNotFound | ActivateAlreadyActive | ActivateParamsRefused

definition set_active :: "nat \<Rightarrow> bool \<Rightarrow> 'p db \<Rightarrow> 'p db" where
  "set_active rid b d = d\<lparr>bonus_rules := sql_update (\<lambda>r. br_id r = rid) (\<lambda>r. r\<lparr>br_isActive := b\<rparr>) (bonus_rules d)\<rparr>"

definition activate_bonus_rule_version :: "string \<Rightarrow> nat \<Rightarrow> 'p db \<Rightarrow> activate_rule_result \<times> 'p db" where
  "activate_bonus_rule_version code version d =
     (let rows = lock_code code d in
      case sql_first (\<lambda>r. br_version r = version) rows of
        None \<Rightarrow> (ActivateNotFound, d)
      | Some target \<Rightarrow>
          if br_isActive target then (ActivateAlreadyActive, d)
          else if bonus_rule_params_refused (br_kind target) (br_params target) then (ActivateParamsRefused, d)
          else let current = sql_first br_isActive rows;
                   d1 = (case current of None \<Rightarrow> d | Some c \<Rightarrow> set_active (br_id c) False d);
                   d2 = set_active (br_id target) True d1;
                   previousVersion = map_option br_version current in
            (RuleActivated (target\<lparr>br_isActive := True\<rparr>) previousVersion,
             d2\<lparr>audit_log := audit_log d2 @ [AuditRuleActivated (br_id target) previousVersion]\<rparr>))"

datatype deactivate_rule_result = RuleDeactivated bonus_rule_row | DeactivateNotFound | DeactivateNotActive

definition deactivate_bonus_rule :: "string \<Rightarrow> 'p db \<Rightarrow> deactivate_rule_result \<times> 'p db" where
  "deactivate_bonus_rule code d =
     (let rows = lock_code code d in
      if rows = [] then (DeactivateNotFound, d)
      else case sql_first br_isActive rows of
        None \<Rightarrow> (DeactivateNotActive, d)
      | Some c \<Rightarrow>
          let d1 = set_active (br_id c) False d in
          (RuleDeactivated (c\<lparr>br_isActive := False\<rparr>), d1\<lparr>audit_log := audit_log d1 @ [AuditRuleDeactivated (br_id c)]\<rparr>))"

end
