(* ===== verification/Linking.thy ===== *)
theory Linking
  imports Bonus
begin

text \<open>
  Who a broker account belongs to, and what follows from it: the login and the confirmation of an
  account and its tokens (\<^verbatim>\<open>packages/db/src/oauth-ops.ts\<close>), the start link and the trading mode
  (\<^verbatim>\<open>user-ops.ts\<close>, \<^verbatim>\<open>referral-ops.ts\<close>), the broker's postbacks and the deposits they record
  (\<^verbatim>\<open>postback-ops.ts\<close>, \<^verbatim>\<open>deposit-mode-switch-ops.ts\<close>). Ciphertexts, addresses and display data are left
  out; the hash of a refresh token is an argument.
\<close>

section \<open>Deposits of an account\<close>

definition attach_deposits_to_account :: "nat \<Rightarrow> nat \<Rightarrow> string \<Rightarrow> 'p db \<Rightarrow> 'p db" where
  "attach_deposits_to_account accountId userId brokerUserId d =
     d\<lparr>deposits := sql_update (\<lambda>e. de_brokerUserId e = brokerUserId \<and> de_userId e = None \<and> de_accountId e = None)
       (\<lambda>e. e\<lparr>de_userId := Some userId, de_accountId := Some accountId\<rparr>) (deposits d)\<rparr>"

section \<open>The login\<close>

record oauth_tokens =
  tk_brokerUserId :: string
  tk_isPartnerClient :: bool
  tk_refreshToken :: string
  tk_expiresInSec :: int

definition new_user :: "int \<Rightarrow> 'p db \<Rightarrow> user_row" where
  "new_user telegramUserId d =
     \<lparr>u_id = next_id d, u_telegramUserId = telegramUserId, u_status = UActive, u_tradingMode = Demo,
      u_tokenBalance = 0, u_tokenReserved = 0\<rparr>"

definition insert_user :: "int \<Rightarrow> 'p db \<Rightarrow> 'p db" where
  "insert_user telegramUserId d = d\<lparr>users := users d @ [new_user telegramUserId d], next_id := next_id d + 1\<rparr>"

text \<open>The user's id; \<open>None\<close> for a blocked user.\<close>

definition upsert_user :: "int \<Rightarrow> 'p db \<Rightarrow> nat option \<times> 'p db" where
  "upsert_user telegramUserId d =
     (case sql_first (\<lambda>u. u_telegramUserId u = telegramUserId) (users d) of
        Some u \<Rightarrow> (if u_status u = UBlocked then None else Some (u_id u), d)
      | None \<Rightarrow> (Some (u_id (new_user telegramUserId d)), insert_user telegramUserId d))"

definition credit_activation ::
  "bonus_rule_row list \<Rightarrow> bool \<Rightarrow> nat \<Rightarrow> account_row \<Rightarrow> referral_inviter \<Rightarrow> 'p db
     \<Rightarrow> tx_error + (link_bonus_grant option \<times> referral_reward option) \<times> 'p db" where
  "credit_activation rules activate userId account inviter d =
     (if \<not> activate then
        if a_status account \<noteq> AActive then Inr ((None, None), d)
        else (case grant_referral_reward rules inviter account d of
                Inl e \<Rightarrow> Inl e | Inr (reward, d1) \<Rightarrow> Inr ((None, Some reward), d1))
      else case grant_link_bonus rules userId account (attach_deposits_to_account (a_id account) userId (a_brokerUserId account) d) of
        Inl e \<Rightarrow> Inl e
      | Inr (grant, d1) \<Rightarrow>
          (case grant_referral_reward rules inviter account d1 of
             Inl e \<Rightarrow> Inl e | Inr (reward, d2) \<Rightarrow> Inr ((Some grant, Some reward), d2)))"

datatype link_result =
  Linked account_row "link_bonus_grant option" "referral_reward option"
| BrokerAccountTaken
| LinkUserBlocked

definition new_account :: "(string \<Rightarrow> string) \<Rightarrow> oauth_tokens \<Rightarrow> bool \<Rightarrow> nat \<Rightarrow> 'p db \<Rightarrow> account_row" where
  "new_account hash tokens activate userId d =
     \<lparr>a_id = next_id d, a_userId = userId, a_status = (if activate then AActive else APending), a_tradingHalted = False,
      a_haltedReason = None, a_accessTokenExpiresAt = now d + tk_expiresInSec tokens * 1000,
      a_brokerUserId = tk_brokerUserId tokens, a_isPartnerClient = tk_isPartnerClient tokens,
      a_refreshTokenHash = Some (hash (tk_refreshToken tokens)), a_authRevokedReason = None\<rparr>"

definition relinked :: "(string \<Rightarrow> string) \<Rightarrow> oauth_tokens \<Rightarrow> bool \<Rightarrow> 'p db \<Rightarrow> account_row \<Rightarrow> account_row" where
  "relinked hash tokens activate d a =
     a\<lparr>a_isPartnerClient := tk_isPartnerClient tokens,
       a_accessTokenExpiresAt := now d + tk_expiresInSec tokens * 1000,
       a_refreshTokenHash := Some (hash (tk_refreshToken tokens)),
       a_status := (if \<not> activate \<and> a_status a = APending then APending else AActive),
       a_authRevokedReason := None\<rparr>"

definition link_broker_account ::
  "(string \<Rightarrow> string) \<Rightarrow> bonus_rule_row list \<Rightarrow> int \<Rightarrow> oauth_tokens \<Rightarrow> bool \<Rightarrow> 'p db \<Rightarrow> tx_error + link_result \<times> 'p db" where
  "link_broker_account hash rules telegramUserId tokens activate d =
     (case upsert_user telegramUserId d of
        (None, d1) \<Rightarrow> Inr (LinkUserBlocked, d1)
      | (Some userId, d1) \<Rightarrow>
     (case lock_referral_inviter userId d1 of
        Inl e \<Rightarrow> Inl e
      | Inr inviter \<Rightarrow>
     (case sql_first (\<lambda>a. a_brokerUserId a = tk_brokerUserId tokens) (accounts d1) of
        None \<Rightarrow>
          (let account = new_account hash tokens activate userId d1;
               d2 = d1\<lparr>accounts := accounts d1 @ [account], next_id := next_id d1 + 1\<rparr> in
           case credit_activation rules activate userId account inviter d2 of
             Inl e \<Rightarrow> Inl e | Inr ((grant, reward), d3) \<Rightarrow> Inr (Linked account grant reward, d3))
      | Some existing \<Rightarrow>
          if a_userId existing \<noteq> userId then Inr (BrokerAccountTaken, d1)
          else let account = relinked hash tokens activate d1 existing;
                   d2 = d1\<lparr>accounts := sql_update (\<lambda>a. a_id a = a_id existing) (relinked hash tokens activate d1) (accounts d1)\<rparr> in
           (case credit_activation rules activate userId account inviter d2 of
              Inl e \<Rightarrow> Inl e | Inr ((grant, reward), d3) \<Rightarrow> Inr (Linked account grant reward, d3)))))"

section \<open>The confirmation\<close>

datatype confirm_result =
  Confirmed account_row link_bonus_grant referral_reward
| ConfirmUserBlocked | ConfirmNotFound | ConfirmNotPending

definition confirm_broker_account ::
  "bonus_rule_row list \<Rightarrow> int \<Rightarrow> nat \<Rightarrow> 'p db \<Rightarrow> tx_error + confirm_result \<times> 'p db" where
  "confirm_broker_account rules telegramUserId accountId d =
     (case sql_first (\<lambda>u. u_telegramUserId u = telegramUserId) (users d) of
        None \<Rightarrow> Inr (ConfirmNotFound, d)
      | Some user \<Rightarrow>
      if u_status user = UBlocked then Inr (ConfirmUserBlocked, d)
      else case lock_referral_inviter (u_id user) d of
        Inl e \<Rightarrow> Inl e
      | Inr inviter \<Rightarrow>
     (case sql_first (\<lambda>a. a_id a = accountId \<and> a_userId a = u_id user) (accounts d) of
        None \<Rightarrow> Inr (ConfirmNotFound, d)
      | Some account \<Rightarrow>
          if a_status account \<noteq> APending then Inr (ConfirmNotPending, d)
          else let confirmed = account\<lparr>a_status := AActive\<rparr>;
                   d1 = d\<lparr>accounts := sql_update (\<lambda>a. a_id a = a_id account) (\<lambda>a. a\<lparr>a_status := AActive\<rparr>) (accounts d)\<rparr>;
                   d2 = attach_deposits_to_account (a_id confirmed) (u_id user) (a_brokerUserId confirmed) d1 in
            (case grant_link_bonus rules (u_id user) account d2 of
               Inl e \<Rightarrow> Inl e
             | Inr (grant, d3) \<Rightarrow>
                 (case grant_referral_reward rules inviter account d3 of
                    Inl e \<Rightarrow> Inl e | Inr (reward, d4) \<Rightarrow> Inr (Confirmed confirmed grant reward, d4)))))"

section \<open>The tokens of an account\<close>

definition set_account :: "nat \<Rightarrow> (account_row \<Rightarrow> account_row) \<Rightarrow> 'p db \<Rightarrow> 'p db" where
  "set_account accountId f d = d\<lparr>accounts := sql_update (\<lambda>a. a_id a = accountId) f (accounts d)\<rparr>"

definition read_user_status :: "nat \<Rightarrow> 'p db \<Rightarrow> tx_error + user_status" where
  "read_user_status userId d =
     (case sql_first (\<lambda>u. u_id u = userId) (users d) of
        None \<Rightarrow> Inl (Thrown ''user vanished under a locked account'') | Some u \<Rightarrow> Inr (u_status u))"

definition read_account_for_token :: "nat \<Rightarrow> 'p db \<Rightarrow> (account_row \<times> user_status) option" where
  "read_account_for_token accountId d =
     (case sql_first (\<lambda>a. a_id a = accountId \<and> list_ex (\<lambda>u. u_id u = a_userId a) (users d)) (accounts d) of
        None \<Rightarrow> None
      | Some a \<Rightarrow> map_option (\<lambda>u. (a, u_status u)) (sql_first (\<lambda>u. u_id u = a_userId a) (users d)))"

definition lock_account_for_refresh :: "nat \<Rightarrow> 'p db \<Rightarrow> tx_error + (account_row \<times> user_status) option" where
  "lock_account_for_refresh accountId d =
     (case sql_first (\<lambda>a. a_id a = accountId) (accounts d) of
        None \<Rightarrow> Inr None
      | Some a \<Rightarrow> (case read_user_status (a_userId a) d of Inl e \<Rightarrow> Inl e | Inr st \<Rightarrow> Inr (Some (a, st))))"

record refreshed_tokens =
  rt_refreshToken :: string
  rt_expiresInSec :: int

definition apply_rotated_tokens :: "(string \<Rightarrow> string) \<Rightarrow> nat \<Rightarrow> refreshed_tokens \<Rightarrow> 'p db \<Rightarrow> 'p db" where
  "apply_rotated_tokens hash accountId tokens d =
     set_account accountId (\<lambda>a. a\<lparr>a_accessTokenExpiresAt := now d + rt_expiresInSec tokens * 1000,
       a_refreshTokenHash := Some (hash (rt_refreshToken tokens))\<rparr>) d"

definition backfill_refresh_token_hash :: "nat \<Rightarrow> string \<Rightarrow> 'p db \<Rightarrow> 'p db" where
  "backfill_refresh_token_hash accountId h d =
     d\<lparr>accounts := sql_update (\<lambda>a. a_id a = accountId \<and> a_refreshTokenHash a = None)
       (\<lambda>a. a\<lparr>a_refreshTokenHash := Some h\<rparr>) (accounts d)\<rparr>"

definition mark_access_token_expired :: "nat \<Rightarrow> 'p db \<Rightarrow> 'p db" where
  "mark_access_token_expired accountId d =
     set_account accountId (\<lambda>a. a\<lparr>a_accessTokenExpiresAt := now d - 24 * 60 * 60 * 1000\<rparr>) d"

datatype revoke_outcome = RevokeDone | AlreadyRevoked "auth_revoked_reason option" | RevokeChanged | RevokeMissing

definition revoked :: "auth_revoked_reason \<Rightarrow> account_row \<Rightarrow> account_row" where
  "revoked reason a = a\<lparr>a_status := ARevoked, a_authRevokedReason := Some reason\<rparr>"

definition revoke_account_if_unchanged ::
  "nat \<Rightarrow> string option \<Rightarrow> auth_revoked_reason \<Rightarrow> 'p db \<Rightarrow> revoke_outcome \<times> 'p db" where
  "revoke_account_if_unchanged accountId refreshTokenHash reason d =
     (let p = (\<lambda>a. a_id a = accountId \<and> a_status a = AActive \<and> a_refreshTokenHash a = refreshTokenHash) in
      if sql_first p (accounts d) \<noteq> None then (RevokeDone, d\<lparr>accounts := sql_update p (revoked reason) (accounts d)\<rparr>)
      else (case sql_first (\<lambda>a. a_id a = accountId) (accounts d) of
              None \<Rightarrow> (RevokeMissing, d)
            | Some a \<Rightarrow> (if a_status a = ARevoked then AlreadyRevoked (a_authRevokedReason a) else RevokeChanged, d)))"

definition revoke_account :: "nat \<Rightarrow> auth_revoked_reason \<Rightarrow> 'p db \<Rightarrow> 'p db" where
  "revoke_account accountId reason d = set_account accountId (revoked reason) d"

definition is_user_blocked :: "int \<Rightarrow> 'p db \<Rightarrow> bool" where
  "is_user_blocked telegramUserId d \<longleftrightarrow>
     (case sql_first (\<lambda>u. u_telegramUserId u = telegramUserId) (users d) of None \<Rightarrow> False | Some u \<Rightarrow> u_status u = UBlocked)"

end
