(* ===== verification/Deposits.thy ===== *)
theory Deposits
  imports Linking
begin

text \<open>
  The start of a user and of a referral (\<^verbatim>\<open>packages/db/src/user-ops.ts\<close>, \<^verbatim>\<open>referral-ops.ts\<close>), the trading
  mode and its switch after a deposit (\<^verbatim>\<open>user-ops.ts\<close>, \<^verbatim>\<open>deposit-mode-switch-ops.ts\<close>), and the broker's
  postbacks (\<^verbatim>\<open>packages/shared/src/postback.ts\<close>, \<^verbatim>\<open>postback-ops.ts\<close>). A plain read ahead of a lock may see
  an older state; that state is an argument.
\<close>

section \<open>The start\<close>

definition REFERRAL_CODE_LENGTH :: nat where "REFERRAL_CODE_LENGTH = 8"
definition REFERRAL_PAYLOAD_PREFIX :: string where "REFERRAL_PAYLOAD_PREFIX = ''ref_''"

definition is_alnum :: "char \<Rightarrow> bool" where
  "is_alnum c \<longleftrightarrow> (let n = (of_char c :: nat) in (48 \<le> n \<and> n \<le> 57) \<or> (65 \<le> n \<and> n \<le> 90) \<or> (97 \<le> n \<and> n \<le> 122))"

definition referral_payload_of :: "string \<Rightarrow> string" where
  "referral_payload_of code = REFERRAL_PAYLOAD_PREFIX @ code"

definition referral_code_of :: "string option \<Rightarrow> string option" where
  "referral_code_of payload =
     (case payload of None \<Rightarrow> None
      | Some p \<Rightarrow>
          if take (length REFERRAL_PAYLOAD_PREFIX) p \<noteq> REFERRAL_PAYLOAD_PREFIX then None
          else let code = drop (length REFERRAL_PAYLOAD_PREFIX) p in
            if length code = REFERRAL_CODE_LENGTH \<and> list_all is_alnum code then Some code else None)"

record user_start =
  start_user :: user_row
  start_hasActive :: bool
  start_pending :: "nat list"
  start_referred :: bool

definition insert_referral :: "string \<Rightarrow> nat \<Rightarrow> 'p db \<Rightarrow> bool \<times> 'p db" where
  "insert_referral code inviteeId d =
     (case sql_first (\<lambda>(u, c). c = code \<and> u \<noteq> inviteeId) (referral_codes d) of
        None \<Rightarrow> (False, d)
      | Some (inviterId, _) \<Rightarrow>
          if list_ex (\<lambda>r. rf_inviteeUserId r = inviteeId) (referrals d) then (False, d)
          else (True, d\<lparr>referrals := referrals d @ [\<lparr>rf_id = next_id d, rf_inviteeUserId = inviteeId, rf_inviterUserId = inviterId\<rparr>],
                 next_id := next_id d + 1\<rparr>))"

text \<open>The pending accounts newest first: the table's order is the order of creation.\<close>

definition record_user_start :: "int \<Rightarrow> string option \<Rightarrow> 'p db \<Rightarrow> user_start \<times> 'p db" where
  "record_user_start telegramUserId startPayload d =
     (let stored = sql_first (\<lambda>u. u_telegramUserId u = telegramUserId) (users d);
          inserted = (stored = None);
          user = (case stored of Some u \<Rightarrow> u | None \<Rightarrow> new_user telegramUserId d);
          d1 = (if inserted then insert_user telegramUserId d else d);
          (referred, d2) = (case (if inserted then referral_code_of startPayload else None) of
             None \<Rightarrow> (False, d1) | Some code \<Rightarrow> insert_referral code (u_id user) d1);
          mine = filter (\<lambda>a. a_userId a = u_id user) (accounts d2) in
      (\<lparr>start_user = user, start_hasActive = list_ex (\<lambda>a. a_status a = AActive) mine,
        start_pending = rev (map a_id (filter (\<lambda>a. a_status a = APending) mine)), start_referred = referred\<rparr>, d2))"

definition REFERRAL_CODE_ATTEMPTS :: nat where "REFERRAL_CODE_ATTEMPTS = 3"

definition select_code :: "nat \<Rightarrow> 'p db \<Rightarrow> string option" where
  "select_code userId d = map_option snd (sql_first (\<lambda>(u, _). u = userId) (referral_codes d))"

definition insert_code :: "nat \<Rightarrow> string \<Rightarrow> 'p db \<Rightarrow> 'p db" where
  "insert_code userId code d =
     (if list_ex (\<lambda>(u, c). u = userId \<or> c = code) (referral_codes d) then d
      else d\<lparr>referral_codes := referral_codes d @ [(userId, code)]\<rparr>)"

text \<open>The attempts, over the codes the generator gives: at most \<open>REFERRAL_CODE_ATTEMPTS\<close> of them.\<close>

fun try_codes :: "nat \<Rightarrow> string list \<Rightarrow> 'p db \<Rightarrow> tx_error + string \<times> 'p db" where
  "try_codes userId [] d = Inl (Thrown ''no free referral code'')"
| "try_codes userId (c # cs) d =
     (let d1 = insert_code userId c d in
      case select_code userId d1 of Some code \<Rightarrow> Inr (code, d1) | None \<Rightarrow> try_codes userId cs d1)"

definition code_of :: "nat \<Rightarrow> string list \<Rightarrow> 'p db \<Rightarrow> tx_error + string \<times> 'p db" where
  "code_of userId generated d =
     (case select_code userId d of
        Some code \<Rightarrow> Inr (code, d)
      | None \<Rightarrow> try_codes userId (take REFERRAL_CODE_ATTEMPTS generated) d)"

record referral_stats =
  rs_invited :: nat
  rs_connected :: nat
  rs_tokensEarned :: int

definition referral_stats_of :: "nat \<Rightarrow> 'p db \<Rightarrow> referral_stats" where
  "referral_stats_of userId d =
     (let mine = filter (\<lambda>r. rf_inviterUserId r = userId) (referrals d) in
      \<lparr>rs_invited = length mine,
       rs_connected = length (filter (\<lambda>r. list_ex (\<lambda>a. a_userId a = rf_inviteeUserId r \<and> a_isPartnerClient a \<and> a_status a \<noteq> APending) (accounts d)) mine),
       rs_tokensEarned = sum_list (map l_balanceDelta (filter (\<lambda>l. l_userId l = userId \<and> l_referralId l \<noteq> None) (token_ledger d)))\<rparr>)"

definition read_user_referral ::
  "int \<Rightarrow> string list \<Rightarrow> 'p db \<Rightarrow> tx_error + (user_status \<times> string option \<times> referral_stats) option \<times> 'p db" where
  "read_user_referral telegramUserId generated d =
     (case sql_first (\<lambda>u. u_telegramUserId u = telegramUserId) (users d) of
        None \<Rightarrow> Inr (None, d)
      | Some user \<Rightarrow>
          if u_status user = UBlocked then Inr (Some (u_status user, None, referral_stats_of (u_id user) d), d)
          else case code_of (u_id user) generated d of
            Inl e \<Rightarrow> Inl e
          | Inr (code, d1) \<Rightarrow> Inr (Some (u_status user, Some code, referral_stats_of (u_id user) d1), d1))"

section \<open>The outcome of a deposit\<close>

definition list_deposits_awaiting_mode_switch :: "nat \<Rightarrow> 'p db \<Rightarrow> nat list" where
  "list_deposits_awaiting_mode_switch limit d =
     map de_id (take limit (sort_key de_createdAt (sort_key de_id
       (filter (\<lambda>e. de_userId e \<noteq> None \<and> de_modeSwitch e = None \<and> de_verified e) (deposits d)))))"

definition mark_where :: "(deposit_row \<Rightarrow> bool) \<Rightarrow> deposit_mode_switch \<Rightarrow> 'p db \<Rightarrow> nat \<times> 'p db" where
  "mark_where p outcome d =
     (let q = (\<lambda>e. p e \<and> de_modeSwitch e = None) in
      (length (filter q (deposits d)), d\<lparr>deposits := sql_update q (\<lambda>e. e\<lparr>de_modeSwitch := Some outcome\<rparr>) (deposits d)\<rparr>))"

definition mark_deposit_mode_switch :: "nat \<Rightarrow> deposit_mode_switch \<Rightarrow> 'p db \<Rightarrow> bool \<times> 'p db" where
  "mark_deposit_mode_switch depositId outcome d =
     (case mark_where (\<lambda>e. de_id e = depositId) outcome d of (n, d1) \<Rightarrow> (0 < n, d1))"

definition mark_user_deposit_mode_switches :: "nat \<Rightarrow> deposit_mode_switch \<Rightarrow> 'p db \<Rightarrow> nat \<times> 'p db" where
  "mark_user_deposit_mode_switches userId outcome d = mark_where (\<lambda>e. de_userId e = Some userId) outcome d"

section \<open>The trading mode\<close>

text \<open>Who switches: the user, or the pass over a deposit (its id).\<close>

definition write_trading_mode :: "(user_row \<Rightarrow> bool) \<Rightarrow> trade_mode \<Rightarrow> nat option \<Rightarrow> 'p db \<Rightarrow> nat option \<times> 'p db" where
  "write_trading_mode by_user mode depositId d =
     (let p = (\<lambda>u. by_user u \<and> u_tradingMode u \<noteq> mode) in
      case sql_first p (users d) of
        None \<Rightarrow> (None, d)
      | Some u \<Rightarrow> (Some (u_id u), d\<lparr>users := sql_update p (\<lambda>u. u\<lparr>u_tradingMode := mode\<rparr>) (users d),
          audit_log := audit_log d @ [AuditModeChanged (u_id u) (if mode = Real then Demo else Real) mode depositId]\<rparr>))"

record set_mode_result =
  sm_tradingMode :: trade_mode
  sm_changed :: bool
  sm_stoppedSessions :: nat

definition set_trading_mode :: "int \<Rightarrow> trade_mode \<Rightarrow> 'p db \<Rightarrow> set_mode_result option \<times> 'p db" where
  "set_trading_mode telegramUserId mode d =
     (case write_trading_mode (\<lambda>u. u_telegramUserId u = telegramUserId) mode None d of
        (Some userId, d1) \<Rightarrow>
          (case stop_user_sessions telegramUserId d1 of
             (stopped, d2) \<Rightarrow>
               (Some \<lparr>sm_tradingMode = mode, sm_changed = True, sm_stoppedSessions = length stopped\<rparr>,
                snd (mark_user_deposit_mode_switches userId Superseded d2)))
      | (None, d1) \<Rightarrow>
          (map_option (\<lambda>u. \<lparr>sm_tradingMode = u_tradingMode u, sm_changed = False, sm_stoppedSessions = 0\<rparr>)
             (sql_first (\<lambda>u. u_telegramUserId u = telegramUserId) (users d1)), d1))"

datatype mode_attempt = Attempt deposit_mode_switch | AttemptSessionActive | AttemptGone

text \<open>What the pass decides for a deposit of this user, under the user's lock.\<close>

definition deposit_attempt :: "deposit_row \<Rightarrow> user_row \<Rightarrow> 'p db \<Rightarrow> mode_attempt" where
  "deposit_attempt deposit user d =
     (if u_status user = UBlocked then Attempt DepositUserBlocked
      else if u_tradingMode user = Real then Attempt AlreadyReal
      else case de_accountId deposit of
        None \<Rightarrow> Attempt DepositAccountInactive
      | Some accountId \<Rightarrow>
          if (case sql_first (\<lambda>a. a_id a = accountId) (accounts d) of None \<Rightarrow> True | Some a \<Rightarrow> a_status a \<noteq> AActive)
          then Attempt DepositAccountInactive
          else if list_ex (\<lambda>s. s_status s \<noteq> SStopped \<and> list_ex (\<lambda>a. a_id a = s_accountId s \<and> a_userId a = u_id user) (accounts d)) (sessions d)
          then AttemptSessionActive
          else Attempt Switched)"

definition switch_trading_mode_on_deposit ::
  "'p db \<Rightarrow> nat \<Rightarrow> bool \<Rightarrow> 'p db \<Rightarrow> tx_error + mode_attempt \<times> 'p db" where
  "switch_trading_mode_on_deposit seen depositId demoOnly d =
     (if demoOnly then
        (case mark_deposit_mode_switch depositId DepositDemoOnly d of
           (marked, d1) \<Rightarrow> Inr (if marked then Attempt DepositDemoOnly else AttemptGone, d1))
      else case sql_first (\<lambda>e. de_id e = depositId) (deposits seen) of
        None \<Rightarrow> Inr (AttemptGone, d)
      | Some deposit \<Rightarrow>
     (case (de_userId deposit, de_modeSwitch deposit) of
        (Some userId, None) \<Rightarrow>
          (case sql_first (\<lambda>u. u_id u = userId) (users d) of
             None \<Rightarrow> Inr (AttemptGone, d)
           | Some user \<Rightarrow>
               (case deposit_attempt deposit user d of
                  Attempt outcome \<Rightarrow>
                    (case (if outcome = Switched then write_trading_mode (\<lambda>u. u_id u = userId) Real (Some depositId) d else (Some userId, d)) of
                       (None, d1) \<Rightarrow> Inl (Thrown ''deposit mode switch: the user changed under its lock'')
                     | (Some _, d1) \<Rightarrow>
                         (case mark_deposit_mode_switch depositId outcome d1 of
                            (marked, d2) \<Rightarrow> if marked then Inr (Attempt outcome, d2) else Inr (AttemptGone, d)))
                | other \<Rightarrow> Inr (other, d)))
      | _ \<Rightarrow> Inr (AttemptGone, d)))"

section \<open>Postbacks\<close>

text \<open>A query is a map of strings; an empty value is an absent one.\<close>

type_synonym postback_query = "string \<Rightarrow> string option"

definition filled :: "postback_query \<Rightarrow> string \<Rightarrow> string option" where
  "filled query key = (case query key of None \<Rightarrow> None | Some v \<Rightarrow> if v = [] then None else Some v)"

definition event_of :: "string option \<Rightarrow> postback_event option" where
  "event_of v = (if v = Some ''deposit'' then Some EventDeposit else if v = Some ''ftd'' then Some EventFtd else None)"

record deposit_postback =
  pb_postbackId :: string
  pb_event :: postback_event
  pb_paymentId :: string
  pb_traderId :: string
  pb_amount :: string

datatype classified_postback =
  DepositPostback deposit_postback
| RejectedPostback postback_reject_reason "string option" "postback_event option"

definition classify_postback :: "postback_query \<Rightarrow> classified_postback" where
  "classify_postback query =
     (case filled query ''id'' of
        None \<Rightarrow> RejectedPostback MissingPostbackId None None
      | Some postbackId \<Rightarrow>
     (case event_of (filled query ''event'') of
        None \<Rightarrow> RejectedPostback UnknownEvent (Some postbackId) None
      | Some event \<Rightarrow>
     (case filled query ''payment_id'' of
        None \<Rightarrow> RejectedPostback MissingPaymentId (Some postbackId) (Some event)
      | Some paymentId \<Rightarrow>
     (case filled query ''a'' of
        None \<Rightarrow> RejectedPostback MissingTraderId (Some postbackId) (Some event)
      | Some traderId \<Rightarrow>
     (case filled query ''amount'' of
        None \<Rightarrow> RejectedPostback InvalidAmount (Some postbackId) (Some event)
      | Some amount \<Rightarrow>
          if \<not> numeric_domain_decimal amount then RejectedPostback InvalidAmount (Some postbackId) (Some event)
          else DepositPostback \<lparr>pb_postbackId = postbackId, pb_event = event, pb_paymentId = paymentId,
            pb_traderId = traderId, pb_amount = amount\<rparr>)))))"

datatype postback_result =
  PostbackRejected postback_reject_reason "string option" "postback_event option"
| PostbackDuplicate string postback_event
| PostbackRecorded string postback_event nat bool
| PostbackRepeated string postback_event nat bool bool

definition journaled :: "string \<Rightarrow> 'p db \<Rightarrow> bool" where
  "journaled postbackId d \<longleftrightarrow> list_ex (\<lambda>v. pd_postbackId v = Some postbackId \<and> pd_outcome v \<noteq> DeliveryRejected) (deliveries d)"

definition insert_delivery :: "delivery_row \<Rightarrow> 'p db \<Rightarrow> 'p db" where
  "insert_delivery v d = d\<lparr>deliveries := deliveries d @ [v], next_id := next_id d + 1\<rparr>"

text \<open>The owner of an account that was confirmed once: a pending one is an unconfirmed claim.\<close>

definition deposit_owner :: "string \<Rightarrow> 'p db \<Rightarrow> (nat \<times> nat) option" where
  "deposit_owner traderId d =
     (case sql_first (\<lambda>a. a_brokerUserId a = traderId) (accounts d) of
        None \<Rightarrow> None
      | Some a \<Rightarrow> if a_status a \<noteq> APending then Some (a_userId a, a_id a) else None)"

definition new_deposit :: "deposit_postback \<Rightarrow> 'p db \<Rightarrow> deposit_row" where
  "new_deposit p d =
     \<lparr>de_id = next_id d, de_userId = map_option fst (deposit_owner (pb_traderId p) d),
      de_accountId = map_option snd (deposit_owner (pb_traderId p) d), de_brokerUserId = pb_traderId p,
      de_paymentId = pb_paymentId p, de_amount = pb_amount p, de_modeSwitch = None, de_verified = True, de_createdAt = now d\<rparr>"

text \<open>The journal's rows.\<close>

definition rejected_delivery :: "postback_reject_reason \<Rightarrow> string option \<Rightarrow> postback_event option \<Rightarrow> nat \<Rightarrow> delivery_row" where
  "rejected_delivery reason postbackId event vid =
     \<lparr>pd_id = vid, pd_postbackId = postbackId, pd_event = event, pd_outcome = DeliveryRejected,
      pd_rejectReason = Some reason, pd_depositId = None\<rparr>"

definition deposit_delivery :: "deposit_postback \<Rightarrow> delivery_outcome \<Rightarrow> nat \<Rightarrow> nat \<Rightarrow> delivery_row" where
  "deposit_delivery p outcome depositId vid =
     \<lparr>pd_id = vid, pd_postbackId = Some (pb_postbackId p), pd_event = Some (pb_event p), pd_outcome = outcome,
      pd_rejectReason = None, pd_depositId = Some depositId\<rparr>"

definition record_postback :: "'p db \<Rightarrow> postback_query \<Rightarrow> 'p db \<Rightarrow> postback_result \<times> 'p db" where
  "record_postback seen query d =
     (case classify_postback query of
        RejectedPostback reason postbackId event \<Rightarrow>
          (PostbackRejected reason postbackId event,
           insert_delivery (rejected_delivery reason postbackId event (next_id d)) d)
      | DepositPostback p \<Rightarrow>
          let duplicate = PostbackDuplicate (pb_postbackId p) (pb_event p) in
          if journaled (pb_postbackId p) seen then (duplicate, d)
          else let stored = sql_first (\<lambda>e. de_paymentId e = pb_paymentId p) (deposits d);
                   row = new_deposit p d;
                   (result, d1) = (case stored of
                      None \<Rightarrow> (PostbackRecorded (pb_postbackId p) (pb_event p) (de_id row) (de_userId row \<noteq> None),
                        d\<lparr>deposits := deposits d @ [row], next_id := next_id d + 1\<rparr>)
                    | Some e \<Rightarrow> (PostbackRepeated (pb_postbackId p) (pb_event p) (de_id e)
                        (normalize_decimal (de_amount e) \<noteq> normalize_decimal (pb_amount p)) (de_brokerUserId e \<noteq> pb_traderId p), d)) in
            if journaled (pb_postbackId p) d then (duplicate, d)
            else (result, insert_delivery (deposit_delivery p (if stored = None then DepositRecorded else DepositRepeated)
              (case stored of None \<Rightarrow> de_id row | Some e \<Rightarrow> de_id e) (next_id d1)) d1))"

end
