(* ===== verification/Accounts_Safe.thy ===== *)
theory Accounts_Safe
  imports Deposits Treasury
begin

text \<open>
  The users and the accounts against the trading tables: what a login, a confirmation, a bonus, a
  revocation, a start, a change of mode and a postback leave as it is. Every operation is made of a
  few elementary changes, each of them beside the trades.
\<close>

section \<open>Beside the trades\<close>

definition aside :: "'p db \<Rightarrow> 'p db \<Rightarrow> bool" where
  "aside d d' \<longleftrightarrow> db_ok d' \<and> progress d d' \<and> trades d' = trades d \<and> outbox d' = outbox d \<and> intents d' = intents d
     \<and> keeps_sessions d d' \<and> same_stars d d'"

lemma aside_refl: "db_ok d \<Longrightarrow> aside d d"
  by (simp add: aside_def keeps_sessions_same)

lemma aside_trans:
  assumes "aside d e" "aside e f" shows "aside d f"
  using assms progress_trans [of d e f] keeps_sessions_trans [of d e f] same_stars_trans [of d e f] by (simp add: aside_def)

text \<open>A change of tables nothing of the trading rests on.\<close>

lemma aside_tables:
  assumes "db_ok d'" "users d' = users d" "accounts d' = accounts d" "intents d' = intents d" "trades d' = trades d"
    "outbox d' = outbox d" "sessions d' = sessions d" "token_ledger d' = token_ledger d"
    "star_payments d' = star_payments d" "refund_requests d' = refund_requests d" "next_id d \<le> next_id d'"
  shows "aside d d'"
proof -
  have "progress d d' = progress d d" using assms unfolding progress_def by simp
  then show ?thesis using assms by (simp add: aside_def keeps_sessions_same same_stars_def)
qed

lemma aside_next: "db_ok d \<Longrightarrow> next_id d \<le> n \<Longrightarrow> aside d (d\<lparr>next_id := n\<rparr>)"
  by (rule aside_tables) (simp_all add: db_ok_next)

section \<open>The elementary changes\<close>

lemma aside_accounts:
  assumes ok: "db_ok d" and f: "\<And>a. a_id (f a) = a_id a \<and> a_userId (f a) = a_userId a \<and> a_brokerUserId (f a) = a_brokerUserId a
      \<and> a_tradingHalted (f a) = a_tradingHalted a \<and> a_haltedReason (f a) = a_haltedReason a"
  shows "aside d (d\<lparr>accounts := sql_update p f (accounts d)\<rparr>)"
proof -
  have "a_tradingHalted a = (a_haltedReason a \<noteq> None)" if "a \<in> set (accounts d)" for a
    using ok that by (simp add: db_ok_def accounts_part_def)
  then have "db_ok (d\<lparr>accounts := sql_update p f (accounts d)\<rparr>)" using f by (intro db_ok_accounts [OF ok]) auto
  moreover have "progress d (d\<lparr>accounts := sql_update p f (accounts d)\<rparr>)"
    using progress_refl [of d] f unfolding progress_def by (auto simp: bex_sql_update)
  ultimately show ?thesis by (simp add: aside_def keeps_sessions_same same_stars_def)
qed

lemma db_ok_users_update:
  assumes ok: "db_ok d" and f: "\<And>u. u_id (f u) = u_id u \<and> u_telegramUserId (f u) = u_telegramUserId u
      \<and> u_tokenBalance (f u) = u_tokenBalance u \<and> u_tokenReserved (f u) = u_tokenReserved u"
  shows "db_ok (d\<lparr>users := sql_update p f (users d)\<rparr>)"
proof -
  have "users_part (sql_update p f (users d)) (intents d) (token_ledger d)"
    using ok f by (auto simp: db_ok_def users_part_def user_row_ok_def ball_sql_update intro!: unique_on_update)
  moreover have "(\<exists>u \<in> set (sql_update p f (users d)). u_id u = i) \<longleftrightarrow> (\<exists>u \<in> set (users d). u_id u = i)" for i
    using f by (auto simp: bex_sql_update)
  moreover have "map u_id (sql_update p f (users d)) = map u_id (users d)" using f by (simp add: map_sql_update)
  ultimately show ?thesis using ok by (simp add: db_ok_def intents_part_def intent_row_ok_def)
qed

lemma aside_users:
  assumes ok: "db_ok d" and f: "\<And>u. u_id (f u) = u_id u \<and> u_telegramUserId (f u) = u_telegramUserId u
      \<and> u_tokenBalance (f u) = u_tokenBalance u \<and> u_tokenReserved (f u) = u_tokenReserved u"
  shows "aside d (d\<lparr>users := sql_update p f (users d)\<rparr>)"
proof -
  have "progress d (d\<lparr>users := sql_update p f (users d)\<rparr>)" using f by (intro progress_users [where p = p and f = f]) simp_all
  then show ?thesis using db_ok_users_update [OF assms] by (simp add: aside_def keeps_sessions_same same_stars_def)
qed

lemma sum_zero: "(\<And>x. x \<in> set xs \<Longrightarrow> f x = 0) \<Longrightarrow> sum_list (map f xs) = (0 :: int)"
  by (induction xs) auto

lemma people_ids:
  assumes "db_ok d"
  shows "u \<in> set (users d) \<Longrightarrow> u_id u < next_id d" "a \<in> set (accounts d) \<Longrightarrow> a_id a < next_id d"
    "l \<in> set (token_ledger d) \<Longrightarrow> l_userId l < next_id d" "r \<in> set (intents d) \<Longrightarrow> i_userId r < next_id d"
proof -
  have p: "people_of d (next_id d)" using assms by (simp add: db_ok_def)
  show us: "u_id u < next_id d" if "u \<in> set (users d)" for u using p that by (simp add: people_part_def)
  show "a \<in> set (accounts d) \<Longrightarrow> a_id a < next_id d" using p by (auto simp: people_part_def)
  show "l \<in> set (token_ledger d) \<Longrightarrow> l_userId l < next_id d" using p by (auto simp: people_part_def)
  show "i_userId r < next_id d" if "r \<in> set (intents d)"
    using db_ok_row [OF assms that] us unfolding intent_row_ok_def by metis
qed

lemma new_ids:
  assumes "db_ok d"
  shows "u \<in> set (users d) \<Longrightarrow> u_id u \<noteq> next_id d" "a \<in> set (accounts d) \<Longrightarrow> a_id a \<noteq> next_id d"
    "l \<in> set (token_ledger d) \<Longrightarrow> l_userId l \<noteq> next_id d" "r \<in> set (intents d) \<Longrightarrow> i_userId r \<noteq> next_id d"
  using people_ids [OF assms] by (metis less_irrefl)+

lemma aside_insert_user:
  assumes ok: "db_ok d" and new: "\<forall>u \<in> set (users d). u_telegramUserId u \<noteq> tg"
  shows "aside d (insert_user tg d)"
proof -
  let ?u = "new_user tg d"
  have "ledger_sum f (next_id d) (token_ledger d) = 0" for f
    using new_ids(3) [OF ok] unfolding ledger_sum_def by (intro sum_zero) simp
  moreover have "held (next_id d) (intents d) = 0"
    using new_ids(4) [OF ok] unfolding held_def by (intro sum_zero) simp
  ultimately have "user_row_ok (intents d) (token_ledger d) ?u" by (simp add: user_row_ok_def new_user_def)
  then have "users_part (users d @ [?u]) (intents d) (token_ledger d)"
    using ok new new_ids(1) [OF ok] by (auto simp: db_ok_def users_part_def unique_on_snoc key_conflict_iff new_user_def)
  moreover have "intents_part (users d @ [?u]) (accounts d) (sessions d) (intents d) (Suc (next_id d))"
    using ok by (auto simp: db_ok_def intents_part_def intent_row_ok_def)
  moreover have "people_part (map u_id (users d @ [?u])) (map (\<lambda>a. (a_id a, a_userId a)) (accounts d)) (map l_userId (token_ledger d)) (Suc (next_id d))"
    using ok by (auto simp: db_ok_def people_part_def new_user_def)
  ultimately have "db_ok (insert_user tg d)" using ok by (simp add: db_ok_def insert_user_def part_Suc)
  moreover have "progress d (insert_user tg d)" using progress_refl [of d] unfolding progress_def insert_user_def by auto
  ultimately show ?thesis by (simp add: aside_def keeps_sessions_same same_stars_def insert_user_def)
qed

lemma aside_insert_account:
  assumes ok: "db_ok d" and new: "\<forall>a \<in> set (accounts d). a_brokerUserId a \<noteq> a_brokerUserId acc" "a_id acc = next_id d"
    and u: "u \<in> set (users d)" "u_id u = a_userId acc" and halt: "a_tradingHalted acc = (a_haltedReason acc \<noteq> None)"
  shows "aside d (d\<lparr>accounts := accounts d @ [acc], next_id := Suc (next_id d)\<rparr>)" (is "aside d ?d")
proof -
  have "accounts_part (accounts d @ [acc])"
    using ok new halt new_ids(2) [OF ok] by (auto simp: db_ok_def accounts_part_def unique_on_snoc key_conflict_iff)
  moreover have "intents_part (users d) (accounts d @ [acc]) (sessions d) (intents d) (Suc (next_id d))"
    "sessions_part (accounts d @ [acc]) (sessions d) (Suc (next_id d))"
    using ok by (auto simp: db_ok_def intents_part_def intent_row_ok_def sessions_part_def session_row_ok_def)
  moreover have "a_userId acc \<in> u_id ` set (users d)" using u by (metis imageI)
  then have "people_of ?d (Suc (next_id d))"
    using ok new(2) unfolding db_ok_def people_part_def by (auto simp: less_Suc_eq)
  ultimately have "db_ok ?d" using ok by (simp add: db_ok_def part_Suc)
  moreover have "progress d ?d" using progress_refl [of d] unfolding progress_def by auto
  ultimately show ?thesis by (simp add: aside_def keeps_sessions_same same_stars_def)
qed

lemma aside_balance:
  assumes ok: "db_ok d" and l: "balance_row l" "l_starPaymentId l = None" "0 \<le> l_balanceDelta l" and u: "u \<in> set (users d)" "u_id u = l_userId l"
  shows "aside d (balance_moved l d)"
proof -
  have "u_tokenReserved u \<le> u_tokenBalance u" using ok u(1) by (simp add: db_ok_def users_part_def user_row_ok_def)
  then have "db_ok (balance_moved l d)" using l(3) by (intro balance_moved_ok [OF ok l(1) u]) simp
  moreover have "progress d (balance_moved l d)"
    by (rule progress_users [where p = "\<lambda>u. u_id u = l_userId l" and f = "\<lambda>u. u\<lparr>u_tokenBalance := u_tokenBalance u + l_balanceDelta l\<rparr>"])
      (simp_all add: balance_moved_def)
  ultimately show ?thesis using l(2) by (simp add: aside_def keeps_sessions_same same_stars_def)
qed

lemma aside_sessions:
  assumes "db_ok d" "session_change d d'" shows "aside d d'"
proof -
  from session_change_facts [OF assms(2)] have f: "only_sessions d d'" "keeps_sessions d d'" "db_ok d'" using assms(1) by blast+
  have "same_stars d d'" using same_treasury_stars only_sessions_treasury f(1) by blast
  moreover have "progress d d' = progress d d" using only_sessions_same [OF f(1)] unfolding progress_def by simp
  ultimately show ?thesis using f only_sessions_same [OF f(1)] by (simp add: aside_def)
qed

section \<open>The operations\<close>

lemma resolve_active_rule_cases:
  assumes "resolve_active_rule code rules t = Inr (Some (rule, terms))"
  shows "rule \<in> set rules \<and> active_rule_where code t rule \<and> parse_bonus_rule_params (br_kind rule) (br_params rule) = Some terms"
  using assms by (auto simp: resolve_active_rule_def split: option.splits dest!: sql_first_Some)

lemma rule_tokens_pos: "rule_tokens v = Some n \<Longrightarrow> 0 \<le> n"
  by (auto simp: rule_tokens_def split: json_value.splits if_splits)

lemma parse_tokens_pos: "parse_bonus_rule_params k ps = Some (FixedTokens n) \<Longrightarrow> 0 \<le> n"
  by (auto simp: parse_bonus_rule_params_def fixed_tokens_params_def deposit_bonus_params_def field_def rule_tokens_pos
      split: option.splits bonus_rule_kind.splits if_splits prod.splits)

text \<open>A grant writes one row and moves one balance, or nothing.\<close>

lemma apply_bonus_cases:
  assumes "apply_bonus rules code userId ref d = Inr (g, d')"
  shows "(\<exists>reason. g = BonusSkipped reason \<and> d' = d)
    \<or> (\<exists>rule tokens. g = BonusGranted tokens (br_id rule) (br_version rule) \<and> rule \<in> set rules
         \<and> active_rule_where code (now d) rule \<and> br_kind rule = reference_kind ref
         \<and> parse_bonus_rule_params (br_kind rule) (br_params rule) = Some (FixedTokens tokens)
         \<and> \<not> reference_conflict ref (bonus_ledger_row userId ref rule tokens (now d)) (token_ledger d)
         \<and> d' = balance_moved (bonus_ledger_row userId ref rule tokens (now d)) d)"
proof (cases "resolve_active_rule code rules (now d)")
  case (Inl e)
  then show ?thesis using assms by (simp add: apply_bonus_def)
next
  case r: (Inr x)
  show ?thesis
  proof (cases x)
    case None
    then show ?thesis using assms r by (auto simp: apply_bonus_def)
  next
    case (Some y)
    obtain rule terms where y: "y = (rule, terms)" by (cases y)
    note res = resolve_active_rule_cases [OF r [unfolded Some y]]
    have k: "br_kind rule = reference_kind ref" using assms r Some y by (auto simp: apply_bonus_def split: if_splits)
    obtain tokens where t: "terms = FixedTokens tokens"
      using assms r Some y k by (cases terms) (auto simp: apply_bonus_def)
    let ?row = "bonus_ledger_row userId ref rule tokens (now d)"
    show ?thesis
    proof (cases "reference_conflict ref ?row (token_ledger d)")
      case True
      then show ?thesis using assms r Some y k t by (auto simp: apply_bonus_def Let_def)
    next
      case False
      then have "g = BonusGranted tokens (br_id rule) (br_version rule) \<and> d' = balance_moved ?row d"
        using assms r Some y k t
        by (auto simp: apply_bonus_def Let_def insert_ledger_def balance_moved_def split: sum.splits if_splits)
          (simp_all add: bonus_ledger_row_def)
      then show ?thesis using res k t False by blast
    qed
  qed
qed

lemma bonus_row_simps [simp]:
  "l_userId (bonus_ledger_row u ref rule n t) = u" "l_kind (bonus_ledger_row u ref rule n t) = LBonus"
  "l_balanceDelta (bonus_ledger_row u ref rule n t) = n" "l_starPaymentId (bonus_ledger_row u ref rule n t) = None"
  "l_accountId (bonus_ledger_row u ref rule n t) = reference_account ref"
  "l_referralId (bonus_ledger_row u ref rule n t) = reference_referral ref"
  "l_bonusRule (bonus_ledger_row u ref rule n t) = Some (br_id rule, br_kind rule)"
  "balance_row (bonus_ledger_row u ref rule n t)"
  by (simp_all add: bonus_ledger_row_def balance_row_def)

lemma apply_bonus_aside:
  assumes "apply_bonus rules code userId ref d = Inr (g, d')" "db_ok d" "\<exists>u \<in> set (users d). u_id u = userId"
  shows "aside d d'"
  using apply_bonus_cases [OF assms(1)]
proof (elim disjE exE conjE)
  fix rule tokens
  assume p: "parse_bonus_rule_params (br_kind rule) (br_params rule) = Some (FixedTokens tokens)"
    and d': "d' = balance_moved (bonus_ledger_row userId ref rule tokens (now d)) d"
  show ?thesis unfolding d' using assms(3) parse_tokens_pos [OF p] by (auto intro: aside_balance [OF assms(2)])
qed (simp add: aside_refl assms(2))

lemma grant_link_bonus_aside:
  assumes "grant_link_bonus rules userId account d = Inr (g, d')" "db_ok d" "\<exists>u \<in> set (users d). u_id u = userId"
  shows "aside d d'"
proof (cases "a_isPartnerClient account")
  case False
  then show ?thesis using assms by (simp add: grant_link_bonus_def aside_refl)
next
  case True
  then obtain h where "apply_bonus rules LINK_BONUS_RULE_CODE userId (AccountReference (a_id account)) d = Inr (h, d')"
    using assms(1) by (auto simp: grant_link_bonus_def split: sum.splits prod.splits bonus_grant.splits)
  then show ?thesis using assms(2,3) by (rule apply_bonus_aside)
qed

definition inviter_known :: "referral_inviter \<Rightarrow> 'p db \<Rightarrow> bool" where
  "inviter_known inviter d \<longleftrightarrow>
     (case inviter of InviterOpen rid iid blocked \<Rightarrow> \<exists>u \<in> set (users d). u_id u = iid | _ \<Rightarrow> True)"

lemma lock_referral_inviter_known: "lock_referral_inviter uid d = Inr inviter \<Longrightarrow> inviter_known inviter d"
  by (auto simp: lock_referral_inviter_def inviter_known_def split: option.splits if_splits dest!: sql_first_Some)

lemma users_later: "progress d d' \<Longrightarrow> \<exists>u \<in> set (users d). u_id u = k \<Longrightarrow> \<exists>u \<in> set (users d'). u_id u = k"
  unfolding progress_def by metis

lemma inviter_known_later: "progress d d' \<Longrightarrow> inviter_known inviter d \<Longrightarrow> inviter_known inviter d'"
  using users_later [of d d'] by (simp add: inviter_known_def split: referral_inviter.splits)

lemma grant_referral_reward_cases:
  assumes "grant_referral_reward rules inviter account d = Inr (g, d')"
  shows "d' = d \<or> (\<exists>rid iid h. inviter = InviterOpen rid iid False \<and> a_isPartnerClient account
    \<and> apply_bonus rules REFERRAL_REWARD_RULE_CODE iid (ReferralReference rid) d = Inr (h, d'))"
proof (cases inviter)
  case (InviterOpen rid iid blocked)
  then show ?thesis using assms
    by (cases blocked) (auto simp: grant_referral_reward_def split: if_splits sum.splits prod.splits bonus_grant.splits bonus_skip.splits)
qed (use assms in \<open>auto simp: grant_referral_reward_def split: if_splits\<close>)

lemma grant_referral_reward_aside:
  assumes "grant_referral_reward rules inviter account d = Inr (g, d')" "db_ok d" "inviter_known inviter d"
  shows "aside d d'"
  using grant_referral_reward_cases [OF assms(1)]
proof (elim disjE exE conjE)
  fix rid iid h
  assume "inviter = InviterOpen rid iid False" "apply_bonus rules REFERRAL_REWARD_RULE_CODE iid (ReferralReference rid) d = Inr (h, d')"
  then show ?thesis using assms(2,3) by (intro apply_bonus_aside) (auto simp: inviter_known_def)
qed (simp add: aside_refl assms(2))

lemma attach_aside: "db_ok d \<Longrightarrow> aside d (attach_deposits_to_account a u b d)"
  by (rule aside_tables) (simp_all add: attach_deposits_to_account_def)

lemma aside_db_ok: "aside d d' \<Longrightarrow> db_ok d'" and aside_progress: "aside d d' \<Longrightarrow> progress d d'"
  by (simp_all add: aside_def)

lemma credit_activation_aside:
  assumes "credit_activation rules activate userId account inviter d = Inr (x, d')" "db_ok d"
    "\<exists>u \<in> set (users d). u_id u = userId" "inviter_known inviter d"
  shows "aside d d'"
proof (cases activate)
  case False
  show ?thesis
  proof (cases "a_status account = AActive")
    case True
    then obtain g where "grant_referral_reward rules inviter account d = Inr (g, d')"
      using assms(1) False by (auto simp: credit_activation_def split: sum.splits prod.splits)
    then show ?thesis using assms(2,4) by (rule grant_referral_reward_aside)
  next
    case no: False
    then show ?thesis using assms(1,2) False by (simp add: credit_activation_def aside_refl)
  qed
next
  case True
  let ?d1 = "attach_deposits_to_account (a_id account) userId (a_brokerUserId account) d"
  obtain g d2 h where g: "grant_link_bonus rules userId account ?d1 = Inr (g, d2)" "grant_referral_reward rules inviter account d2 = Inr (h, d')"
    using assms(1) True by (auto simp: credit_activation_def split: sum.splits prod.splits)
  have a1: "aside d ?d1" by (rule attach_aside [OF assms(2)])
  have a2: "aside ?d1 d2"
    by (rule grant_link_bonus_aside [OF g(1) aside_db_ok [OF a1] users_later [OF aside_progress [OF a1] assms(3)]])
  have p: "progress d d2" using a1 a2 aside_trans aside_progress by blast
  have a3: "aside d2 d'"
    by (rule grant_referral_reward_aside [OF g(2) aside_db_ok [OF a2] inviter_known_later [OF p assms(4)]])
  show ?thesis using a1 a2 a3 aside_trans by blast
qed

lemma upsert_user_aside:
  assumes "upsert_user tg d = (x, d')" "db_ok d"
  shows "aside d d'" "x = Some uid \<Longrightarrow> \<exists>u \<in> set (users d'). u_id u = uid \<and> u_telegramUserId u = tg \<and> u_status u \<noteq> UBlocked"
proof -
  have "aside d d' \<and> (x = Some uid \<longrightarrow> (\<exists>u \<in> set (users d'). u_id u = uid \<and> u_telegramUserId u = tg \<and> u_status u \<noteq> UBlocked))"
  proof (cases "sql_first (\<lambda>u. u_telegramUserId u = tg) (users d)")
    case None
    then have "\<forall>u \<in> set (users d). u_telegramUserId u \<noteq> tg" by (auto simp: sql_first_None)
    then show ?thesis using aside_insert_user [OF assms(2)] None assms(1)
      by (auto simp: upsert_user_def insert_user_def new_user_def)
  next
    case (Some u)
    then show ?thesis using assms sql_first_Some [OF Some] by (auto simp: upsert_user_def aside_refl split: if_splits)
  qed
  then show "aside d d'" "x = Some uid \<Longrightarrow> \<exists>u \<in> set (users d'). u_id u = uid \<and> u_telegramUserId u = tg \<and> u_status u \<noteq> UBlocked"
    by blast+
qed

text \<open>A login: the user, the account as it becomes, and what it pays.\<close>

lemma link_broker_account_cases:
  assumes "link_broker_account hash rules tg tokens activate d = Inr (r, d')"
  obtains (blocked) d1 where "upsert_user tg d = (None, d1)" "r = LinkUserBlocked" "d' = d1"
  | (taken) uid d1 a where "upsert_user tg d = (Some uid, d1)" "a \<in> set (accounts d1)" "a_brokerUserId a = tk_brokerUserId tokens"
      "a_userId a \<noteq> uid" "r = BrokerAccountTaken" "d' = d1"
  | (created) uid d1 inviter x where "upsert_user tg d = (Some uid, d1)" "lock_referral_inviter uid d1 = Inr inviter"
      "\<forall>a \<in> set (accounts d1). a_brokerUserId a \<noteq> tk_brokerUserId tokens"
      "credit_activation rules activate uid (new_account hash tokens activate uid d1) inviter
         (d1\<lparr>accounts := accounts d1 @ [new_account hash tokens activate uid d1], next_id := Suc (next_id d1)\<rparr>) = Inr (x, d')"
      "r = Linked (new_account hash tokens activate uid d1) (fst x) (snd x)"
  | (relogin) uid d1 inviter a x where "upsert_user tg d = (Some uid, d1)" "lock_referral_inviter uid d1 = Inr inviter"
      "a \<in> set (accounts d1)" "a_brokerUserId a = tk_brokerUserId tokens" "a_userId a = uid"
      "credit_activation rules activate uid (relinked hash tokens activate d1 a) inviter
         (d1\<lparr>accounts := sql_update (\<lambda>b. a_id b = a_id a) (relinked hash tokens activate d1) (accounts d1)\<rparr>) = Inr (x, d')"
      "r = Linked (relinked hash tokens activate d1 a) (fst x) (snd x)"
proof -
  obtain y d1 where up: "upsert_user tg d = (y, d1)" by (cases "upsert_user tg d")
  show thesis
  proof (cases y)
    case None
    then show thesis using blocked up assms by (auto simp: link_broker_account_def)
  next
    case (Some uid)
    note y = Some
    obtain inviter where inv: "lock_referral_inviter uid d1 = Inr inviter"
      using assms up y by (auto simp: link_broker_account_def split: sum.splits)
    show thesis
    proof (cases "sql_first (\<lambda>a. a_brokerUserId a = tk_brokerUserId tokens) (accounts d1)")
      case None
      then have new: "\<forall>a \<in> set (accounts d1). a_brokerUserId a \<noteq> tk_brokerUserId tokens" by (simp add: sql_first_None)
      have "\<exists>x. credit_activation rules activate uid (new_account hash tokens activate uid d1) inviter
          (d1\<lparr>accounts := accounts d1 @ [new_account hash tokens activate uid d1], next_id := Suc (next_id d1)\<rparr>) = Inr (x, d')
        \<and> r = Linked (new_account hash tokens activate uid d1) (fst x) (snd x)"
        using assms up y inv None by (auto simp: link_broker_account_def Let_def split: sum.splits prod.splits)
      then show thesis by (elim exE conjE) (rule created [OF up [unfolded y] inv new])
    next
      case (Some a)
      note a = sql_first_Some [OF Some]
      show thesis
      proof (cases "a_userId a = uid")
        case False
        then have "r = BrokerAccountTaken \<and> d' = d1" using assms up y inv Some by (auto simp: link_broker_account_def)
        then show thesis using taken [OF up [unfolded y]] a False by blast
      next
        case True
        have "\<exists>x. credit_activation rules activate uid (relinked hash tokens activate d1 a) inviter
            (d1\<lparr>accounts := sql_update (\<lambda>b. a_id b = a_id a) (relinked hash tokens activate d1) (accounts d1)\<rparr>) = Inr (x, d')
          \<and> r = Linked (relinked hash tokens activate d1 a) (fst x) (snd x)"
          using assms up y inv Some True by (auto simp: link_broker_account_def Let_def split: sum.splits prod.splits)
        then show thesis using a True by (elim exE conjE) (rule relogin [OF up [unfolded y] inv])
      qed
    qed
  qed
qed

lemma link_broker_account_aside:
  assumes t: "link_broker_account hash rules tg tokens activate d = Inr (r, d')" and ok: "db_ok d"
  shows "aside d d'"
  using t
proof (cases rule: link_broker_account_cases)
  case (blocked d1)
  then show ?thesis using upsert_user_aside(1) ok by blast
next
  case (taken uid d1 a)
  then show ?thesis using upsert_user_aside(1) ok by blast
next
  case (created uid d1 inviter x)
  have a1: "aside d d1" and u: "\<exists>u \<in> set (users d1). u_id u = uid"
    using upsert_user_aside [OF created(1) ok] by blast+
  let ?acc = "new_account hash tokens activate uid d1"
  let ?d2 = "d1\<lparr>accounts := accounts d1 @ [?acc], next_id := Suc (next_id d1)\<rparr>"
  from u obtain v where v: "v \<in> set (users d1)" "u_id v = a_userId ?acc" by (auto simp: new_account_def)
  have a2: "aside d1 ?d2" using created(3) by (intro aside_insert_account [OF aside_db_ok [OF a1] _ _ v]) (simp_all add: new_account_def)
  have "aside ?d2 d'"
    using u lock_referral_inviter_known [OF created(2)]
    by (intro credit_activation_aside [OF created(4) aside_db_ok [OF a2]]) (simp_all add: inviter_known_def split: referral_inviter.splits)
  then show ?thesis using a1 a2 aside_trans by blast
next
  case (relogin uid d1 inviter a x)
  have a1: "aside d d1" and u: "\<exists>u \<in> set (users d1). u_id u = uid"
    using upsert_user_aside [OF relogin(1) ok] by blast+
  let ?d2 = "d1\<lparr>accounts := sql_update (\<lambda>b. a_id b = a_id a) (relinked hash tokens activate d1) (accounts d1)\<rparr>"
  have a2: "aside d1 ?d2" by (rule aside_accounts [OF aside_db_ok [OF a1]]) (simp add: relinked_def)
  have "aside ?d2 d'"
    using u lock_referral_inviter_known [OF relogin(2)]
    by (intro credit_activation_aside [OF relogin(6) aside_db_ok [OF a2]]) (simp_all add: inviter_known_def split: referral_inviter.splits)
  then show ?thesis using a1 a2 aside_trans by blast
qed

text \<open>A confirmation that changes something: the pending account of a user who is not blocked.\<close>

lemma confirm_broker_account_cases:
  assumes "confirm_broker_account rules tg accountId d = Inr (r, d')"
  obtains (unchanged) "d' = d" "r = ConfirmNotFound \<or> r = ConfirmUserBlocked \<or> r = ConfirmNotPending"
  | (confirmed) u a inviter g d3 h where "u \<in> set (users d)" "u_telegramUserId u = tg" "u_status u \<noteq> UBlocked"
      "lock_referral_inviter (u_id u) d = Inr inviter" "a \<in> set (accounts d)" "a_id a = accountId" "a_userId a = u_id u" "a_status a = APending"
      "grant_link_bonus rules (u_id u) a (attach_deposits_to_account accountId (u_id u) (a_brokerUserId a)
         (d\<lparr>accounts := sql_update (\<lambda>b. a_id b = accountId) (\<lambda>b. b\<lparr>a_status := AActive\<rparr>) (accounts d)\<rparr>)) = Inr (g, d3)"
      "grant_referral_reward rules inviter a d3 = Inr (h, d')" "r = Confirmed (a\<lparr>a_status := AActive\<rparr>) g h"
proof (cases "sql_first (\<lambda>u. u_telegramUserId u = tg) (users d)")
  case None
  then show thesis using unchanged assms by (auto simp: confirm_broker_account_def)
next
  case (Some u)
  note u = Some
  note um = sql_first_Some [OF u]
  show thesis
  proof (cases "u_status u = UBlocked")
    case True
    then show thesis using unchanged assms u by (auto simp: confirm_broker_account_def)
  next
    case False
    obtain inviter where inv: "lock_referral_inviter (u_id u) d = Inr inviter"
      using assms u False by (auto simp: confirm_broker_account_def split: sum.splits)
    show thesis
    proof (cases "sql_first (\<lambda>a. a_id a = accountId \<and> a_userId a = u_id u) (accounts d)")
      case None
      then show thesis using unchanged assms u False inv by (auto simp: confirm_broker_account_def)
    next
      case (Some a)
      note am = sql_first_Some [OF Some]
      show thesis
      proof (cases "a_status a = APending")
        case no: False
        then show thesis using unchanged assms u False inv Some by (auto simp: confirm_broker_account_def)
      next
        case True
        have "\<exists>g d3 h. grant_link_bonus rules (u_id u) a (attach_deposits_to_account accountId (u_id u) (a_brokerUserId a)
            (d\<lparr>accounts := sql_update (\<lambda>b. a_id b = accountId) (\<lambda>b. b\<lparr>a_status := AActive\<rparr>) (accounts d)\<rparr>)) = Inr (g, d3)
          \<and> grant_referral_reward rules inviter a d3 = Inr (h, d') \<and> r = Confirmed (a\<lparr>a_status := AActive\<rparr>) g h"
          using assms u False inv Some True am by (auto simp: confirm_broker_account_def Let_def split: sum.splits prod.splits)
        then show thesis using um am False True inv by (elim exE conjE) (rule confirmed, auto)
      qed
    qed
  qed
qed

lemma confirm_broker_account_aside:
  assumes t: "confirm_broker_account rules tg accountId d = Inr (r, d')" and ok: "db_ok d"
  shows "aside d d'"
  using t
proof (cases rule: confirm_broker_account_cases)
  case unchanged
  then show ?thesis using ok aside_refl by simp
next
  case (confirmed u a inviter g d3 h)
  let ?d1 = "d\<lparr>accounts := sql_update (\<lambda>b. a_id b = accountId) (\<lambda>b. b\<lparr>a_status := AActive\<rparr>) (accounts d)\<rparr>"
  let ?d2 = "attach_deposits_to_account accountId (u_id u) (a_brokerUserId a) ?d1"
  have a1: "aside d ?d1" by (rule aside_accounts [OF ok]) simp
  have a2: "aside ?d1 ?d2" by (rule attach_aside [OF aside_db_ok [OF a1]])
  have p2: "aside d ?d2" using a1 a2 aside_trans by blast
  have u: "\<exists>v \<in> set (users d). u_id v = u_id u" using confirmed(1) by blast
  have a3: "aside ?d2 d3"
    by (rule grant_link_bonus_aside [OF confirmed(9) aside_db_ok [OF a2] users_later [OF aside_progress [OF p2] u]])
  have p3: "aside d d3" using p2 a3 aside_trans by blast
  have "aside d3 d'"
    by (rule grant_referral_reward_aside [OF confirmed(10) aside_db_ok [OF a3]
          inviter_known_later [OF aside_progress [OF p3] lock_referral_inviter_known [OF confirmed(4)]]])
  then show ?thesis using p3 aside_trans by blast
qed

lemma token_ops_aside:
  assumes "db_ok d"
  shows "aside d (apply_rotated_tokens hash a ts d)" "aside d (backfill_refresh_token_hash a h d)"
    "aside d (mark_access_token_expired a d)" "aside d (revoke_account a reason d)"
    "aside d (snd (revoke_account_if_unchanged a h0 reason d))"
  using assms aside_refl [OF assms]
  by (auto simp: apply_rotated_tokens_def backfill_refresh_token_hash_def mark_access_token_expired_def revoke_account_def
      revoke_account_if_unchanged_def set_account_def revoked_def Let_def intro!: aside_accounts split: option.splits)

lemma record_user_start_cases:
  assumes "record_user_start tg payload d = (s, d')"
  shows "(\<exists>u \<in> set (users d). u_telegramUserId u = tg \<and> d' = d)
    \<or> ((\<forall>u \<in> set (users d). u_telegramUserId u \<noteq> tg)
       \<and> (d' = insert_user tg d \<or> (\<exists>code. referral_code_of payload = Some code \<and> d' = snd (insert_referral code (next_id d) (insert_user tg d)))))"
proof (cases "sql_first (\<lambda>u. u_telegramUserId u = tg) (users d)")
  case None
  have "\<forall>u \<in> set (users d). u_telegramUserId u \<noteq> tg" using None by (simp add: sql_first_None)
  moreover have "u_id (new_user tg d) = next_id d" by (simp add: new_user_def)
  ultimately show ?thesis using assms None
    by (cases "referral_code_of payload") (auto simp: record_user_start_def Let_def split: prod.splits)
next
  case (Some u)
  then show ?thesis using assms sql_first_Some [OF Some] by (auto simp: record_user_start_def Let_def)
qed

lemma insert_referral_aside: "db_ok d \<Longrightarrow> aside d (snd (insert_referral code iid d))"
  by (auto simp: insert_referral_def aside_refl db_ok_next intro!: aside_tables split: option.splits)

lemma record_user_start_aside:
  assumes "record_user_start tg payload d = (s, d')" "db_ok d" shows "aside d d'"
  using record_user_start_cases [OF assms(1)] aside_insert_user [OF assms(2), of tg] aside_refl [OF assms(2)]
    insert_referral_aside aside_trans aside_db_ok by metis

lemma insert_code_aside: "db_ok d \<Longrightarrow> aside d (insert_code uid c d)"
  by (auto simp: insert_code_def aside_refl intro!: aside_tables)

lemma try_codes_aside: "try_codes uid cs d = Inr (c, d') \<Longrightarrow> db_ok d \<Longrightarrow> aside d d'"
proof (induction cs arbitrary: d)
  case (Cons c cs)
  have a: "aside d (insert_code uid c d)" by (rule insert_code_aside [OF Cons.prems(2)])
  show ?case
  proof (cases "select_code uid (insert_code uid c d)")
    case None
    then show ?thesis using Cons.IH [OF _ aside_db_ok [OF a]] Cons.prems(1) a aside_trans by (auto simp: Let_def)
  next
    case (Some x)
    then show ?thesis using Cons.prems(1) a by (auto simp: Let_def)
  qed
qed simp

lemma read_user_referral_aside:
  assumes "read_user_referral tg gen d = Inr (x, d')" "db_ok d" shows "aside d d'"
  using assms by (auto simp: read_user_referral_def code_of_def aside_refl dest: try_codes_aside split: option.splits if_splits sum.splits prod.splits)

lemma mark_where_aside: "db_ok d \<Longrightarrow> aside d (snd (mark_where p outcome d))"
  by (auto simp: mark_where_def Let_def intro!: aside_tables)

lemma write_trading_mode_aside:
  assumes "write_trading_mode p mode e d = (x, d')" "db_ok d" shows "aside d d'"
proof (cases x)
  case None
  then show ?thesis using assms by (auto simp: write_trading_mode_def Let_def aside_refl split: option.splits)
next
  case (Some uid)
  let ?d1 = "d\<lparr>users := sql_update (\<lambda>u. p u \<and> u_tradingMode u \<noteq> mode) (\<lambda>u. u\<lparr>u_tradingMode := mode\<rparr>) (users d)\<rparr>"
  have a: "aside d ?d1" by (rule aside_users [OF assms(2)]) simp
  have "\<exists>al. d' = ?d1\<lparr>audit_log := al\<rparr>" using assms(1) Some by (auto simp: write_trading_mode_def Let_def split: option.splits)
  moreover have "aside ?d1 (?d1\<lparr>audit_log := al\<rparr>)" for al using aside_db_ok [OF a] by (intro aside_tables) simp_all
  ultimately show ?thesis using a aside_trans by blast
qed

lemma set_trading_mode_cases:
  assumes "set_trading_mode tg mode d = (x, d')"
  shows "(\<exists>d1. write_trading_mode (\<lambda>u. u_telegramUserId u = tg) mode None d = (None, d1) \<and> d' = d1)
    \<or> (\<exists>uid d1 st d2. write_trading_mode (\<lambda>u. u_telegramUserId u = tg) mode None d = (Some uid, d1)
         \<and> stop_user_sessions tg d1 = (st, d2) \<and> d' = snd (mark_where (\<lambda>e. de_userId e = Some uid) Superseded d2)
         \<and> x = Some \<lparr>sm_tradingMode = mode, sm_changed = True, sm_stoppedSessions = length st\<rparr>)"
  using assms by (auto simp: set_trading_mode_def mark_user_deposit_mode_switches_def split: prod.splits option.splits)

lemma set_trading_mode_aside:
  assumes "set_trading_mode tg mode d = (x, d')" "db_ok d" shows "aside d d'"
  using set_trading_mode_cases [OF assms(1)]
proof (elim disjE exE conjE)
  fix d1 assume "write_trading_mode (\<lambda>u. u_telegramUserId u = tg) mode None d = (None, d1)" "d' = d1"
  then show ?thesis using write_trading_mode_aside assms(2) by blast
next
  fix uid d1 st d2
  assume w: "write_trading_mode (\<lambda>u. u_telegramUserId u = tg) mode None d = (Some uid, d1)" "stop_user_sessions tg d1 = (st, d2)"
    "d' = snd (mark_where (\<lambda>e. de_userId e = Some uid) Superseded d2)"
  have a1: "aside d d1" by (rule write_trading_mode_aside [OF w(1) assms(2)])
  have a2: "aside d1 d2" by (rule aside_sessions [OF aside_db_ok [OF a1]]) (rule StopUser [OF w(2)])
  show ?thesis unfolding w(3) using mark_where_aside [OF aside_db_ok [OF a2]] a1 a2 aside_trans by blast
qed

text \<open>The pass over a deposit writes its outcome, after the mode when it switches, or nothing.\<close>

lemma attempt_written:
  assumes "(case attempt of
                  Attempt outcome \<Rightarrow>
                    (case (if outcome = Switched then write_trading_mode (\<lambda>u. u_id u = uid) Real (Some eid) d else (Some uid, d)) of
                       (None, d1) \<Rightarrow> Inl (Thrown ''deposit mode switch: the user changed under its lock'')
                     | (Some _, d1) \<Rightarrow>
                         (case mark_deposit_mode_switch eid outcome d1 of
                            (marked, d2) \<Rightarrow> if marked then Inr (Attempt outcome, d2) else Inr (AttemptGone, d)))
                | other \<Rightarrow> Inr (other, d)) = Inr (x, d')"
  shows "d' = d \<or> (\<exists>outcome v d1. x = Attempt outcome
         \<and> (d1 = d \<and> outcome \<noteq> Switched \<or> outcome = Switched \<and> write_trading_mode (\<lambda>u. u_id u = uid) Real (Some eid) d = (Some v, d1))
         \<and> d' = snd (mark_where (\<lambda>e. de_id e = eid) outcome d1))"
proof (cases attempt)
  case (Attempt outcome)
  obtain w d1 where w: "(if outcome = Switched then write_trading_mode (\<lambda>u. u_id u = uid) Real (Some eid) d else (Some uid, d)) = (w, d1)"
    by (cases "if outcome = Switched then write_trading_mode (\<lambda>u. u_id u = uid) Real (Some eid) d else (Some uid, d)")
  obtain n d2 where m: "mark_where (\<lambda>e. de_id e = eid) outcome d1 = (n, d2)" by (cases "mark_where (\<lambda>e. de_id e = eid) outcome d1")
  show ?thesis
  proof (cases w)
    case None
    then show ?thesis using assms Attempt w by simp
  next
    case (Some v)
    then have r: "(if 0 < n then Inr (Attempt outcome, d2) else Inr (AttemptGone, d)) = (Inr (x, d') :: tx_error + mode_attempt \<times> 'a db)"
      using assms Attempt w m by (simp add: mark_deposit_mode_switch_def)
    show ?thesis
    proof (cases "0 < n")
      case True
      then have "x = Attempt outcome" "d' = snd (mark_where (\<lambda>e. de_id e = eid) outcome d1)" using r m by simp_all
      moreover have "d1 = d \<and> outcome \<noteq> Switched \<or> outcome = Switched \<and> write_trading_mode (\<lambda>u. u_id u = uid) Real (Some eid) d = (Some v, d1)"
        using w Some by (cases "outcome = Switched") auto
      ultimately show ?thesis by blast
    qed (use r in simp)
  qed
qed (use assms in simp_all)

lemma switch_on_deposit_cases:
  assumes "switch_trading_mode_on_deposit seen eid demoOnly d = Inr (x, d')"
  shows "d' = d \<or> (demoOnly \<and> d' = snd (mark_where (\<lambda>e. de_id e = eid) DepositDemoOnly d))
    \<or> (\<exists>outcome uid v d1. \<not> demoOnly \<and> x = Attempt outcome
         \<and> (d1 = d \<and> outcome \<noteq> Switched \<or> outcome = Switched \<and> write_trading_mode (\<lambda>u. u_id u = uid) Real (Some eid) d = (Some v, d1))
         \<and> d' = snd (mark_where (\<lambda>e. de_id e = eid) outcome d1))"
proof (cases demoOnly)
  case True
  then show ?thesis using assms
    by (auto simp: switch_trading_mode_on_deposit_def mark_deposit_mode_switch_def split: prod.splits)
next
  case False
  show ?thesis
  proof (cases "sql_first (\<lambda>e. de_id e = eid) (deposits seen)")
    case None
    then show ?thesis using assms False by (simp add: switch_trading_mode_on_deposit_def)
  next
    case (Some e)
    note e = Some
    show ?thesis
    proof (cases "de_userId e")
      case None
      then show ?thesis using assms False e by (simp add: switch_trading_mode_on_deposit_def)
    next
      case (Some uid)
      show ?thesis
      proof (cases "de_modeSwitch e")
        case ms: None
        show ?thesis
        proof (cases "sql_first (\<lambda>u. u_id u = uid) (users d)")
          case None
          then show ?thesis using assms False e Some ms by (simp add: switch_trading_mode_on_deposit_def)
        next
          case (Some u)
          have eq: "switch_trading_mode_on_deposit seen eid demoOnly d =
              (case deposit_attempt e u d of
                  Attempt outcome \<Rightarrow>
                    (case (if outcome = Switched then write_trading_mode (\<lambda>u. u_id u = uid) Real (Some eid) d else (Some uid, d)) of
                       (None, d1) \<Rightarrow> Inl (Thrown ''deposit mode switch: the user changed under its lock'')
                     | (Some _, d1) \<Rightarrow>
                         (case mark_deposit_mode_switch eid outcome d1 of
                            (marked, d2) \<Rightarrow> if marked then Inr (Attempt outcome, d2) else Inr (AttemptGone, d)))
                | other \<Rightarrow> Inr (other, d))"
            using False e \<open>de_userId e = Some uid\<close> ms Some by (simp add: switch_trading_mode_on_deposit_def)
          from attempt_written [OF trans [OF eq [symmetric] assms]] False show ?thesis by blast
        qed
      next
        case m: (Some y)
        then show ?thesis using assms False e Some by (simp add: switch_trading_mode_on_deposit_def)
      qed
    qed
  qed
qed

lemma switch_on_deposit_aside:
  assumes "switch_trading_mode_on_deposit seen eid demoOnly d = Inr (x, d')" "db_ok d" shows "aside d d'"
  using switch_on_deposit_cases [OF assms(1)]
proof (elim disjE exE conjE)
  fix outcome uid v d1
  assume w: "write_trading_mode (\<lambda>u. u_id u = uid) Real (Some eid) d = (Some v, d1)" "d' = snd (mark_where (\<lambda>e. de_id e = eid) outcome d1)"
  have a: "aside d d1" by (rule write_trading_mode_aside [OF w(1) assms(2)])
  then show ?thesis unfolding w(2) using mark_where_aside [OF aside_db_ok [OF a]] aside_trans by blast
qed (simp_all add: aside_refl mark_where_aside assms(2))

lemma insert_delivery_aside: "db_ok d \<Longrightarrow> aside d (insert_delivery v d)"
  by (rule aside_tables) (simp_all add: insert_delivery_def db_ok_next)

text \<open>A delivery: rejected, a duplicate, or journaled with the deposit it recorded or found.\<close>

lemma record_postback_cases:
  assumes "record_postback seen query d = (r, d')"
  shows "(\<exists>reason pid ev. r = PostbackRejected reason pid ev \<and> d' = insert_delivery (rejected_delivery reason pid ev (next_id d)) d)
    \<or> (\<exists>pid ev. r = PostbackDuplicate pid ev \<and> d' = d)
    \<or> (\<exists>p. classify_postback query = DepositPostback p \<and> \<not> journaled (pb_postbackId p) d
         \<and> (\<forall>e \<in> set (deposits d). de_paymentId e \<noteq> pb_paymentId p)
         \<and> r = PostbackRecorded (pb_postbackId p) (pb_event p) (next_id d) (de_userId (new_deposit p d) \<noteq> None)
         \<and> d' = insert_delivery (deposit_delivery p DepositRecorded (next_id d) (Suc (next_id d))) (d\<lparr>deposits := deposits d @ [new_deposit p d], next_id := next_id d + 1\<rparr>))
    \<or> (\<exists>p e a t. classify_postback query = DepositPostback p \<and> \<not> journaled (pb_postbackId p) d \<and> e \<in> set (deposits d)
         \<and> de_paymentId e = pb_paymentId p \<and> r = PostbackRepeated (pb_postbackId p) (pb_event p) (de_id e) a t
         \<and> d' = insert_delivery (deposit_delivery p DepositRepeated (de_id e) (next_id d)) d)"
proof (cases "classify_postback query")
  case (RejectedPostback reason pid ev)
  then show ?thesis using assms by (auto simp: record_postback_def)
next
  case (DepositPostback p)
  show ?thesis
  proof (cases "journaled (pb_postbackId p) seen \<or> journaled (pb_postbackId p) d")
    case True
    then show ?thesis using assms DepositPostback by (auto simp: record_postback_def Let_def split: if_splits prod.splits)
  next
    case False
    have nid: "de_id (new_deposit p d) = next_id d" by (simp add: new_deposit_def)
    show ?thesis
    proof (cases "sql_first (\<lambda>e. de_paymentId e = pb_paymentId p) (deposits d)")
      case None
      then have "\<forall>e \<in> set (deposits d). de_paymentId e \<noteq> pb_paymentId p" by (simp add: sql_first_None)
      then show ?thesis using assms DepositPostback False None nid by (auto simp: record_postback_def Let_def)
    next
      case (Some e)
      then show ?thesis using assms DepositPostback False sql_first_Some [OF Some] by (auto simp: record_postback_def Let_def)
    qed
  qed
qed

lemma record_postback_aside:
  assumes "record_postback seen query d = (r, d')" "db_ok d" shows "aside d d'"
proof -
  have new: "aside d (d\<lparr>deposits := es, next_id := next_id d + 1\<rparr>)" for es
    using assms(2) by (intro aside_tables) (simp_all add: db_ok_next)
  have both: "aside d (insert_delivery v (d\<lparr>deposits := es, next_id := next_id d + 1\<rparr>))" for v es
    using aside_trans [OF new insert_delivery_aside [OF aside_db_ok [OF new]]] .
  from record_postback_cases [OF assms(1)] show ?thesis
    by (elim disjE exE conjE) (simp_all only: both insert_delivery_aside aside_refl assms(2))
qed

lemma rules_aside: "db_ok d \<Longrightarrow> next_id d \<le> n \<Longrightarrow> aside d (d\<lparr>bonus_rules := rs, next_id := n, audit_log := al\<rparr>)"
  by (rule aside_tables) (simp_all add: db_ok_next)

lemma rule_ops_aside:
  assumes "db_ok d"
  shows "aside d (snd (create_bonus_rule_version code kind params d))" "aside d (snd (activate_bonus_rule_version code v d))"
    "aside d (snd (deactivate_bonus_rule code d))"
proof -
  have same: "aside d (d\<lparr>bonus_rules := rs, audit_log := al\<rparr>)" for rs al
    using assms by (intro aside_tables) simp_all
  show "aside d (snd (create_bonus_rule_version code kind params d))"
    using assms rules_aside [OF assms, of "Suc (next_id d)"]
    by (auto simp: create_bonus_rule_version_def Let_def aside_refl split: option.splits)
  show "aside d (snd (activate_bonus_rule_version code v d))" "aside d (snd (deactivate_bonus_rule code d))"
    using assms same
    by (auto simp: activate_bonus_rule_version_def deactivate_bonus_rule_def set_active_def Let_def aside_refl split: option.splits)
qed

section \<open>Every operation at once\<close>

text \<open>\<open>seen\<close> is the state a plain read ahead of the locks saw.\<close>

inductive account_change :: "'p db \<Rightarrow> 'p db \<Rightarrow> 'p db \<Rightarrow> bool" where
  LinkAccount: "link_broker_account hash (bonus_rules seen) tg tokens activate d = Inr (r, d') \<Longrightarrow> account_change seen d d'"
| ConfirmAccount: "confirm_broker_account (bonus_rules seen) tg accountId d = Inr (c, d') \<Longrightarrow> account_change seen d d'"
| RotateTokens: "account_change seen d (apply_rotated_tokens hash accountId rotated d)"
| BackfillHash: "account_change seen d (backfill_refresh_token_hash accountId h d)"
| MarkExpired: "account_change seen d (mark_access_token_expired accountId d)"
| RevokeAccount: "account_change seen d (revoke_account accountId reason d)"
| RevokeUnchanged: "revoke_account_if_unchanged accountId refreshHash reason d = (rv, d') \<Longrightarrow> account_change seen d d'"
| StartUser: "record_user_start tg payload d = (s, d') \<Longrightarrow> account_change seen d d'"
| ReadReferral: "read_user_referral tg generated d = Inr (v, d') \<Longrightarrow> account_change seen d d'"
| SetMode: "set_trading_mode tg mode d = (m, d') \<Longrightarrow> account_change seen d d'"
| SwitchOnDeposit: "switch_trading_mode_on_deposit seen depositId demoOnly d = Inr (a, d') \<Longrightarrow> account_change seen d d'"
| ReceivePostback: "record_postback seen query d = (p, d') \<Longrightarrow> account_change seen d d'"
| CreateRule: "create_bonus_rule_version code kind params d = (cr, d') \<Longrightarrow> account_change seen d d'"
| ActivateRule: "activate_bonus_rule_version code version d = (ar, d') \<Longrightarrow> account_change seen d d'"
| DeactivateRule: "deactivate_bonus_rule code d = (dr, d') \<Longrightarrow> account_change seen d d'"

inductive_cases account_changeE: "account_change seen d d'"

lemma account_change_aside:
  assumes "account_change seen d d'" "db_ok d" shows "aside d d'"
  using assms(1)
proof (cases rule: account_change.cases)
  case (RevokeUnchanged accountId refreshHash reason rv)
  then show ?thesis using token_ops_aside(5) [OF assms(2), of accountId refreshHash reason] by simp
next
  case (CreateRule code kind params cr)
  then show ?thesis using rule_ops_aside(1) [OF assms(2), of code kind params] by simp
next
  case (ActivateRule code version ar)
  then show ?thesis using rule_ops_aside(2) [OF assms(2), of code version] by simp
next
  case (DeactivateRule code dr)
  then show ?thesis using rule_ops_aside(3) [OF assms(2), of code] by simp
qed (use assms(2) in \<open>blast intro: link_broker_account_aside confirm_broker_account_aside token_ops_aside record_user_start_aside
      read_user_referral_aside set_trading_mode_aside switch_on_deposit_aside record_postback_aside\<close>)+

end
