(* ===== verification/Machine.thy ===== *)
theory Machine
  imports Main
begin

text \<open>
  What the components' step relations share: an invariant every step keeps holds along every run, and
  an order every step respects relates the ends of every run.
\<close>

locale machine =
  fixes step :: "'s \<Rightarrow> 's \<Rightarrow> bool" and inv :: "'s \<Rightarrow> bool"
  assumes step_inv: "step s s' \<Longrightarrow> inv s \<Longrightarrow> inv s'"
begin

lemma run_inv: "step\<^sup>*\<^sup>* s s' \<Longrightarrow> inv s \<Longrightarrow> inv s'"
  by (induction rule: rtranclp_induct) (auto intro: step_inv)

lemma run_extend: "step\<^sup>*\<^sup>* s s' \<Longrightarrow> step s' s'' \<Longrightarrow> inv s \<Longrightarrow> step\<^sup>*\<^sup>* s s'' \<and> inv s''"
  using run_inv step_inv by (meson rtranclp.rtrancl_into_rtrancl)

end

locale ordered_machine = machine +
  fixes below :: "'s \<Rightarrow> 's \<Rightarrow> bool"
  assumes below_refl: "below s s"
    and below_trans: "below s t \<Longrightarrow> below t u \<Longrightarrow> below s u"
    and step_below: "step s s' \<Longrightarrow> inv s \<Longrightarrow> below s s'"
begin

lemma run_below: "step\<^sup>*\<^sup>* s s' \<Longrightarrow> inv s \<Longrightarrow> below s s'"
proof (induction rule: rtranclp_induct)
  case base
  show ?case by (rule below_refl)
next
  case (step t u)
  then have "inv t" using run_inv by blast
  then show ?case using step below_trans step_below by blast
qed

end

end
