(* ===== verification/Demo.thy ===== *)
theory Demo
  imports Progress
begin

text \<open>
  A concrete database and the states one intent's life takes it through, for the witnesses of the
  properties: one user with two tokens, one active account, the switch open.
\<close>

definition demo_db :: "int db" where
  "demo_db = \<lparr>users = [\<lparr>u_id = 0, u_telegramUserId = 7, u_status = UActive, u_tradingMode = Demo,
       u_tokenBalance = 2, u_tokenReserved = 0\<rparr>],
     accounts = [\<lparr>a_id = 1, a_userId = 0, a_status = AActive, a_tradingHalted = False, a_haltedReason = None,
       a_accessTokenExpiresAt = 9000, a_brokerUserId = ''trader-1'', a_isPartnerClient = True,
       a_refreshTokenHash = None, a_authRevokedReason = None\<rparr>],
     snapshots = [\<lparr>sn_accountId = 1, sn_realAvailable = ''0'', sn_demoAvailable = ''50.00'', sn_minTradeAmount = ''1'',
       sn_restObservedAt = 900, sn_realEventAt = None, sn_demoEventAt = None\<rparr>],
     sessions = [], intents = [],
     token_ledger = [\<lparr>l_userId = 0, l_kind = LBonus, l_balanceDelta = 2, l_reservedDelta = 0, l_intentId = None,
       l_accountId = None, l_starPaymentId = None, l_referralId = None, l_bonusRule = None,
         l_note = None, l_createdAt = 0\<rparr>],
     trades = [], outbox = [], decisions = [],
     trading_switch = Some \<lparr>sw_tradingEnabled = True, sw_source = BySeed, sw_reason = None, sw_changedAt = 0\<rparr>,
     star_payments = [], refund_requests = [], bonus_rules = [], referrals = [],
     referral_codes = [], deposits = [], deliveries = [], audit_log = [], notices = [], now = 1000, next_id = 10\<rparr>"

lemma demo_db_ok: "db_ok demo_db"
  by (simp add: db_ok_def demo_db_def users_part_def user_row_ok_def accounts_part_def sessions_part_def intents_part_def
      ledger_part_def trades_part_def outbox_part_def people_part_def unique_on_Cons key_conflict_def ledger_sum_def held_def)

definition demo_request :: create_request where
  "demo_request = \<lparr>cq_telegramUserId = 7, cq_brokerAccountId = None, cq_mode = Demo, cq_assetId = 5, cq_amount = ''2.50'',
     cq_action = Up, cq_durationSec = 60, cq_clientRequestId = ''req-1''\<rparr>"

definition demo_options :: create_options where
  "demo_options = \<lparr>co_checkStake = True, co_demoOnly = True\<rparr>"

definition demo_trade :: "int trade_form \<Rightarrow> int broker_trade" where
  "demo_trade form = \<lparr>bt_id = ''t-1'', bt_assetId = 5, bt_action = Up, bt_amount = ''2.5'', bt_payout = \<lparr>payout_finite = True, payout_string = ''80''\<rparr>,
     bt_openPrice = 100, bt_openTimestamp = 1100, bt_isDemo = True, bt_source = None, bt_brokerClientId = None,
     bt_form = form\<rparr>"

definition open_trade :: "int broker_trade" where "open_trade = demo_trade (OpenForm ''4.5'')"
definition closed_trade :: "int broker_trade" where "closed_trade = demo_trade (ClosedForm 101 1160 ''2'')"

text \<open>The states: created, taken, accepted and settled; or taken and unknown.\<close>

definition demo_created :: "int db" where
  "demo_created = snd (create_trade_intent demo_db demo_request None demo_options demo_db)"
definition demo_taken :: "int db" where
  "demo_taken = snd (projr (take_intent 10 3 60000 demo_created))"
definition demo_accepted :: "int db" where
  "demo_accepted = snd (projr (mark_intent_accepted 10 4 Submitting (Some Socket) open_trade demo_taken))"
definition demo_settled :: "int db" where
  "demo_settled = snd (settle_closed_trade 1 closed_trade demo_accepted)"
definition demo_unknown :: "int db" where
  "demo_unknown = snd (projr (mark_intent_unknown 10 ExecutorTimeout (Some 4) None demo_taken))"

lemma Inr_pair: "\<not> isl X \<Longrightarrow> X = Inr (fst (projr X), snd (projr X))"
  by (cases X) auto

lemma demo_create_result: "map_sum id cr_created (fst (create_trade_intent demo_db demo_request None demo_options demo_db)) = Inr True"
  by code_simp

lemma demo_create: "\<exists>res. create_trade_intent demo_db demo_request None demo_options demo_db = (Inr res, demo_created) \<and> cr_created res"
  using demo_create_result
  by (cases "create_trade_intent demo_db demo_request None demo_options demo_db") (auto simp: demo_created_def map_sum_def split: sum.splits)

lemma demo_take: "\<exists>row. take_intent 10 3 60000 demo_created = Inr (Some row, demo_taken)"
proof -
  have "case take_intent 10 3 60000 demo_created of Inr (Some row, _) \<Rightarrow> True | _ \<Rightarrow> False" by code_simp
  then show ?thesis by (auto simp: demo_taken_def split: sum.splits option.splits)
qed

lemma demo_accept: "\<exists>row. mark_intent_accepted 10 4 Submitting (Some Socket) open_trade demo_taken = Inr (Some row, demo_accepted)"
proof -
  have "case mark_intent_accepted 10 4 Submitting (Some Socket) open_trade demo_taken of Inr (Some row, _) \<Rightarrow> True | _ \<Rightarrow> False"
    by code_simp
  then show ?thesis by (auto simp: demo_accepted_def split: sum.splits option.splits)
qed

lemma demo_settle: "settle_closed_trade 1 closed_trade demo_accepted = (Inr (OutcomeSettled ''t-1'' 10), demo_settled)"
proof -
  have "fst (settle_closed_trade 1 closed_trade demo_accepted) = Inr (OutcomeSettled ''t-1'' 10)" by code_simp
  then show ?thesis unfolding demo_settled_def by (metis prod.collapse)
qed

lemma demo_mark_unknown: "\<exists>row. mark_intent_unknown 10 ExecutorTimeout (Some 4) None demo_taken = Inr (Some row, demo_unknown)"
proof -
  have "case mark_intent_unknown 10 ExecutorTimeout (Some 4) None demo_taken of Inr (Some row, _) \<Rightarrow> True | _ \<Rightarrow> False"
    by code_simp
  then show ?thesis by (auto simp: demo_unknown_def split: sum.splits option.splits)
qed

lemma closed_trade_closed: "is_closed_trade closed_trade"
  by (simp add: is_closed_trade_def closed_trade_def demo_trade_def)

end
