(* ===== verification/Platform.thy ===== *)
theory Platform
  imports Stars_Safe Accounts_Safe Machine Demo
begin

text \<open>
  The trading database as a machine: one step per committed transaction, in any order and from any
  process. The state is the list of the committed states, the newest first, so that a creation may
  have read any older one. Every run keeps the invariant, and along every run intents advance.
\<close>

section \<open>The machine\<close>

text \<open>
  One committed transaction of the worker, the backend or an operator, on the state its lock finds:
  everything but creation, whose plain reads may have seen an older state. Snapshots come from the
  broker and are replaced at will; the database's clock moves forward.
\<close>

inductive change :: "'p db \<Rightarrow> 'p db \<Rightarrow> bool" where
  TakeStep: "take_intent iid v ms d = Inr (x, d') \<Longrightarrow> change d d'"
| RejectStep: "reject_intent iid a ex reason whr d = Inr (x, d') \<Longrightarrow> change d d'"
| UnknownStep: "mark_intent_unknown iid reason ex ms d = Inr (x, d') \<Longrightarrow> change d d'"
| AcceptStep: "mark_intent_accepted iid v Submitting tr trade d = Inr (x, d') \<Longrightarrow> change d d'"
| SettleStep: "is_closed_trade trade \<Longrightarrow> settle_closed_trade accountId trade d = (res, d') \<Longrightarrow> change d d'"
| StartStep: "start_reconciling iid v d = Inr (x, d') \<Longrightarrow> change d d'"
| ClaimStep: "claim_reconciling iid ms d = (x, d') \<Longrightarrow> change d d'"
| ConcludeStep: "conclude_reconciled iid v trade d = Inr (x, d') \<Longrightarrow> change d d'"
| HaltStep: "halt_account_for_manual_review iid v review d = Inr (x, d') \<Longrightarrow> change d d'"
| AdjustStep: "adjust_tokens uid delta note expect d = Inr (adj, d') \<Longrightarrow> change d d'"
| SwitchStep: "write_switch target d = Inr (sw, d') \<Longrightarrow> change d d'"
| SessionStep: "session_change d d' \<Longrightarrow> change d d'"
| OutboxStep: "outbox_change d d' \<Longrightarrow> change d d'"
| StarStep: "star_change d d' \<Longrightarrow> change d d'"
| DecisionStep: "record_signal_decision di d = Inr (x, d') \<Longrightarrow> change d d'"
| SnapshotStep: "change d (d\<lparr>snapshots := sn\<rparr>)"
| ClockStep: "now d \<le> t \<Longrightarrow> change d (d\<lparr>now := t\<rparr>)"

inductive_cases changeE: "change d d'"

lemma claim_change: "claim_reconciling iid ms d = (x, d') \<Longrightarrow> db_ok d \<Longrightarrow> db_ok d' \<and> one_move d d'"
  using claim_reconciling_ok [of d iid ms] claim_reconciling_one_move [of d iid ms] by simp

lemma accept_change: "mark_intent_accepted iid v Submitting tr trade d = Inr (x, d') \<Longrightarrow> db_ok d \<Longrightarrow> db_ok d' \<and> one_move d d'"
  using mark_intent_accepted_ok [of d Submitting] mark_intent_accepted_one_move [of d Submitting] by simp

lemma outbox_change_ok:
  "outbox_change d d' \<Longrightarrow> db_ok d \<Longrightarrow> db_ok d'" "outbox_change d d' \<Longrightarrow> db_ok d \<Longrightarrow> progress d d'"
  using outbox_change_facts [of d d'] by (simp_all add: outbox_facts_def)

lemma star_change_ok:
  assumes "star_change d d'" "db_ok d"
  shows "db_ok d'" "progress d d'" "keeps_trades d d'" "keeps_sessions d d'" "outbox d' = outbox d"
  using star_change_beside [OF assms] keeps_same [of d' d] keeps_sessions_same [of d' d] by (simp_all add: beside_trades_def)

lemma decision_change:
  assumes "record_signal_decision di d = Inr (x, d')"
  shows "users d' = users d" "accounts d' = accounts d" "intents d' = intents d" "trades d' = trades d" "sessions d' = sessions d"
    "outbox d' = outbox d" "token_ledger d' = token_ledger d" "now d' = now d" "db_ok d \<Longrightarrow> db_ok d'"
proof -
  obtain ds where d': "d' = d\<lparr>decisions := ds, next_id := next_id d + 1\<rparr>" using record_signal_decision_Inr [OF assms] by blast
  show "users d' = users d" "accounts d' = accounts d" "intents d' = intents d" "trades d' = trades d" "sessions d' = sessions d"
    "outbox d' = outbox d" "token_ledger d' = token_ledger d" "now d' = now d" by (simp_all add: d')
  have "db_ok (d\<lparr>decisions := ds\<rparr>)" if "db_ok d" using that by (simp add: db_ok_def)
  then show "db_ok d \<Longrightarrow> db_ok d'" using db_ok_next [of "d\<lparr>decisions := ds\<rparr>" "next_id d + 1"] by (simp add: d')
qed

lemma change_ok: "change d d' \<Longrightarrow> db_ok d \<Longrightarrow> db_ok d'"
  by (erule changeE)
    (auto intro: take_intent_ok reject_intent_ok mark_intent_unknown_ok start_reconciling_ok conclude_reconciled_ok
      halt_account_ok adjust_tokens_ok write_switch_ok
      dest: accept_change settle_closed_trade_change [rotated 2] claim_change session_change_facts outbox_change_ok star_change_ok(1) decision_change(9))

lemma progress_same: "db_ok d \<Longrightarrow> users d' = users d \<Longrightarrow> accounts d' = accounts d \<Longrightarrow> intents d' = intents d \<Longrightarrow> progress d d'"
  by (intro one_move_progress) (auto simp: one_move_def)

lemma write_switch_progress: "db_ok d \<Longrightarrow> write_switch target d = Inr (x, d') \<Longrightarrow> progress d d'"
  by (rule progress_same) (auto simp: write_switch_def audit_def split: option.splits if_splits sum.splits)

lemma only_sessions_progress: "db_ok d \<Longrightarrow> only_sessions d d' \<Longrightarrow> progress d d'"
  by (rule progress_same) (simp_all add: only_sessions_same)

lemma change_progress: "change d d' \<Longrightarrow> db_ok d \<Longrightarrow> progress d d'"
  by (erule changeE)
    (auto intro: one_move_progress [OF _ take_intent_one_move] one_move_progress [OF _ reject_intent_one_move]
      one_move_progress [OF _ mark_intent_unknown_one_move] one_move_progress [OF _ start_reconciling_one_move]
      one_move_progress [OF _ halt_account_one_move] conclude_reconciled_progress adjust_tokens_progress
      write_switch_progress progress_same one_move_progress
      dest: accept_change settle_closed_trade_change [rotated 2] claim_change
      intro: only_sessions_progress outbox_change_ok(2) star_change_ok(2) simp: decision_change(1-3) dest!: session_change_facts)

lemma outbox_change_keeps: "outbox_change d d' \<Longrightarrow> db_ok d \<Longrightarrow> keeps_trades d d' \<and> keeps_sessions d d'"
  using outbox_change_facts [of d d'] by (simp add: outbox_facts_def)

lemma change_keeps: "change d d' \<Longrightarrow> db_ok d \<Longrightarrow> keeps_trades d d'"
  by (erule changeE)
    (auto intro: reject_keeps accept_keeps settle_closed_trade_keeps conclude_keeps unknown_keeps halt_keeps
      operator_keeps keeps_transition keeps_same only_sessions_keeps simp: take_intent_def start_reconciling_def
      dest: session_change_facts outbox_change_keeps star_change_ok(3) decision_change(4))

lemma change_sessions: "change d d' \<Longrightarrow> db_ok d \<Longrightarrow> keeps_sessions d d'"
  by (erule changeE)
    (auto intro: keeps_sessions_same dest: intent_ops_sessions accept_sessions settle_closed_trade_sessions session_change_facts outbox_change_keeps decision_change(5)
      star_change_ok(4) simp: operator_sessions)

lemma change_later: "change d d' \<Longrightarrow> db_ok d \<Longrightarrow> later d d'"
  by (simp add: later_def change_progress change_keeps change_sessions)

inductive platform_step :: "'p db list \<Rightarrow> 'p db list \<Rightarrow> bool" where
  Commit: "change d d' \<Longrightarrow> platform_step (d # h) (d' # d # h)"
| Create: "seen \<in> set (d # h) \<Longrightarrow> create_trade_intent seen input session opts d = (res, d')
    \<Longrightarrow> platform_step (d # h) (d' # d # h)"
| StartSession: "seen \<in> set (d # h) \<Longrightarrow> create_trading_session seen started demoOnly d = (created, d')
    \<Longrightarrow> platform_step (d # h) (d' # d # h)"
| Account: "seen \<in> set (d # h) \<Longrightarrow> account_change seen d d' \<Longrightarrow> platform_step (d # h) (d' # d # h)"

inductive_cases platform_stepE: "platform_step h h'"

definition history_ok :: "'p db list \<Rightarrow> bool" where
  "history_ok h \<longleftrightarrow> h \<noteq> [] \<and> (\<forall>d \<in> set h. db_ok d \<and> later d (hd h))"

lemma history_ok_start [simp]: "history_ok [d] = db_ok d"
  by (simp add: history_ok_def)

lemma create_change:
  assumes "db_ok d" "later seen d" "db_ok seen" "create_trade_intent seen input session opts d = (res, d')"
  shows "db_ok d' \<and> later d d'"
  using create_trade_intent_cases [OF assms(1) progress_grows [OF laterD(1) [OF assms(2)]] assms(3), of input session opts]
    assms(1,4) create_keeps [OF assms(1) laterD(1) [OF assms(2)] assms(3,4)]
    keeps_sessions_same [OF create_sessions [OF assms(1) laterD(1) [OF assms(2)] assms(3,4)]]
  by (auto simp: later_def dest: created_in_progress)

lemma aside_later: "aside d d' \<Longrightarrow> db_ok d' \<and> later d d'"
  by (simp add: aside_def later_def keeps_same)

lemma platform_step_newest:
  assumes "platform_step h h'" "history_ok h"
  shows "\<exists>d d' rest. h = d # rest \<and> h' = d' # d # rest \<and> db_ok d' \<and> later d d'"
  using assms(1)
proof (cases rule: platform_step.cases)
  case (Commit d d' rest)
  then show ?thesis using assms(2) change_ok change_later by (auto simp: history_ok_def)
next
  case (Create seen d rest input session opts res d')
  then have "db_ok d" "later seen d" "db_ok seen" using assms(2) by (auto simp: history_ok_def)
  from create_change [OF this Create(4)] show ?thesis using Create by auto
next
  case (StartSession seen d rest started demoOnly created d')
  then have ok: "db_ok d" using assms(2) by (simp add: history_ok_def)
  from create_trading_session_facts [OF ok StartSession(4)] progress_same [OF ok, of d'] keeps_same [of d' d]
  show ?thesis using StartSession by (auto simp: later_def)
next
  case (Account seen d rest d')
  then have "db_ok d" using assms(2) by (simp add: history_ok_def)
  then have "aside d d'" by (rule account_change_aside [OF Account(4)])
  then show ?thesis using Account aside_later by auto
qed

definition history_below :: "'p db list \<Rightarrow> 'p db list \<Rightarrow> bool" where
  "history_below h h' \<longleftrightarrow> later (hd h) (hd h')"

interpretation platform: ordered_machine platform_step history_ok history_below
proof unfold_locales
  fix h h' :: "'p db list"
  assume s: "platform_step h h'" "history_ok h"
  from platform_step_newest [OF this] obtain d d' rest where n: "h = d # rest" "h' = d' # d # rest" "db_ok d'" "later d d'"
    by blast
  show "history_ok h'"
    using s(2) n later_trans by (auto simp: history_ok_def)
  show "history_below h h'" using n by (simp add: history_below_def)
next
  fix s t u :: "'p db list"
  show "history_below s s" by (simp add: history_below_def)
  assume "history_below s t" "history_below t u"
  then show "history_below s u" unfolding history_below_def by (rule later_trans)
qed

lemma run_ok: "platform_step\<^sup>*\<^sup>* [d0] (d # h) \<Longrightarrow> db_ok d0 \<Longrightarrow> db_ok d"
  using platform.run_inv [of "[d0]" "d # h"] by (simp add: history_ok_def)

lemma run_later: "platform_step\<^sup>*\<^sup>* [d0] (d # h) \<Longrightarrow> db_ok d0 \<Longrightarrow> seen \<in> set (d # h) \<Longrightarrow> later seen d"
  using platform.run_inv [of "[d0]" "d # h"] by (auto simp: history_ok_def)

lemmas run_progress = laterD(1) [OF run_later]

lemma run_seen_ok: "platform_step\<^sup>*\<^sup>* [d0] (d # h) \<Longrightarrow> db_ok d0 \<Longrightarrow> seen \<in> set (d # h) \<Longrightarrow> db_ok seen"
  using platform.run_inv [of "[d0]" "d # h"] by (auto simp: history_ok_def)

section \<open>The demo's run\<close>

lemma run_change: "platform_step\<^sup>*\<^sup>* h0 (d # h) \<Longrightarrow> change d d' \<Longrightarrow> platform_step\<^sup>*\<^sup>* h0 (d' # d # h)"
  by (erule rtranclp.rtrancl_into_rtrancl) (rule Commit)

lemma demo_run_created: "platform_step\<^sup>*\<^sup>* [demo_db] [demo_created, demo_db]"
  using demo_create by (auto intro!: r_into_rtranclp Create [of demo_db])

lemma demo_run_taken: "platform_step\<^sup>*\<^sup>* [demo_db] [demo_taken, demo_created, demo_db]"
  using demo_take by (auto intro: run_change [OF demo_run_created] TakeStep)

lemma demo_run_accepted: "platform_step\<^sup>*\<^sup>* [demo_db] [demo_accepted, demo_taken, demo_created, demo_db]"
  using demo_accept by (auto intro: run_change [OF demo_run_taken] AcceptStep)

lemma demo_run_settled: "platform_step\<^sup>*\<^sup>* [demo_db] [demo_settled, demo_accepted, demo_taken, demo_created, demo_db]"
  by (rule run_change [OF demo_run_accepted]) (rule SettleStep [OF closed_trade_closed demo_settle])

lemma demo_run_unknown: "platform_step\<^sup>*\<^sup>* [demo_db] [demo_unknown, demo_taken, demo_created, demo_db]"
  using demo_mark_unknown by (auto intro: run_change [OF demo_run_taken] UnknownStep)

section \<open>Tokens\<close>

lemma sum_live: "(\<And>r. r \<in> set rs \<Longrightarrow> f r = (if live r then 1 else (0::int)))
    \<Longrightarrow> sum_list (map (\<lambda>r. if p r then f r else 0) rs) = int (length (filter (\<lambda>r. p r \<and> live r) rs))"
  by (induction rs) auto

lemma db_ok_user: "db_ok d \<Longrightarrow> u \<in> set (users d) \<Longrightarrow> user_row_ok (intents d) (token_ledger d) u"
  by (simp add: db_ok_def users_part_def)

text \<open>
  C1: In every state any interleaving of the worker's, the backend's and the operators'
  transactions reaches, a user's reserved tokens are one for each of their intents that is not over
  yet; the cached balance and reserve are the sums of the user's ledger rows; and the reserve never
  exceeds the balance.
\<close>

theorem token_caches_exact:
  assumes "platform_step\<^sup>*\<^sup>* [d0] (d # h)" "db_ok d0" "u \<in> set (users d)"
  shows "u_tokenReserved u = int (length (filter (\<lambda>r. i_userId r = u_id u \<and> \<not> terminal (i_status r)) (intents d)))
    \<and> u_tokenBalance u = ledger_sum l_balanceDelta (u_id u) (token_ledger d)
    \<and> u_tokenReserved u = ledger_sum l_reservedDelta (u_id u) (token_ledger d)
    \<and> 0 \<le> u_tokenReserved u \<and> u_tokenReserved u \<le> u_tokenBalance u"
proof -
  have ok: "db_ok d" using run_ok [OF assms(1,2)] .
  have row: "user_row_ok (intents d) (token_ledger d) u" by (rule db_ok_user [OF ok assms(3)])
  have "i_tokensReserved r = (if \<not> terminal (i_status r) then 1 else 0)" if "r \<in> set (intents d)" for r
    using db_ok_row [OF ok that] by (simp add: intent_row_ok_def tokens_of_def TOKENS_PER_INTENT_def)
  then have "held (u_id u) (intents d)
      = int (length (filter (\<lambda>r. i_userId r = u_id u \<and> \<not> terminal (i_status r)) (intents d)))"
    unfolding held_def by (rule sum_live)
  moreover have "0 \<le> held (u_id u) (intents d)" by (rule held_nonneg [OF db_ok_tokens_nonneg [OF ok]])
  ultimately show ?thesis using row by (simp add: user_row_ok_def)
qed

lemma demo_created_user: "map (\<lambda>u. (u_id u, u_tokenReserved u, u_tokenBalance u)) (users demo_created) = [(0, 1, 2)]"
  by code_simp

theorem token_caches_exact_witness:
  "\<exists>u \<in> set (users demo_created). 1 = int (length (filter (\<lambda>r. i_userId r = u_id u \<and> \<not> terminal (i_status r)) (intents demo_created)))
    \<and> 2 = ledger_sum l_balanceDelta (u_id u) (token_ledger demo_created)"
proof -
  obtain u where u: "u \<in> set (users demo_created)" "u_tokenReserved u = 1" "u_tokenBalance u = 2"
    using demo_created_user by (cases "users demo_created") auto
  then show ?thesis using token_caches_exact [OF demo_run_created demo_db_ok u(1)] by auto
qed

section \<open>Intents\<close>

text \<open>
  C18: In every reachable state a broker account has at most one intent that is not over yet, and a
  user has at most one intent for one client request id.
\<close>

theorem one_live_intent:
  assumes "platform_step\<^sup>*\<^sup>* [d0] (d # h)" "db_ok d0" "r \<in> set (intents d)" "s \<in> set (intents d)"
    "(i_accountId r = i_accountId s \<and> \<not> terminal (i_status r) \<and> \<not> terminal (i_status s))
     \<or> (i_userId r = i_userId s \<and> i_clientRequestId r = i_clientRequestId s)"
  shows "r = s"
proof -
  have u: "unique_on user_request_key (intents d)" "unique_on active_account_key (intents d)"
    using run_ok [OF assms(1,2)] by (simp_all add: db_ok_def intents_part_def)
  from assms(5) show ?thesis
  proof
    assume "i_accountId r = i_accountId s \<and> \<not> terminal (i_status r) \<and> \<not> terminal (i_status s)"
    then show ?thesis
      by (intro unique_on_same [OF u(2) assms(3,4), of "i_accountId r"]) (simp_all add: active_account_key_def)
  next
    assume "i_userId r = i_userId s \<and> i_clientRequestId r = i_clientRequestId s"
    then show ?thesis
      by (intro unique_on_same [OF u(1) assms(3,4), of "(i_userId r, i_clientRequestId r)"]) (simp_all add: user_request_key_def)
  qed
qed

lemma demo_created_intent: "map (\<lambda>r. (i_id r, i_version r, i_status r, i_clientRequestId r)) (intents demo_created) = [(10, 3, Queued, ''req-1'')]"
  by code_simp

theorem one_live_intent_witness:
  "\<exists>r \<in> set (intents demo_created). i_id r = 10 \<and> (\<forall>s. s \<in> set (intents demo_created) \<longrightarrow> i_clientRequestId s = ''req-1'' \<and> s = r)"
proof -
  obtain r where r: "intents demo_created = [r]" "i_id r = 10" "i_clientRequestId r = ''req-1''"
    using demo_created_intent by auto
  have "s = r" if "s \<in> set (intents demo_created)" for s
    using that r by (intro one_live_intent [OF demo_run_created demo_db_ok]) simp_all
  then show ?thesis using r by auto
qed

lemma walk_from_terminal: "status_walk st ts \<Longrightarrow> terminal st \<Longrightarrow> ts = []"
  by (cases ts; cases st) auto

text \<open>
  C2: An intent is never lost and never renamed: in any later state of a run there is a row with its
  id, owner, account, session, mode, asset, amount, direction, duration and client request id, its
  version has not decreased, its status is reached along the transition table, and a settled or
  rejected intent stays what it is.
\<close>

theorem intents_advance:
  assumes "platform_step\<^sup>*\<^sup>* [d0] (d # h)" "db_ok d0" "seen \<in> set (d # h)" "r \<in> set (intents seen)"
  shows "\<exists>r' \<in> set (intents d).
     (i_id r', i_userId r', i_accountId r', i_sessionId r', i_mode r', i_assetId r', i_amount r', i_action r',
        i_durationSec r', i_clientRequestId r')
       = (i_id r, i_userId r, i_accountId r, i_sessionId r, i_mode r, i_assetId r, i_amount r, i_action r,
        i_durationSec r, i_clientRequestId r)
     \<and> i_version r \<le> i_version r'
     \<and> (\<exists>ts. status_walk (i_status r) ts \<and> last (i_status r # ts) = i_status r')
     \<and> (terminal (i_status r) \<longrightarrow> i_status r' = i_status r)"
proof -
  have "\<exists>r' \<in> set (intents d). advanced r r'"
    using run_progress [OF assms(1-3)] assms(4) unfolding progress_def by blast
  then obtain r' ts where r': "r' \<in> set (intents d)" "same_terms r r'" "i_version r \<le> i_version r'"
    "status_walk (i_status r) ts" "last (i_status r # ts) = i_status r'"
    unfolding advanced_def by blast
  have "i_status r' = i_status r" if "terminal (i_status r)"
    using walk_from_terminal [OF r'(4) that] r'(5) by simp
  then show ?thesis
    using r' by (intro bexI [of _ r'] conjI exI [of _ ts]) (simp_all add: same_terms_def same_intent_def)
qed

theorem intents_advance_witness:
  "\<exists>r \<in> set (intents demo_created). i_id r = 10 \<and> (\<exists>r' \<in> set (intents demo_settled). i_id r' = 10 \<and> 3 \<le> i_version r')"
proof -
  obtain r where r: "r \<in> set (intents demo_created)" "i_id r = 10" "i_version r = 3"
    using demo_created_intent by (cases "intents demo_created") auto
  have "demo_created \<in> set [demo_settled, demo_accepted, demo_taken, demo_created, demo_db]" by simp
  from intents_advance [OF demo_run_settled demo_db_ok this r(1)] show ?thesis using r by auto
qed

text \<open>
  C5: The take is a fence: once one worker has taken an intent at a version, no take of any worker
  that read this version or an older one succeeds, in any later state; it changes nothing.
\<close>

theorem take_succeeds_once:
  assumes "platform_step\<^sup>*\<^sup>* [d0] (d1 # h)" "db_ok d0" "s \<in> set (d1 # h)"
    "take_intent iid v maxAge s = Inr (Some row, d1)" "platform_step\<^sup>*\<^sup>* (d1 # h) (d # h')" "v' \<le> v"
  shows "take_intent iid v' maxAge' d = Inr (None, d)"
proof -
  have s: "db_ok s" using run_seen_ok [OF assms(1-3)] .
  have pid: "i_id (r\<lparr>i_submittedAt := Some (now s)\<rparr>) = i_id r" for r :: intent_row by simp
  obtain r ns where r: "r \<in> set (intents s)" "cas_matches iid Queued (Some v) (take_allowed s maxAge) r"
    "row = moved_to Submitting (now s) (\<lambda>r. r\<lparr>i_submittedAt := Some (now s)\<rparr>) r"
    "d1 = s\<lparr>intents := put row (intents s), notices := ns\<rparr>"
    by (rule transition_Some [OF db_ok_unique [OF s] assms(4) [unfolded take_intent_def] pid])
  have rid: "i_id row = i_id r" unfolding r(3) by (simp add: moved_to_def)
  have row: "row \<in> set (intents d1)" "i_id row = iid" "i_version row = v + 1"
    using r(2) set_put [OF db_ok_unique [OF s] r(1) rid] unfolding r(3,4) by (auto simp: cas_matches_def moved_to_def)
  have run: "platform_step\<^sup>*\<^sup>* [d0] (d # h')" using assms(1,5) by (rule rtranclp_trans)
  have "history_ok (d1 # h)" using platform.run_inv [OF assms(1)] assms(2) by simp
  then have "progress d1 d" using platform.run_below [OF assms(5)] by (simp add: history_below_def laterD)
  then obtain r' where r': "r' \<in> set (intents d)" "advanced row r'"
    using row(1) unfolding progress_def by blast
  then have id': "i_id r' = iid" "v < i_version r'" using row by (auto simp: advanced_def same_terms_def same_intent_def)
  have "\<not> cas_matches iid Queued (Some v') (take_allowed d maxAge') x" if "x \<in> set (intents d)" for x
    using unique_ids_eq [OF db_ok_unique [OF run_ok [OF run assms(2)]] r'(1) that] id' assms(6) by (auto simp: cas_matches_def)
  then show ?thesis
    by (simp add: take_intent_def transition_intent_def Let_def sql_first_None [THEN iffD2])
qed

theorem take_succeeds_once_witness: "take_intent 10 3 99999 demo_settled = Inr (None, demo_settled)"
proof -
  obtain row where "take_intent 10 3 60000 demo_created = Inr (Some row, demo_taken)" using demo_take by blast
  moreover have "platform_step\<^sup>*\<^sup>* [demo_taken, demo_created, demo_db] [demo_settled, demo_accepted, demo_taken, demo_created, demo_db]"
    using demo_accept by (auto intro!: run_change SettleStep [OF closed_trade_closed demo_settle] AcceptStep)
  ultimately show ?thesis
    by (intro take_succeeds_once [OF demo_run_taken demo_db_ok, where s = demo_created and v = 3]) simp_all
qed

end
