(* ===== verification/Guarantees.thy ===== *)
theory Guarantees
  imports Platform
begin

text \<open>
  What the operations guarantee along any run of the platform: how a creation ends and how its retry
  answers, that no outcome is lost, that a trade is settled once, and that the database's own guards
  never fire.
\<close>

lemma run_history: "platform_step\<^sup>*\<^sup>* [d0] h \<Longrightarrow> db_ok d0 \<Longrightarrow> history_ok h"
  using platform.run_inv [of "[d0]" h] by simp

section \<open>Creation\<close>

text \<open>
  C6: A creation in any reachable state, after plain reads of any earlier state, ends in one of three
  ways: a refusal that changes nothing; the intent an earlier call with the same request created,
  unchanged; or exactly one new queued intent of an active account, with exactly one reserve row in
  the ledger for one token and exactly one pending outbox row, while the switch read as open.
\<close>

theorem creation_outcomes:
  assumes "platform_step\<^sup>*\<^sup>* [d0] (d # h)" "db_ok d0" "seen \<in> set (d # h)"
    "create_trade_intent seen input session opts d = (res, d')"
  shows "(\<exists>e. res = Inl e \<and> d' = d)
    \<or> (\<exists>r. res = Inr r \<and> \<not> cr_created r \<and> d' = d
         \<and> (cr_intent r \<in> set (intents seen) \<or> cr_intent r \<in> set (intents d)) \<and> same_request (cr_intent r) input
         \<and> i_clientRequestId (cr_intent r) = cq_clientRequestId input)
    \<or> (\<exists>r l w a. res = Inr r \<and> cr_created r \<and> i_status (cr_intent r) = Queued
         \<and> i_clientRequestId (cr_intent r) = cq_clientRequestId input \<and> i_amount (cr_intent r) = cq_amount input
         \<and> intents d' = intents d @ [cr_intent r]
         \<and> token_ledger d' = token_ledger d @ [l] \<and> l_kind l = LReserve \<and> l_intentId l = Some (i_id (cr_intent r))
         \<and> l_userId l = i_userId (cr_intent r) \<and> l_reservedDelta l = 1 \<and> l_balanceDelta l = 0
         \<and> outbox d' = outbox d @ [w] \<and> o_intentId w = i_id (cr_intent r) \<and> o_topic w = TradingIntents \<and> o_status w = OPending
         \<and> a \<in> set (accounts d) \<and> a_id a = i_accountId (cr_intent r) \<and> a_userId a = i_userId (cr_intent r)
         \<and> a_status a = AActive \<and> \<not> a_tradingHalted a \<and> is_trading_open (trading_switch seen))"
proof -
  have ok: "db_ok d" and g: "grows seen d" and ok0: "db_ok seen"
    using run_ok [OF assms(1,2)] run_progress [OF assms(1-3)] run_seen_ok [OF assms(1-3)] progress_grows by blast+
  from create_trade_intent_cases [OF ok g ok0, of input session opts] show ?thesis
  proof (elim disjE exE conjE)
    fix e assume "create_trade_intent seen input session opts d = (Inl e, d)"
    then show ?thesis using assms(4) by simp
  next
    fix r assume "create_trade_intent seen input session opts d = (Inr r, d)" "replay_of input seen r"
    then show ?thesis using assms(4) unfolding replay_of_def by (intro disjI2 disjI1 exI [of _ r]) simp
  next
    fix r assume "create_trade_intent seen input session opts d = (Inr r, d)" "replay_of input d r"
    then show ?thesis using assms(4) unfolding replay_of_def by (intro disjI2 disjI1 exI [of _ r]) simp
  next
    fix r d1 assume eq: "create_trade_intent seen input session opts d = (Inr r, d1)" and c: "created_in seen input session d r d1"
    have "\<exists>l w a. cr_created r \<and> i_status (cr_intent r) = Queued
         \<and> i_clientRequestId (cr_intent r) = cq_clientRequestId input \<and> i_amount (cr_intent r) = cq_amount input
         \<and> intents d1 = intents d @ [cr_intent r]
         \<and> token_ledger d1 = token_ledger d @ [l] \<and> l_kind l = LReserve \<and> l_intentId l = Some (i_id (cr_intent r))
         \<and> l_userId l = i_userId (cr_intent r) \<and> l_reservedDelta l = 1 \<and> l_balanceDelta l = 0
         \<and> outbox d1 = outbox d @ [w] \<and> o_intentId w = i_id (cr_intent r) \<and> o_topic w = TradingIntents \<and> o_status w = OPending
         \<and> a \<in> set (accounts d) \<and> a_id a = i_accountId (cr_intent r) \<and> a_userId a = i_userId (cr_intent r)
         \<and> a_status a = AActive \<and> \<not> a_tradingHalted a \<and> is_trading_open (trading_switch seen)"
      using c unfolding created_in_def
      by (elim exE conjE bexE) (auto simp: queued_state_def queued_row_def planned_row_def reserve_token_def TOKENS_PER_INTENT_def)
    then show ?thesis using eq assms(4) by (intro disjI2) auto
  qed
qed

theorem creation_outcomes_witness:
  "\<exists>r. create_trade_intent demo_db demo_request None demo_options demo_db = (Inr r, demo_created)
     \<and> cr_created r \<and> i_status (cr_intent r) = Queued \<and> intents demo_created = intents demo_db @ [cr_intent r]"
proof -
  obtain r where r: "create_trade_intent demo_db demo_request None demo_options demo_db = (Inr r, demo_created)" "cr_created r"
    using demo_create by blast
  from creation_outcomes [OF rtranclp.rtrancl_refl demo_db_ok _ r(1)] r show ?thesis by auto
qed

lemma find_replay_hit:
  assumes ok: "db_ok d" and r: "r \<in> set (intents d)" "i_userId r = uid" "i_clientRequestId r = cq_clientRequestId input"
    "same_request r input"
  shows "find_replay d uid input = Inr (Some \<lparr>cr_intent = r, cr_created = False, cr_decisionError = None\<rparr>)"
proof -
  have "unique_on user_request_key (intents d)" using ok by (simp add: db_ok_def intents_part_def)
  then have "sql_first (\<lambda>r. i_userId r = uid \<and> i_clientRequestId r = cq_clientRequestId input) (intents d) = Some r"
    using r by (intro sql_first_unique [where key = user_request_key]) (auto simp: user_request_key_def)
  then show ?thesis using r(4) by (simp add: find_replay_def)
qed

lemma find_user_hit:
  assumes ok: "db_ok d" and u: "u \<in> set (users d)"
  shows "find_user d (u_telegramUserId u) = Some u"
proof -
  have "unique_on (\<lambda>u. Some (u_telegramUserId u)) (users d)" using ok by (simp add: db_ok_def users_part_def)
  then show ?thesis unfolding find_user_def
    using u by (intro sql_first_unique [where key = "\<lambda>u. Some (u_telegramUserId u)"]) auto
qed

lemma same_request_terms: "same_terms r r' \<Longrightarrow> same_request r input = same_request r' input"
  by (simp add: same_request_def same_terms_def same_intent_def)

text \<open>The intent a successful creation answers, by the request that found it.\<close>

lemma creation_answer:
  assumes ok: "db_ok d" and g: "progress seen d" and ok0: "db_ok seen"
    and c: "create_trade_intent seen input session opts d = (Inr res, d1)"
  shows "\<exists>r \<in> set (intents d1). \<exists>u \<in> set (users d1). same_terms (cr_intent res) r \<and> u_telegramUserId u = cq_telegramUserId input
    \<and> i_userId r = u_id u \<and> i_clientRequestId r = cq_clientRequestId input \<and> same_request r input"
  using create_trade_intent_cases [OF ok progress_grows [OF g] ok0, of input session opts]
proof (elim disjE exE conjE)
  fix res' assume eq: "create_trade_intent seen input session opts d = (Inr res', d)" and rep: "replay_of input seen res'"
  obtain u where u: "u \<in> set (users seen)" "u_telegramUserId u = cq_telegramUserId input" "u_id u = i_userId (cr_intent res')"
    and r: "cr_intent res' \<in> set (intents seen)" "i_clientRequestId (cr_intent res') = cq_clientRequestId input" "same_request (cr_intent res') input"
    using rep unfolding replay_of_def by blast
  obtain u' where u': "u' \<in> set (users d)" "u_id u' = u_id u" "u_telegramUserId u' = u_telegramUserId u"
    using g u(1) unfolding progress_def by blast
  obtain r' where r': "r' \<in> set (intents d)" "same_terms (cr_intent res') r'"
    using g r(1) unfolding progress_def advanced_def by blast
  show ?thesis using eq c u u' r r' same_request_terms [OF r'(2)]
    by (intro bexI [of _ r'] bexI [of _ u']) (auto simp: same_terms_def same_intent_def)
next
  fix res' assume eq: "create_trade_intent seen input session opts d = (Inr res', d)" and rep: "replay_of input d res'"
  then obtain u where "u \<in> set (users d)" "u_telegramUserId u = cq_telegramUserId input" "u_id u = i_userId (cr_intent res')"
    "cr_intent res' \<in> set (intents d)" "i_clientRequestId (cr_intent res') = cq_clientRequestId input" "same_request (cr_intent res') input"
    unfolding replay_of_def by blast
  then show ?thesis using eq c by (intro bexI [of _ "cr_intent res'"] bexI [of _ u]) auto
next
  fix res' d' assume eq: "create_trade_intent seen input session opts d = (Inr res', d')" and cr: "created_in seen input session d res' d'"
  obtain u accountId dec nid ds where u: "u \<in> set (users d)" "u_telegramUserId u = cq_telegramUserId input"
    and row: "cr_intent res' = queued_row (planned_row input session (u_id u) accountId dec
             ((reserve_token (u_id u) (cq_mode input) d)\<lparr>next_id := nid\<rparr>)) (now d)"
    and acc: "cq_brokerAccountId input = None \<or> cq_brokerAccountId input = Some accountId"
    and d': "d' = queued_state (planned_row input session (u_id u) accountId dec
             ((reserve_token (u_id u) (cq_mode input) d)\<lparr>next_id := nid\<rparr>))
             ((reserve_token (u_id u) (cq_mode input) d)\<lparr>decisions := ds, next_id := nid\<rparr>)"
    using cr unfolding created_in_def by blast
  have "cr_intent res' \<in> set (intents d')" unfolding row d' by (simp add: queued_state_def)
  moreover have "\<exists>u' \<in> set (users d'). u_id u' = u_id u \<and> u_telegramUserId u' = cq_telegramUserId input"
    using u unfolding d' by (auto simp: queued_state_def reserve_token_def bex_sql_update)
  then obtain u' where "u' \<in> set (users d')" "u_id u' = u_id u" "u_telegramUserId u' = cq_telegramUserId input" by blast
  moreover have "same_request (cr_intent res') input"
    unfolding row using acc by (simp add: same_request_def queued_row_def planned_row_def)
  ultimately show ?thesis using eq c row
    by (intro bexI [of _ "cr_intent res'"] bexI [of _ u']) auto
qed (use c in auto)

lemma replay_hit:
  assumes ok: "db_ok d" and r: "r \<in> set (intents d)" "i_clientRequestId r = cq_clientRequestId input" "same_request r input"
    and u: "u \<in> set (users d)" "u_telegramUserId u = cq_telegramUserId input" "i_userId r = u_id u"
  shows "create_trade_intent d input session opts d = (Inr \<lparr>cr_intent = r, cr_created = False, cr_decisionError = None\<rparr>, d)"
proof -
  have "find_user d (cq_telegramUserId input) = Some u" using find_user_hit [OF ok u(1)] u(2) by simp
  moreover have "find_replay d (u_id u) input = Inr (Some \<lparr>cr_intent = r, cr_created = False, cr_decisionError = None\<rparr>)"
    using find_replay_hit [OF ok r(1) u(3) r(2,3)] .
  ultimately show ?thesis by (simp add: create_trade_intent_def run_transaction_def create_in_transaction_def)
qed

text \<open>
  C24: A retry is answered with the same intent. Whenever a call has returned an intent, the same
  request repeated in any later state of the run, whatever has happened to the intent, the account or
  the switch since, returns the row of this intent as it then is, creates nothing and changes nothing.
\<close>

theorem creation_replay:
  assumes "platform_step\<^sup>*\<^sup>* [d0] (d # h)" "db_ok d0" "seen \<in> set (d # h)"
    "create_trade_intent seen input session opts d = (Inr res, d1)" "platform_step\<^sup>*\<^sup>* (d1 # d # h) (e # h')"
  shows "\<exists>r \<in> set (intents e). i_id r = i_id (cr_intent res)
    \<and> create_trade_intent e input session' opts' e = (Inr \<lparr>cr_intent = r, cr_created = False, cr_decisionError = None\<rparr>, e)"
proof -
  have ok: "db_ok d" and g: "progress seen d" and ok0: "db_ok seen"
    using run_ok [OF assms(1,2)] run_progress [OF assms(1-3)] run_seen_ok [OF assms(1-3)] by blast+
  from creation_answer [OF ok g ok0 assms(4)] obtain r u where r: "r \<in> set (intents d1)" "same_terms (cr_intent res) r"
    "i_clientRequestId r = cq_clientRequestId input" "same_request r input"
    and u: "u \<in> set (users d1)" "u_telegramUserId u = cq_telegramUserId input" "i_userId r = u_id u" by blast
  have "platform_step (d # h) (d1 # d # h)" using assms(3,4) by (rule Create)
  with assms(1) have run1: "platform_step\<^sup>*\<^sup>* [d0] (d1 # d # h)" by (rule rtranclp.rtrancl_into_rtrancl)
  have e: "db_ok e" by (rule run_ok [OF rtranclp_trans [OF run1 assms(5)] assms(2)])
  have p: "progress d1 e"
    using platform.run_below [OF assms(5) run_history [OF run1 assms(2)]] by (simp add: history_below_def laterD)
  obtain r' where r': "r' \<in> set (intents e)" "same_terms r r'"
    using p r(1) unfolding progress_def advanced_def by blast
  obtain u' where u': "u' \<in> set (users e)" "u_id u' = u_id u" "u_telegramUserId u' = u_telegramUserId u"
    using p u(1) unfolding progress_def by blast
  have "i_id r' = i_id (cr_intent res)" using r'(2) r(2) by (simp add: same_terms_def same_intent_def)
  moreover have "create_trade_intent e input session' opts' e = (Inr \<lparr>cr_intent = r', cr_created = False, cr_decisionError = None\<rparr>, e)"
    using r' r u u' same_request_terms [OF r'(2)]
    by (intro replay_hit [OF e r'(1) _ _ u'(1)]) (auto simp: same_terms_def same_intent_def)
  ultimately show ?thesis using r'(1) by blast
qed

lemma demo_changes: "change demo_created demo_taken" "change demo_taken demo_accepted" "change demo_accepted demo_settled"
  using demo_take demo_accept by (auto intro: TakeStep AcceptStep SettleStep [OF closed_trade_closed demo_settle])

lemma demo_settles_after_creation:
  "platform_step\<^sup>*\<^sup>* [demo_created, demo_db] [demo_settled, demo_accepted, demo_taken, demo_created, demo_db]"
  by (intro run_change demo_changes rtranclp.rtrancl_refl)

theorem creation_replay_witness:
  "\<exists>r \<in> set (intents demo_settled). create_trade_intent demo_settled demo_request None demo_options demo_settled
     = (Inr \<lparr>cr_intent = r, cr_created = False, cr_decisionError = None\<rparr>, demo_settled)"
proof -
  obtain res where c: "create_trade_intent demo_db demo_request None demo_options demo_db = (Inr res, demo_created)"
    using demo_create by blast
  have "demo_db \<in> set [demo_db]" by simp
  from creation_replay [OF rtranclp.rtrancl_refl demo_db_ok this c demo_settles_after_creation]
  show ?thesis by blast
qed

section \<open>No outcome is lost\<close>

lemma topics_count: "length (filter (\<lambda>w. o_intentId w = i \<and> o_topic w = tp) obx) = length (filter (\<lambda>t. t = tp) (topics_of i obx))"
  by (induction obx) (auto simp: topics_of_def)

text \<open>
  C25: The outbox owes each intent exactly its messages: in every reachable state an intent has exactly
  one row of the trading topic, and, while its outcome is unknown, being reconciled or under manual
  review, exactly one row of the reconciliation topic; no intent ever has two.
\<close>

theorem outbox_owes_each_intent:
  assumes "platform_step\<^sup>*\<^sup>* [d0] (d # h)" "db_ok d0" "r \<in> set (intents d)"
  shows "length (filter (\<lambda>w. o_intentId w = i_id r \<and> o_topic w = TradingIntents) (outbox d)) = 1
    \<and> length (filter (\<lambda>w. o_intentId w = i_id r \<and> o_topic w = TradingReconciliation) (outbox d)) \<le> 1
    \<and> (List.member [Unknown, Reconciling, ManualReview] (i_status r)
        \<longrightarrow> length (filter (\<lambda>w. o_intentId w = i_id r \<and> o_topic w = TradingReconciliation) (outbox d)) = 1)"
proof -
  have "topics_ok (i_status r) (topics_of (i_id r) (outbox d))" by (rule db_ok_topics [OF run_ok [OF assms(1,2)] assms(3)])
  then show ?thesis
    unfolding topics_count by (auto simp: topics_ok_def split: if_splits)
qed

lemma demo_unknown_intent: "map (\<lambda>r. (i_id r, i_status r)) (intents demo_unknown) = [(10, Unknown)]"
  by code_simp

theorem outbox_owes_each_intent_witness:
  "length (filter (\<lambda>w. o_intentId w = 10 \<and> o_topic w = TradingReconciliation) (outbox demo_unknown)) = 1"
proof -
  obtain r where r: "r \<in> set (intents demo_unknown)" "i_id r = 10" "i_status r = Unknown"
    using demo_unknown_intent by (cases "intents demo_unknown") auto
  then show ?thesis using outbox_owes_each_intent [OF demo_run_unknown demo_db_ok r(1)] by simp
qed

section \<open>Settlement\<close>



lemma settle_closed_trade_Inl:
  assumes "settle_closed_trade accountId trade d = (Inl e, d')"
  obtains i where "settle_intent i None Accepted trade d = Inl e" "d' = d"
proof (cases "classify_link (bt_id trade) (trade_link accountId (bt_id trade) d)")
  case (Inl out)
  then show ?thesis using assms by (simp add: settle_closed_trade_def)
next
  case (Inr i)
  show ?thesis
  proof (cases "settle_intent i None Accepted trade d")
    case (Inl e')
    then have "e' = e" "d' = d" using assms Inr by (simp_all add: settle_closed_trade_def run_transaction_def)
    then show ?thesis using Inl by (intro that [of i]) simp_all
  next
    case s: (Inr q)
    obtain x d2 where q: "q = (x, d2)" by (cases q)
    have run: "run_transaction (settle_intent i None Accepted trade) d = (Inr x, d2)"
      using s q by (simp add: run_transaction_def)
    have "settle_closed_trade accountId trade d \<noteq> (Inl e, d')"
      by (cases x) (simp_all add: settle_closed_trade_def Inr run split: sum.split)
    then show ?thesis using assms by simp
  qed
qed

text \<open>
  The database's own guards never fire: in a reachable state a rejection along the transition table
  never throws, and a settlement throws nothing but the mismatch of the trade with its intent; the
  ledger's unique indexes and the underflow guards of the token columns are never what stops them.
\<close>

theorem guards_never_fire:
  assumes "platform_step\<^sup>*\<^sup>* [d0] (d # h)" "db_ok d0" "is_closed_trade trade" "can_transition a Rejected"
  shows "(\<exists>x d'. reject_intent iid a ex reason whr d = Inr (x, d'))
    \<and> (\<forall>e d'. settle_closed_trade accountId trade d = (Inl e, d') \<longrightarrow> d' = d \<and> (\<exists>why i. e = MismatchThrown why i (bt_id trade)))"
proof -
  have ok: "db_ok d" by (rule run_ok [OF assms(1,2)])
  have "\<exists>x d'. reject_intent iid a ex reason whr d = Inr (x, d')"
    using reject_intent_cases [OF ok assms(4), of iid ex reason whr] by blast
  moreover have "d' = d \<and> (\<exists>why i. e = MismatchThrown why i (bt_id trade))"
    if t: "settle_closed_trade accountId trade d = (Inl e, d')" for e d'
  proof -
    obtain i where s: "settle_intent i None Accepted trade d = Inl e" and d': "d' = d"
      by (rule settle_closed_trade_Inl [OF t])
    have "\<exists>why. settle_intent i None Accepted trade d = Inl (MismatchThrown why i (bt_id trade))"
      using settle_intent_cases [OF ok disjI1 [OF refl] assms(3), of i None] unfolding s by blast
    then show ?thesis using d' unfolding s by blast
  qed
  ultimately show ?thesis by blast
qed

theorem guards_never_fire_witness:
  "\<exists>x d'. reject_intent 10 Queued None Expired (\<lambda>_. True) demo_created = Inr (x, d')"
proof -
  have "can_transition Queued Rejected" by simp
  from conjunct1 [OF guards_never_fire [OF demo_run_created demo_db_ok closed_trade_closed this]] show ?thesis .
qed

end
