(* ===== verification/Session_Guarantees.thy ===== *)
theory Session_Guarantees
  imports Platform
begin

text \<open>
  What the session operations guarantee: one active session per account and stops that are final
  along any run, the sweeps' effect, the agreement of the start check with the creation, the batch
  read against the single reads it replaces, the fairness of the scan, the summary's one claim.
\<close>

section \<open>Along a run\<close>

text \<open>
  In every reachable state a broker account has at most one active session.
\<close>

theorem one_active_session:
  assumes "platform_step\<^sup>*\<^sup>* [d0] (d # h)" "db_ok d0" "s \<in> set (sessions d)" "t \<in> set (sessions d)"
    "s_status s = SActive" "s_status t = SActive" "s_accountId s = s_accountId t"
  shows "s = t"
proof -
  have "unique_on active_session_key (sessions d)" using run_ok [OF assms(1,2)] by (simp add: db_ok_def sessions_part_def)
  then show ?thesis
    using assms(3-7) by (intro unique_on_same [where key = active_session_key and k = "s_accountId s"]) (auto simp: active_session_key_def)
qed

text \<open>The demo's session, and its stop by the user.\<close>

definition demo_start :: create_session_input where
  "demo_start = \<lparr>cs_telegramUserId = 7, cs_brokerAccountId = 1, cs_mode = Demo, cs_settings = ''{}'', cs_startSignalAction = None\<rparr>"

definition demo_started :: "int db" where
  "demo_started = snd (create_trading_session demo_db demo_start True demo_db)"

definition demo_stopped :: "int db" where
  "demo_stopped = snd (stop_user_sessions 7 demo_started)"

lemma demo_started_sessions:
  "map (\<lambda>s. (s_id s, s_accountId s, s_status s, s_stopReason s)) (sessions demo_started) = [(10, 1, SActive, None)]"
  "map (\<lambda>s. (s_id s, s_accountId s, s_status s, s_stopReason s)) (sessions demo_stopped) = [(10, 1, SStopped, Some UserStopped)]"
  by code_simp+

lemma demo_run_started: "platform_step\<^sup>*\<^sup>* [demo_db] [demo_started, demo_db]"
proof -
  have "platform_step [demo_db] (demo_started # [demo_db])"
    by (rule StartSession [of demo_db, where created = "fst (create_trading_session demo_db demo_start True demo_db)"])
      (simp_all add: demo_started_def)
  then show ?thesis by blast
qed

lemma demo_run_stopped: "platform_step\<^sup>*\<^sup>* [demo_db] [demo_stopped, demo_started, demo_db]"
  by (rule run_change [OF demo_run_started], rule SessionStep,
      rule StopUser [where out = "fst (stop_user_sessions 7 demo_started)" and tg = 7])
    (simp add: demo_stopped_def)

theorem one_active_session_witness:
  "list_all (\<lambda>t. t = hd (sessions demo_started)) (sessions demo_started)"
proof -
  obtain s where s: "sessions demo_started = [s]" "s_status s = SActive"
    using demo_started_sessions(1) by auto
  have "t = s" if "t \<in> set (sessions demo_started)" for t
    using that s by (intro one_active_session [OF demo_run_started demo_db_ok]) auto
  then show ?thesis using s by simp
qed

text \<open>
  C22: A stop is final: a session that is stopped in one state of a run is, in every later state,
  stopped with the same reason and the same end; no sweep, route or second stop reopens or relabels it.
\<close>

theorem stop_is_final:
  assumes "platform_step\<^sup>*\<^sup>* [d0] (d # h)" "db_ok d0" "seen \<in> set (d # h)" "s \<in> set (sessions seen)" "s_status s = SStopped"
  shows "\<exists>s' \<in> set (sessions d). s_id s' = s_id s \<and> s_accountId s' = s_accountId s \<and> s_status s' = SStopped
    \<and> s_stopReason s' = s_stopReason s \<and> s_endedAt s' = s_endedAt s"
proof -
  have "keeps_sessions seen d" by (rule laterD(3) [OF run_later [OF assms(1-3)]])
  then obtain s' where "s' \<in> set (sessions d)" "session_after s s'" using assms(4) unfolding keeps_sessions_def by blast
  then show ?thesis using assms(5) by (intro bexI [of _ s']) (auto simp: session_after_def)
qed

theorem stop_is_final_witness:
  "\<exists>s' \<in> set (sessions demo_stopped). s_id s' = 10 \<and> s_stopReason s' = Some UserStopped"
proof -
  obtain s where s: "s \<in> set (sessions demo_stopped)" "s_status s = SStopped" "s_id s = 10" "s_stopReason s = Some UserStopped"
    using demo_started_sessions(2) by (cases "sessions demo_stopped") auto
  have "demo_stopped \<in> set [demo_stopped, demo_started, demo_db]" by simp
  from stop_is_final [OF demo_run_stopped demo_db_ok this s(1,2)] s(3,4) show ?thesis by auto
qed

section \<open>The sweeps\<close>

definition limit_law :: "(nat \<Rightarrow> nat list \<Rightarrow> nat list) \<Rightarrow> bool" where
  "limit_law pick \<longleftrightarrow> (\<forall>n xs. set (pick n xs) \<subseteq> set xs \<and> length (pick n xs) = min n (length xs)
     \<and> (distinct xs \<longrightarrow> distinct (pick n xs)))"

definition active_sessions :: "'p db \<Rightarrow> session_row list" where
  "active_sessions d = filter (\<lambda>s. s_status s = SActive) (sessions d)"

lemma filter_ids:
  assumes "distinct (map key xs)" "set ids \<subseteq> set (map key xs)" "distinct ids"
  shows "length (filter (\<lambda>x. key x \<in> set ids) xs) = length ids"
proof -
  have "set (map key (filter (\<lambda>x. key x \<in> set ids) xs)) = set ids" using assms(2) by auto
  moreover have "distinct (map key (filter (\<lambda>x. key x \<in> set ids) xs))" using assms(1) by (simp add: distinct_map_filter)
  ultimately show ?thesis using assms(3) by (metis distinct_card length_map)
qed

lemma session_ids_distinct: "db_ok d \<Longrightarrow> distinct (map s_id (sessions d))"
  by (simp add: db_ok_def sessions_part_def unique_on_def List.map_filter_def comp_def)

text \<open>
  The kill switch stops sessions at the sweep's pace and nothing else does: with trading open the
  sweep changes nothing; with it closed it stops exactly \<open>limit\<close> active sessions, or all of them when
  there are fewer, whichever rows the database picks; so enough sweeps leave no session active.
\<close>

theorem kill_switch_sweep:
  assumes "limit_law pick" "db_ok d" "stop_paused_sessions pick limit d = (out, d')"
  shows "length out = (if is_trading_open (trading_switch d) then 0 else min limit (length (active_sessions d)))
    \<and> length (active_sessions d') = length (active_sessions d) - length out
    \<and> (\<forall>p \<in> set out. \<exists>s \<in> set (sessions d'). s_id s = fst p \<and> s_status s = SStopped \<and> s_stopReason s = Some KillSwitch)"
proof -
  let ?ids = "pick limit (active_ids_where (\<lambda>_. \<not> trading_open_sql d) d)"
  let ?p = "\<lambda>s. s_status s = SActive \<and> s_id s \<in> set ?ids"
  have out: "out = map (\<lambda>s. (s_id s, s_accountId s)) (filter ?p (sessions d))"
    and d': "sessions d' = sql_update ?p (stopped_by KillSwitch (now d)) (sessions d)"
    using assms(3) by (auto simp: stop_paused_sessions_def stop_where_def Let_def)
  have cand: "active_ids_where (\<lambda>_. \<not> trading_open_sql d) d
      = (if is_trading_open (trading_switch d) then [] else map s_id (active_sessions d))"
    by (simp add: active_ids_where_def active_sessions_def trading_open_sql_iff)
  have dist: "distinct (map s_id (active_sessions d))"
    using session_ids_distinct [OF assms(2)] by (simp add: active_sessions_def distinct_map_filter)
  have law: "set ?ids \<subseteq> set (active_ids_where (\<lambda>_. \<not> trading_open_sql d) d)"
    "length ?ids = min limit (length (active_ids_where (\<lambda>_. \<not> trading_open_sql d) d))"
    using assms(1) unfolding limit_law_def by blast+
  have "distinct (active_ids_where (\<lambda>_. \<not> trading_open_sql d) d)" using dist by (simp add: cand)
  then have nodup: "distinct ?ids" using assms(1) unfolding limit_law_def by blast
  have fil: "filter ?p (sessions d) = filter (\<lambda>s. s_id s \<in> set ?ids) (active_sessions d)"
    by (simp add: active_sessions_def conj_commute)
  have "length (filter (\<lambda>s. s_id s \<in> set ?ids) (active_sessions d)) = length ?ids"
    using law(1) nodup by (intro filter_ids [OF dist]) (auto simp: cand split: if_splits)
  then have len: "length out = length ?ids" unfolding out fil by simp
  have "length out = (if is_trading_open (trading_switch d) then 0 else min limit (length (active_sessions d)))"
    using len law(2) by (simp add: cand)
  moreover have "filter (\<lambda>s. s_status s = SActive) (sql_update ?p (stopped_by KillSwitch (now d)) ss)
      = filter (\<lambda>s. s_status s = SActive \<and> \<not> ?p s) ss" for ss
    unfolding sql_update_def by (induction ss) auto
  then have "active_sessions d' = filter (\<lambda>s. s_id s \<notin> set ?ids) (active_sessions d)"
    unfolding active_sessions_def d' by (auto intro: filter_cong)
  then have "length (active_sessions d') = length (active_sessions d) - length out"
    using sum_length_filter_compl [of "\<lambda>s. s_id s \<in> set ?ids" "active_sessions d"] unfolding out fil by simp
  moreover have "\<exists>s \<in> set (sessions d'). s_id s = fst q \<and> s_status s = SStopped \<and> s_stopReason s = Some KillSwitch"
    if q: "q \<in> set out" for q
  proof -
    obtain s :: session_row where s: "s \<in> set (sessions d)" "?p s" "q = (s_id s, s_accountId s)"
      using q unfolding out by auto
    then have "stopped_by KillSwitch (now d) s \<in> set (sessions d')" unfolding d' set_sql_update by force
    then show ?thesis using s(3) by (intro bexI [of _ "stopped_by KillSwitch (now d) s"]) simp_all
  qed
  ultimately show ?thesis by blast
qed

lemma take_limit_law: "limit_law take"
  by (simp add: limit_law_def set_take_subset min.commute)

definition demo_closed :: "int db" where
  "demo_closed = demo_started\<lparr>trading_switch := None\<rparr>"

lemma demo_closed_active: "length (active_sessions demo_closed) = 1"
  by code_simp

theorem kill_switch_sweep_witness:
  "length (fst (stop_paused_sessions take 5 demo_closed)) = 1
   \<and> active_sessions (snd (stop_paused_sessions take 5 demo_closed)) = []"
proof -
  have ok: "db_ok demo_closed"
    using run_ok [OF demo_run_started demo_db_ok] by (simp add: demo_closed_def)
  obtain out d' where e: "stop_paused_sessions take 5 demo_closed = (out, d')" by (cases "stop_paused_sessions take 5 demo_closed")
  have "trading_switch demo_closed = None" by (simp add: demo_closed_def)
  then show ?thesis
    using kill_switch_sweep [OF take_limit_law ok e] demo_closed_active e by (auto simp: is_trading_open_def)
qed

section \<open>The start check\<close>

lemma account_by_id:
  assumes ok: "db_ok d" and a: "a \<in> set (accounts d)"
  shows "sql_first (\<lambda>x. a_id x = a_id a) (accounts d) = Some a"
  by (rule sql_first_unique [where key = "\<lambda>x. Some (a_id x)"]) (use ok a in \<open>auto simp: db_ok_def accounts_part_def\<close>)

lemma user_by_id:
  assumes ok: "db_ok d" and u: "u \<in> set (users d)" "p u"
  shows "sql_first (\<lambda>x. u_id x = u_id u \<and> p x) (users d) = Some u"
proof -
  have uniq: "unique_on (\<lambda>x. Some (u_id x)) (users d)" using ok by (simp add: db_ok_def users_part_def)
  show ?thesis by (rule sql_first_unique [OF uniq u(1)]) (use u(2) in auto)
qed

text \<open>
  The start check and the creation agree: on a state on which the check answers an account, the
  creation of the session on that account succeeds (on a process that allows its mode) and leaves it
  active there; where the check reports an active session, the creation is refused for the same reason
  and changes nothing.
\<close>

theorem start_check_agrees:
  assumes "db_ok d" "input = \<lparr>cs_telegramUserId = tg, cs_brokerAccountId = aid, cs_mode = m, cs_settings = st, cs_startSignalAction = act\<rparr>"
    "\<not> (demoOnly \<and> m = Real)"
  shows "(\<forall>expiry. check_trading_session_start tg named m d = StartOk aid expiry \<longrightarrow>
      (\<exists>d'. create_trading_session d input demoOnly d = (Inr (new_session input d), d')
         \<and> sessions d' = sessions d @ [new_session input d]))
    \<and> (\<forall>sid. check_trading_session_start tg named m d = StartActive sid aid \<longrightarrow>
      create_trading_session d input demoOnly d = (Inl (SessionRefused ActiveSessionExists), d))"
proof -
  have both: "(\<exists>user account. find_user d tg = Some user \<and> u_status user = UActive \<and> u_tradingMode user = m
      \<and> account \<in> set (accounts d) \<and> a_id account = aid \<and> a_userId account = u_id user \<and> a_status account = AActive
      \<and> \<not> a_tradingHalted account \<and> is_trading_open (trading_switch d))"
    if c: "check_trading_session_start tg named m d = StartOk aid x \<or> check_trading_session_start tg named m d = StartActive y aid" for x y
  proof -
    from c obtain user account where u: "find_user d tg = Some user" "u_status user \<noteq> UBlocked" "u_tradingMode user = m"
      "resolve_trading_account d (u_id user) named = Inr aid"
      and a: "sql_first (\<lambda>a. a_id a = aid) (accounts d) = Some account" "a_status account \<noteq> ARevoked"
        "a_status account \<noteq> APending" "\<not> a_tradingHalted account" and sw: "is_trading_open (trading_switch d)"
      by (auto simp: check_trading_session_start_def split: if_splits option.splits sum.splits)
    have acc: "account \<in> set (accounts d) \<and> a_id account = aid" by (rule sql_first_Some [OF a(1)])
    obtain b where b: "b \<in> set (accounts d)" "a_id b = aid" "a_userId b = u_id user"
      using resolve_trading_account_owner [OF u(4)] by blast
    have "b = account" using account_by_id [OF assms(1) b(1)] a(1) b(2) by simp
    moreover have "a_status account = AActive" using a(2,3) by (cases "a_status account") auto
    moreover have "u_status user = UActive" using u(2) by (cases "u_status user") auto
    ultimately show ?thesis using u acc b a(4) sw by blast
  qed
  have create: "create_trading_session d input demoOnly d = (case insert_session (new_session input d) d of
        Inr (row, d') \<Rightarrow> (Inr row, d')
      | Inl e \<Rightarrow> if unique_violation e = Some ''trading_sessions_active_account_idx''
                then (Inl (SessionRefused ActiveSessionExists), d) else (Inl e, d))"
    if c: "check_trading_session_start tg named m d = StartOk aid x \<or> check_trading_session_start tg named m d = StartActive y aid" for x y
  proof -
    from both [OF c] obtain user account where u: "find_user d tg = Some user" "u_status user = UActive" "u_tradingMode user = m"
      and a: "account \<in> set (accounts d)" "a_id account = aid" "a_userId account = u_id user" "a_status account = AActive"
        "\<not> a_tradingHalted account" and sw: "is_trading_open (trading_switch d)" by blast
    have user: "user \<in> set (users d) \<and> u_telegramUserId user = tg" by (rule find_user_Some [OF u(1)])
    have "sql_first (\<lambda>a. a_id a = cs_brokerAccountId input
          \<and> list_ex (\<lambda>u. u_id u = a_userId a \<and> u_telegramUserId u = cs_telegramUserId input) (users d)) (accounts d) = Some account"
      by (rule sql_first_unique [where key = "\<lambda>x. Some (a_id x)"])
        (use assms(1,2) a user in \<open>auto simp: db_ok_def accounts_part_def list_ex_iff\<close>)
    moreover have "sql_first (\<lambda>a. a_id a = cs_brokerAccountId input) (accounts d) = Some account"
      using account_by_id [OF assms(1) a(1)] a(2) assms(2) by simp
    moreover have "sql_first (\<lambda>u. u_id u = a_userId account \<and> u_status u = UActive) (users d) = Some user"
      using user_by_id [OF assms(1), of user "\<lambda>u. u_status u = UActive"] user u(2) a(3) by simp
    ultimately show ?thesis using assms(2,3) u(3) a(4,5) sw
      by (auto simp: create_trading_session_def create_session_tx_def run_transaction_def split: sum.split prod.split)
  qed
  have none: "\<not> key_conflict active_session_key (new_session input d) (sessions d) \<longleftrightarrow> active_session_of d aid = None"
    using assms(2) by (auto simp: active_session_of_def sql_first_None key_conflict_iff active_session_key_def new_session_def)
  have "\<exists>d'. create_trading_session d input demoOnly d = (Inr (new_session input d), d') \<and> sessions d' = sessions d @ [new_session input d]"
    if c: "check_trading_session_start tg named m d = StartOk aid x" for x
  proof -
    have "active_session_of d aid = None"
      using c by (auto simp: check_trading_session_start_def split: if_splits option.splits sum.splits)
    then show ?thesis using create [OF disjI1 [OF c]] none by (simp add: insert_session_def)
  qed
  moreover have "create_trading_session d input demoOnly d = (Inl (SessionRefused ActiveSessionExists), d)"
    if c: "check_trading_session_start tg named m d = StartActive y aid" for y
  proof -
    have "active_session_of d aid \<noteq> None"
      using c by (auto simp: check_trading_session_start_def split: if_splits option.splits sum.splits)
    then show ?thesis using create [OF disjI2 [OF c]] none by (simp add: insert_session_def)
  qed
  ultimately show ?thesis by blast
qed

lemma demo_check: "check_trading_session_start 7 None Demo demo_db = StartOk 1 9000"
  "check_trading_session_start 7 None Demo demo_started = StartActive 10 1"
  by code_simp+

theorem start_check_agrees_witness:
  "(\<exists>d'. create_trading_session demo_db demo_start True demo_db = (Inr (new_session demo_start demo_db), d'))
   \<and> create_trading_session demo_started demo_start True demo_started = (Inl (SessionRefused ActiveSessionExists), demo_started)"
proof -
  have ok: "db_ok demo_started" by (rule run_ok [OF demo_run_started demo_db_ok])
  have m: "\<not> (True \<and> Demo = Real)" by simp
  show ?thesis
    using start_check_agrees [OF demo_db_ok demo_start_def m, of None] start_check_agrees [OF ok demo_start_def m, of None] demo_check
    by blast
qed

section \<open>The batch\<close>

lemma fold_push:
  "fold push_intent rows m sid = map_option (\<lambda>b. b\<lparr>bt_history := (bt_history b)\<lparr>sh_intents :=
     sh_intents (bt_history b) @ map snd (filter (\<lambda>r. fst r = sid) rows)\<rparr>\<rparr>) (m sid)"
proof (induction rows arbitrary: m)
  case Nil
  then show ?case by (cases "m sid") auto
next
  case (Cons r rows)
  then show ?case by (cases "m (fst r)"; cases "m sid") (auto simp: push_intent_def)
qed

lemma fold_insert:
  "distinct (map fst rows) \<Longrightarrow>
     fold (\<lambda>(sid, b) m. m(sid \<mapsto> b)) rows m x = (case map_of rows x of None \<Rightarrow> m x | Some b \<Rightarrow> Some b)"
proof (induction rows arbitrary: m)
  case (Cons r rows)
  then have "map_of rows (fst r) = None" by (simp add: map_of_eq_None_iff)
  then show ?case using Cons by (cases r) (auto split: option.split)
qed simp

lemma batch_rows_keys: "distinct (map fst items) \<Longrightarrow> distinct (map fst (batch_rows items maxMs d)) \<and> set (map fst (batch_rows items maxMs d)) \<subseteq> set (map fst items)"
proof (induction items)
  case Nil
  then show ?case by (simp add: batch_rows_def List.map_filter_def)
next
  case (Cons it items)
  then show ?case
    by (cases it) (auto simp: batch_rows_def List.map_filter_simps split: option.splits bind_splits)
qed

lemma batch_rows_map_of:
  "map_of (batch_rows items maxMs d) sid =
     Option.bind (map_of items sid) (\<lambda>limit. Option.bind (sql_first (\<lambda>s. s_id s = sid) (sessions d)) (\<lambda>s.
       map_option (\<lambda>owner. \<lparr>bt_history = history_of d maxMs limit s owner [],
         bt_balance = map_option (balance_of d limit s) (session_snapshot d s)\<rparr>) (session_owner d s)))"
  if "distinct (map fst items)"
  using that
proof (induction items)
  case Nil
  then show ?case by (simp add: batch_rows_def List.map_filter_def)
next
  case (Cons it items)
  have rest: "map_of (batch_rows items maxMs d) i = None" if "i \<notin> fst ` set items" for i
    using batch_rows_keys [of items maxMs d] Cons(2) that by (auto simp: map_of_eq_None_iff)
  show ?case
  proof (cases "fst it = sid")
    case True
    then have "map_of (batch_rows items maxMs d) sid = None" using rest Cons(2) by auto
    then show ?thesis using True
      by (cases it) (auto simp: batch_rows_def List.map_filter_simps Option.bind_map_option comp_def split: option.split bind_splits)
  next
    case False
    then have "map_of (batch_rows (it # items) maxMs d) sid = map_of (batch_rows items maxMs d) sid"
      by (cases it) (auto simp: batch_rows_def List.map_filter_simps split: option.split bind_splits)
    then show ?thesis using Cons False by (cases it) simp
  qed
qed

lemma batch_intents_of:
  assumes "List.member ids sid"
  shows "map snd (filter (\<lambda>r. fst r = sid) (batch_intents ids d)) = concat (map (history_rows d) (session_intents sid d))"
proof -
  let ?rows = "\<lambda>r. case i_sessionId r of None \<Rightarrow> [] | Some s \<Rightarrow> map (\<lambda>h. (s, h)) (history_rows d r)"
  have step: "map snd (filter (\<lambda>r. fst r = sid) (concat (map ?rows xs)))
      = concat (map (history_rows d) (filter (\<lambda>r. i_sessionId r = Some sid) xs))" for xs
    by (induction xs) (auto simp: filter_map comp_def split: option.split)
  have "filter (\<lambda>x. (case i_sessionId x of None \<Rightarrow> False | Some s \<Rightarrow> List.member ids s) \<and> i_sessionId x = Some sid) xs
      = filter (\<lambda>r. i_sessionId r = Some sid) xs" for xs :: "intent_row list"
    using assms by (intro filter_cong) (auto split: option.split)
  then show ?thesis by (simp add: batch_intents_def session_intents_def step filter_sort)
qed

text \<open>
  The batch read answers, for every session of the batch, exactly what the two single-session reads
  it replaces answer: the same history, the same balance and the same verdicts, and nothing for a
  session the single read does not find.
\<close>

theorem batch_read_is_single_reads:
  assumes "distinct (map fst items)"
  shows "read_session_batch items maxMs d sid =
    (case map_of items sid of None \<Rightarrow> None
     | Some limit \<Rightarrow> map_option (\<lambda>h. \<lparr>bt_history = h, bt_balance = read_session_balance sid limit d\<rparr>)
         (read_session_history sid maxMs limit d))"
proof -
  let ?rows = "batch_rows items maxMs d"
  have m: "fold (\<lambda>(sid, b) m. m(sid \<mapsto> b)) ?rows Map.empty sid = map_of ?rows sid"
    using fold_insert [of ?rows Map.empty sid] batch_rows_keys [OF assms, of maxMs d]
    by (cases "map_of ?rows sid") (simp_all del: fun_upd_apply)
  have r: "read_session_batch items maxMs d sid = map_option (\<lambda>b. b\<lparr>bt_history := (bt_history b)\<lparr>sh_intents :=
     sh_intents (bt_history b) @ map snd (filter (\<lambda>r. fst r = sid) (batch_intents (map fst ?rows) d))\<rparr>\<rparr>) (map_of ?rows sid)"
  proof (cases "items = [] \<or> ?rows = []")
    case True
    then have "?rows = []" by (auto simp: batch_rows_def List.map_filter_def)
    then show ?thesis by (simp add: read_session_batch_def)
  next
    case False
    then show ?thesis by (simp add: read_session_batch_def Let_def fold_push m)
  qed
  show ?thesis
  proof (cases "map_of ?rows sid")
    case None
    then show ?thesis unfolding r
      using batch_rows_map_of [OF assms, of maxMs d sid]
      by (auto simp: read_session_history_def split: option.splits bind_splits)
  next
    case (Some b)
    then have "sid \<in> set (map fst ?rows)" using map_of_SomeD [OF Some] by force
    then have "List.member (map fst ?rows) sid" by simp
    from batch_intents_of [OF this, of d] show ?thesis
      unfolding r Some using Some batch_rows_map_of [OF assms, of maxMs d sid]
      by (auto simp: read_session_history_def read_session_balance_def history_of_def split: option.splits bind_splits)
  qed
qed

theorem batch_read_is_single_reads_witness:
  "read_session_batch [(10, 5000), (11, 5000)] 60000 demo_started 10 =
     map_option (\<lambda>h. \<lparr>bt_history = h, bt_balance = read_session_balance 10 5000 demo_started\<rparr>)
       (read_session_history 10 60000 5000 demo_started)
   \<and> read_session_batch [(10, 5000), (11, 5000)] 60000 demo_started 12 = None"
proof -
  have "distinct (map fst [(10::nat, 5000::int), (11, 5000)])" by simp
  from batch_read_is_single_reads [OF this, of 60000 demo_started 10] batch_read_is_single_reads [OF this, of 60000 demo_started 12]
  show ?thesis by simp
qed

section \<open>The scan\<close>

text \<open>What the scan may answer.\<close>

definition runnable :: "int \<Rightarrow> nat list \<Rightarrow> nat list option \<Rightarrow> 'p db \<Rightarrow> session_row \<Rightarrow> bool" where
  "runnable maxMs exclude accs d s \<longleftrightarrow>
     s_status s = SActive \<and> \<not> s_startedAt s < milliseconds_ago d maxMs
     \<and> (\<forall>r \<in> set (intents d). i_accountId r = s_accountId s \<longrightarrow> terminal (i_status r))
     \<and> s_id s \<notin> set exclude \<and> (case accs of None \<Rightarrow> True | Some as \<Rightarrow> s_accountId s \<in> set as)"

lemma account_idle_iff: "account_idle d a \<longleftrightarrow> (\<forall>r \<in> set (intents d). i_accountId r = a \<longrightarrow> terminal (i_status r))"
  unfolding account_idle_def terminal_def [symmetric] by (auto simp: list_ex_iff)

lemma list_runnable_sessions_eq:
  "list_runnable_sessions limit maxMs exclude accs d =
     take limit (sort_key scan_key (filter (runnable maxMs exclude accs d) (sessions d)))"
proof -
  have "(s_status s = SActive \<and> \<not> past_deadline d maxMs s \<and> account_idle d (s_accountId s)
        \<and> (exclude = [] \<or> \<not> List.member exclude (s_id s))
        \<and> (case accs of None \<Rightarrow> True | Some as \<Rightarrow> List.member as (s_accountId s))) = runnable maxMs exclude accs d s" for s
    by (auto simp: runnable_def past_deadline_def account_idle_iff split: option.split)
  moreover have "filter (runnable maxMs exclude (Some []) d) (sessions d) = []" by (simp add: runnable_def filter_empty_conv)
  ultimately show ?thesis by (simp add: list_runnable_sessions_def)
qed

lemma take_sorted_least:
  assumes "sorted (map key xs)" "x \<in> set (take n xs)" "y \<in> set xs" "y \<notin> set (take n xs)"
  shows "key x \<le> key y"
proof -
  have "y \<in> set (drop n xs)" using assms(3,4) by (metis Un_iff append_take_drop_id set_append)
  moreover have "sorted (map key (take n xs) @ map key (drop n xs))" using assms(1) by (metis append_take_drop_id map_append)
  ultimately show ?thesis using assms(2) by (auto simp: sorted_append)
qed

lemma scan_least:
  assumes "s \<in> set (list_runnable_sessions limit maxMs exclude accs d)" "t \<in> set (sessions d)"
    "runnable maxMs exclude accs d t" "t \<notin> set (list_runnable_sessions limit maxMs exclude accs d)"
  shows "scan_key s \<le> scan_key t"
  using assms unfolding list_runnable_sessions_eq
  by (intro take_sorted_least [where xs = "sort_key scan_key (filter (runnable maxMs exclude accs d) (sessions d))"]) simp_all

lemma scan_length:
  assumes "t \<in> set (sessions d)" "runnable maxMs exclude accs d t" "t \<notin> set (list_runnable_sessions limit maxMs exclude accs d)"
  shows "length (list_runnable_sessions limit maxMs exclude accs d) = limit"
proof (rule ccontr)
  let ?xs = "sort_key scan_key (filter (runnable maxMs exclude accs d) (sessions d))"
  assume "length (list_runnable_sessions limit maxMs exclude accs d) \<noteq> limit"
  then have "length ?xs < limit" by (simp add: list_runnable_sessions_eq)
  then have "set (list_runnable_sessions limit maxMs exclude accs d) = set ?xs" by (simp add: list_runnable_sessions_eq)
  then show False using assms by simp
qed

definition ahead_of :: "session_row \<Rightarrow> int \<Rightarrow> nat list \<Rightarrow> nat list option \<Rightarrow> 'p db \<Rightarrow> session_row list" where
  "ahead_of t maxMs exclude accs d = filter (\<lambda>s. runnable maxMs exclude accs d s \<and> scan_key s \<le> scan_key t) (sessions d)"

lemma out_ahead:
  assumes "t \<in> set (sessions d)" "runnable maxMs exclude accs d t"
    "t \<notin> set (list_runnable_sessions limit maxMs exclude accs d)"
    "s \<in> set (list_runnable_sessions limit maxMs exclude accs d)"
  shows "s \<in> set (ahead_of t maxMs exclude accs d)"
  using scan_least [OF assms(4,1,2,3)] assms(4)
  by (auto simp: ahead_of_def list_runnable_sessions_eq dest: in_set_takeD)

lemma out_distinct:
  assumes "db_ok d" shows "distinct (map s_id (list_runnable_sessions limit maxMs exclude accs d))"
proof -
  have "distinct (map s_id (sort_key scan_key (filter (runnable maxMs exclude accs d) (sessions d))))"
    using distinct_map_filter [OF session_ids_distinct [OF assms]] by (simp add: distinct_map)
  then show ?thesis unfolding list_runnable_sessions_eq by (metis distinct_take take_map)
qed

lemma session_by_id: "db_ok d \<Longrightarrow> s \<in> set (sessions d) \<Longrightarrow> t \<in> set (sessions d) \<Longrightarrow> s_id s = s_id t \<Longrightarrow> s = t"
  using session_ids_distinct [of d] by (auto simp: distinct_map inj_on_def)

text \<open>
  The scan is fair: it answers only sessions that may run, the longest undecided first. A runnable
  session it leaves out has at least \<open>limit\<close> sessions at or ahead of it besides itself, and once the
  tick has marked the ones it answered, exactly \<open>limit\<close> fewer: so no session starves.
\<close>

theorem scan_is_fair:
  assumes "db_ok d" "t \<in> set (sessions d)" "runnable maxMs exclude accs d t" "\<forall>x. s_lastDecisionAt t = Some x \<longrightarrow> x < now d"
  shows "sorted (map scan_key (list_runnable_sessions limit maxMs exclude accs d))
    \<and> set (list_runnable_sessions limit maxMs exclude accs d) \<subseteq> {s \<in> set (sessions d). runnable maxMs exclude accs d s}
    \<and> (t \<in> set (list_runnable_sessions limit maxMs exclude accs d)
       \<or> limit < length (ahead_of t maxMs exclude accs d)
         \<and> (\<exists>d'. mark_session_decisions (map s_id (list_runnable_sessions limit maxMs exclude accs d)) d = d'
             \<and> t \<in> set (sessions d') \<and> runnable maxMs exclude accs d' t
             \<and> length (ahead_of t maxMs exclude accs d') = length (ahead_of t maxMs exclude accs d) - limit))"
proof -
  let ?out = "list_runnable_sessions limit maxMs exclude accs d"
  let ?ids = "map s_id ?out"
  let ?d' = "mark_session_decisions ?ids d"
  let ?q = "\<lambda>s. runnable maxMs exclude accs d s \<and> scan_key s \<le> scan_key t"
  let ?f = "\<lambda>s. s\<lparr>s_lastDecisionAt := Some (now d), s_updatedAt := now d\<rparr>"
  have sub: "set ?out \<subseteq> {s \<in> set (sessions d). runnable maxMs exclude accs d s}"
    by (auto simp: list_runnable_sessions_eq dest: in_set_takeD)
  have srt: "sorted (map scan_key ?out)"
    unfolding list_runnable_sessions_eq take_map [symmetric] by (intro sorted_wrt_take) simp
  have "limit < length (ahead_of t maxMs exclude accs d) \<and> t \<in> set (sessions ?d') \<and> runnable maxMs exclude accs ?d' t
      \<and> length (ahead_of t maxMs exclude accs ?d') = length (ahead_of t maxMs exclude accs d) - limit"
    if out: "t \<notin> set ?out"
  proof -
    have in_out: "s_id s \<in> set ?ids \<longleftrightarrow> s \<in> set ?out" if "s \<in> set (sessions d)" for s
      using session_by_id [OF assms(1) that] sub by auto
    have upd: "sessions ?d' = map (\<lambda>s. if s \<in> set ?out then ?f s else s) (sessions d)"
    proof -
      have "(List.member ?ids (s_id s) \<and> s_status s = SActive) = (s \<in> set ?out)" if "s \<in> set (sessions d)" for s
        using in_out [OF that] sub by (auto simp: runnable_def)
      then show ?thesis by (cases "?ids = []") (auto simp: mark_session_decisions_def sql_update_def)
    qed
    have run: "runnable maxMs exclude accs ?d' s = runnable maxMs exclude accs d s" for s
      by (simp add: runnable_def mark_session_decisions_def milliseconds_ago_def)
    have behind: "\<not> scan_key (?f s) \<le> scan_key t" for s
      using assms(4) by (auto simp: scan_key_def split: option.split)
    have "length (ahead_of t maxMs exclude accs ?d') = length (filter (\<lambda>s. ?q s \<and> s \<notin> set ?out) (sessions d))"
      unfolding ahead_of_def upd filter_map length_map comp_def run
      using behind by (intro arg_cong [of _ _ length] filter_cong) auto
    moreover have "length (filter (\<lambda>s. s \<in> set ?out) (ahead_of t maxMs exclude accs d)) = limit"
    proof -
      have "filter (\<lambda>s. s \<in> set ?out) (ahead_of t maxMs exclude accs d) = filter (\<lambda>s. s_id s \<in> set ?ids) (sessions d)"
        using out_ahead [OF assms(2,3) out] in_out unfolding ahead_of_def filter_filter
        by (intro filter_cong) auto
      also have "length \<dots> = length ?ids"
        using sub by (intro filter_ids [OF session_ids_distinct [OF assms(1)] _ out_distinct [OF assms(1)]]) auto
      finally show ?thesis using scan_length [OF assms(2,3) out] by simp
    qed
    moreover have "length (filter (\<lambda>s. s \<in> set ?out) (ahead_of t maxMs exclude accs d))
        + length (filter (\<lambda>s. ?q s \<and> s \<notin> set ?out) (sessions d)) = length (ahead_of t maxMs exclude accs d)"
      using sum_length_filter_compl [of "\<lambda>s. s \<in> set ?out" "ahead_of t maxMs exclude accs d"]
      by (simp add: ahead_of_def conj_commute)
    moreover have "0 < length (filter (\<lambda>s. ?q s \<and> s \<notin> set ?out) (sessions d))"
      using out assms(2,3) by (intro length_pos_if_in_set [of t]) simp
    moreover have "t \<in> set (sessions ?d')" using out assms(2) unfolding upd by force
    ultimately show ?thesis using assms(3) run by (simp del: length_greater_0_conv)
  qed
  then show ?thesis using sub srt by blast
qed

lemmas demo_ok_defs = new_session_def demo_start_def db_ok_def demo_db_def users_part_def user_row_ok_def accounts_part_def
  sessions_part_def intents_part_def ledger_part_def trades_part_def outbox_part_def people_part_def unique_on_Cons key_conflict_def
  ledger_sum_def held_def active_session_key_def session_row_ok_def Let_def

text \<open>Two accounts' sessions, and a scan of one.\<close>

definition demo_two :: "int db" where
  "demo_two = (let s = hd (sessions demo_started) in
     demo_started\<lparr>accounts := accounts demo_started @ [(hd (accounts demo_started))\<lparr>a_id := 2, a_brokerUserId := ''trader-2''\<rparr>],
       sessions := [s, s\<lparr>s_id := 11, s_accountId := 2, s_createdAt := 1001\<rparr>], next_id := 12\<rparr>)"

lemma demo_two_ok: "db_ok demo_two"
proof -
  have eq: "demo_started = demo_db\<lparr>sessions := [new_session demo_start demo_db], next_id := 11\<rparr>"
    by code_simp
  show ?thesis unfolding demo_two_def eq
    by (simp add: demo_ok_defs)
qed

theorem scan_is_fair_witness:
  "\<exists>t \<in> set (sessions demo_two). s_id t = 11
     \<and> length (ahead_of t 60000 [] None demo_two) = 2
     \<and> length (ahead_of t 60000 [] None (mark_session_decisions (map s_id (list_runnable_sessions 1 60000 [] None demo_two)) demo_two)) = 1"
proof -
  let ?t = "sessions demo_two ! 1"
  have v: "s_id ?t = 11" "?t \<in> set (sessions demo_two)" "s_lastDecisionAt ?t = None"
    "map s_id (list_runnable_sessions 1 60000 [] None demo_two) = [10]"
    "length (ahead_of ?t 60000 [] None demo_two) = 2" "runnable 60000 [] None demo_two ?t"
    by code_simp+
  then have "?t \<notin> set (list_runnable_sessions 1 60000 [] None demo_two)"
    by (cases "list_runnable_sessions 1 60000 [] None demo_two") auto
  then show ?thesis
    using scan_is_fair [OF demo_two_ok v(2,6), of 1] v by (intro bexI [of _ ?t]) auto
qed

section \<open>The session's intents\<close>

lemma create_reserved_session:
  "create_reserved input (Some s) uid acc d = Inr (res, d') \<Longrightarrow>
     \<exists>r \<in> set (sessions d). s_id r = is_id s \<and> s_accountId r = acc \<and> s_mode r = cq_mode input \<and> s_status r = SActive"
  by (auto simp: create_reserved_def sql_first_None split: if_splits)

lemma create_in_transaction_session:
  assumes "create_in_transaction seen input (Some s) opts d = Inr (res, d')" "cr_created res" "cq_brokerAccountId input = Some acc"
  shows "\<exists>r \<in> set (sessions d). s_id r = is_id s \<and> s_accountId r = acc \<and> s_mode r = cq_mode input \<and> s_status r = SActive"
proof -
  from assms(1,2) obtain uid a p where r: "resolve_trading_account seen uid (cq_brokerAccountId input) = Inr a"
    and c: "create_reserved input (Some s) uid a (d\<lparr>users := sql_update p (\<lambda>u. u\<lparr>u_tokenReserved := u_tokenReserved u + TOKENS_PER_INTENT\<rparr>) (users d)\<rparr>)
      = Inr (res, d')"
    by (auto simp: create_in_transaction_def find_replay_def Let_def split: option.splits sum.splits if_splits)
  have "a = acc" using resolve_trading_account_named [OF r] assms(3) by simp
  then show ?thesis using create_reserved_session [OF c] by simp
qed

lemma create_committed:
  assumes "create_trade_intent seen input session opts d = (Inr res, d')" "cr_created res"
  shows "create_in_transaction seen input session opts d = Inr (res, d')"
  using assms by (auto simp: create_trade_intent_def run_transaction_def find_replay_def split: sum.splits option.splits if_splits prod.splits)

lemma session_intent_active:
  assumes "create_session_intent seen x demoOnly d = (Inr res, d')" "cr_created res"
  shows "\<exists>s \<in> set (sessions d). s_id s = xi_sessionId x \<and> s_status s = SActive \<and> s_accountId s = xi_brokerAccountId x \<and> s_mode s = xi_mode x"
proof -
  have acc: "cq_brokerAccountId (session_request x) = Some (xi_brokerAccountId x)" by (simp add: session_request_def)
  show ?thesis
    using create_in_transaction_session [OF create_committed [OF assms(1) [unfolded create_session_intent_def] assms(2)] assms(2) acc]
    by (auto simp: session_request_def)
qed

text \<open>
  The driver opens a deal only under a session that is active at that moment on the deal's account
  and in its mode; the intent carries the session, the account, the mode and the id of the step.
\<close>

theorem session_intent_needs_active:
  assumes "platform_step\<^sup>*\<^sup>* [d0] (d # h)" "db_ok d0" "seen \<in> set (d # h)"
    "create_session_intent seen x demoOnly d = (Inr res, d')" "cr_created res"
  shows "\<exists>s \<in> set (sessions d). s_id s = xi_sessionId x \<and> s_status s = SActive
    \<and> i_sessionId (cr_intent res) = Some (s_id s) \<and> i_accountId (cr_intent res) = s_accountId s
    \<and> i_mode (cr_intent res) = s_mode s \<and> i_clientRequestId (cr_intent res) = session_request_id (xi_sessionId x) (xi_step x)
    \<and> cr_intent res \<in> set (intents d')"
proof -
  have ok: "db_ok d" and g: "grows seen d" and ok0: "db_ok seen"
    using run_ok [OF assms(1,2)] run_progress [OF assms(1-3)] run_seen_ok [OF assms(1-3)] progress_grows by blast+
  have "created_in seen (session_request x) (Some \<lparr>is_id = xi_sessionId x, is_decision = xi_decision x,
      is_submitDeadlineAt = xi_submitDeadlineAt x, is_submitNotBeforeAt = xi_submitNotBeforeAt x\<rparr>) d res d'"
    (is "created_in seen ?q ?s d res d'")
    using create_trade_intent_cases [OF ok g ok0, of ?q ?s "\<lparr>co_checkStake = False, co_demoOnly = demoOnly\<rparr>"] assms(4,5)
    unfolding create_session_intent_def replay_of_def by auto
  then show ?thesis
    using session_intent_active [OF assms(4,5)] unfolding created_in_def
    by (elim exE conjE bexE, intro bexI)
      (simp_all add: queued_row_def planned_row_def session_request_def queued_state_def)
qed

text \<open>
  C23: A stopped session never trades again: after a state that has it stopped, no call of the driver,
  whatever it read and whatever step it is at, creates an intent of that session.
\<close>

theorem stopped_session_opens_nothing:
  assumes "platform_step\<^sup>*\<^sup>* [d0] (d # h)" "db_ok d0" "old \<in> set (d # h)" "s \<in> set (sessions old)" "s_status s = SStopped"
    "create_session_intent seen x demoOnly d = (Inr res, d')" "xi_sessionId x = s_id s"
  shows "\<not> cr_created res"
proof
  assume "cr_created res"
  from session_intent_active [OF assms(6) this] assms(7) obtain t where
    t: "t \<in> set (sessions d)" "s_id t = s_id s" "s_status t = SActive" by auto
  have "keeps_sessions old d" by (rule laterD(3) [OF run_later [OF assms(1-3)]])
  then obtain s' where "s' \<in> set (sessions d)" "session_after s s'" using assms(4) unfolding keeps_sessions_def by blast
  then show False using session_by_id [OF run_ok [OF assms(1,2)], of s' t] t assms(5) by (auto simp: session_after_def)
qed

text \<open>A deal of the demo's session, and its stop after it.\<close>

definition demo_step :: session_intent_input where
  "demo_step = \<lparr>xi_sessionId = 10, xi_step = 0, xi_telegramUserId = 7, xi_brokerAccountId = 1, xi_mode = Demo, xi_assetId = 5,
     xi_amount = ''2.50'', xi_action = Up, xi_durationSec = 60, xi_decision = None, xi_submitDeadlineAt = None,
     xi_submitNotBeforeAt = None\<rparr>"

definition demo_deal :: "int db" where "demo_deal = snd (create_session_intent demo_started demo_step True demo_started)"
definition demo_over :: "int db" where "demo_over = snd (stop_user_sessions 7 demo_deal)"

lemma demo_deal_results:
  "map_sum id cr_created (fst (create_session_intent demo_started demo_step True demo_started)) = Inr True"
  "map_sum id cr_created (fst (create_session_intent demo_over demo_step True demo_over)) = Inr False"
  "map (\<lambda>s. (s_id s, s_status s)) (sessions demo_over) = [(10, SStopped)]"
  by code_simp+

lemma demo_run_deal: "platform_step\<^sup>*\<^sup>* [demo_db] [demo_deal, demo_started, demo_db]"
proof -
  have "create_session_intent demo_started demo_step True demo_started
      = (fst (create_session_intent demo_started demo_step True demo_started), demo_deal)" by (simp add: demo_deal_def)
  from Create [OF _ this [unfolded create_session_intent_def], of "[demo_db]"]
  have "platform_step [demo_started, demo_db] [demo_deal, demo_started, demo_db]" by simp
  then show ?thesis using demo_run_started by (rule rtranclp.rtrancl_into_rtrancl [rotated])
qed

lemma demo_run_over: "platform_step\<^sup>*\<^sup>* [demo_db] [demo_over, demo_deal, demo_started, demo_db]"
  by (rule run_change [OF demo_run_deal], rule SessionStep,
      rule StopUser [where out = "fst (stop_user_sessions 7 demo_deal)" and tg = 7])
    (simp add: demo_over_def)

lemma map_sum_Inr: "map_sum id f (fst p) = Inr y \<Longrightarrow> \<exists>r. p = (Inr r, snd p) \<and> f r = y"
  by (cases p; cases "fst p") auto

theorem session_intent_needs_active_witness:
  "\<exists>res. create_session_intent demo_started demo_step True demo_started = (Inr res, demo_deal)
     \<and> i_sessionId (cr_intent res) = Some 10 \<and> i_mode (cr_intent res) = Demo"
proof -
  obtain res where r: "create_session_intent demo_started demo_step True demo_started = (Inr res, demo_deal)" "cr_created res"
    using map_sum_Inr [OF demo_deal_results(1)] by (auto simp: demo_deal_def)
  have "demo_started \<in> set [demo_started, demo_db]" by simp
  from session_intent_needs_active [OF demo_run_started demo_db_ok this r] obtain s where
    s: "s \<in> set (sessions demo_started)" "s_id s = 10" "i_sessionId (cr_intent res) = Some (s_id s)" "i_mode (cr_intent res) = s_mode s"
    by (auto simp: demo_step_def)
  have "map s_mode (sessions demo_started) = [Demo]" by code_simp
  then have "s_mode s = Demo" using s(1) by auto
  then show ?thesis using r s by auto
qed

theorem stopped_session_opens_nothing_witness:
  "\<exists>res d'. create_session_intent demo_over demo_step True demo_over = (Inr res, d') \<and> \<not> cr_created res"
proof -
  obtain res where r: "create_session_intent demo_over demo_step True demo_over
      = (Inr res, snd (create_session_intent demo_over demo_step True demo_over))"
    using map_sum_Inr [OF demo_deal_results(2)] by blast
  obtain s where s: "s \<in> set (sessions demo_over)" "s_status s = SStopped" "s_id s = 10"
    using demo_deal_results(3) by auto
  have "demo_over \<in> set [demo_over, demo_deal, demo_started, demo_db]" "xi_sessionId demo_step = s_id s"
    using s by (simp_all add: demo_step_def)
  from stopped_session_opens_nothing [OF demo_run_over demo_db_ok this(1) s(1,2) r this(2)] r show ?thesis by blast
qed

section \<open>The summary\<close>

lemma settled_trade_closed:
  assumes ok: "db_ok d" and t: "t \<in> set (settled_trades sid d)"
  shows "t_status t = TClosed \<and> t_profit t \<noteq> None \<and> t_closePrice t \<noteq> None"
proof -
  from t obtain r where r: "r \<in> set (intents d)" "i_status r = Settled" and tr: "t \<in> set (trades d)" "t_intentId t = Some (i_id r)"
    by (auto simp: settled_trades_def session_intents_def)
  have "links_of (i_id r) (trades d) = [TClosed]"
    using ok r by (simp add: db_ok_def trades_part_def link_statuses_def)
  moreover have "t_status t \<in> set (links_of (i_id r) (trades d))" using tr by (auto simp: links_of_def)
  ultimately have "t_status t = TClosed" by simp
  then show ?thesis using ok tr(1) by (auto simp: db_ok_def trades_part_def trade_row_ok_def)
qed

lemma summary_trades_defined:
  "(\<forall>t \<in> set ts. t_profit t \<noteq> None \<and> t_closePrice t \<noteq> None) \<Longrightarrow>
     \<exists>out. summary_trades ts = Some out \<and> length out = length ts
       \<and> map st_profit out = List.map_filter t_profit ts"
  by (induction ts) (auto simp: List.map_filter_simps split: option.split)

lemma settled_trades_sessions [simp]: "settled_trades sid (d\<lparr>sessions := ss\<rparr>) = settled_trades sid d"
  by (simp add: settled_trades_def session_intents_def)

text \<open>
  The summary is claimed once and complete: in a reachable state the claim never finds an open
  trade; when it answers a summary, that lists the profit of every settled trade of the session and
  its total is the database's sum of just these; and no later claim of the session answers one again.
\<close>

theorem summary_claimed_once:
  assumes "platform_step\<^sup>*\<^sup>* [d0] (d # h)" "db_ok d0"
  shows "\<exists>x d1. claim_session_summary sum_text sid tg d = Inr (x, d1)
    \<and> (\<forall>sm. x = Some sm \<longrightarrow>
        map st_profit (ss_trades sm) = List.map_filter t_profit (settled_trades sid d)
        \<and> length (ss_trades sm) = length (settled_trades sid d)
        \<and> ss_result sm = sum_text (map st_profit (ss_trades sm))
        \<and> (\<forall>d2 h2. platform_step\<^sup>*\<^sup>* (d1 # d # h) (d2 # h2) \<longrightarrow> claim_session_summary sum_text sid tg2 d2 = Inr (None, d2)))"
proof -
  let ?p = "\<lambda>s. s_id s = sid \<and> summary_due d tg s"
  let ?d1 = "d\<lparr>sessions := sql_update ?p (\<lambda>s. s\<lparr>s_summarySentAt := Some (now d)\<rparr>) (sessions d)\<rparr>"
  have ok: "db_ok d" by (rule run_ok [OF assms])
  obtain out where out: "summary_trades (settled_trades sid d) = Some out" "length out = length (settled_trades sid d)"
    "map st_profit out = List.map_filter t_profit (settled_trades sid d)"
    using summary_trades_defined [of "settled_trades sid d"] settled_trade_closed [OF ok] by blast
  show ?thesis
  proof (cases "sql_first ?p (sessions d)")
    case None
    then show ?thesis by (simp add: claim_session_summary_def)
  next
    case (Some s)
    then have s: "s \<in> set (sessions d)" "s_id s = sid" using sql_first_Some [OF Some] by auto
    have claim: "claim_session_summary sum_text sid tg d
        = Inr (Some \<lparr>ss_result = sum_text (List.map_filter t_profit (settled_trades sid d)), ss_trades = out\<rparr>, ?d1)"
      using Some out(1) by (simp add: claim_session_summary_def Let_def)
    have again: "claim_session_summary sum_text sid tg2 d2 = Inr (None, d2)"
      if run: "platform_step\<^sup>*\<^sup>* (?d1 # d # h) (d2 # h2)" for d2 h2
    proof -
      have step: "platform_step\<^sup>*\<^sup>* [d0] (?d1 # d # h)"
        using run_change [OF assms(1) SessionStep [OF ClaimSummary [OF claim]]] .
      then have full: "platform_step\<^sup>*\<^sup>* [d0] (d2 # h2)" using run by (rule rtranclp_trans)
      have "later ?d1 d2" using platform.run_below [OF run] platform.run_inv [OF step] assms(2)
        by (simp add: history_below_def)
      then have keep: "keeps_sessions ?d1 d2" by (rule laterD(3))
      have "?p s" using sql_first_Some [OF Some] by simp
      then have "s\<lparr>s_summarySentAt := Some (now d)\<rparr> \<in> set (sessions ?d1)"
        using s(1) by (auto simp: set_sql_update)
      then obtain s2 where s2: "s2 \<in> set (sessions d2)" "s_id s2 = sid" "s_summarySentAt s2 \<noteq> None"
        using keep s(2) unfolding keeps_sessions_def session_after_def by fastforce
      have "\<not> (s_id t = sid \<and> summary_due d2 tg2 t)" if "t \<in> set (sessions d2)" for t
        using session_by_id [OF run_ok [OF full assms(2)] that s2(1)] s2 by (auto simp: summary_due_def)
      then show ?thesis by (simp add: claim_session_summary_def sql_first_None [THEN iffD2])
    qed
    show ?thesis unfolding claim by (intro exI conjI allI impI refl) (use out again in auto)
  qed
qed

text \<open>The demo's session after a stop that owes its summary.\<close>

definition demo_owed :: "int db" where
  "demo_owed = (let s = hd (sessions demo_started) in demo_started\<lparr>sessions :=
     [s\<lparr>s_status := SStopped, s_stopReason := Some NoSignalTimeout, s_endedAt := Some 1000, s_finalNoticeSentAt := Some 1001\<rparr>]\<rparr>)"

lemma demo_owed_ok: "db_ok demo_owed"
proof -
  have eq: "demo_started = demo_db\<lparr>sessions := [new_session demo_start demo_db], next_id := 11\<rparr>"
    by code_simp
  show ?thesis unfolding demo_owed_def eq
    by (simp add: demo_ok_defs)
qed

theorem summary_claimed_once_witness:
  "\<exists>sm d1. claim_session_summary concat 10 7 demo_owed = Inr (Some sm, d1) \<and> claim_session_summary concat 10 7 d1 = Inr (None, d1)"
proof -
  have "case claim_session_summary concat 10 7 demo_owed of Inr (Some sm, d1) \<Rightarrow> True | _ \<Rightarrow> False" by code_simp
  then obtain sm d1 where c: "claim_session_summary concat 10 7 demo_owed = Inr (Some sm, d1)"
    by (auto split: sum.splits option.splits)
  with summary_claimed_once [OF rtranclp.rtrancl_refl demo_owed_ok, of concat 10 7 7] show ?thesis by auto
qed

end
