(* ===== verification/Trade_Pages.thy ===== *)
theory Trade_Pages
  imports Trade_Types
begin

text \<open>
  The reader of the broker's paged trade lists, \<^verbatim>\<open>apps/trading-worker/src/intents/trade-pages.ts\<close>. The
  broker is the argument \<open>fetch\<close>: what it answers to the request of a page at an offset.
\<close>

section \<open>The reader\<close>

datatype rest_error =
  RestUnauthorized | RestRateLimited | RestRejected | RestUnavailable | RestContractViolation | RestAborted

datatype pages_violation = OrderViolation | SeamViolation | ContinuityViolation | NoProgressViolation

datatype pages_error = TradePagesError pages_violation | RestThrew rest_error

record 'p pages_read =
  pr_trades :: "'p broker_trade list"
  pr_covered :: bool
  pr_pagesRead :: nat

text \<open>Inside a page the open time never grows.\<close>

fun newest_first :: "'p broker_trade list \<Rightarrow> bool" where
  "newest_first (a # b # ts) \<longleftrightarrow> bt_openTimestamp b \<le> bt_openTimestamp a \<and> newest_first (b # ts)"
| "newest_first _ \<longleftrightarrow> True"

text \<open>
  The loop with \<open>left\<close> pages to go. \<open>seen\<close> is the set of the ids of \<open>trades\<close>; \<open>previous\<close> is the last
  page's last open time and its length.
\<close>

primrec read_from ::
  "(nat \<Rightarrow> nat \<Rightarrow> rest_error + 'p broker_trade list) \<Rightarrow> nat \<Rightarrow> ('p broker_trade \<Rightarrow> bool) \<Rightarrow> nat
    \<Rightarrow> 'p broker_trade list \<Rightarrow> (int \<times> nat) option \<Rightarrow> nat \<Rightarrow> pages_error + 'p pages_read" where
  "read_from fetch maxPages stopAt 0 trades previous offset =
     Inr \<lparr>pr_trades = trades, pr_covered = False, pr_pagesRead = maxPages\<rparr>"
| "read_from fetch maxPages stopAt (Suc left) trades previous offset =
     (let page = maxPages - left in
      case fetch page offset of Inl e \<Rightarrow> Inl (RestThrew e)
      | Inr items \<Rightarrow>
      if items = [] then
        (case previous of
           Some (_, n) \<Rightarrow> if 2 \<le> n then Inl (TradePagesError ContinuityViolation)
                          else Inr \<lparr>pr_trades = trades, pr_covered = True, pr_pagesRead = page\<rparr>
         | None \<Rightarrow> Inr \<lparr>pr_trades = trades, pr_covered = True, pr_pagesRead = page\<rparr>)
      else if \<not> newest_first items then Inl (TradePagesError OrderViolation)
      else
        let seen = bt_id ` set trades; fresh = filter (\<lambda>t. bt_id t \<notin> seen) items in
        if (case previous of None \<Rightarrow> False | Some (_, n) \<Rightarrow> n = 1 \<or> bt_id (hd items) \<notin> seen)
        then Inl (TradePagesError ContinuityViolation)
        else if (case previous of None \<Rightarrow> False
                 | Some (lastTs, _) \<Rightarrow> fresh \<noteq> [] \<and> lastTs < bt_openTimestamp (hd fresh))
        then Inl (TradePagesError SeamViolation)
        else if fresh = [] then
          (if length items = 1 then Inr \<lparr>pr_trades = trades, pr_covered = True, pr_pagesRead = page\<rparr>
           else Inl (TradePagesError NoProgressViolation))
        else if list_ex stopAt items then Inr \<lparr>pr_trades = trades @ fresh, pr_covered = True, pr_pagesRead = page\<rparr>
        else read_from fetch maxPages stopAt left (trades @ fresh)
               (Some (bt_openTimestamp (last items), length items))
               (offset + (if 2 \<le> length items then length items - 1 else 1)))"

definition read_trade_pages ::
  "(nat \<Rightarrow> nat \<Rightarrow> rest_error + 'p broker_trade list) \<Rightarrow> nat \<Rightarrow> ('p broker_trade \<Rightarrow> bool)
    \<Rightarrow> pages_error + 'p pages_read" where
  "read_trade_pages fetch maxPages stopAt = read_from fetch maxPages stopAt maxPages [] None 0"

section \<open>What the reader guarantees of any broker\<close>

lemma newest_first_sorted: "newest_first ts \<longleftrightarrow> sorted_wrt (\<lambda>a b. bt_openTimestamp b \<le> bt_openTimestamp a) ts"
  by (induction ts rule: newest_first.induct) force+

lemma newest_first_last: "newest_first ts \<Longrightarrow> t \<in> set ts \<Longrightarrow> bt_openTimestamp (last ts) \<le> bt_openTimestamp t"
  by (cases ts rule: rev_cases) (auto simp: newest_first_sorted sorted_wrt_append)

lemma newest_first_hd: "newest_first ts \<Longrightarrow> t \<in> set ts \<Longrightarrow> bt_openTimestamp t \<le> bt_openTimestamp (hd ts)"
  by (cases ts) (auto simp: newest_first_sorted)

text \<open>The state of the loop between two pages: the read so far is newest first, down to the last page's last trade.\<close>

definition reading :: "'p broker_trade list \<Rightarrow> (int \<times> nat) option \<Rightarrow> bool" where
  "reading trades previous \<longleftrightarrow> newest_first trades
     \<and> (case previous of None \<Rightarrow> trades = [] | Some (lastTs, _) \<Rightarrow> \<forall>t \<in> set trades. lastTs \<le> bt_openTimestamp t)"

lemma reading_step:
  assumes r: "reading trades previous" and n: "newest_first items"
    and f: "fresh = filter (\<lambda>t. bt_id t \<notin> bt_id ` set trades) items" "fresh \<noteq> []"
    and seam: "\<not> (case previous of None \<Rightarrow> False | Some (lastTs, _) \<Rightarrow> fresh \<noteq> [] \<and> lastTs < bt_openTimestamp (hd fresh))"
  shows "reading (trades @ fresh) (Some (bt_openTimestamp (last items), k))"
proof -
  have fs: "set fresh \<subseteq> set items" using f(1) by auto
  have nf: "newest_first fresh" using n f(1) by (simp add: newest_first_sorted sorted_wrt_filter)
  have old: "bt_openTimestamp b \<le> bt_openTimestamp a" if "a \<in> set trades" "b \<in> set fresh" for a b
  proof (cases previous)
    case None
    then show ?thesis using r that by (simp add: reading_def)
  next
    case (Some p)
    then have "bt_openTimestamp (hd fresh) \<le> fst p" "fst p \<le> bt_openTimestamp a"
      using seam f(2) r that(1) by (auto simp: reading_def split: prod.splits)
    then show ?thesis using newest_first_hd [OF nf that(2)] by simp
  qed
  have last: "bt_openTimestamp (last items) \<le> bt_openTimestamp t" if "t \<in> set (trades @ fresh)" for t
  proof (cases "t \<in> set fresh")
    case True
    then show ?thesis using newest_first_last [OF n] fs by auto
  next
    case False
    then have "t \<in> set trades" using that by simp
    moreover have "hd fresh \<in> set fresh" using f(2) by simp
    ultimately show ?thesis using old newest_first_last [OF n, of "hd fresh"] fs by force
  qed
  show ?thesis using r nf old last by (auto simp: reading_def newest_first_sorted sorted_wrt_append)
qed

lemma read_from_sound:
  assumes "read_from fetch maxPages stopAt left trades previous offset = Inr r" "reading trades previous" "left \<le> maxPages"
  shows "newest_first (pr_trades r) \<and> pr_pagesRead r \<le> maxPages \<and> (\<exists>more. pr_trades r = trades @ more)
    \<and> (\<forall>t \<in> set (pr_trades r). t \<in> set trades \<or> (\<exists>page off items. fetch page off = Inr items \<and> t \<in> set items))"
  using assms
proof (induction left arbitrary: trades previous offset)
  case 0
  then show ?case by (auto simp: reading_def)
next
  case (Suc left)
  let ?page = "maxPages - left"
  obtain items where it: "fetch ?page offset = Inr items"
    using Suc(2) by (auto simp: Let_def split: sum.splits)
  let ?fresh = "filter (\<lambda>t. bt_id t \<notin> bt_id ` set trades) items"
  have here: "\<forall>t \<in> set ?fresh. \<exists>page off items. fetch page off = Inr items \<and> t \<in> set items" using it by auto
  show ?case
  proof (cases "items = [] \<or> ?fresh = []")
    case True
    then have "pr_trades r = trades" "pr_pagesRead r = ?page"
      using Suc(2) it by (auto simp: Let_def filter_empty_conv split: option.splits if_splits)
    then show ?thesis using Suc(3) by (auto simp: reading_def)
  next
    case False
    then have n: "newest_first items"
      and seam: "\<not> (case previous of None \<Rightarrow> False | Some (lastTs, _) \<Rightarrow> ?fresh \<noteq> [] \<and> lastTs < bt_openTimestamp (hd ?fresh))"
      and rest: "(r = \<lparr>pr_trades = trades @ ?fresh, pr_covered = True, pr_pagesRead = ?page\<rparr>)
        \<or> read_from fetch maxPages stopAt left (trades @ ?fresh) (Some (bt_openTimestamp (last items), length items))
             (offset + (if 2 \<le> length items then length items - 1 else 1)) = Inr r"
      using Suc(2) it by (auto simp: Let_def split: if_splits)
    have step: "reading (trades @ ?fresh) (Some (bt_openTimestamp (last items), length items))"
      by (rule reading_step [OF Suc(3) n refl _ seam]) (use False in blast)
    from rest show ?thesis
    proof
      assume "r = \<lparr>pr_trades = trades @ ?fresh, pr_covered = True, pr_pagesRead = ?page\<rparr>"
      then show ?thesis using step here by (auto simp: reading_def)
    next
      assume "read_from fetch maxPages stopAt left (trades @ ?fresh) (Some (bt_openTimestamp (last items), length items))
             (offset + (if 2 \<le> length items then length items - 1 else 1)) = Inr r"
      from Suc.IH [OF this step] Suc(4) here show ?thesis by fastforce
    qed
  qed
qed

lemma covered_page:
  assumes "read_from fetch maxPages stopAt left trades previous offset = Inr r" "pr_covered r" "left \<le> maxPages"
  shows "maxPages - left < pr_pagesRead r"
  using assms
proof (induction left arbitrary: trades previous offset)
  case (Suc left)
  show ?case
  proof (cases "pr_pagesRead r = maxPages - left")
    case True
    then show ?thesis using Suc(4) by simp
  next
    case False
    then obtain t p off where "read_from fetch maxPages stopAt left t p off = Inr r"
      using Suc(2) by (auto simp: Let_def split: sum.splits option.splits if_splits)
    from Suc.IH [OF this Suc(3)] Suc(4) show ?thesis by simp
  qed
qed auto

lemma first_page_read:
  assumes "read_trade_pages fetch maxPages stopAt = Inr r" "pr_covered r" "pr_pagesRead r = 1"
  shows "fetch 1 0 = Inr (pr_trades r) \<and> (pr_trades r = [] \<or> list_ex stopAt (pr_trades r))"
proof (cases maxPages)
  case 0
  then show ?thesis using assms by (auto simp: read_trade_pages_def)
next
  case (Suc left)
  have later: False if "read_from fetch maxPages stopAt left trades previous offset = Inr r" for trades previous offset
    using covered_page [OF that assms(2)] assms(3) Suc by simp
  have "read_from fetch maxPages stopAt (Suc left) [] None 0 = Inr r" using assms(1) Suc by (simp add: read_trade_pages_def)
  then show ?thesis using later Suc
    by (auto simp: Let_def split: sum.splits if_splits)
qed

text \<open>
  Whatever the broker answers, the pages read are at most \<open>maxPages\<close>, the trades returned were all
  on some page of it, and they stand newest first: an answer whose pages are out of order is refused.
\<close>

theorem pages_are_newest_first:
  assumes "read_trade_pages fetch maxPages stopAt = Inr r"
  shows "sorted_wrt (\<lambda>a b. bt_openTimestamp b \<le> bt_openTimestamp a) (pr_trades r) \<and> pr_pagesRead r \<le> maxPages
    \<and> (\<forall>t \<in> set (pr_trades r). \<exists>page off items. fetch page off = Inr items \<and> t \<in> set items)"
  using read_from_sound [OF assms [unfolded read_trade_pages_def]] by (simp add: reading_def newest_first_sorted)

section \<open>What it guarantees of a broker that pages its list\<close>

text \<open>
  The documented contract of the list (\<^verbatim>\<open>docs/broker-rest.md\<close>, A1 to A7): distinct ids, newest first, and
  each page the run of the list from the offset on, of at least two trades where there are two.
\<close>

definition pages_of :: "(nat \<Rightarrow> nat \<Rightarrow> rest_error + 'p broker_trade list) \<Rightarrow> 'p broker_trade list \<Rightarrow> bool" where
  "pages_of fetch lst \<longleftrightarrow> newest_first lst \<and> distinct (map bt_id lst)
     \<and> (\<forall>page offset. \<exists>k \<ge> 2. fetch page offset = Inr (take k (drop offset lst)))"

text \<open>Where the loop stands on such a list: it has read a prefix, and asks again at its last trade.\<close>

definition at_prefix :: "'p broker_trade list \<Rightarrow> 'p broker_trade list \<Rightarrow> (int \<times> nat) option \<Rightarrow> nat \<Rightarrow> bool" where
  "at_prefix lst trades previous offset \<longleftrightarrow>
     (case previous of
        None \<Rightarrow> trades = [] \<and> offset = 0
      | Some (lastTs, n) \<Rightarrow> trades \<noteq> [] \<and> lastTs = bt_openTimestamp (last trades)
          \<and> (\<exists>m \<le> length lst. trades = take m lst
               \<and> (if 2 \<le> n then offset = m - 1 else offset = m \<and> m = length lst)))"

lemma at_prefixI:
  "ts \<noteq> [] \<Longrightarrow> t = bt_openTimestamp (last ts) \<Longrightarrow> ts = take m lst \<Longrightarrow> m \<le> length lst
    \<Longrightarrow> (if 2 \<le> n then off = m - 1 else off = m \<and> m = length lst) \<Longrightarrow> at_prefix lst ts (Some (t, n)) off"
  unfolding at_prefix_def by auto

definition read_prefix :: "'p broker_trade list \<Rightarrow> ('p broker_trade \<Rightarrow> bool) \<Rightarrow> nat \<Rightarrow> 'p pages_read \<Rightarrow> bool" where
  "read_prefix lst stopAt maxPages r \<longleftrightarrow> (\<exists>m. pr_trades r = take m lst)
     \<and> (pr_covered r \<longrightarrow> pr_trades r = lst \<or> list_ex stopAt (pr_trades r))"


lemma read_prefix_all [simp]: "read_prefix lst stopAt n \<lparr>pr_trades = lst, pr_covered = c, pr_pagesRead = k\<rparr>"
  by (auto simp: read_prefix_def intro: exI [of _ "length lst"])

lemma honest_items:
  assumes "newest_first lst" "distinct (map bt_id lst)" "items = take k (drop (m - 1) lst)" "2 \<le> k" "0 < m" "m \<le> length lst"
  shows "items = lst ! (m - 1) # take (k - 1) (drop m lst)" "newest_first items"
    "filter (\<lambda>t. bt_id t \<notin> bt_id ` set (take m lst)) items = take (k - 1) (drop m lst)"
    "bt_id (hd items) \<in> bt_id ` set (take m lst)"
    "take (k - 1) (drop m lst) \<noteq> [] \<Longrightarrow> bt_openTimestamp (hd (take (k - 1) (drop m lst))) \<le> bt_openTimestamp (last (take m lst))"
proof -
  have d: "drop (m - 1) lst = lst ! (m - 1) # drop m lst"
    using assms(5,6) Cons_nth_drop_Suc [of "m - 1" lst] by simp
  then show it: "items = lst ! (m - 1) # take (k - 1) (drop m lst)" using assms(3,4) by (cases k) simp_all
  show "newest_first items"
    using assms(1) unfolding assms(3) newest_first_sorted by (intro sorted_wrt_take sorted_wrt_drop)
  have split: "lst = take m lst @ drop m lst" by simp
  have hd_in: "lst ! (m - 1) \<in> set (take m lst)"
    using assms(5,6) by (auto simp: in_set_conv_nth intro!: exI [of _ "m - 1"])
  have "distinct (map bt_id (take m lst) @ map bt_id (drop m lst))" using assms(2) by (metis map_append split)
  then have dis: "bt_id t \<notin> bt_id ` set (take m lst)" if "t \<in> set (drop m lst)" for t using that by fastforce
  have tail: "filter (\<lambda>t. bt_id t \<notin> bt_id ` set (take m lst)) (take (k - 1) (drop m lst)) = take (k - 1) (drop m lst)"
    using dis by (intro filter_True) (auto dest: in_set_takeD)
  show "filter (\<lambda>t. bt_id t \<notin> bt_id ` set (take m lst)) items = take (k - 1) (drop m lst)"
    unfolding it using hd_in tail by simp
  show "bt_id (hd items) \<in> bt_id ` set (take m lst)" unfolding it using hd_in by simp
  assume ne: "take (k - 1) (drop m lst) \<noteq> []"
  then have "hd (take (k - 1) (drop m lst)) \<in> set (drop m lst)" by (meson hd_in_set in_set_takeD)
  moreover have "last (take m lst) \<in> set (take m lst)" using assms(5,6) by (intro last_in_set) auto
  moreover have "sorted_wrt (\<lambda>a b. bt_openTimestamp b \<le> bt_openTimestamp a) (take m lst @ drop m lst)"
    using assms(1) split by (simp add: newest_first_sorted)
  ultimately show "bt_openTimestamp (hd (take (k - 1) (drop m lst))) \<le> bt_openTimestamp (last (take m lst))"
    unfolding sorted_wrt_append by blast
qed

lemma honest_read:
  assumes p: "pages_of fetch lst" and "at_prefix lst trades previous offset" "left \<le> maxPages"
  shows "\<exists>r. read_from fetch maxPages stopAt left trades previous offset = Inr r \<and> read_prefix lst stopAt maxPages r
    \<and> (\<not> pr_covered r \<longrightarrow> length trades + left \<le> length (pr_trades r))"
  using assms(2,3)
proof (induction left arbitrary: trades previous offset)
  case 0
  then have "\<exists>m. trades = take m lst" by (auto simp: at_prefix_def intro: exI [of _ 0] split: option.splits prod.splits)
  then show ?case by (simp add: read_prefix_def)
next
  case (Suc left)
  have lst: "newest_first lst" "distinct (map bt_id lst)" using p by (simp_all add: pages_of_def)
  obtain k where k: "2 \<le> k" "fetch (maxPages - left) offset = Inr (take k (drop offset lst))"
    using p unfolding pages_of_def by blast
  let ?items = "take k (drop offset lst)"
  let ?off = "offset + (if 2 \<le> length ?items then length ?items - 1 else 1)"
  let ?prev = "Some (bt_openTimestamp (last ?items), length ?items)"
  have rec: ?case
    if a: "at_prefix lst (trades @ fresh) ?prev ?off" and ne: "fresh \<noteq> []" "?items \<noteq> []" "newest_first ?items"
      and f: "filter (\<lambda>t. bt_id t \<notin> bt_id ` set trades) ?items = fresh"
      and ok: "\<not> (case previous of None \<Rightarrow> False | Some (_, n) \<Rightarrow> n = 1 \<or> bt_id (hd ?items) \<notin> bt_id ` set trades)"
        "\<not> (case previous of None \<Rightarrow> False | Some (lastTs, _) \<Rightarrow> fresh \<noteq> [] \<and> lastTs < bt_openTimestamp (hd fresh))"
      and st: "list_ex stopAt ?items \<Longrightarrow> list_ex stopAt (trades @ fresh)"
    for fresh
  proof (cases "list_ex stopAt ?items")
    case True
    have "\<exists>m. trades @ fresh = take m lst" using a by (auto simp: at_prefix_def)
    then show ?thesis using True k(2) ne f ok st [OF True]
      by (cases previous) (auto simp: Let_def read_prefix_def split: prod.splits)
  next
    case False
    have "length trades + Suc left \<le> length (trades @ fresh) + left" using ne(1) by (cases fresh) auto
    then show ?thesis using False k(2) ne f ok Suc.IH [OF a] Suc(3)
      by (cases previous) (force simp: Let_def split: prod.splits)+
  qed
  show ?case
  proof (cases previous)
    case None
    then have z: "trades = []" "offset = 0" using Suc(2) by (simp_all add: at_prefix_def)
    show ?thesis
    proof (cases "lst = []")
      case True
      then show ?thesis using k(2) None z by (simp add: Let_def read_prefix_def)
    next
      case False
      then have ne: "take k lst \<noteq> []" using k(1) by auto
      have "newest_first (take k lst)" using lst(1) by (simp add: newest_first_sorted sorted_wrt_take)
      moreover obtain n where "length lst = Suc n" using False by (cases lst) auto
      then have "at_prefix lst (trades @ take k lst) ?prev ?off"
        using ne z k(1) by (auto simp: at_prefix_def min_def intro!: exI [of _ "length (take k lst)"])
      ultimately show ?thesis using ne z None by (intro rec) auto
    qed
  next
    case (Some pr)
    obtain lastTs n where pr: "previous = Some (lastTs, n)" using Some by (cases pr) simp
    then obtain m where m: "trades = take m lst" "m \<le> length lst" "trades \<noteq> []" "lastTs = bt_openTimestamp (last trades)"
      "if 2 \<le> n then offset = m - 1 else offset = m \<and> m = length lst"
      using Suc(2) by (auto simp: at_prefix_def)
    show ?thesis
    proof (cases "2 \<le> n")
      case False
      then have "?items = []" "trades = lst" using m by simp_all
      then show ?thesis using k(2) pr False by (simp add: Let_def)
    next
      case True
      then have off: "offset = m - 1" "0 < m" using m(3,5) by (auto simp: m(1))
      note h = honest_items [OF lst, of ?items k m, unfolded off(1), OF refl k(1) off(2) m(2)]
      let ?fresh = "take (k - 1) (drop m lst)"
      have it: "?items = lst ! (m - 1) # ?fresh" using h(1) off(1) by simp
      have f: "filter (\<lambda>t. bt_id t \<notin> bt_id ` set trades) ?items = ?fresh" using h(3) off(1) m(1) by simp
      have hd: "bt_id (hd ?items) \<in> bt_id ` set trades" using h(4) off(1) m(1) by simp
      have n: "newest_first ?items" using h(2) off(1) by simp
      show ?thesis
      proof (cases "?fresh = []")
        case empty: True
        then have "trades = lst" using k(1) m(1,2) by simp
        moreover have "length ?items = 1" unfolding it empty by simp
        ultimately show ?thesis using k(2) pr True hd f n empty it by (auto simp: Let_def)
      next
        case False
        have len: "length ?items = Suc (length ?fresh)" using it by simp
        have pre: "trades @ ?fresh = take (m + length ?fresh) lst" "m + length ?fresh \<le> length lst"
        proof -
          have "length ?fresh \<le> length lst - m" by simp
          then show "m + length ?fresh \<le> length lst" using m(2) by linarith
          have "take (length ?fresh) (drop m lst) = ?fresh" by (simp add: min_def)
          then show "trades @ ?fresh = take (m + length ?fresh) lst" unfolding m(1) take_add by simp
        qed
        have "last ?items = last (trades @ ?fresh)" using it False by simp
        moreover have "2 \<le> length ?items" "?off = m + length ?fresh - 1"
          using len False off by (simp_all add: Suc_le_eq del: length_take length_drop)
        ultimately have "at_prefix lst (trades @ ?fresh) ?prev ?off"
          using False by (intro at_prefixI [OF _ _ pre]) (simp_all del: length_take length_drop)
        moreover have "list_ex stopAt (trades @ ?fresh)" if "list_ex stopAt ?items"
        proof -
          have "lst ! (m - 1) \<in> set trades" using m(1,2) off(2) by (auto simp: in_set_conv_nth intro!: exI [of _ "m - 1"])
          then show ?thesis using that it by (auto simp: list_ex_iff)
        qed
        ultimately show ?thesis using False it n f hd h(5) pr True m(1,4) by (intro rec) auto
      qed
    qed
  qed
qed

text \<open>
  Of a broker that pages its list as documented the reader misses nothing: it never refuses the
  pages, it answers a prefix of the list, all of it or with a trade to stop at when it reports the
  range as covered, so every trade not newer than none of these is among them; and it fails to cover
  the range only when the list is longer than \<open>maxPages\<close>.
\<close>

theorem honest_pages_are_complete:
  assumes "pages_of fetch lst"
  shows "\<exists>r. read_trade_pages fetch maxPages stopAt = Inr r \<and> (\<exists>m. pr_trades r = take m lst)
    \<and> (pr_covered r \<longrightarrow> (\<forall>t \<in> set lst. t \<in> set (pr_trades r)
         \<or> (\<exists>s \<in> set (pr_trades r). stopAt s \<and> bt_openTimestamp t \<le> bt_openTimestamp s)))
    \<and> (length lst < maxPages \<longrightarrow> pr_covered r)"
proof -
  have "at_prefix lst [] None 0" by (simp add: at_prefix_def)
  from honest_read [OF assms this order.refl, of maxPages stopAt] obtain r where
    r: "read_trade_pages fetch maxPages stopAt = Inr r" "read_prefix lst stopAt maxPages r"
      "\<not> pr_covered r \<longrightarrow> maxPages \<le> length (pr_trades r)"
    by (auto simp: read_trade_pages_def)
  obtain m where m: "pr_trades r = take m lst" using r(2) by (auto simp: read_prefix_def)
  have older: "bt_openTimestamp t \<le> bt_openTimestamp s" if "s \<in> set (take m lst)" "t \<in> set lst" "t \<notin> set (take m lst)" for s t
  proof -
    have "sorted_wrt (\<lambda>a b. bt_openTimestamp b \<le> bt_openTimestamp a) (take m lst @ drop m lst)"
      using assms by (simp add: pages_of_def newest_first_sorted)
    moreover have "t \<in> set (drop m lst)" using that(2,3) by (metis Un_iff append_take_drop_id set_append)
    ultimately show ?thesis using that(1) unfolding sorted_wrt_append by blast
  qed
  have "t \<in> set (pr_trades r) \<or> (\<exists>s \<in> set (pr_trades r). stopAt s \<and> bt_openTimestamp t \<le> bt_openTimestamp s)"
    if "pr_covered r" "t \<in> set lst" for t
    using r(2) that older [of _ t] unfolding read_prefix_def m by (auto simp: list_ex_iff)
  moreover have "pr_covered r" if "length lst < maxPages"
    using r(3) that m by (cases "pr_covered r") auto
  ultimately show ?thesis using r(1) m by blast
qed

section \<open>A list in pages of two\<close>

definition listed :: "string \<Rightarrow> int \<Rightarrow> int broker_trade" where
  "listed i t = \<lparr>bt_id = i, bt_assetId = 5, bt_action = Up, bt_amount = ''2.5'',
     bt_payout = \<lparr>payout_finite = True, payout_string = ''80''\<rparr>, bt_openPrice = 100, bt_openTimestamp = t, bt_isDemo = True,
     bt_source = None, bt_brokerClientId = None, bt_form = OpenForm ''4.5''\<rparr>"

definition listed_three :: "int broker_trade list" where
  "listed_three = [listed ''c'' 30, listed ''b'' 20, listed ''a'' 10]"

definition two_a_page :: "nat \<Rightarrow> nat \<Rightarrow> rest_error + int broker_trade list" where
  "two_a_page page offset = Inr (take 2 (drop offset listed_three))"

lemma two_a_page_pages: "pages_of two_a_page listed_three"
  by (auto simp: pages_of_def two_a_page_def listed_three_def listed_def intro: exI [of _ 2])

lemma two_a_page_read: "read_trade_pages two_a_page 5 (\<lambda>t. bt_openTimestamp t < 5)
    = Inr \<lparr>pr_trades = listed_three, pr_covered = True, pr_pagesRead = 3\<rparr>"
  by code_simp

theorem pages_are_newest_first_witness:
  "sorted_wrt (\<lambda>a b. bt_openTimestamp b \<le> bt_openTimestamp a) listed_three"
  using pages_are_newest_first [OF two_a_page_read] by simp

theorem honest_pages_are_complete_witness:
  "\<exists>r. read_trade_pages two_a_page 5 (\<lambda>t. bt_openTimestamp t < 5) = Inr r \<and> pr_covered r"
  using honest_pages_are_complete [OF two_a_page_pages, of 5 "\<lambda>t. bt_openTimestamp t < 5"] by (auto simp: listed_three_def)

end
