(* ===== verification/Matching.thy ===== *)
theory Matching
  imports Trade_Pages Intents
begin

text \<open>
  What became of an unknown order: \<^verbatim>\<open>apps/trading-worker/src/intents/rest-reconciler.ts\<close> and the
  results of \<^verbatim>\<open>reconciler.ts\<close>. The broker's lists and the backend's token source are arguments; the
  reconciler's memory of proven absences is its state.
\<close>

section \<open>Results\<close>

datatype unavailable_reason =
  NotConfigured | TokenUnavailable | BrokerUnreachable | RateLimited | AttemptTimeout | BackendUnavailable
| BrokerContract | WindowOpen | WindowNotCovered | AbsenceUnconfirmed

datatype 'p reconcile_result =
  Found "'p broker_trade" | NotFound | Unresolved | Ambiguous | Unavailable unavailable_reason

record reconciler_config =
  rc_windowBeforeMs :: int
  rc_windowAfterMs :: int
  rc_pageSize :: nat
  rc_maxPages :: nat

datatype trade_list = OpenList | ClosedList

text \<open>The token source's answer: a token, a refusal of the account, or nothing learned.\<close>

datatype token_answer = TokenOk string | TokenRefused | TokenUnlearned

fun REST_ERROR_REASON :: "rest_error \<Rightarrow> unavailable_reason" where
  "REST_ERROR_REASON RestRateLimited = RateLimited"
| "REST_ERROR_REASON RestUnauthorized = TokenUnavailable"
| "REST_ERROR_REASON RestRejected = BrokerContract"
| "REST_ERROR_REASON RestContractViolation = BrokerContract"
| "REST_ERROR_REASON RestUnavailable = BrokerUnreachable"
| "REST_ERROR_REASON RestAborted = AttemptTimeout"

section \<open>The window\<close>

record 'p window_read =
  wr_trades :: "'p broker_trade list"
  wr_covered :: bool
  wr_pagesRead :: nat
  wr_proof :: bool

text \<open>\<open>broker\<close> is the broker: the list, the mode, the limit, the page's number and the offset.\<close>

definition read_window ::
  "reconciler_config \<Rightarrow> (trade_list \<Rightarrow> bool \<Rightarrow> nat \<Rightarrow> nat \<Rightarrow> nat \<Rightarrow> rest_error + 'p broker_trade list)
    \<Rightarrow> trade_list \<Rightarrow> bool \<Rightarrow> int \<Rightarrow> int \<Rightarrow> pages_error + 'p window_read" where
  "read_window cfg broker status isDemo windowStart windowEnd =
     (case read_trade_pages (broker status isDemo (rc_pageSize cfg)) (rc_maxPages cfg) (\<lambda>t. bt_openTimestamp t < windowStart) of
        Inl e \<Rightarrow> Inl e
      | Inr r \<Rightarrow>
        let page = pr_trades r;
            firstPageEnd = (pr_covered r \<and> pr_pagesRead r = 1);
            isDistinct = (card (bt_id ` set page) = length page);
            strict = (page = [] \<or> bt_openTimestamp (last page) < bt_openTimestamp (hd page));
            sameMode = list_all (\<lambda>t. bt_isDemo t = isDemo) page in
        Inr \<lparr>wr_trades = filter (\<lambda>t. windowStart \<le> bt_openTimestamp t \<and> bt_openTimestamp t \<le> windowEnd) page,
          wr_covered = pr_covered r, wr_pagesRead = pr_pagesRead r,
          wr_proof = (firstPageEnd \<and> isDistinct \<and> strict \<and> sameMode)\<rparr>)"

section \<open>The decision\<close>

text \<open>\<open>Map.set\<close> by id: a trade that is in both broker keeps its place and takes its later form.\<close>

definition put_trade :: "'p broker_trade \<Rightarrow> 'p broker_trade list \<Rightarrow> 'p broker_trade list" where
  "put_trade t ts = (if bt_id t \<in> bt_id ` set ts then map (\<lambda>x. if bt_id x = bt_id t then t else x) ts else ts @ [t])"

definition by_id :: "'p broker_trade list \<Rightarrow> 'p broker_trade list" where
  "by_id ts = fold put_trade ts []"

text \<open>\<open>listLinkedBrokerTradeIds\<close>: which of these ids already back an intent of the account.\<close>

definition list_linked_broker_trade_ids :: "nat \<Rightarrow> string list \<Rightarrow> 'p db \<Rightarrow> string list" where
  "list_linked_broker_trade_ids accountId ids d =
     (if ids = [] then []
      else map t_brokerTradeId (filter (\<lambda>t. t_accountId t = accountId \<and> List.member ids (t_brokerTradeId t)
             \<and> t_intentId t \<noteq> None) (trades d)))"

datatype 'p decision = Absent | Decided "'p reconcile_result"

text \<open>The candidates: the trades of the window with the intent's keys that back no other intent.\<close>

definition unlinked_trades :: "(string list \<Rightarrow> string list) \<Rightarrow> intent_row \<Rightarrow> 'p broker_trade list \<Rightarrow> 'p broker_trade list" where
  "unlinked_trades linkedIds intent ts =
     (let sameTrade = filter (\<lambda>t. bt_assetId t = i_assetId intent \<and> bt_action t = i_action intent
            \<and> bt_isDemo t = (i_mode intent = Demo)) (by_id ts);
          linked = (if sameTrade = [] then [] else linkedIds (map bt_id sameTrade)) in
      filter (\<lambda>t. \<not> List.member linked (bt_id t)) sameTrade)"

text \<open>What follows the two reads.\<close>

definition conclude :: "intent_row \<Rightarrow> int \<Rightarrow> int \<Rightarrow> 'p window_read \<Rightarrow> 'p window_read \<Rightarrow> 'p broker_trade list \<Rightarrow> 'p decision" where
  "conclude intent windowEnd claimedAt openW closedW unlinked =
     (let exact = filter (\<lambda>t. normalize_decimal (bt_amount t) = normalize_decimal (i_amount intent)) unlinked;
          near = length unlinked - length exact;
          ackMismatch = (i_lastError intent = Some TradeMismatch);
          covered = (wr_covered openW \<and> wr_covered closedW) in
      if 1 < length exact then Decided Ambiguous
      else if exact \<noteq> [] \<and> covered then Decided (Found (hd exact))
      else if claimedAt < windowEnd then
        (if \<not> covered then Decided (Unavailable WindowNotCovered) else Decided (Unavailable WindowOpen))
      else if exact \<noteq> [] then Decided Ambiguous
      else if 0 < near \<or> ackMismatch then Decided Ambiguous
      else if i_mode intent = Demo \<and> wr_proof openW \<and> wr_proof closedW then Absent
      else Decided Unresolved)"

definition decide ::
  "reconciler_config \<Rightarrow> (trade_list \<Rightarrow> bool \<Rightarrow> nat \<Rightarrow> nat \<Rightarrow> nat \<Rightarrow> rest_error + 'p broker_trade list) \<Rightarrow> token_answer
    \<Rightarrow> (string list \<Rightarrow> string list) \<Rightarrow> intent_row \<Rightarrow> int \<Rightarrow> int \<Rightarrow> 'p decision" where
  "decide cfg broker token linkedIds intent submittedAt claimedAt =
     (let windowStart = submittedAt - rc_windowBeforeMs cfg; windowEnd = submittedAt + rc_windowAfterMs cfg;
          isDemo = (i_mode intent = Demo) in
      case token of
        TokenRefused \<Rightarrow> Decided (Unavailable TokenUnavailable)
      | TokenUnlearned \<Rightarrow> Decided (Unavailable BackendUnavailable)
      | TokenOk _ \<Rightarrow>
      (case (case read_window cfg broker OpenList isDemo windowStart windowEnd of Inl e \<Rightarrow> Inl e
             | Inr openW \<Rightarrow> (case read_window cfg broker ClosedList isDemo windowStart windowEnd of Inl e \<Rightarrow> Inl e
                            | Inr closedW \<Rightarrow> Inr (openW, closedW))) of
         Inl (TradePagesError _) \<Rightarrow> Decided (Unavailable BrokerContract)
       | Inl (RestThrew code) \<Rightarrow> Decided (Unavailable (REST_ERROR_REASON code))
       | Inr (openW, closedW) \<Rightarrow>
           conclude intent windowEnd claimedAt openW closedW
             (unlinked_trades linkedIds intent (wr_trades openW @ wr_trades closedW))))"

section \<open>The attempts\<close>

text \<open>
  \<open>confirmAbsence\<close> and \<open>reconcile\<close>: \<open>absentSince\<close> maps an intent to the claim of the attempt that first
  proved its absence. \<open>None\<close> is an attempt whose decision threw.
\<close>

definition confirm_absence ::
  "nat \<Rightarrow> int \<Rightarrow> (nat \<rightharpoonup> int) \<Rightarrow> 'p reconcile_result \<times> (nat \<rightharpoonup> int)" where
  "confirm_absence iid claimedAt absentSince =
     (case absentSince iid of
        None \<Rightarrow> (Unavailable AbsenceUnconfirmed, absentSince(iid \<mapsto> claimedAt))
      | Some first \<Rightarrow>
          if claimedAt \<le> first then (Unavailable AbsenceUnconfirmed, absentSince(iid \<mapsto> claimedAt))
          else (NotFound, absentSince(iid := None)))"

definition reconcile_decided ::
  "nat \<Rightarrow> int \<Rightarrow> bool \<Rightarrow> 'p decision option \<Rightarrow> (nat \<rightharpoonup> int) \<Rightarrow> 'p reconcile_result option \<times> (nat \<rightharpoonup> int)" where
  "reconcile_decided iid claimedAt aborted decided absentSince =
     (case decided of
        None \<Rightarrow> (None, if aborted then absentSince else absentSince(iid := None))
      | Some result \<Rightarrow>
          if aborted then (Some (Unavailable AttemptTimeout), absentSince)
          else case result of
            Absent \<Rightarrow> (case confirm_absence iid claimedAt absentSince of (r, m) \<Rightarrow> (Some r, m))
          | Decided r \<Rightarrow> (Some r, absentSince(iid := None)))"

datatype reconciler_input_error = MissingSubmittedAt | MissingReconcileClaimedAt

definition reconcile ::
  "reconciler_config \<Rightarrow> (trade_list \<Rightarrow> bool \<Rightarrow> nat \<Rightarrow> nat \<Rightarrow> nat \<Rightarrow> rest_error + 'p broker_trade list) \<Rightarrow> token_answer
    \<Rightarrow> (string list \<Rightarrow> string list) \<Rightarrow> bool \<Rightarrow> intent_row \<Rightarrow> (nat \<rightharpoonup> int)
    \<Rightarrow> reconciler_input_error + 'p reconcile_result option \<times> (nat \<rightharpoonup> int)" where
  "reconcile cfg broker token linkedIds aborted intent absentSince =
     (case i_submittedAt intent of None \<Rightarrow> Inl MissingSubmittedAt
      | Some submittedAt \<Rightarrow>
      (case i_reconcileClaimedAt intent of None \<Rightarrow> Inl MissingReconcileClaimedAt
       | Some claimedAt \<Rightarrow>
           Inr (reconcile_decided (i_id intent) claimedAt aborted
             (Some (decide cfg broker token linkedIds intent submittedAt claimedAt)) absentSince)))"

section \<open>What a found trade is\<close>

lemma set_put_trade: "set (put_trade t ts) \<subseteq> insert t (set ts)"
  by (auto simp: put_trade_def)

lemma set_fold_put: "set (fold put_trade ts acc) \<subseteq> set acc \<union> set ts"
proof (induction ts arbitrary: acc)
  case (Cons t ts)
  from Cons [of "put_trade t acc"] set_put_trade [of t acc] show ?case by auto
qed simp

lemma set_by_id: "set (by_id ts) \<subseteq> set ts"
  unfolding by_id_def using set_fold_put [of ts "[]"] by simp

lemma ids_put_trade: "bt_id ` set (put_trade t ts) = insert (bt_id t) (bt_id ` set ts)"
  by (auto simp: put_trade_def image_iff)

lemma ids_fold_put: "bt_id ` set (fold put_trade ts acc) = bt_id ` set acc \<union> bt_id ` set ts"
  by (induction ts arbitrary: acc) (auto simp: ids_put_trade)

lemma ids_by_id: "bt_id ` set (by_id ts) = bt_id ` set ts"
  unfolding by_id_def by (simp add: ids_fold_put)

text \<open>The keys a trade and an intent share.\<close>

definition same_keys :: "intent_row \<Rightarrow> 'p broker_trade \<Rightarrow> bool" where
  "same_keys intent t \<longleftrightarrow> bt_assetId t = i_assetId intent \<and> bt_action t = i_action intent \<and> bt_isDemo t = (i_mode intent = Demo)"

definition backed :: "nat \<Rightarrow> string \<Rightarrow> 'p db \<Rightarrow> bool" where
  "backed accountId tradeId d \<longleftrightarrow> (\<exists>t \<in> set (trades d). t_accountId t = accountId \<and> t_brokerTradeId t = tradeId \<and> t_intentId t \<noteq> None)"

lemma linked_iff: "i \<in> set (list_linked_broker_trade_ids a ids d) \<longleftrightarrow> i \<in> set ids \<and> backed a i d"
  unfolding list_linked_broker_trade_ids_def backed_def by (cases "ids = []") (auto simp: image_iff)

lemma unlinked_trades_set:
  "set (unlinked_trades (\<lambda>ids. list_linked_broker_trade_ids a ids d) intent ts)
     = {t \<in> set (by_id ts). same_keys intent t \<and> \<not> backed a (bt_id t) d}"
proof -
  let ?same = "filter (same_keys intent) (by_id ts)"
  have "unlinked_trades (\<lambda>ids. list_linked_broker_trade_ids a ids d) intent ts
      = filter (\<lambda>t. bt_id t \<notin> set (list_linked_broker_trade_ids a (map bt_id ?same) d)) ?same"
    by (cases "?same = []") (simp_all add: unlinked_trades_def Let_def same_keys_def [abs_def] flip: filter_filter)
  then show ?thesis by (auto simp: linked_iff)
qed

lemma decide_concludes:
  assumes "decide cfg broker token linkedIds intent sub claim = x" "\<forall>u. x \<noteq> Decided (Unavailable u)"
  shows "\<exists>openW closedW. read_window cfg broker OpenList (i_mode intent = Demo) (sub - rc_windowBeforeMs cfg) (sub + rc_windowAfterMs cfg) = Inr openW
    \<and> read_window cfg broker ClosedList (i_mode intent = Demo) (sub - rc_windowBeforeMs cfg) (sub + rc_windowAfterMs cfg) = Inr closedW
    \<and> conclude intent (sub + rc_windowAfterMs cfg) claim openW closedW
        (unlinked_trades linkedIds intent (wr_trades openW @ wr_trades closedW)) = x"
  using assms by (auto simp: decide_def Let_def split: token_answer.splits sum.splits pages_error.splits)

lemma window_trades:
  "read_window cfg broker l m a b = Inr w \<Longrightarrow> t \<in> set (wr_trades w) \<Longrightarrow> a \<le> bt_openTimestamp t \<and> bt_openTimestamp t \<le> b"
  by (auto simp: read_window_def Let_def split: sum.splits)

text \<open>
  A trade the reconciler takes for the intent's order is it by every key: the asset, the direction,
  the mode, the amount as a number, an open time inside the window around the submission; it backs no
  other intent of the account; both lists were read over the whole window; and no other trade of the
  window that backs nothing has these keys and this amount.
\<close>

theorem found_trade_matches:
  assumes "decide cfg broker token (\<lambda>ids. list_linked_broker_trade_ids (i_accountId intent) ids d) intent sub claim = Decided (Found t)"
  shows "same_keys intent t \<and> normalize_decimal (bt_amount t) = normalize_decimal (i_amount intent)
    \<and> sub - rc_windowBeforeMs cfg \<le> bt_openTimestamp t \<and> bt_openTimestamp t \<le> sub + rc_windowAfterMs cfg
    \<and> \<not> backed (i_accountId intent) (bt_id t) d
    \<and> (\<exists>openW closedW.
         read_window cfg broker OpenList (i_mode intent = Demo) (sub - rc_windowBeforeMs cfg) (sub + rc_windowAfterMs cfg) = Inr openW
       \<and> read_window cfg broker ClosedList (i_mode intent = Demo) (sub - rc_windowBeforeMs cfg) (sub + rc_windowAfterMs cfg) = Inr closedW
       \<and> wr_covered openW \<and> wr_covered closedW \<and> t \<in> set (by_id (wr_trades openW @ wr_trades closedW))
       \<and> (\<forall>t' \<in> set (by_id (wr_trades openW @ wr_trades closedW)).
            same_keys intent t' \<and> normalize_decimal (bt_amount t') = normalize_decimal (i_amount intent)
            \<and> \<not> backed (i_accountId intent) (bt_id t') d \<longrightarrow> t' = t))"
proof -
  let ?a = "sub - rc_windowBeforeMs cfg" and ?b = "sub + rc_windowAfterMs cfg" and ?acc = "i_accountId intent"
  obtain openW closedW where w: "read_window cfg broker OpenList (i_mode intent = Demo) ?a ?b = Inr openW"
    "read_window cfg broker ClosedList (i_mode intent = Demo) ?a ?b = Inr closedW"
    and c: "conclude intent ?b claim openW closedW (unlinked_trades (\<lambda>ids. list_linked_broker_trade_ids ?acc ids d) intent
        (wr_trades openW @ wr_trades closedW)) = Decided (Found t)"
    using decide_concludes [OF assms] by blast
  let ?ts = "wr_trades openW @ wr_trades closedW"
  let ?u = "unlinked_trades (\<lambda>ids. list_linked_broker_trade_ids ?acc ids d) intent ?ts"
  let ?e = "filter (\<lambda>t. normalize_decimal (bt_amount t) = normalize_decimal (i_amount intent)) ?u"
  from c have e: "?e \<noteq> []" "\<not> 1 < length ?e" "t = hd ?e" "wr_covered openW" "wr_covered closedW"
    by (auto simp: conclude_def Let_def split: if_splits)
  then have one: "?e = [t]" by (cases ?e) auto
  then have t: "t \<in> set ?e" by simp
  have set_e: "set ?e = {t \<in> set (by_id ?ts). same_keys intent t \<and> \<not> backed ?acc (bt_id t) d
      \<and> normalize_decimal (bt_amount t) = normalize_decimal (i_amount intent)}"
    by (auto simp: unlinked_trades_set)
  have "t \<in> set (wr_trades openW) \<or> t \<in> set (wr_trades closedW)" using t set_by_id [of ?ts] unfolding set_e by auto
  then have "?a \<le> bt_openTimestamp t \<and> bt_openTimestamp t \<le> ?b" using window_trades w by blast
  moreover have "t' = t" if "t' \<in> set (by_id ?ts)" "same_keys intent t'" "\<not> backed ?acc (bt_id t') d"
      "normalize_decimal (bt_amount t') = normalize_decimal (i_amount intent)" for t'
  proof -
    have "t' \<in> set ?e" unfolding set_e using that by simp
    then show ?thesis unfolding one by simp
  qed
  ultimately show ?thesis using t w e(4,5) unfolding set_e by blast
qed

section \<open>When the reserve is released\<close>

text \<open>
  The documented first page (\<^verbatim>\<open>docs/broker-rest.md\<close>, A1 and A7): the newest trades of the list, at least
  one where there is one, newest first.
\<close>

definition first_page_of ::
  "(trade_list \<Rightarrow> bool \<Rightarrow> nat \<Rightarrow> nat \<Rightarrow> nat \<Rightarrow> rest_error + 'p broker_trade list) \<Rightarrow> nat \<Rightarrow> bool \<Rightarrow> trade_list
    \<Rightarrow> 'p broker_trade list \<Rightarrow> bool" where
  "first_page_of broker limit isDemo l lst \<longleftrightarrow> newest_first lst \<and> (\<exists>k > 0. broker l isDemo limit 1 0 = Inr (take k lst))"

lemma first_page_covers:
  assumes r: "read_window cfg broker l m a b = Inr w" "wr_proof w" and p: "first_page_of broker (rc_pageSize cfg) m l lst"
    and t: "t \<in> set lst" "a \<le> bt_openTimestamp t" "bt_openTimestamp t \<le> b"
  shows "t \<in> set (wr_trades w)"
proof -
  obtain q where q: "read_trade_pages (broker l m (rc_pageSize cfg)) (rc_maxPages cfg) (\<lambda>t. bt_openTimestamp t < a) = Inr q"
    "pr_covered q" "pr_pagesRead q = 1"
    "wr_trades w = filter (\<lambda>t. a \<le> bt_openTimestamp t \<and> bt_openTimestamp t \<le> b) (pr_trades q)"
    using r by (auto simp: read_window_def Let_def split: sum.splits)
  obtain k where k: "0 < k" "pr_trades q = take k lst" "take k lst = [] \<or> list_ex (\<lambda>t. bt_openTimestamp t < a) (take k lst)"
    using p first_page_read [OF q(1-3)] unfolding first_page_of_def by auto
  have "t \<in> set (take k lst)"
  proof (rule ccontr)
    assume n: "t \<notin> set (take k lst)"
    then have "take k lst \<noteq> []" using k(1) t(1) by auto
    then obtain s where s: "s \<in> set (take k lst)" "bt_openTimestamp s < a" using k(3) by (auto simp: list_ex_iff)
    have "t \<in> set (drop k lst)" using n t(1) by (metis Un_iff append_take_drop_id set_append)
    moreover have "sorted_wrt (\<lambda>a b. bt_openTimestamp b \<le> bt_openTimestamp a) (take k lst @ drop k lst)"
      using p by (simp add: first_page_of_def newest_first_sorted)
    ultimately have "bt_openTimestamp t \<le> bt_openTimestamp s" using s(1) unfolding sorted_wrt_append by blast
    then show False using s(2) t(2) by simp
  qed
  then show ?thesis using q(4) k(2) t by simp
qed

lemma conclude_absent:
  assumes "conclude intent e claim openW closedW u = Absent"
  shows "u = [] \<and> i_mode intent = Demo \<and> wr_proof openW \<and> wr_proof closedW \<and> e \<le> claim \<and> i_lastError intent \<noteq> Some TradeMismatch"
  using assms by (auto simp: conclude_def Let_def split: if_splits)


text \<open>The memory after a row of attempts.\<close>

record 'p attempt =
  at_intent :: nat
  at_claim :: int
  at_aborted :: bool
  at_decided :: "'p decision option"

definition after_attempts :: "'p attempt list \<Rightarrow> (nat \<rightharpoonup> int)" where
  "after_attempts as =
     fold (\<lambda>a m. snd (reconcile_decided (at_intent a) (at_claim a) (at_aborted a) (at_decided a) m)) as Map.empty"

definition proves :: "nat \<Rightarrow> 'p attempt \<Rightarrow> bool" where
  "proves iid a \<longleftrightarrow> at_intent a = iid \<and> \<not> at_aborted a \<and> at_decided a = Some Absent"

text \<open>Since the attempt the memory names, every attempt at the intent that was not given up proved absence too.\<close>

definition remembered :: "'p attempt list \<Rightarrow> nat \<Rightarrow> int \<Rightarrow> bool" where
  "remembered as iid first \<longleftrightarrow> (\<exists>pre b mid. as = pre @ b # mid \<and> proves iid b \<and> at_claim b = first
     \<and> (\<forall>c \<in> set mid. at_intent c = iid \<and> \<not> at_aborted c \<longrightarrow> at_decided c = Some Absent))"

lemma remembered_new: "proves iid a \<Longrightarrow> remembered (as @ [a]) iid (at_claim a)"
  unfolding remembered_def by (intro exI [of _ as] exI [of _ a] exI [of _ "[]"]) simp

lemma remembered_more:
  assumes "remembered as iid first" "at_intent a = iid \<and> \<not> at_aborted a \<longrightarrow> at_decided a = Some Absent"
  shows "remembered (as @ [a]) iid first"
proof -
  from assms(1) obtain pre b mid where "as = pre @ b # mid" "proves iid b" "at_claim b = first"
    "\<forall>c \<in> set mid. at_intent c = iid \<and> \<not> at_aborted c \<longrightarrow> at_decided c = Some Absent"
    unfolding remembered_def by blast
  then show ?thesis unfolding remembered_def
    using assms(2) by (intro exI [of _ pre] exI [of _ b] exI [of _ "mid @ [a]"]) auto
qed

lemma after_attempts_remembers: "after_attempts as iid = Some first \<Longrightarrow> remembered as iid first"
proof (induction as arbitrary: first rule: rev_induct)
  case Nil
  then show ?case by (simp add: after_attempts_def)
next
  case (snoc a as)
  let ?m = "after_attempts as"
  have e: "snd (reconcile_decided (at_intent a) (at_claim a) (at_aborted a) (at_decided a) ?m) iid = Some first"
    using snoc(2) by (simp add: after_attempts_def)
  show ?case
  proof (cases "proves iid a \<and> first = at_claim a")
    case True
    then show ?thesis using remembered_new by blast
  next
    case False
    then have "?m iid = Some first" "at_intent a = iid \<and> \<not> at_aborted a \<longrightarrow> at_decided a = Some Absent"
      using e by (auto simp: reconcile_decided_def confirm_absence_def proves_def
          split: option.splits decision.splits if_splits)
    then show ?thesis using remembered_more [OF snoc(1)] by blast
  qed
qed

lemma decide_not_NotFound: "decide cfg broker token linkedIds intent sub claim \<noteq> Decided NotFound"
  by (auto simp: decide_def conclude_def Let_def split: token_answer.splits sum.splits pages_error.splits)


section \<open>Demo attempts\<close>

definition asked :: intent_row where
  "asked = \<lparr>i_id = 10, i_accountId = 1, i_userId = 0, i_sessionId = None, i_mode = Demo, i_assetId = 5, i_amount = ''2.50'',
     i_action = Up, i_durationSec = 60, i_clientRequestId = ''req-1'', i_status = Reconciling, i_version = 6, i_tokensReserved = 1,
     i_transport = None, i_submittedAt = Some 20, i_submitDeadlineAt = None, i_submitNotBeforeAt = None, i_lastError = None,
     i_reconcileClaimedAt = Some 100, i_signalDecisionId = None, i_createdAt = 15, i_updatedAt = 100\<rparr>"

definition match_config :: reconciler_config where
  "match_config = \<lparr>rc_windowBeforeMs = 5, rc_windowAfterMs = 5, rc_pageSize = 2, rc_maxPages = 5\<rparr>"

definition empty_tables :: "int db" where
  "empty_tables = \<lparr>users = [], accounts = [], snapshots = [], sessions = [], intents = [], token_ledger = [], trades = [],
     outbox = [], decisions = [], trading_switch = None, star_payments = [], refund_requests = [], bonus_rules = [], referrals = [],
     referral_codes = [], deposits = [], deliveries = [], audit_log = [], notices = [], now = 0, next_id = 0\<rparr>"

text \<open>A broker whose closed list is \<open>listed_three\<close>, and one with nothing in the window.\<close>

definition closed_three :: "trade_list \<Rightarrow> bool \<Rightarrow> nat \<Rightarrow> nat \<Rightarrow> nat \<Rightarrow> rest_error + int broker_trade list" where
  "closed_three l isDemo limit page offset = Inr (case l of OpenList \<Rightarrow> [] | ClosedList \<Rightarrow> take limit (drop offset listed_three))"

definition closed_old :: "trade_list \<Rightarrow> bool \<Rightarrow> nat \<Rightarrow> nat \<Rightarrow> nat \<Rightarrow> rest_error + int broker_trade list" where
  "closed_old l isDemo limit page offset
     = Inr (case l of OpenList \<Rightarrow> [] | ClosedList \<Rightarrow> take limit (drop offset [listed ''c'' 30, listed ''a'' 10]))"

theorem found_trade_matches_witness:
  "decide match_config closed_three (TokenOk ''t'') (\<lambda>ids. list_linked_broker_trade_ids 1 ids empty_tables) asked 20 100
     = Decided (Found (listed ''b'' 20)) \<and> same_keys asked (listed ''b'' 20)"
proof -
  have d: "decide match_config closed_three (TokenOk ''t'') (\<lambda>ids. list_linked_broker_trade_ids (i_accountId asked) ids empty_tables) asked 20 100
     = Decided (Found (listed ''b'' 20))" by code_simp
  from found_trade_matches [OF d] d show ?thesis by (simp add: asked_def)
qed

lemma old_absent: "decide match_config closed_old (TokenOk ''t'') (\<lambda>ids. list_linked_broker_trade_ids (i_accountId asked) ids empty_tables) asked 20 100 = Absent"
  by code_simp

text \<open>The trade of the window backs another intent.\<close>

definition backed_tables :: "int db" where
  "backed_tables = empty_tables\<lparr>trades := [\<lparr>t_id = 7, t_accountId = 1, t_intentId = Some 9, t_brokerTradeId = ''b'', t_mode = Demo,
     t_assetId = 5, t_action = Up, t_amount = ''2.5'', t_openPrice = 100, t_openTimestampMs = 20, t_closePrice = None,
     t_closeTimestampMs = None, t_potentialProfit = None, t_profit = None, t_source = None, t_brokerClientId = None,
     t_status = TOpen, t_raw = listed ''b'' 20\<rparr>]\<rparr>"



end
