(* ===== verification/Executor.thy ===== *)
theory Executor
  imports Matching
begin

text \<open>
  The executor that sends an order, \<^verbatim>\<open>apps/trading-worker/src/intents/trade-command-executor.ts\<close>: over the
  account's socket when its session is ready, over REST only when nothing was emitted. The session,
  the token source and the REST client are the environment's answers; the orders the executor emitted
  are part of its result, as the transports they went over.
\<close>

section \<open>The port\<close>

datatype 'p submit_result =
  SubmitAccepted trade_transport "'p broker_trade"
| SubmitRejected failure_reason
| SubmitUnknown failure_reason

text \<open>\<open>SocketOpenTradeResult\<close> of \<^verbatim>\<open>packages/broker-socket/src/socket.ts\<close>.\<close>

datatype not_sent_reason = NotReady | AbortedBefore

datatype 'p socket_result =
  SocketSuccess "'p broker_trade"
| SocketFail "string list"
| SocketNotSent not_sent_reason
| SocketUnknown

fun emitted :: "'p socket_result \<Rightarrow> bool" where
  "emitted (SocketNotSent _) \<longleftrightarrow> False"
| "emitted _ \<longleftrightarrow> True"

text \<open>The REST client's answer to the order; \<open>RestBug\<close> is an error that is none of its own.\<close>

datatype 'p rest_answer = RestOpened "'p broker_trade" | RestFailed rest_error | RestBug

text \<open>What \<open>submit\<close> returned, or \<open>None\<close> when it threw.\<close>

type_synonym 'p submission = "trade_transport list \<times> 'p submit_result option"

section \<open>The submission\<close>

text \<open>REST codes of a refusal before acting; the others may have opened the trade.\<close>

fun refused_before_acting :: "rest_error \<Rightarrow> bool" where
  "refused_before_acting RestUnauthorized \<longleftrightarrow> True"
| "refused_before_acting RestRateLimited \<longleftrightarrow> True"
| "refused_before_acting RestRejected \<longleftrightarrow> True"
| "refused_before_acting RestUnavailable \<longleftrightarrow> False"
| "refused_before_acting RestContractViolation \<longleftrightarrow> False"
| "refused_before_acting RestAborted \<longleftrightarrow> False"

definition over_rest :: "token_answer \<Rightarrow> 'p rest_answer \<Rightarrow> 'p submission" where
  "over_rest token rest =
     (case token of
        TokenOk _ \<Rightarrow>
          ([RestFallback], case rest of
             RestOpened trade \<Rightarrow> Some (SubmitAccepted RestFallback trade)
           | RestFailed code \<Rightarrow>
               Some (if refused_before_acting code then SubmitRejected BrokerRejected else SubmitUnknown BrokerUnavailable)
           | RestBug \<Rightarrow> None)
      | _ \<Rightarrow> ([], Some (SubmitRejected BrokerRejected)))"

definition submit ::
  "intent_row \<Rightarrow> 'p socket_result option \<Rightarrow> token_answer \<Rightarrow> 'p rest_answer \<Rightarrow> 'p submission" where
  "submit intent session token rest =
     (if \<not> is_decimal_string (normalize_decimal (i_amount intent)) then ([], None)
      else case session of
        None \<Rightarrow> over_rest token rest
      | Some (SocketSuccess trade) \<Rightarrow> ([Socket], Some (SubmitAccepted Socket trade))
      | Some (SocketFail _) \<Rightarrow> ([Socket], Some (SubmitRejected BrokerRejected))
      | Some (SocketNotSent NotReady) \<Rightarrow> over_rest token rest
      | Some (SocketNotSent AbortedBefore) \<Rightarrow> ([], Some (SubmitUnknown BrokerUnavailable))
      | Some SocketUnknown \<Rightarrow> ([Socket], Some (SubmitUnknown BrokerUnavailable)))"

text \<open>The order certainly did not open: none was emitted, or the broker refused the one that was.\<close>

definition surely_not_opened :: "'p socket_result option \<Rightarrow> token_answer \<Rightarrow> 'p rest_answer \<Rightarrow> trade_transport list \<Rightarrow> bool" where
  "surely_not_opened session token rest orders \<longleftrightarrow>
     orders = [] \<or> (orders = [Socket] \<and> (\<exists>fs. session = Some (SocketFail fs)))
     \<or> (orders = [RestFallback] \<and> (\<exists>code. rest = RestFailed code \<and> refused_before_acting code))"



end
