(* ===== verification/Delivery.thy ===== *)
theory Delivery
  imports Platform
begin

text \<open>
  What the outbox publisher guarantees along any run of the platform: a queued intent always has a
  delivery under way, giving up rejects the intent, and a reconciliation message is never given up.
\<close>

section \<open>Failed rows along a run\<close>

lemma change_new_pending: "change d d' \<Longrightarrow> db_ok d \<Longrightarrow> new_pending d d' \<or> outbox_change d d'"
  by (erule changeE)
    (auto dest: intent_ops_outbox accept_outbox settle_closed_trade_outbox session_change_facts only_sessions_same(5) star_change_ok(5) decision_change(6)
      intro: new_pending_same unknown_new_pending simp: operator_outbox)

lemma platform_step_failed_ok:
  assumes "platform_step h h'" "history_ok h" "\<forall>d \<in> set h. failed_ok d"
  shows "\<forall>d \<in> set h'. failed_ok d"
  using assms(1)
proof (cases rule: platform_step.cases)
  case (Commit d d' rest)
  then have ok: "db_ok d" "failed_ok d" using assms(2,3) by (simp_all add: history_ok_def)
  have "failed_ok d'"
    using change_new_pending [OF Commit(3) ok(1)] failed_ok_step [OF ok(2,1) change_ok [OF Commit(3) ok(1)] _ change_progress [OF Commit(3) ok(1)]]
      outbox_change_failed_ok [OF _ ok] by blast
  then show ?thesis using Commit assms(3) by simp
next
  case (Create seen d rest input session opts res d')
  then have h: "db_ok d" "later seen d" "db_ok seen" "failed_ok d" using assms(2,3) by (auto simp: history_ok_def)
  from create_change [OF h(1-3) Create(4)] have c: "db_ok d'" "later d d'" by blast+
  have "failed_ok d'"
    by (rule failed_ok_step [OF h(4,1) c(1) create_new_pending [OF h(1) laterD(1) [OF h(2)] h(3) Create(4)] laterD(1) [OF c(2)]])
  then show ?thesis using Create assms(3) by simp
next
  case (StartSession seen d rest started demoOnly created d')
  then have ok: "db_ok d" "failed_ok d" using assms(2,3) by (simp_all add: history_ok_def)
  from create_trading_session_facts [OF ok(1) StartSession(4)] have "intents d' = intents d" "outbox d' = outbox d" by blast+
  then have "failed_ok d'" using ok(2) by (simp add: failed_ok_def closed_message_def)
  then show ?thesis using StartSession assms(3) by simp
next
  case (Account seen d rest d')
  then have ok: "db_ok d" "failed_ok d" using assms(2,3) by (simp_all add: history_ok_def)
  have "intents d' = intents d" "outbox d' = outbox d" using account_change_aside [OF Account(4) ok(1)] by (simp_all add: aside_def)
  then have "failed_ok d'" using ok(2) by (simp add: failed_ok_def closed_message_def)
  then show ?thesis using Account assms(3) by simp
qed

interpretation delivery: machine platform_step "\<lambda>h. history_ok h \<and> (\<forall>d \<in> set h. failed_ok d)"
proof unfold_locales
  fix h h' :: "'p db list"
  assume "platform_step h h'" "history_ok h \<and> (\<forall>d \<in> set h. failed_ok d)"
  then show "history_ok h' \<and> (\<forall>d \<in> set h'. failed_ok d)"
    using platform.step_inv platform_step_failed_ok by blast
qed

lemma run_failed_ok:
  assumes "platform_step\<^sup>*\<^sup>* [d0] (d # h)" "db_ok d0" "failed_ok d0" shows "failed_ok d"
proof -
  have "history_ok [d0] \<and> (\<forall>d \<in> set [d0]. failed_ok d)" using assms(2,3) by simp
  from delivery.run_inv [OF assms(1) this] show ?thesis by simp
qed

lemma topic_row:
  assumes "t \<in> set (topics_of iid obx)" shows "\<exists>w \<in> set obx. o_intentId w = iid \<and> o_topic w = t"
  using assms by (auto simp: topics_of_def)

text \<open>
  C20: No queued intent and no unknown one is stranded: in every reachable state a queued intent has a
  row of the trading topic that is pending or published, and an intent whose outcome is unknown has
  one of the reconciliation topic; the publisher's giving up on a row never leaves its intent waiting.
\<close>

theorem no_intent_is_stranded:
  assumes "platform_step\<^sup>*\<^sup>* [d0] (d # h)" "db_ok d0" "failed_ok d0" "r \<in> set (intents d)"
    "i_status r = Queued \<or> i_status r = Unknown"
  shows "\<exists>w \<in> set (outbox d). o_intentId w = i_id r \<and> (o_status w = OPending \<or> o_status w = OPublished)
    \<and> o_topic w = (if i_status r = Queued then TradingIntents else TradingReconciliation)"
proof -
  have ok: "db_ok d" and f: "failed_ok d" using run_ok [OF assms(1,2)] run_failed_ok [OF assms(1-3)] by blast+
  have "topics_ok (i_status r) (topics_of (i_id r) (outbox d))" using ok assms(4) by (simp add: db_ok_def outbox_part_def)
  then have "(if i_status r = Queued then TradingIntents else TradingReconciliation) \<in> set (topics_of (i_id r) (outbox d))"
    using assms(5) by (auto simp: topics_ok_def)
  from topic_row [OF this] obtain w where w: "w \<in> set (outbox d)" "o_intentId w = i_id r"
    "o_topic w = (if i_status r = Queued then TradingIntents else TradingReconciliation)" by blast
  have "o_status w \<noteq> OFailed"
  proof
    assume "o_status w = OFailed"
    then have c: "closed_message d w" using f w(1) by (simp add: failed_ok_def)
    then have "i_status r \<noteq> Queued" using assms(4) w(2) by (simp add: closed_message_def)
    then show False using c w(3) by (simp add: closed_message_def)
  qed
  then have "o_status w = OPending \<or> o_status w = OPublished" by (cases "o_status w") auto
  then show ?thesis using w by blast
qed

text \<open>
  Giving up is a rejection: when the last allowed delivery of a trading row fails and its intent is
  still queued, the same transaction fails the row, rejects the intent as unpublished and releases its
  token; it never throws.
\<close>

theorem exhausted_delivery_rejects:
  assumes "platform_step\<^sup>*\<^sup>* [d0] (d # h)" "db_ok d0" "claim_outbox_row oid OPending d = Some w" "o_topic w = TradingIntents"
    "pc_maxAttempts cfg \<le> o_attempts w + 1" "r \<in> set (intents d)" "i_id r = o_intentId w" "i_status r = Queued"
  shows "\<exists>d' r' l. publish_one cfg oid False d = Inr (True, d') \<and> r' \<in> set (intents d') \<and> i_id r' = i_id r
    \<and> i_status r' = Rejected \<and> i_lastError r' = Some PublishFailed \<and> i_tokensReserved r' = 0
    \<and> l \<in> set (token_ledger d') \<and> l_kind l = LRelease \<and> l_intentId l = Some (i_id r) \<and> l_userId l = i_userId r
    \<and> (\<exists>w' \<in> set (outbox d'). o_id w' = oid \<and> o_status w' = OFailed)"
proof -
  have ok: "db_ok d" by (rule run_ok [OF assms(1,2)])
  have w: "w \<in> set (outbox d)" "o_id w = oid" using assms(3) unfolding claim_outbox_row_def by (auto dest: sql_first_Some)
  let ?f = "\<lambda>v. v\<lparr>o_attempts := o_attempts w + 1, o_status := OFailed, o_availableAt := o_availableAt v, o_lastError := Some PublishFailed\<rparr>"
  let ?d1 = "set_outbox oid ?f d"
  have ok1: "db_ok ?d1" by (rule set_outbox_ok [OF ok]) (simp add: same_message_def)
  have r1: "r \<in> set (intents ?d1)" using assms(6) by simp
  have can: "can_transition Queued Rejected" by simp
  from reject_intent_cases [OF ok1 can, of "o_intentId w" None PublishFailed "\<lambda>_. True"] obtain x ns row where
    x: "x \<in> set (intents ?d1)" "cas_matches (o_intentId w) Queued None (\<lambda>_. True) x"
      "row = moved_to Rejected (now ?d1) (\<lambda>r. r\<lparr>i_lastError := Some PublishFailed, i_tokensReserved := 0\<rparr>) x"
      "reject_intent (o_intentId w) Queued None PublishFailed (\<lambda>_. True) ?d1 = Inr (Some row, finished x row LRelease 0 ns ?d1)"
    using r1 assms(7,8) by (auto simp: cas_matches_def)
  have "x = r" using unique_ids_eq [OF db_ok_unique [OF ok1] x(1) r1] x(2) assms(7) by (simp add: cas_matches_def)
  have id: "i_id row = i_id x" using x(3) by (simp add: moved_to_def)
  have p: "publish_one cfg oid False d = Inr (True, finished x row LRelease 0 ns ?d1)"
    using assms(3-5) x(4) w(2) by (simp add: publish_one_def record_delivery_failure_def policy_for_def Let_def)
  have "row \<in> set (intents (finished x row LRelease 0 ns ?d1))"
    using set_put [OF db_ok_unique [OF ok1] x(1) id] by (simp add: finished_def)
  moreover have "?f w \<in> set (outbox (finished x row LRelease 0 ns ?d1))"
    using w by (auto simp: finished_def sql_update_def)
  moreover have "\<exists>l \<in> set (token_ledger (finished x row LRelease 0 ns ?d1)). l_kind l = LRelease \<and> l_intentId l = Some (i_id r)
      \<and> l_userId l = i_userId r"
    using \<open>x = r\<close> by (simp add: finished_def)
  moreover have "i_id row = i_id r \<and> i_status row = Rejected \<and> i_lastError row = Some PublishFailed \<and> i_tokensReserved row = 0"
    "o_id (?f w) = oid \<and> o_status (?f w) = OFailed"
    using x(3) \<open>x = r\<close> w(2) by (simp_all add: moved_to_def)
  ultimately show ?thesis using p by blast
qed

lemma demo_failed_ok: "failed_ok demo_db"
  by (simp add: failed_ok_def demo_db_def)

lemma demo_created_rows:
  "map (\<lambda>r. (i_id r, i_status r, i_userId r)) (intents demo_created) = [(10, Queued, 0)]"
  "map (\<lambda>w. (o_id w, o_intentId w, o_topic w, o_status w, o_attempts w)) (outbox demo_created) = [(11, 10, TradingIntents, OPending, 0)]"
  by code_simp+

theorem no_intent_is_stranded_witness:
  "\<exists>w \<in> set (outbox demo_created). o_intentId w = 10 \<and> o_topic w = TradingIntents"
proof -
  obtain r where r: "r \<in> set (intents demo_created)" "i_id r = 10" "i_status r = Queued"
    using demo_created_rows(1) by (cases "intents demo_created") auto
  from no_intent_is_stranded [OF demo_run_created demo_db_ok demo_failed_ok r(1)] r(2,3) show ?thesis by auto
qed

theorem exhausted_delivery_rejects_witness:
  "\<exists>d'. publish_one (DEFAULT_PUBLISHER_CONFIG\<lparr>pc_maxAttempts := 1\<rparr>) 11 False demo_created = Inr (True, d')
     \<and> (\<exists>r \<in> set (intents d'). i_id r = 10 \<and> i_status r = Rejected)"
proof -
  obtain r where r: "r \<in> set (intents demo_created)" "i_id r = 10" "i_status r = Queued"
    using demo_created_rows(1) by (cases "intents demo_created") auto
  obtain w where w: "outbox demo_created = [w]" "o_id w = 11" "o_intentId w = 10" "o_topic w = TradingIntents" "o_status w = OPending" "o_attempts w = 0"
    using demo_created_rows(2) by (cases "outbox demo_created") auto
  then have c: "claim_outbox_row 11 OPending demo_created = Some w" by (simp add: claim_outbox_row_def sql_first_def)
  from exhausted_delivery_rejects [OF demo_run_created demo_db_ok c w(4) _ r(1), of "DEFAULT_PUBLISHER_CONFIG\<lparr>pc_maxAttempts := 1\<rparr>"] r w
  show ?thesis by auto
qed

end
