(* ===== verification/Worker.thy ===== *)
theory Worker
  imports Executor Delivery
begin

text \<open>
  The trading worker's handling of an intent: the job of \<^verbatim>\<open>apps/trading-worker/src/intents/processor.ts\<close>,
  the sweep of \<^verbatim>\<open>sweeper.ts\<close>, the hand-off job and the attempts of \<^verbatim>\<open>reconciliation.ts\<close>. A task is a
  program counter with what the code holds at that point; one step is at most one transaction, so
  the tasks of all workers interleave between any two of them. What the broker, the clock and the
  queue answer is the step's input.
\<close>

section \<open>Results\<close>

datatype process_outcome =
  OutAccepted | OutRejected | OutUnknown | OutExpired | OutStaleUnknown | OutForwarded | OutNoop

datatype reconciliation_job_outcome = JobReconciling | ReconNoop

datatype attempt_ending =
  EndAccepted | EndSettled | EndRejected | EndManualReview | EndUnavailable | EndSkipped | EndDropped | EndFailed

record processor_config =
  wc_intentMaxAgeMs :: int
  wc_staleSubmittingMs :: int
  wc_retryMs :: int
  wc_demoOnly :: bool

text \<open>How the submission raced its deadline: \<open>submitWithDeadline\<close>.\<close>

datatype 'p race = SubmitReturned "'p submit_result option" | DeadlineFirst

fun submit_with_deadline :: "'p race \<Rightarrow> 'p submit_result" where
  "submit_with_deadline (SubmitReturned (Some r)) = r"
| "submit_with_deadline (SubmitReturned None) = SubmitUnknown ExecutorError"
| "submit_with_deadline DeadlineFirst = SubmitUnknown ExecutorTimeout"

definition INTENT_HOLD_MAX_MS :: int where "INTENT_HOLD_MAX_MS = 2000"

text \<open>\<open>holdForEntry\<close>: how long the intent waits for its entry, on the process's clock.\<close>

definition hold_for_entry :: "intent_row \<Rightarrow> int \<Rightarrow> int option" where
  "hold_for_entry intent clock =
     (case i_submitNotBeforeAt intent of None \<Rightarrow> None
      | Some t \<Rightarrow> let wanted = t - clock in if wanted \<le> 0 then None else Some (min wanted INTENT_HOLD_MAX_MS))"

section \<open>Tasks\<close>

datatype 'p task =
  JobStart "nat option"
| JobDemoOnly intent_row
| JobHold intent_row int
| JobTake intent_row
| JobExpire intent_row
| JobLate intent_row
| JobPaused intent_row
| JobStale intent_row
| JobSubmit intent_row
| JobPersist intent_row "'p submit_result"
| JobMismatch intent_row
| SweepIntent nat
| ReconStart "nat option"
| ReconRow intent_row
| AttemptClaim nat
| AttemptAsk intent_row
| AttemptPersist intent_row "'p reconcile_result option"
| AttemptHalt intent_row manual_review_reason
| TaskDone process_outcome
| SweepDone bool
| ReconDone reconciliation_job_outcome
| AttemptDone attempt_ending
| TaskInvalid
| TaskThrew tx_error

record 'p step_input =
  in_forwarded :: bool
  in_clock :: int
  in_session :: "'p socket_result option"
  in_token :: token_answer
  in_rest :: "'p rest_answer"
  in_late :: bool
  in_found :: "'p reconcile_result option"

text \<open>An order that left: the intent and the transport.\<close>

type_synonym order = "nat \<times> trade_transport"

text \<open>A transaction's end: the thrown error, nothing moved, or the row it moved.\<close>

definition ended ::
  "tx_error + intent_row option \<times> 'p db \<Rightarrow> 'p db \<Rightarrow> 'p task \<Rightarrow> (intent_row \<Rightarrow> 'p task) \<Rightarrow> 'p task \<times> 'p db \<times> order list" where
  "ended result d none some =
     (case result of
        Inl e \<Rightarrow> (TaskThrew e, d, [])
      | Inr (None, d1) \<Rightarrow> (none, d1, [])
      | Inr (Some row, d1) \<Rightarrow> (some row, d1, []))"

text \<open>As above, with the thrown mismatch handled by a task of its own.\<close>

definition ended_unless_mismatch ::
  "tx_error + intent_row option \<times> 'p db \<Rightarrow> 'p db \<Rightarrow> 'p task \<Rightarrow> 'p task \<Rightarrow> (intent_row \<Rightarrow> 'p task) \<Rightarrow> 'p task \<times> 'p db \<times> order list" where
  "ended_unless_mismatch result d mismatch none some =
     (case result of Inl (MismatchThrown _ _ _) \<Rightarrow> (mismatch, d, []) | _ \<Rightarrow> ended result d none some)"

text \<open>\<open>handleQueued\<close> up to its first write: a real intent under the demo-only flag, an intent handed on,
  the wait for the entry, the take.\<close>

definition handle_queued :: "processor_config \<Rightarrow> 'p step_input \<Rightarrow> intent_row \<Rightarrow> 'p task" where
  "handle_queued cfg inp intent =
     (if wc_demoOnly cfg \<and> i_mode intent = Real then JobDemoOnly intent
      else if in_forwarded inp then TaskDone OutForwarded
      else case hold_for_entry intent (in_clock inp) of
          None \<Rightarrow> JobTake intent
        | Some ms \<Rightarrow> JobHold intent (in_clock inp + ms))"

text \<open>\<open>processIntentJob\<close>: the payload, the row and the branch on its status.\<close>

definition process_intent_job :: "processor_config \<Rightarrow> 'p step_input \<Rightarrow> nat option \<Rightarrow> 'p db \<Rightarrow> 'p task" where
  "process_intent_job cfg inp payload d =
     (case payload of None \<Rightarrow> TaskInvalid
      | Some iid \<Rightarrow>
      (case find_intent_row iid d of None \<Rightarrow> TaskInvalid
       | Some intent \<Rightarrow>
       if i_status intent = Queued then handle_queued cfg inp intent
       else if i_status intent = Submitting then JobStale intent
       else TaskDone OutNoop))"

definition handle_submitting :: "processor_config \<Rightarrow> intent_row \<Rightarrow> 'p db \<Rightarrow> 'p task \<times> 'p db \<times> order list" where
  "handle_submitting cfg intent d =
     ended (mark_intent_unknown (i_id intent) StaleSubmitting None (Some (wc_staleSubmittingMs cfg)) d) d
       (TaskDone OutNoop) (\<lambda>_. TaskDone OutStaleUnknown)"

text \<open>The submission of a taken intent, raced with its deadline; the orders that left with it.\<close>

definition submit_taken :: "'p step_input \<Rightarrow> intent_row \<Rightarrow> 'p db \<Rightarrow> 'p task \<times> 'p db \<times> order list" where
  "submit_taken inp taken d =
     (let (orders, result) = submit taken (in_session inp) (in_token inp) (in_rest inp) in
      (JobPersist taken (submit_with_deadline (if in_late inp then DeadlineFirst else SubmitReturned result)), d,
       map (\<lambda>tr. (i_id taken, tr)) orders))"

fun persist_outcome :: "intent_row \<Rightarrow> 'p submit_result \<Rightarrow> 'p db \<Rightarrow> 'p task \<times> 'p db \<times> order list" where
  "persist_outcome taken (SubmitAccepted tr trade) d =
     ended_unless_mismatch (mark_intent_accepted (i_id taken) (i_version taken) Submitting (Some tr) trade d) d
       (JobMismatch taken) (TaskDone OutNoop) (\<lambda>_. TaskDone OutAccepted)"
| "persist_outcome taken (SubmitRejected reason) d =
     ended (reject_intent (i_id taken) Submitting (Some (i_version taken)) reason (\<lambda>_. True) d) d
       (TaskDone OutNoop) (\<lambda>_. TaskDone OutRejected)"
| "persist_outcome taken (SubmitUnknown reason) d =
     ended (mark_intent_unknown (i_id taken) reason (Some (i_version taken)) None d) d
       (TaskDone OutNoop) (\<lambda>_. TaskDone OutUnknown)"

text \<open>One row of \<open>sweepStaleSubmitting\<close>.\<close>

definition sweep_stale_submitting :: "processor_config \<Rightarrow> nat \<Rightarrow> 'p db \<Rightarrow> 'p task \<times> 'p db \<times> order list" where
  "sweep_stale_submitting cfg iid d =
     ended (mark_intent_unknown iid StaleSubmitting None (Some (wc_staleSubmittingMs cfg)) d) d
       (SweepDone False) (\<lambda>_. SweepDone True)"

text \<open>The hand-off job: its read, then its write.\<close>

definition process_reconciliation_job :: "nat option \<Rightarrow> 'p db \<Rightarrow> 'p task" where
  "process_reconciliation_job payload d =
     (case payload of None \<Rightarrow> TaskInvalid
      | Some iid \<Rightarrow>
      (case find_intent_row iid d of None \<Rightarrow> TaskInvalid
       | Some intent \<Rightarrow> if i_status intent \<noteq> Unknown then ReconDone ReconNoop else ReconRow intent))"

text \<open>An attempt of the pass: the claim, the question raced with its deadline, the outcome's write.\<close>

definition attempt_claim :: "processor_config \<Rightarrow> nat \<Rightarrow> 'p db \<Rightarrow> 'p task \<times> 'p db \<times> order list" where
  "attempt_claim cfg iid d =
     (case claim_reconciling iid (wc_retryMs cfg) d of
        (None, d1) \<Rightarrow> (AttemptDone EndSkipped, d1, [])
      | (Some claimed, d1) \<Rightarrow> (AttemptAsk claimed, d1, []))"

definition reconcile_with_deadline :: "'p step_input \<Rightarrow> 'p reconcile_result option" where
  "reconcile_with_deadline inp = (if in_late inp then Some (Unavailable AttemptTimeout) else in_found inp)"

fun persist_reconciled :: "intent_row \<Rightarrow> 'p reconcile_result option \<Rightarrow> 'p db \<Rightarrow> 'p task \<times> 'p db \<times> order list" where
  "persist_reconciled claimed None d = (AttemptDone EndFailed, d, [])"
| "persist_reconciled claimed (Some (Found trade)) d =
     ended_unless_mismatch (conclude_reconciled (i_id claimed) (i_version claimed) trade d) d
       (AttemptHalt claimed ReviewMismatch) (AttemptDone EndDropped)
       (\<lambda>row. AttemptDone (if i_status row = Settled then EndSettled else EndAccepted))"
| "persist_reconciled claimed (Some NotFound) d =
     ended (reject_intent (i_id claimed) Reconciling (Some (i_version claimed)) ReconciliationNotFound (\<lambda>_. True) d) d
       (AttemptDone EndDropped) (\<lambda>_. AttemptDone EndRejected)"
| "persist_reconciled claimed (Some Ambiguous) d = (AttemptHalt claimed ReviewAmbiguous, d, [])"
| "persist_reconciled claimed (Some Unresolved) d = (AttemptHalt claimed ReviewNotFound, d, [])"
| "persist_reconciled claimed (Some (Unavailable _)) d = (AttemptDone EndUnavailable, d, [])"

definition halt_for_manual_review :: "intent_row \<Rightarrow> manual_review_reason \<Rightarrow> 'p db \<Rightarrow> 'p task \<times> 'p db \<times> order list" where
  "halt_for_manual_review claimed reason d =
     ended (halt_account_for_manual_review (i_id claimed) (i_version claimed) reason d) d
       (AttemptDone EndDropped) (\<lambda>_. AttemptDone EndManualReview)"

text \<open>The step of a task: which of the above its program counter runs.\<close>

fun task_step :: "processor_config \<Rightarrow> 'p step_input \<Rightarrow> 'p task \<Rightarrow> 'p db \<Rightarrow> 'p task \<times> 'p db \<times> order list" where
  "task_step cfg inp (JobStart payload) d = (process_intent_job cfg inp payload d, d, [])"
| "task_step cfg inp (JobDemoOnly intent) d =
     ended (reject_intent (i_id intent) Queued (Some (i_version intent)) FailedDemoOnly (\<lambda>_. True) d) d
       (TaskDone OutNoop) (\<lambda>_. TaskDone OutRejected)"
| "task_step cfg inp (JobHold intent until) d =
     (if in_clock inp < until then (JobHold intent until, d, []) else (JobTake intent, d, []))"
| "task_step cfg inp (JobTake intent) d =
     ended (take_intent (i_id intent) (i_version intent) (wc_intentMaxAgeMs cfg) d) d (JobExpire intent) JobSubmit"
| "task_step cfg inp (JobExpire intent) d =
     ended (reject_expired_intent (i_id intent) (i_version intent) (wc_intentMaxAgeMs cfg) d) d
       (JobLate intent) (\<lambda>_. TaskDone OutExpired)"
| "task_step cfg inp (JobLate intent) d =
     ended (reject_late_intent (i_id intent) (i_version intent) d) d (JobPaused intent) (\<lambda>_. TaskDone OutRejected)"
| "task_step cfg inp (JobPaused intent) d =
     ended (reject_paused_intent (i_id intent) (i_version intent) d) d (TaskDone OutNoop) (\<lambda>_. TaskDone OutRejected)"
| "task_step cfg inp (JobStale intent) d = handle_submitting cfg intent d"
| "task_step cfg inp (JobSubmit taken) d = submit_taken inp taken d"
| "task_step cfg inp (JobPersist taken result) d = persist_outcome taken result d"
| "task_step cfg inp (JobMismatch taken) d =
     ended (mark_intent_unknown (i_id taken) TradeMismatch (Some (i_version taken)) None d) d
       (TaskDone OutNoop) (\<lambda>_. TaskDone OutUnknown)"
| "task_step cfg inp (SweepIntent iid) d = sweep_stale_submitting cfg iid d"
| "task_step cfg inp (ReconStart payload) d = (process_reconciliation_job payload d, d, [])"
| "task_step cfg inp (ReconRow intent) d =
     ended (start_reconciling (i_id intent) (i_version intent) d) d (ReconDone ReconNoop) (\<lambda>_. ReconDone JobReconciling)"
| "task_step cfg inp (AttemptClaim iid) d = attempt_claim cfg iid d"
| "task_step cfg inp (AttemptAsk claimed) d = (AttemptPersist claimed (reconcile_with_deadline inp), d, [])"
| "task_step cfg inp (AttemptPersist claimed found) d = persist_reconciled claimed found d"
| "task_step cfg inp (AttemptHalt claimed reason) d = halt_for_manual_review claimed reason d"
| "task_step cfg inp (TaskDone out) d = (TaskDone out, d, [])"
| "task_step cfg inp (SweepDone moved) d = (SweepDone moved, d, [])"
| "task_step cfg inp (ReconDone out) d = (ReconDone out, d, [])"
| "task_step cfg inp (AttemptDone ending) d = (AttemptDone ending, d, [])"
| "task_step cfg inp TaskInvalid d = (TaskInvalid, d, [])"
| "task_step cfg inp (TaskThrew e) d = (TaskThrew e, d, [])"

section \<open>Every step is a transaction of the platform\<close>

text \<open>The handlers of a step, with the two that match on an outcome written as one case.\<close>

lemma persist_outcome_case:
  "persist_outcome taken result d =
     (case result of
        SubmitAccepted tr trade \<Rightarrow>
          ended_unless_mismatch (mark_intent_accepted (i_id taken) (i_version taken) Submitting (Some tr) trade d) d
            (JobMismatch taken) (TaskDone OutNoop) (\<lambda>_. TaskDone OutAccepted)
      | SubmitRejected reason \<Rightarrow>
          ended (reject_intent (i_id taken) Submitting (Some (i_version taken)) reason (\<lambda>_. True) d) d
            (TaskDone OutNoop) (\<lambda>_. TaskDone OutRejected)
      | SubmitUnknown reason \<Rightarrow>
          ended (mark_intent_unknown (i_id taken) reason (Some (i_version taken)) None d) d
            (TaskDone OutNoop) (\<lambda>_. TaskDone OutUnknown))"
  by (cases result) simp_all

lemma persist_reconciled_case:
  "persist_reconciled claimed found d =
     (case found of None \<Rightarrow> (AttemptDone EndFailed, d, [])
      | Some result \<Rightarrow>
     (case result of
        Found trade \<Rightarrow>
          ended_unless_mismatch (conclude_reconciled (i_id claimed) (i_version claimed) trade d) d
            (AttemptHalt claimed ReviewMismatch) (AttemptDone EndDropped)
            (\<lambda>row. AttemptDone (if i_status row = Settled then EndSettled else EndAccepted))
      | NotFound \<Rightarrow>
          ended (reject_intent (i_id claimed) Reconciling (Some (i_version claimed)) ReconciliationNotFound (\<lambda>_. True) d) d
            (AttemptDone EndDropped) (\<lambda>_. AttemptDone EndRejected)
      | Ambiguous \<Rightarrow> (AttemptHalt claimed ReviewAmbiguous, d, [])
      | Unresolved \<Rightarrow> (AttemptHalt claimed ReviewNotFound, d, [])
      | Unavailable _ \<Rightarrow> (AttemptDone EndUnavailable, d, [])))"
  by (cases found; simp; cases "the found"; simp)

lemmas handler_defs =
  process_intent_job_def handle_queued_def handle_submitting_def submit_taken_def persist_outcome_case
  sweep_stale_submitting_def process_reconciliation_job_def attempt_claim_def persist_reconciled_case
  halt_for_manual_review_def

lemma ended_db: "ended result d none some = (t, d', os) \<Longrightarrow> d' = d \<or> (\<exists>x. result = Inr (x, d'))"
  by (auto simp: ended_def split: sum.splits option.splits)

lemma ended_orders: "ended result d none some = (t, d', os) \<Longrightarrow> os = []"
  by (auto simp: ended_def split: sum.splits option.splits prod.splits)

lemma ended_unless_mismatch_facts:
  assumes "ended_unless_mismatch result d mismatch none some = (t, d', os)"
  shows "(d' = d \<or> (\<exists>x. result = Inr (x, d'))) \<and> os = []"
  using assms by (auto simp: ended_unless_mismatch_def split: sum.splits tx_error.splits dest: ended_db ended_orders)

lemma change_idle: "change d d"
proof -
  have "change d (d\<lparr>now := now d\<rparr>)" by (rule ClockStep) simp
  then show ?thesis by simp
qed

lemma task_step_change:
  assumes "task_step cfg inp t d = (t', d', os)"
  shows "change d d'"
proof (cases "d' = d")
  case True
  then show ?thesis using change_idle by simp
next
  case False
  then show ?thesis using assms
    by (cases "(cfg, inp, t, d)" rule: task_step.cases)
      (auto simp: handler_defs Let_def reject_expired_intent_def reject_late_intent_def reject_paused_intent_def
        dest!: ended_db ended_unless_mismatch_facts
        intro: TakeStep RejectStep UnknownStep AcceptStep StartStep ClaimStep ConcludeStep HaltStep
        split: option.splits if_splits prod.splits submit_result.splits reconcile_result.splits)
qed

text \<open>Only the submission emits an order, at most one and for the intent it holds; only a take leads to it.\<close>

lemma task_step_orders:
  assumes "task_step cfg inp t d = (t', d', os)"
  shows "os = [] \<or> (\<exists>taken tr. t = JobSubmit taken \<and> os = [(i_id taken, tr)])"
  using assms
proof (cases "(cfg, inp, t, d)" rule: task_step.cases)
  case (9 cfg inp taken d)
  have "length (fst (submit taken (in_session inp) (in_token inp) (in_rest inp))) \<le> 1"
    by (auto simp: submit_def over_rest_def split: option.splits socket_result.splits not_sent_reason.splits token_answer.splits)
  then show ?thesis using assms 9
    by (cases "fst (submit taken (in_session inp) (in_token inp) (in_rest inp))") (auto simp: submit_taken_def Let_def split: prod.splits)
qed (auto simp: handler_defs Let_def dest!: ended_orders ended_unless_mismatch_facts split: option.splits if_splits prod.splits submit_result.splits reconcile_result.splits)

lemma ended_task: "ended result d none some = (t, d', os) \<Longrightarrow> (\<exists>e. t = TaskThrew e) \<or> t = none \<or> (\<exists>row. result = Inr (Some row, d') \<and> t = some row)"
  by (auto simp: ended_def split: sum.splits option.splits)

lemma ended_unless_mismatch_task:
  "ended_unless_mismatch result d mismatch none some = (t, d', os) \<Longrightarrow>
     (\<exists>e. t = TaskThrew e) \<or> t = mismatch \<or> t = none \<or> (\<exists>row. result = Inr (Some row, d') \<and> t = some row)"
  by (auto simp: ended_unless_mismatch_def split: sum.splits tx_error.splits dest!: ended_task)

lemma task_step_submit:
  assumes "task_step cfg inp t d = (JobSubmit taken, d', os)"
  shows "\<exists>intent. t = JobTake intent \<and> take_intent (i_id intent) (i_version intent) (wc_intentMaxAgeMs cfg) d = Inr (Some taken, d')"
  using assms
  by (cases "(cfg, inp, t, d)" rule: task_step.cases)
    (auto simp: handler_defs Let_def dest!: ended_task ended_unless_mismatch_task split: option.splits if_splits prod.splits submit_result.splits reconcile_result.splits)

end
