(* ===== verification/Fleet.thy ===== *)
theory Fleet
  imports Worker
begin

text \<open>
  Any number of workers beside the rest of the platform: tasks start at any time and more than once for
  the same intent (a redelivered job, a second process, a sweep), interleave transaction by
  transaction, and may crash between any two steps. What left for the broker is the list of orders.
\<close>

section \<open>The machine\<close>

record 'p world =
  w_history :: "'p db list"
  w_tasks :: "'p task list"
  w_orders :: "order list"

fun entry :: "'p task \<Rightarrow> bool" where
  "entry (JobStart _) \<longleftrightarrow> True"
| "entry (SweepIntent _) \<longleftrightarrow> True"
| "entry (ReconStart _) \<longleftrightarrow> True"
| "entry (AttemptClaim _) \<longleftrightarrow> True"
| "entry _ \<longleftrightarrow> False"

inductive world_step :: "processor_config \<Rightarrow> 'p world \<Rightarrow> 'p world \<Rightarrow> bool" for cfg where
  Start: "entry t \<Longrightarrow> world_step cfg \<lparr>w_history = h, w_tasks = ts, w_orders = os\<rparr>
    \<lparr>w_history = h, w_tasks = ts @ [t], w_orders = os\<rparr>"
| Run: "task_step cfg inp t d = (t', d', new) \<Longrightarrow>
    world_step cfg \<lparr>w_history = d # h, w_tasks = pre @ t # post, w_orders = os\<rparr>
      \<lparr>w_history = d' # d # h, w_tasks = pre @ t' # post, w_orders = os @ new\<rparr>"
| Crash: "world_step cfg \<lparr>w_history = h, w_tasks = pre @ t # post, w_orders = os\<rparr>
    \<lparr>w_history = h, w_tasks = pre @ post, w_orders = os\<rparr>"
| Other: "platform_step h h' \<Longrightarrow> world_step cfg \<lparr>w_history = h, w_tasks = ts, w_orders = os\<rparr>
    \<lparr>w_history = h', w_tasks = ts, w_orders = os\<rparr>"

definition idle_world :: "'p db \<Rightarrow> 'p world" where
  "idle_world d = \<lparr>w_history = [d], w_tasks = [], w_orders = []\<rparr>"


section \<open>The fence\<close>

fun holding :: "'p task \<Rightarrow> nat list" where
  "holding (JobSubmit taken) = [i_id taken]"
| "holding _ = []"

text \<open>The intents whose order may have left or is about to.\<close>

definition claims :: "'p task list \<Rightarrow> order list \<Rightarrow> nat list" where
  "claims ts os = concat (map holding ts) @ map fst os"

definition past_queue :: "'p db \<Rightarrow> nat \<Rightarrow> bool" where
  "past_queue d i \<longleftrightarrow> (\<exists>r \<in> set (intents d). i_id r = i \<and> i_status r \<noteq> Queued)"

definition took :: "processor_config \<Rightarrow> 'p db list \<Rightarrow> nat \<Rightarrow> bool" where
  "took cfg h i \<longleftrightarrow> (\<exists>s \<in> set h. \<exists>r \<in> set (intents s). i_id r = i \<and> i_status r = Queued
     \<and> take_allowed s (wc_intentMaxAgeMs cfg) r \<and> (wc_demoOnly cfg \<longrightarrow> i_mode r \<noteq> Real))"

definition heading :: "processor_config \<Rightarrow> 'p db list \<Rightarrow> 'p task \<Rightarrow> bool" where
  "heading cfg h t \<longleftrightarrow> (\<forall>intent. t = JobTake intent \<or> (\<exists>u. t = JobHold intent u) \<longrightarrow>
     (\<exists>s \<in> set h. intent \<in> set (intents s)) \<and> (wc_demoOnly cfg \<longrightarrow> i_mode intent \<noteq> Real))"

definition fenced :: "processor_config \<Rightarrow> 'p world \<Rightarrow> bool" where
  "fenced cfg w \<longleftrightarrow> history_ok (w_history w) \<and> distinct (claims (w_tasks w) (w_orders w))
     \<and> (\<forall>i \<in> set (claims (w_tasks w) (w_orders w)). past_queue (hd (w_history w)) i \<and> took cfg (w_history w) i)
     \<and> (\<forall>t \<in> set (w_tasks w). heading cfg (w_history w) t)"

lemma past_queue_step:
  assumes "past_queue d i" "db_ok d" "progress d d'" shows "past_queue d' i"
proof -
  obtain r where r: "r \<in> set (intents d)" "i_id r = i" "i_status r \<noteq> Queued" using assms(1) unfolding past_queue_def by blast
  obtain r' where r': "r' \<in> set (intents d')" "advanced r r'" using assms(3) r(1) unfolding progress_def by blast
  have "i_id r' = i" using r'(2) r(2) by (simp add: advanced_def same_terms_def same_intent_def)
  then show ?thesis using r' never_queued_again [OF assms(2) r(1,3) r'(2)] unfolding past_queue_def by blast
qed

lemma took_mono: "took cfg h i \<Longrightarrow> took cfg (d # h) i"
  unfolding took_def by auto

lemma heading_mono: "heading cfg h t \<Longrightarrow> heading cfg (d # h) t"
  unfolding heading_def by auto

lemma fenced_other:
  assumes "fenced cfg \<lparr>w_history = h, w_tasks = ts, w_orders = os\<rparr>" "platform_step h h'"
  shows "fenced cfg \<lparr>w_history = h', w_tasks = ts, w_orders = os\<rparr>"
proof -
  have ok: "history_ok h" using assms(1) by (simp add: fenced_def)
  from platform_step_newest [OF assms(2) ok] obtain d d' rest where n: "h = d # rest" "h' = d' # d # rest" "db_ok d'" "later d d'"
    by blast
  have "db_ok d" using ok n(1) by (simp add: history_ok_def)
  then show ?thesis
    using assms(1) platform.step_inv [OF assms(2) ok] past_queue_step [OF _ _ laterD(1) [OF n(4)]]
      took_mono [of cfg "d # rest" _ d'] heading_mono [of cfg "d # rest" _ d']
    unfolding fenced_def n by auto
qed

text \<open>The take's row: it was queued, and the fence's predicate held of it.\<close>

lemma take_Some:
  assumes "db_ok d" "take_intent iid v maxAge d = Inr (Some taken, d')"
  shows "\<exists>r \<in> set (intents d). i_id r = iid \<and> i_status r = Queued \<and> take_allowed d maxAge r \<and> i_id taken = iid
    \<and> past_queue d' iid"
proof -
  have pid: "i_id (r\<lparr>i_submittedAt := Some (now d)\<rparr>) = i_id r" for r :: intent_row by simp
  obtain r ns where r: "r \<in> set (intents d)" "cas_matches iid Queued (Some v) (take_allowed d maxAge) r"
    "taken = moved_to Submitting (now d) (\<lambda>r. r\<lparr>i_submittedAt := Some (now d)\<rparr>) r"
    "d' = d\<lparr>intents := put taken (intents d), notices := ns\<rparr>"
    by (rule transition_Some [OF db_ok_unique [OF assms(1)] assms(2) [unfolded take_intent_def] pid])
  have id: "i_id taken = i_id r" unfolding r(3) by (simp add: moved_to_def)
  have "taken \<in> set (intents d')" using set_put [OF db_ok_unique [OF assms(1)] r(1) id] r(4) by simp
  moreover have "i_status taken \<noteq> Queued" using r(3) by (simp add: moved_to_def)
  ultimately show ?thesis using r(1,2) id unfolding past_queue_def by (intro bexI [of _ r]) (auto simp: cas_matches_def)
qed

lemma task_step_heading:
  assumes "task_step cfg inp t d = (t', d', os)" "heading cfg h t" "d \<in> set h"
  shows "heading cfg h t'"
  unfolding heading_def
proof (intro allI impI)
  fix intent assume t': "t' = JobTake intent \<or> (\<exists>u. t' = JobHold intent u)"
  have "(\<exists>iid. t = JobStart (Some iid) \<and> find_intent_row iid d = Some intent \<and> \<not> (wc_demoOnly cfg \<and> i_mode intent = Real))
      \<or> (\<exists>u. t = JobHold intent u)"
    using assms(1) t'
    by (cases "(cfg, inp, t, d)" rule: task_step.cases)
      (auto simp: handler_defs Let_def dest!: ended_task ended_unless_mismatch_task
        split: option.splits if_splits prod.splits submit_result.splits reconcile_result.splits)
  then show "(\<exists>s \<in> set h. intent \<in> set (intents s)) \<and> (wc_demoOnly cfg \<longrightarrow> i_mode intent \<noteq> Real)"
  proof
    assume "\<exists>iid. t = JobStart (Some iid) \<and> find_intent_row iid d = Some intent \<and> \<not> (wc_demoOnly cfg \<and> i_mode intent = Real)"
    then show ?thesis using assms(3) find_intent_Some by blast
  next
    assume "\<exists>u. t = JobHold intent u"
    then show ?thesis using assms(2) unfolding heading_def by blast
  qed
qed

lemma heading_take:
  assumes "history_ok (d # h)" "heading cfg (d # h) (JobTake intent)" "r \<in> set (intents d)" "i_id r = i_id intent"
  shows "wc_demoOnly cfg \<longrightarrow> i_mode r \<noteq> Real"
proof -
  obtain s where s: "s \<in> set (d # h)" "intent \<in> set (intents s)" and m: "wc_demoOnly cfg \<longrightarrow> i_mode intent \<noteq> Real"
    using assms(2) unfolding heading_def by blast
  have "progress s d" using assms(1) s(1) unfolding history_ok_def using laterD(1) by auto
  then obtain r' where r': "r' \<in> set (intents d)" "advanced intent r'" using s(2) unfolding progress_def by blast
  have "i_id r' = i_id r" "i_mode r' = i_mode intent"
    using r'(2) assms(4) by (simp_all add: advanced_def same_terms_def same_intent_def)
  moreover have "db_ok d" using assms(1) by (simp add: history_ok_def)
  ultimately have "r' = r" using unique_ids_eq [OF db_ok_unique r'(1) assms(3)] by metis
  then show ?thesis using m \<open>i_mode r' = i_mode intent\<close> by simp
qed

lemma claims_split [simp]: "claims (pre @ t # post) os = concat (map holding pre) @ holding t @ claims post os"
  by (simp add: claims_def)

lemma claims_append: "claims (pre @ post) os = concat (map holding pre) @ claims post os"
  by (simp add: claims_def)

lemma claims_order: "claims post (os @ new) = claims post os @ map fst new"
  by (simp add: claims_def)

lemma claims_Cons [simp]: "claims (t # post) os = holding t @ claims post os"
  by (simp add: claims_def)

lemma holding_nil: "\<not> (\<exists>taken. t = JobSubmit taken) \<Longrightarrow> holding t = []"
  by (cases t) auto

lemma fenced_run:
  assumes w: "fenced cfg \<lparr>w_history = d # h, w_tasks = pre @ t # post, w_orders = os\<rparr>"
    and t: "task_step cfg inp t d = (t', d', new)"
  shows "fenced cfg \<lparr>w_history = d' # d # h, w_tasks = pre @ t' # post, w_orders = os @ new\<rparr>"
proof -
  let ?cl = "claims (pre @ t # post) os" and ?cl' = "claims (pre @ t' # post) (os @ new)"
  have ok: "history_ok (d # h)" and dist: "distinct ?cl"
    and good: "\<forall>i \<in> set ?cl. past_queue d i \<and> took cfg (d # h) i" and head: "\<forall>t \<in> set (pre @ t # post). heading cfg (d # h) t"
    using w by (simp_all add: fenced_def)
  have ch: "change d d'" by (rule task_step_change [OF t])
  have dok: "db_ok d" using ok by (simp add: history_ok_def)
  have ok': "history_ok (d' # d # h)" using platform.step_inv [OF Commit [OF ch] ok] .
  have pq: "past_queue d' i" if "past_queue d i" for i
    by (rule past_queue_step [OF that dok change_progress [OF ch dok]])
  have head': "heading cfg (d' # d # h) x" if "x \<in> set (pre @ t' # post)" for x
  proof (cases "x = t'")
    case True
    have "heading cfg (d # h) t'" using head by (intro task_step_heading [OF t]) simp_all
    then show ?thesis using True heading_mono by blast
  next
    case False
    then show ?thesis using that head heading_mono [of cfg "d # h" x d'] by auto
  qed
  have "distinct ?cl' \<and> (\<forall>i \<in> set ?cl'. past_queue d' i \<and> took cfg (d' # d # h) i)"
  proof (cases "\<exists>taken. t' = JobSubmit taken")
    case True
    then obtain taken where t': "t' = JobSubmit taken" by blast
    from task_step_submit [OF t [unfolded t']] obtain intent where
      i: "t = JobTake intent" "take_intent (i_id intent) (i_version intent) (wc_intentMaxAgeMs cfg) d = Inr (Some taken, d')" by blast
    from take_Some [OF dok i(2)] obtain r where r: "r \<in> set (intents d)" "i_id r = i_id intent" "i_status r = Queued"
      "take_allowed d (wc_intentMaxAgeMs cfg) r" "i_id taken = i_id intent" "past_queue d' (i_id intent)" by blast
    have "wc_demoOnly cfg \<longrightarrow> i_mode r \<noteq> Real"
      using head i(1) by (intro heading_take [OF ok _ r(1,2)]) auto
    then have tk: "took cfg (d # h) (i_id taken)" unfolding took_def using r by (intro bexI [of _ d] bexI [of _ r]) auto
    have new: "new = []" using task_step_orders [OF t] i(1) by auto
    have "i_id taken \<notin> set ?cl"
    proof
      assume "i_id taken \<in> set ?cl"
      then obtain x where x: "x \<in> set (intents d)" "i_id x = i_id taken" "i_status x \<noteq> Queued"
        using good unfolding past_queue_def by blast
      have "i_id x = i_id r" using x(2) r(2,5) by simp
      then have "x = r" using unique_ids_eq [OF db_ok_unique [OF dok] x(1) r(1)] by metis
      then show False using x(3) r(3) by simp
    qed
    then show ?thesis using dist good pq took_mono [of cfg "d # h" _ d'] tk r(5,6) new i(1) t' by auto
  next
    case False
    then have h': "holding t' = []" by (rule holding_nil)
    show ?thesis
    proof (cases "new = []")
      case True
      then show ?thesis using dist good pq took_mono [of cfg "d # h" _ d'] h' by auto
    next
      case False
      then obtain taken tr where s: "t = JobSubmit taken" "new = [(i_id taken, tr)]" using task_step_orders [OF t] by blast
      then show ?thesis using dist good pq took_mono [of cfg "d # h" _ d'] h' by (auto simp: claims_order)
    qed
  qed
  then show ?thesis using ok' head' by (simp add: fenced_def del: claims_split)
qed

interpretation fleet: machine "world_step cfg" "fenced cfg" for cfg
proof unfold_locales
  fix w w' :: "'p world"
  assume "world_step cfg w w'" "fenced cfg w"
  then show "fenced cfg w'"
  proof cases
    case (Start t h ts os)
    moreover have "holding t = []" "heading cfg h t" using Start(3) by (cases t; simp add: heading_def)+
    ultimately show ?thesis using \<open>fenced cfg w\<close> by (auto simp: fenced_def claims_def)
  next
    case (Run inp t d t' d' new h pre post os)
    then show ?thesis using fenced_run \<open>fenced cfg w\<close> by blast
  next
    case (Crash h pre t post os)
    then show ?thesis using \<open>fenced cfg w\<close> by (auto simp: fenced_def claims_append)
  next
    case (Other h h' ts os)
    then show ?thesis using fenced_other \<open>fenced cfg w\<close> by blast
  qed
qed

lemma idle_fenced: "db_ok d \<Longrightarrow> fenced cfg (idle_world d)"
  by (simp add: fenced_def idle_world_def claims_def)

text \<open>
  C3: The order is sent at most once: whatever jobs are redelivered, whatever workers crash, race or
  time out, and whatever the broker answers, at most one order of an intent ever leaves, over either
  transport.
\<close>

theorem order_sent_at_most_once:
  assumes "(world_step cfg)\<^sup>*\<^sup>* (idle_world d0) w" "db_ok d0"
  shows "length (filter (\<lambda>ord. fst ord = i) (w_orders w)) \<le> 1"
proof -
  have "fenced cfg w" by (rule fleet.run_inv [OF assms(1) idle_fenced [OF assms(2)]])
  then have "distinct (map fst (w_orders w))" by (simp add: fenced_def claims_def)
  then have "length (filter (\<lambda>ord. fst ord = i) os) \<le> 1" if "distinct (map fst os)" for os :: "order list"
    using that by (induction os) (force simp: filter_empty_conv)+
  then show ?thesis using \<open>distinct (map fst (w_orders w))\<close> by blast
qed

text \<open>
  Every order passed the fence: at some committed state its intent was queued, not older than the
  age limit, before its entry deadline if it has one, and trading was open; and a worker that runs
  demo-only sends no real order.
\<close>

theorem orders_pass_the_fence:
  assumes "(world_step cfg)\<^sup>*\<^sup>* (idle_world d0) w" "db_ok d0" "ord \<in> set (w_orders w)"
  shows "\<exists>s \<in> set (w_history w). \<exists>r \<in> set (intents s). i_id r = fst ord \<and> i_status r = Queued
    \<and> now s - wc_intentMaxAgeMs cfg \<le> i_createdAt r \<and> (\<forall>t. i_submitDeadlineAt r = Some t \<longrightarrow> now s < t)
    \<and> is_trading_open (trading_switch s) \<and> (wc_demoOnly cfg \<longrightarrow> i_mode r \<noteq> Real)"
proof -
  have "fenced cfg w" by (rule fleet.run_inv [OF assms(1) idle_fenced [OF assms(2)]])
  moreover have "fst ord \<in> set (claims (w_tasks w) (w_orders w))" using assms(3) by (auto simp: claims_def)
  ultimately have "took cfg (w_history w) (fst ord)" by (simp add: fenced_def)
  then obtain s r where "s \<in> set (w_history w)" "r \<in> set (intents s)" "i_id r = fst ord" "i_status r = Queued"
    "take_allowed s (wc_intentMaxAgeMs cfg) r" "wc_demoOnly cfg \<longrightarrow> i_mode r \<noteq> Real" unfolding took_def by blast
  then show ?thesis
    by (intro bexI [of _ s] bexI [of _ r]) (auto simp: take_allowed_def milliseconds_ago_def trading_open_sql_iff split: option.splits)
qed

section \<open>The demo's order\<close>

definition demo_cfg :: processor_config where
  "demo_cfg = \<lparr>wc_intentMaxAgeMs = 60000, wc_staleSubmittingMs = 60000, wc_retryMs = 5000, wc_demoOnly = True\<rparr>"

definition demo_input :: "int step_input" where
  "demo_input = \<lparr>in_forwarded = False, in_clock = 1000, in_session = Some (SocketSuccess open_trade), in_token = TokenUnlearned,
     in_rest = RestBug, in_late = False, in_found = None\<rparr>"

definition demo_queued :: intent_row where "demo_queued = hd (intents demo_created)"
definition demo_submitting :: intent_row where "demo_submitting = hd (intents demo_taken)"

lemma demo_steps:
  "task_step demo_cfg demo_input (JobStart (Some 10)) demo_created = (JobTake demo_queued, demo_created, [])"
  "task_step demo_cfg demo_input (JobTake demo_queued) demo_created = (JobSubmit demo_submitting, demo_taken, [])"
  "task_step demo_cfg demo_input (JobSubmit demo_submitting) demo_taken
     = (JobPersist demo_submitting (SubmitAccepted Socket open_trade), demo_taken, [(10, Socket)])"
  by code_simp+

definition demo_world :: "int world" where
  "demo_world = \<lparr>w_history = [demo_taken, demo_taken, demo_created, demo_created, demo_db],
     w_tasks = [JobPersist demo_submitting (SubmitAccepted Socket open_trade)], w_orders = [(10, Socket)]\<rparr>"

lemma demo_world_run: "(world_step demo_cfg)\<^sup>*\<^sup>* (idle_world demo_db) demo_world"
proof -
  note run = rtranclp.rtrancl_into_rtrancl [where r = "world_step demo_cfg" and a = "idle_world demo_db"]
  have "platform_step [demo_db] [demo_created, demo_db]"
    using demo_create by (auto intro!: Create [of demo_db])
  then have "(world_step demo_cfg)\<^sup>*\<^sup>* (idle_world demo_db) \<lparr>w_history = [demo_created, demo_db], w_tasks = [], w_orders = []\<rparr>"
    unfolding idle_world_def by (intro r_into_rtranclp Other)
  then have "(world_step demo_cfg)\<^sup>*\<^sup>* (idle_world demo_db) \<lparr>w_history = [demo_created, demo_db], w_tasks = [] @ [JobStart (Some 10)], w_orders = []\<rparr>"
    by (rule run) (rule Start, simp)
  then have "(world_step demo_cfg)\<^sup>*\<^sup>* (idle_world demo_db)
      \<lparr>w_history = [demo_created, demo_created, demo_db], w_tasks = [] @ JobTake demo_queued # [], w_orders = [] @ []\<rparr>"
    by (rule run) (rule Run [OF demo_steps(1)])
  then have "(world_step demo_cfg)\<^sup>*\<^sup>* (idle_world demo_db)
      \<lparr>w_history = [demo_taken, demo_created, demo_created, demo_db], w_tasks = [] @ JobSubmit demo_submitting # [], w_orders = ([] @ []) @ []\<rparr>"
    by (rule run) (rule Run [OF demo_steps(2)])
  then have "(world_step demo_cfg)\<^sup>*\<^sup>* (idle_world demo_db)
      \<lparr>w_history = [demo_taken, demo_taken, demo_created, demo_created, demo_db],
        w_tasks = [] @ JobPersist demo_submitting (SubmitAccepted Socket open_trade) # [], w_orders = (([] @ []) @ []) @ [(10, Socket)]\<rparr>"
    by (rule run) (rule Run [OF demo_steps(3)])
  then show ?thesis by (simp add: demo_world_def)
qed


theorem order_sent_at_most_once_witness:
  "w_orders demo_world = [(10, Socket)] \<and> length (filter (\<lambda>ord. fst ord = 10) (w_orders demo_world)) \<le> 1"
  using order_sent_at_most_once [OF demo_world_run demo_db_ok, of 10] by (simp add: demo_world_def)

theorem orders_pass_the_fence_witness:
  "\<exists>s \<in> set (w_history demo_world). \<exists>r \<in> set (intents s). i_id r = 10 \<and> i_status r = Queued \<and> is_trading_open (trading_switch s)"
proof -
  have "(10, Socket) \<in> set (w_orders demo_world)" by (simp add: demo_world_def)
  from orders_pass_the_fence [OF demo_world_run demo_db_ok this] show ?thesis by auto
qed

section \<open>Tasks end\<close>

fun finished_task :: "'p task \<Rightarrow> bool" where
  "finished_task (TaskDone _) \<longleftrightarrow> True"
| "finished_task (SweepDone _) \<longleftrightarrow> True"
| "finished_task (ReconDone _) \<longleftrightarrow> True"
| "finished_task (AttemptDone _) \<longleftrightarrow> True"
| "finished_task TaskInvalid \<longleftrightarrow> True"
| "finished_task (TaskThrew _) \<longleftrightarrow> True"
| "finished_task _ \<longleftrightarrow> False"

text \<open>How many steps a task can still make.\<close>

fun steps_left :: "'p task \<Rightarrow> nat" where
  "steps_left (JobStart _) = 6"
| "steps_left (JobHold _ _) = 5"
| "steps_left (JobTake _) = 4"
| "steps_left (JobExpire _) = 3"
| "steps_left (JobSubmit _) = 3"
| "steps_left (JobLate _) = 2"
| "steps_left (JobPersist _ _) = 2"
| "steps_left (ReconStart _) = 2"
| "steps_left (AttemptClaim _) = 4"
| "steps_left (AttemptAsk _) = 3"
| "steps_left (AttemptPersist _ _) = 2"
| "steps_left t = (if finished_task t then 0 else 1)"

text \<open>
  Every task ends: each step of one that is not over leaves it fewer steps, whatever it meets, save
  the wait for an entry while the process's clock has not reached it, and that wait is at most
  \<open>INTENT_HOLD_MAX_MS\<close> long; a task therefore ends within six steps and its wait.
\<close>

theorem tasks_end:
  assumes "task_step cfg inp t d = (t', d', os)"
  shows "((finished_task t \<and> t' = t \<and> d' = d \<and> os = [])
      \<or> steps_left t' < steps_left t
      \<or> (\<exists>intent until. t = JobHold intent until \<and> t' = t \<and> in_clock inp < until))
    \<and> (\<forall>intent until. t' = JobHold intent until \<longrightarrow> t = t' \<or> until \<le> in_clock inp + INTENT_HOLD_MAX_MS)
    \<and> steps_left t' \<le> 6"
proof -
  have "steps_left t' \<le> 6" by (cases t') simp_all
  moreover have "t = t' \<or> until \<le> in_clock inp + INTENT_HOLD_MAX_MS" if "t' = JobHold intent until" for intent until
    using assms that
    by (cases "(cfg, inp, t, d)" rule: task_step.cases)
      (auto simp: handler_defs Let_def hold_for_entry_def dest!: ended_task ended_unless_mismatch_task
        split: option.splits if_splits prod.splits submit_result.splits reconcile_result.splits)
  moreover have "(finished_task t \<and> t' = t \<and> d' = d \<and> os = [])
      \<or> steps_left t' < steps_left t
      \<or> (\<exists>intent until. t = JobHold intent until \<and> t' = t \<and> in_clock inp < until)"
    using assms
    by (cases "(cfg, inp, t, d)" rule: task_step.cases)
      (auto simp: handler_defs Let_def dest!: ended_task ended_unless_mismatch_task
        split: option.splits if_splits prod.splits submit_result.splits reconcile_result.splits)
  ultimately show ?thesis by blast
qed

theorem tasks_end_witness:
  "steps_left (JobSubmit demo_submitting :: int task) < steps_left (JobTake demo_queued :: int task)"
  using tasks_end [OF demo_steps(2)] by simp

end
