(* ===== verification/Payments.thy ===== *)
theory Payments
  imports Platform
begin

text \<open>
  What the Stars payments guarantee along any run of the platform: a charge is credited once, a
  refund takes back what is still there once, an approved checkout is credited, and a pass of the
  reconciler leaves no payment of its page unrecorded.
\<close>

section \<open>The payments' invariant along a run\<close>

lemma decision_treasury: "record_signal_decision di d = Inr (x, d') \<Longrightarrow> same_treasury d d'"
  by (auto simp: same_treasury_def dest!: record_signal_decision_Inr)

lemma change_treasury: "change d d' \<Longrightarrow> same_treasury d d' \<or> star_change d d'"
  by (erule changeE)
    (auto dest: intent_ops_treasury accept_treasury settle_closed_trade_treasury operator_treasury outbox_change_treasury
      session_change_facts only_sessions_treasury decision_treasury, simp_all add: same_treasury_def)

lemma same_stars_payments: "same_stars d d' \<Longrightarrow> keeps_payments d d'"
  by (simp add: same_stars_def keeps_payments_same)

lemma change_payments:
  assumes "change d d'" "db_ok d" "stars_ok d" shows "stars_ok d' \<and> keeps_payments d d'"
  using change_treasury [OF assms(1)]
proof
  assume "same_treasury d d'"
  then show ?thesis using stars_ok_same [OF assms(3) _ change_progress [OF assms(1,2)]] same_stars_payments same_treasury_stars by blast
next
  assume "star_change d d'"
  from star_change_facts [OF this assms(2,3)] show ?thesis by (simp add: star_facts_def)
qed

definition payments_below :: "'p db list \<Rightarrow> 'p db list \<Rightarrow> bool" where
  "payments_below h h' \<longleftrightarrow> keeps_payments (hd h) (hd h')"

lemma platform_step_payments:
  assumes "platform_step h h'" "history_ok h" "\<forall>d \<in> set h. stars_ok d"
  shows "(\<forall>d \<in> set h'. stars_ok d) \<and> payments_below h h'"
  using assms(1)
proof (cases rule: platform_step.cases)
  case (Commit d d' rest)
  then have "db_ok d" "stars_ok d" using assms(2,3) by (simp_all add: history_ok_def)
  then show ?thesis using change_payments [OF Commit(3)] Commit assms(3) by (simp add: payments_below_def)
next
  case (Create seen d rest input session opts res d')
  then have h: "db_ok d" "later seen d" "db_ok seen" "stars_ok d" using assms(2,3) by (auto simp: history_ok_def)
  from create_change [OF h(1-3) Create(4)] have c: "later d d'" by blast
  have "same_treasury d d'" by (rule create_treasury [OF h(1) laterD(1) [OF h(2)] h(3) Create(4)])
  then have "stars_ok d'" "keeps_payments d d'" using stars_ok_same [OF h(4) _ laterD(1) [OF c]] same_stars_payments same_treasury_stars by blast+
  then show ?thesis using Create assms(3) by (simp add: payments_below_def)
next
  case (StartSession seen d rest started demoOnly created d')
  then have ok: "db_ok d" "stars_ok d" using assms(2,3) by (simp_all add: history_ok_def)
  have "progress d d'" using platform_step_newest [OF assms(1,2)] StartSession(1,2) by (auto dest: laterD(1))
  moreover have "same_treasury d d'" by (rule create_trading_session_treasury [OF ok(1) StartSession(4)])
  ultimately have "stars_ok d'" "keeps_payments d d'" using stars_ok_same [OF ok(2)] same_stars_payments same_treasury_stars by blast+
  then show ?thesis using StartSession assms(3) by (simp add: payments_below_def)
next
  case (Account seen d rest d')
  then have ok: "db_ok d" "stars_ok d" using assms(2,3) by (simp_all add: history_ok_def)
  have "same_stars d d'" "progress d d'" using account_change_aside [OF Account(4) ok(1)] by (simp_all add: aside_def)
  then have "stars_ok d'" "keeps_payments d d'" using stars_ok_same [OF ok(2)] same_stars_payments by blast+
  then show ?thesis using Account assms(3) by (simp add: payments_below_def)
qed

interpretation payments: ordered_machine platform_step "\<lambda>h. history_ok h \<and> (\<forall>d \<in> set h. stars_ok d)" payments_below
proof unfold_locales
  fix h h' :: "'p db list"
  assume s: "platform_step h h'" "history_ok h \<and> (\<forall>d \<in> set h. stars_ok d)"
  then show "history_ok h' \<and> (\<forall>d \<in> set h'. stars_ok d)"
    using platform.step_inv platform_step_payments by blast
  show "payments_below h h'" using s platform_step_payments by blast
next
  fix s t u :: "'p db list"
  show "payments_below s s" by (simp add: payments_below_def keeps_payments_same)
  assume "payments_below s t" "payments_below t u"
  then show "payments_below s u" unfolding payments_below_def by (rule keeps_payments_trans)
qed

lemma run_stars_ok:
  assumes "platform_step\<^sup>*\<^sup>* [d0] (d # h)" "db_ok d0" "stars_ok d0" shows "stars_ok d"
proof -
  have "history_ok [d0] \<and> (\<forall>d \<in> set [d0]. stars_ok d)" using assms(2,3) by simp
  from payments.run_inv [OF assms(1) this] show ?thesis by simp
qed

lemma run_keeps_payments:
  assumes "platform_step\<^sup>*\<^sup>* [d0] (d1 # h)" "db_ok d0" "stars_ok d0" "platform_step\<^sup>*\<^sup>* (d1 # h) (d # h')"
  shows "keeps_payments d1 d"
proof -
  have "history_ok [d0] \<and> (\<forall>d \<in> set [d0]. stars_ok d)" using assms(2,3) by simp
  from payments.run_below [OF assms(4) payments.run_inv [OF assms(1) this]] show ?thesis by (simp add: payments_below_def)
qed

section \<open>The payload\<close>

lemma colon_not_code [simp]: "\<not> is_lower_digit CHR '':''"
  by (simp add: is_lower_digit_def)

lemma code_span:
  assumes "list_all is_lower_digit code"
  shows "takeWhile is_lower_digit (code @ CHR '':'' # t) = code" "dropWhile is_lower_digit (code @ CHR '':'' # t) = CHR '':'' # t"
  using assms by (auto simp: takeWhile_append dropWhile_append list_all_iff)

lemma guarded_Some:
  "(if c1 then None else if c2 then None else Some (x, y)) = Some (a, b) \<Longrightarrow> \<not> c1 \<and> \<not> c2 \<and> x = a \<and> y = b"
  by (simp split: if_splits)

text \<open>
  C36: The payload of an invoice reads back as the package and the user it was made of, and nothing
  else reads as one: what the parser accepts is what the writer writes for a code of one to sixteen
  lower-case letters or digits and a user id in the form of a UUID.
\<close>

theorem payload_round_trip:
  "parse_stars_invoice_payload payload = Some (code, userId) \<longleftrightarrow>
     payload = stars_invoice_payload code userId \<and> code \<noteq> [] \<and> length code \<le> 16
     \<and> list_all is_lower_digit code \<and> is_uuid userId"
proof
  assume p: "parse_stars_invoice_payload payload = Some (code, userId)"
  let ?r = "drop 6 payload"
  note h0 = guarded_Some [OF p [unfolded parse_stars_invoice_payload_def Let_def]]
  have code: "takeWhile is_lower_digit ?r = code" and user: "tl (dropWhile is_lower_digit ?r) = userId" using h0 by blast+
  have h: "take 6 payload = ''stars:''" "code \<noteq> []" "\<not> 16 < length code" "dropWhile is_lower_digit ?r \<noteq> []"
    "hd (dropWhile is_lower_digit ?r) = CHR '':''" "is_uuid userId"
    using h0 unfolding code user by blast+
  have "dropWhile is_lower_digit ?r = CHR '':'' # userId" using h(4,5) user by (metis list.collapse)
  then have "?r = code @ CHR '':'' # userId" using code takeWhile_dropWhile_id [of is_lower_digit ?r] by metis
  then have "payload = stars_invoice_payload code userId"
    using h(1) append_take_drop_id [of 6 payload] by (simp add: stars_invoice_payload_def)
  moreover have "list_all is_lower_digit code" unfolding code [symmetric] list_all_iff by (blast dest: set_takeWhileD)
  ultimately show "payload = stars_invoice_payload code userId \<and> code \<noteq> [] \<and> length code \<le> 16
     \<and> list_all is_lower_digit code \<and> is_uuid userId" using h by (simp only: not_less simp_thms)
next
  assume "payload = stars_invoice_payload code userId \<and> code \<noteq> [] \<and> length code \<le> 16
     \<and> list_all is_lower_digit code \<and> is_uuid userId"
  then show "parse_stars_invoice_payload payload = Some (code, userId)"
    by (simp add: parse_stars_invoice_payload_def stars_invoice_payload_def Let_def code_span)
qed

section \<open>Crediting once\<close>

lemma payment_row_ok: "stars_ok d \<Longrightarrow> p \<in> set (star_payments d) \<Longrightarrow> payment_ok p (star_rows (sp_id p) (token_ledger d))"
  by (simp add: stars_ok_def)

definition purchase_rows :: "string \<Rightarrow> 'p db \<Rightarrow> ledger_row list" where
  "purchase_rows chargeId d =
     filter (\<lambda>l. l_kind l = LPurchase \<and> list_ex (\<lambda>p. sp_chargeId p = chargeId \<and> l_starPaymentId l = Some (sp_id p)) (star_payments d))
       (token_ledger d)"

lemma purchase_rows_eq:
  assumes "stars_ok d" "p \<in> set (star_payments d)"
  shows "map (\<lambda>l. (l_kind l, l_balanceDelta l, l_userId l)) (purchase_rows (sp_chargeId p) d)
    = filter (\<lambda>(k, _, _). k = LPurchase) (star_rows (sp_id p) (token_ledger d))"
proof -
  have mem: "list_ex (\<lambda>q. sp_chargeId q = sp_chargeId p \<and> l_starPaymentId l = Some (sp_id q)) (star_payments d)
      \<longleftrightarrow> l_starPaymentId l = Some (sp_id p)" for l
    using payment_by_charge [OF assms(1)] assms(2) by (auto simp: list_ex_iff)
  show ?thesis by (simp add: purchase_rows_def star_rows_def filter_map comp_def conj_commute mem)
qed

text \<open>
  C7: A charge is credited at most once, whoever reports it and however often: in every reachable
  state all payments of a charge are one payment, the ledger has one purchase row for it, of the
  tokens the payment froze and for its user, while the payment is paid, and none while it is held.
\<close>

theorem charge_credited_once:
  assumes "platform_step\<^sup>*\<^sup>* [d0] (d # h)" "db_ok d0" "stars_ok d0" "p \<in> set (star_payments d)"
  shows "(\<forall>q. q \<in> set (star_payments d) \<and> sp_chargeId q = sp_chargeId p \<longrightarrow> q = p)
    \<and> length (purchase_rows (sp_chargeId p) d) \<le> 1
    \<and> (sp_status p = StarHeld \<longrightarrow> purchase_rows (sp_chargeId p) d = [])
    \<and> (sp_status p = StarPaid \<longrightarrow> (\<exists>l t. purchase_rows (sp_chargeId p) d = [l] \<and> sp_tokens p = Some t
          \<and> l_balanceDelta l = t \<and> 0 < t \<and> l_userId l = sp_userId p))"
proof -
  have ok: "stars_ok d" by (rule run_stars_ok [OF assms(1-3)])
  have row: "payment_ok p (star_rows (sp_id p) (token_ledger d))" by (rule payment_row_ok [OF ok assms(4)])
  note eq = purchase_rows_eq [OF ok assms(4)]
  have "length (purchase_rows (sp_chargeId p) d) = length (filter (\<lambda>(k, _, _). k = LPurchase) (star_rows (sp_id p) (token_ledger d)))"
    using arg_cong [OF eq, of length] by simp
  moreover have "length (filter (\<lambda>(k, _, _). k = LPurchase) (star_rows (sp_id p) (token_ledger d))) \<le> 1"
    using row by (auto simp: payment_ok_def split: star_payment_status.splits)
  moreover have "purchase_rows (sp_chargeId p) d = []" if "sp_status p = StarHeld"
    using row eq that by (simp add: payment_ok_def)
  moreover have "\<exists>l t. purchase_rows (sp_chargeId p) d = [l] \<and> sp_tokens p = Some t
      \<and> l_balanceDelta l = t \<and> 0 < t \<and> l_userId l = sp_userId p" if "sp_status p = StarPaid"
    using row eq that by (auto simp: payment_ok_def map_eq_Cons_conv)
  ultimately show ?thesis using payment_by_charge [OF ok _ assms(4)] by auto
qed

section \<open>The refund\<close>

lemma star_credited_cover:
  assumes "stars_ok d" "p \<in> set (star_payments d)" shows "0 \<le> star_credited p"
  using payment_row_ok [OF assms] by (auto simp: payment_ok_def star_credited_def split: star_payment_status.splits)

lemma payer_covers: "db_ok d \<Longrightarrow> u \<in> set (users d) \<Longrightarrow> u_tokenReserved u \<le> u_tokenBalance u"
  by (simp add: db_ok_def users_part_def user_row_ok_def)

text \<open>The refund of a payment that is not refunded yet, by the payment and its user.\<close>

lemma record_star_refund_live:
  assumes ok: "db_ok d" "stars_ok d" and p: "p \<in> set (star_payments d)" "sp_status p \<noteq> StarRefunded"
    and u: "u \<in> set (users d)" "u_id u = sp_userId p" and r: "receiver = None \<or> receiver = Some (sp_payer p)"
  shows "record_star_refund (sp_chargeId p) receiver d = Inr (RefundRecorded (refund_facts p u), refund_state p u d)"
proof -
  have one: "q = p" if "q \<in> set (star_payments d)" "sp_chargeId q = sp_chargeId p" for q
    using payment_by_charge [OF ok(2) that(1) p(1) that(2)] .
  have usr: "v = u" if "v \<in> set (users d)" "u_id v = sp_userId p" for v
    using user_by_key [OF ok(1) that(1) u(1)] that(2) u(2) by simp
  from record_star_refund_cases [OF ok, of "sp_chargeId p" receiver] show ?thesis
  proof (elim disjE conjE bexE)
    assume "\<forall>q \<in> set (star_payments d). sp_chargeId q \<noteq> sp_chargeId p" then show ?thesis using p(1) by blast
  next
    fix q v assume "q \<in> set (star_payments d)" "sp_chargeId q = sp_chargeId p" "sp_status q = StarRefunded"
    then show ?thesis using one p(2) by blast
  next
    fix q v assume "q \<in> set (star_payments d)" "sp_chargeId q = sp_chargeId p" "receiver \<noteq> None" "receiver \<noteq> Some (sp_payer q)"
    then show ?thesis using one r by blast
  qed (use one usr in blast)+
qed

lemma refunded_row:
  assumes "p \<in> set (star_payments d)"
  shows "p\<lparr>sp_status := StarRefunded, sp_refundedAt := Some (now d)\<rparr> \<in> set (star_payments (refund_state p u d))"
proof -
  have "star_payments (refund_state p u d) = sql_update (\<lambda>q. sp_id q = sp_id p)
      (\<lambda>q. q\<lparr>sp_status := StarRefunded, sp_refundedAt := Some (now d)\<rparr>) (star_payments d)"
    by (simp add: refund_state_def refunded_in_def)
  then show ?thesis using assms by (auto simp: sql_update_def image_iff)
qed

text \<open>
  C8: A refund takes back what the payment credited as far as the user's free tokens go, and never a
  token a trade holds: in every reachable state the refund of a payment that is not refunded yet, to
  its payer, takes the smaller of the credit and the balance above the reserve, says how much it could
  not recover, lowers the balance by exactly that, leaves the reserve, and marks the payment.
\<close>

theorem refund_takes_free_tokens:
  assumes "platform_step\<^sup>*\<^sup>* [d0] (d # h)" "db_ok d0" "stars_ok d0" "p \<in> set (star_payments d)" "sp_status p \<noteq> StarRefunded"
    "u \<in> set (users d)" "u_id u = sp_userId p" "receiver = None \<or> receiver = Some (sp_payer p)"
    "credited = (if sp_status p = StarPaid then (case sp_tokens p of None \<Rightarrow> 0 | Some t \<Rightarrow> t) else 0)"
  shows "\<exists>f d'. record_star_refund (sp_chargeId p) receiver d = Inr (RefundRecorded f, d')
    \<and> sr_taken f = min credited (u_tokenBalance u - u_tokenReserved u) \<and> 0 \<le> sr_taken f \<and> sr_notRecovered f = credited - sr_taken f
    \<and> (\<exists>u' \<in> set (users d'). u_id u' = u_id u \<and> u_tokenBalance u' = u_tokenBalance u - sr_taken f
          \<and> u_tokenReserved u' = u_tokenReserved u)
    \<and> (\<exists>q \<in> set (star_payments d'). sp_chargeId q = sp_chargeId p \<and> sp_status q = StarRefunded)"
proof -
  have ok: "db_ok d" "stars_ok d" using run_ok [OF assms(1,2)] run_stars_ok [OF assms(1-3)] by blast+
  have c: "credited = star_credited p" using assms(9) by (simp add: star_credited_def)
  have nonneg: "0 \<le> star_taken p u" using payer_covers [OF ok(1) assms(6)] star_credited_cover [OF ok(2) assms(4)] by (simp add: star_taken_def)
  let ?f = "refund_facts p u" and ?d = "refund_state p u d"
  let ?u = "u\<lparr>u_tokenBalance := u_tokenBalance u - star_taken p u\<rparr>"
  have "?u \<in> set (users ?d)"
  proof (cases "0 < star_taken p u")
    case True
    then show ?thesis using assms(6,7) by (auto simp: refund_state_def balance_moved_def sql_update_def)
  next
    case False
    then have "?u = u" using nonneg by simp
    then show ?thesis using False assms(6) by (simp add: refund_state_def)
  qed
  moreover have "\<exists>q \<in> set (star_payments ?d). sp_chargeId q = sp_chargeId p \<and> sp_status q = StarRefunded"
    by (rule bexI [OF _ refunded_row [OF assms(4)]]) simp
  moreover have "sr_taken ?f = star_taken p u" "sr_notRecovered ?f = star_credited p - star_taken p u" by (simp_all add: refund_facts_def)
  ultimately show ?thesis
    using record_star_refund_live [OF ok assms(4-8)] nonneg unfolding c
    by (intro exI [of _ ?f] exI [of _ ?d] conjI bexI [of _ ?u]) (simp_all add: star_taken_def)
qed

lemma record_star_refund_done:
  assumes ok: "db_ok d" "stars_ok d" and p: "p \<in> set (star_payments d)" "sp_status p = StarRefunded" "sp_refundedAt p = Some t"
  shows "record_star_refund (sp_chargeId p) receiver d = Inr (RefundAlreadyRecorded (sp_id p) t, d)"
proof -
  have one: "q = p" if "q \<in> set (star_payments d)" "sp_chargeId q = sp_chargeId p" for q
    using payment_by_charge [OF ok(2) that(1) p(1) that(2)] .
  from record_star_refund_cases [OF ok, of "sp_chargeId p" receiver] show ?thesis
  proof (elim disjE conjE bexE)
    assume "\<forall>q \<in> set (star_payments d). sp_chargeId q \<noteq> sp_chargeId p" then show ?thesis using p(1) by blast
  next
    fix q assume "q \<in> set (star_payments d)" "sp_chargeId q = sp_chargeId p"
      "record_star_refund (sp_chargeId p) receiver d
        = Inr (RefundAlreadyRecorded (sp_id q) (case sp_refundedAt q of None \<Rightarrow> 0 | Some t \<Rightarrow> t), d)"
    then show ?thesis using one p(3) by fastforce
  qed (use one p(2) in blast)+
qed

text \<open>
  A refund is recorded once: after one has been recorded for a charge, every later attempt for it,
  of the reconciler in any later state, answers that it is recorded already, with the same payment and
  time, and changes nothing.
\<close>

theorem refund_recorded_once:
  assumes "platform_step\<^sup>*\<^sup>* [d0] (d1 # h)" "db_ok d0" "stars_ok d0"
    "record_star_refund_by_system chargeId receiver d1 = Inr (RefundRecorded f, d2)"
    "platform_step\<^sup>*\<^sup>* (d2 # d1 # h) (d # h')"
  shows "record_star_refund_by_system chargeId receiver' d = Inr (RefundAlreadyRecorded (sr_paymentId f) (now d1), d)"
proof -
  have ok1: "db_ok d1" "stars_ok d1" using run_ok [OF assms(1,2)] run_stars_ok [OF assms(1-3)] by blast+
  have step: "platform_step\<^sup>*\<^sup>* [d0] (d2 # d1 # h)"
    by (rule run_change [OF assms(1) StarStep]) (rule RefundBySystem [OF assms(4)])
  have run: "platform_step\<^sup>*\<^sup>* [d0] (d # h')" using step assms(5) by (rule rtranclp_trans)
  have ok: "db_ok d" "stars_ok d" using run_ok [OF run assms(2)] run_stars_ok [OF run assms(2,3)] by blast+
  obtain e where e: "record_star_refund chargeId receiver d1 = Inr (RefundRecorded f, e)" "star_payments d2 = star_payments e"
    using assms(4) by (auto simp: record_star_refund_by_system_def split: sum.splits prod.splits star_refund.splits)
  from record_star_refund_cases [OF ok1, of chargeId receiver] e(1) obtain p u where
    p: "p \<in> set (star_payments d1)" "sp_chargeId p = chargeId" "f = refund_facts p u" "e = refund_state p u d1" by auto
  let ?p = "p\<lparr>sp_status := StarRefunded, sp_refundedAt := Some (now d1)\<rparr>"
  have "?p \<in> set (star_payments d2)"
    unfolding e(2) p(4) by (rule refunded_row [OF p(1)])
  moreover have "keeps_payments d2 d" by (rule run_keeps_payments [OF step assms(2,3,5)])
  ultimately have "?p \<in> set (star_payments d)" unfolding keeps_payments_def payment_after_def by fastforce
  from record_star_refund_done [OF ok this, of "now d1" receiver'] show ?thesis
    using p(2,3) by (simp add: record_star_refund_by_system_def refund_facts_def)
qed

section \<open>The checkout\<close>

lemma star_package_pos: "star_package_of code = Some p \<Longrightarrow> 0 < pack_tokens p \<and> 0 < pack_stars p \<and> pack_code p = code"
  by (auto simp: star_package_of_def STAR_PACKAGES_def sql_first_def split: if_splits)

lemma credit_star_payment_credits:
  assumes ok: "db_ok d" "stars_ok d" and u: "u \<in> set (users d)" "u_id u = pi_userId i" "u_telegramUserId u = pi_payer i"
    and pack: "star_package_of (pi_packageCode i) = Some pack" "pi_currency i = STARS_CURRENCY" "pi_totalAmount i = pack_stars pack"
    and chk: "1 \<le> length (pi_chargeId i)" "length (pi_chargeId i) \<le> STAR_CHARGE_ID_MAX" "0 < pi_payer i"
    and new: "\<forall>p \<in> set (star_payments d). sp_chargeId p \<noteq> pi_chargeId i"
  shows "\<exists>pid d'. credit_star_payment i d = Inr (StarsCredited pid (pack_tokens pack) (u_tokenBalance u + pack_tokens pack), d')
    \<and> (\<exists>u' \<in> set (users d'). u_id u' = u_id u \<and> u_tokenBalance u' = u_tokenBalance u + pack_tokens pack)"
proof -
  let ?p = "new_star_payment i (CreditVerdict (pack_tokens pack)) d"
  let ?l = "star_ledger_row ?p LPurchase (pack_tokens pack) (now d)"
  have su: "sql_first (\<lambda>u. u_id u = pi_userId i) (users d) = Some u"
    using ok(1) u by (intro sql_first_unique [where key = "\<lambda>u. Some (u_id u)" and k = "pi_userId i"])
      (auto simp: db_ok_def users_part_def)
  have v: "verdict_of i (u_telegramUserId u) = CreditVerdict (pack_tokens pack)"
    using pack u(3) by (simp add: verdict_of_def Let_def)
  have c: "star_payment_checks ?p"
    using star_package_pos [OF pack(1)] pack chk by (simp add: star_payment_checks_def new_star_payment_def)
  have n: "sql_first (\<lambda>q. sp_chargeId q = pi_chargeId i) (star_payments d) = None" using new by (auto simp: sql_first_None_iff list_ex_iff)
  have id: "sp_id ?p = next_id d" "sp_userId ?p = pi_userId i" by (simp_all add: new_star_payment_def)
  have "\<not> key_conflict star_payment_key ?l (token_ledger d)"
  proof
    assume "key_conflict star_payment_key ?l (token_ledger d)"
    then obtain l where l: "l \<in> set (token_ledger d)" "l_starPaymentId l = Some (next_id d)"
      by (auto simp: key_conflict_iff star_payment_key_def star_ledger_row_def id split: option.splits)
    then obtain p where "p \<in> set (star_payments d)" "sp_id p = next_id d" using ok(2) unfolding stars_ok_def by blast
    then show False using ok(2) unfolding stars_ok_def by (metis less_irrefl)
  qed
  then have ins: "insert_ledger ?l e = Inr (e\<lparr>token_ledger := token_ledger e @ [?l]\<rparr>)" if "token_ledger e = token_ledger d" for e
    using that by (simp add: insert_ledger_def) (simp add: star_ledger_row_def)
  have paid: "\<exists>u' \<in> set (users (add_balance (pi_userId i) (pack_tokens pack) e)).
      u_id u' = u_id u \<and> u_tokenBalance u' = u_tokenBalance u + pack_tokens pack" if "users e = users d" for e
    using that u(1,2) unfolding add_balance_def
    by (intro bexI [of _ "u\<lparr>u_tokenBalance := u_tokenBalance u + pack_tokens pack\<rparr>"]) (auto simp: sql_update_def image_iff)
  show ?thesis
    using su v c n by (simp add: credit_star_payment_def Let_def ins paid)
qed

text \<open>
  C34: An approved checkout is credited: when the pre-checkout refuses nothing, a payment of the same
  payer, payload, currency and amount with a charge not seen before credits the package's tokens to
  the payer in any later state, whatever has been committed in between; it is never held.
\<close>

theorem approved_checkout_credits:
  assumes "platform_step\<^sup>*\<^sup>* [d0] (d1 # h)" "db_ok d0" "stars_ok d0"
    "pre_checkout_refusal user_of query d1 = None" "platform_step\<^sup>*\<^sup>* (d1 # h) (d # h')"
    "(pr_telegramUserId paid, pr_payload paid, pr_currency paid, pr_totalAmount paid)
       = (pq_telegramUserId query, pq_payload query, pq_currency query, pq_totalAmount query)"
    "\<forall>p \<in> set (star_payments d). sp_chargeId p \<noteq> pr_chargeId paid" "1 \<le> length (pr_chargeId paid)" "length (pr_chargeId paid) \<le> 255"
    "0 < pr_telegramUserId paid"
  shows "\<exists>u pack d'. u \<in> set (users d) \<and> u_telegramUserId u = pr_telegramUserId paid \<and> pack \<in> set STAR_PACKAGES
    \<and> pack_stars pack = pr_totalAmount paid
    \<and> stars_paid user_of paid d = Inr (Inr (PaidCredited (pack_tokens pack) (u_tokenBalance u + pack_tokens pack)), d')
    \<and> (\<exists>u' \<in> set (users d'). u_id u' = u_id u \<and> u_tokenBalance u' = u_tokenBalance u + pack_tokens pack)"
proof -
  have run: "platform_step\<^sup>*\<^sup>* [d0] (d # h')" using assms(1,5) by (rule rtranclp_trans)
  have ok: "db_ok d" "stars_ok d" using run_ok [OF run assms(2)] run_stars_ok [OF run assms(2,3)] by blast+
  obtain code ut where pl: "parse_stars_invoice_payload (pr_payload paid) = Some (code, ut)"
    using assms(4,6) by (auto simp: pre_checkout_refusal_def split: option.splits)
  obtain pack where pack: "star_package_of code = Some pack"
    using assms(4,6) pl by (auto simp: pre_checkout_refusal_def split: option.splits)
  have q: "pr_currency paid = STARS_CURRENCY" "pr_totalAmount paid = pack_stars pack"
    using assms(4,6) pl pack by (auto simp: pre_checkout_refusal_def split: if_splits)
  obtain b where b: "read_stars_buyer (pr_telegramUserId paid) d1 = Some b" "buyer_userId b = user_of ut"
    using assms(4,6) pl pack q by (auto simp: pre_checkout_refusal_def split: option.splits if_splits)
  obtain u1 where u1: "u1 \<in> set (users d1)" "u_telegramUserId u1 = pr_telegramUserId paid" "u_id u1 = user_of ut"
    using b by (auto simp: read_stars_buyer_def split: option.splits dest!: sql_first_Some)
  have "history_ok (d1 # h)" using platform.run_inv [OF assms(1)] assms(2) by simp
  then have "progress d1 d" using platform.run_below [OF assms(5)] by (simp add: history_below_def laterD)
  then obtain u where u: "u \<in> set (users d)" "u_telegramUserId u = pr_telegramUserId paid" "u_id u = user_of ut"
    using u1 unfolding progress_def by metis
  let ?i = "\<lparr>pi_chargeId = pr_chargeId paid, pi_providerChargeId = pr_providerChargeId paid,
           pi_packageCode = code, pi_userId = user_of ut, pi_currency = pr_currency paid,
           pi_totalAmount = pr_totalAmount paid, pi_payer = pr_telegramUserId paid, pi_paidAt = pr_paidAt paid * 1000\<rparr>"
  from credit_star_payment_credits [OF ok u(1), of ?i pack] obtain pid d' where
    c: "credit_star_payment ?i d = Inr (StarsCredited pid (pack_tokens pack) (u_tokenBalance u + pack_tokens pack), d')"
    "\<exists>u' \<in> set (users d'). u_id u' = u_id u \<and> u_tokenBalance u' = u_tokenBalance u + pack_tokens pack"
    using u pack q assms(7-10) by (auto simp: STAR_CHARGE_ID_MAX_def)
  have "pack \<in> set STAR_PACKAGES" using sql_first_Some [OF pack [unfolded star_package_of_def]] by blast
  moreover have "stars_paid user_of paid d = Inr (Inr (PaidCredited (pack_tokens pack) (u_tokenBalance u + pack_tokens pack)), d')"
    using pl c(1) by (simp add: stars_paid_def)
  ultimately show ?thesis using u c(2) q(2) by metis
qed

section \<open>The reconciler\<close>

text \<open>A pass is a sequence of the payments' own transactions.\<close>

lemma settle_payment_change: "settle_payment user_of t d = Inr (a, d') \<Longrightarrow> d' = d \<or> star_change d d'"
  by (auto simp: settle_payment_def intro: CreditStars split: star_partner.splits option.splits sum.splits prod.splits)

lemma settle_refund_change: "settle_refund t d = Inr (a, d') \<Longrightarrow> d' = d \<or> star_change d d'"
  by (auto simp: settle_refund_def intro: RefundBySystem split: star_partner.splits option.splits sum.splits prod.splits)

lemma each_committed_changes:
  assumes "\<And>t d a d'. f t d = Inr (a, d') \<Longrightarrow> d' = d \<or> star_change d d'" "each_committed counted f ts d = (r, d')"
  shows "star_change\<^sup>*\<^sup>* d d'"
  using assms(2)
proof (induction ts arbitrary: d r)
  case (Cons t ts)
  show ?case
  proof (cases "f t d")
    case (Inl e)
    then show ?thesis using Cons.prems by simp
  next
    case (Inr x)
    obtain a d1 where x: "x = (a, d1)" by (cases x)
    obtain r1 d2 where r: "each_committed counted f ts d1 = (r1, d2)" by (cases "each_committed counted f ts d1")
    then have "d2 = d'" using Cons.prems Inr x by (auto split: sum.splits)
    then show ?thesis using Cons.IH r assms(1) [of t d a d1] Inr x by (auto intro: converse_rtranclp_into_rtranclp)
  qed
qed simp

lemma star_changes_facts:
  assumes "star_change\<^sup>*\<^sup>* d d'" "db_ok d" "stars_ok d"
  shows "db_ok d' \<and> stars_ok d' \<and> progress d d' \<and> keeps_payments d d'"
  using assms(1)
proof (induction rule: rtranclp_induct)
  case base
  then show ?case using assms(2,3) by (simp add: keeps_payments_same)
next
  case (step e f)
  from star_change_facts [OF step.hyps(2)] step.IH show ?case
    by (auto simp: star_facts_def beside_trades_def intro: progress_trans keeps_payments_trans)
qed

definition has_charge :: "string \<Rightarrow> 'p db \<Rightarrow> bool" where
  "has_charge c d \<longleftrightarrow> list_ex (\<lambda>p. sp_chargeId p = c) (star_payments d)"

lemma has_charge_later: "keeps_payments d d' \<Longrightarrow> has_charge c d \<Longrightarrow> has_charge c d'"
  unfolding has_charge_def list_ex_iff keeps_payments_def payment_after_def by metis

text \<open>A transaction that names a user the database has leaves its charge recorded.\<close>

definition names_user :: "(string \<Rightarrow> nat) \<Rightarrow> star_transaction \<Rightarrow> 'p db \<Rightarrow> bool" where
  "names_user user_of t d \<longleftrightarrow> (case st_partner t of
     InvoicePaymentBy payer payload \<Rightarrow> (case parse_stars_invoice_payload payload of
        None \<Rightarrow> False | Some (code, ut) \<Rightarrow> list_ex (\<lambda>u. u_id u = user_of ut) (users d))
   | _ \<Rightarrow> False)"

lemma settle_payment_records:
  assumes "settle_payment user_of t d = Inr (a, d')" "names_user user_of t d" shows "has_charge (st_id t) d'"
proof -
  obtain payer payload code ut u where t: "st_partner t = InvoicePaymentBy payer payload"
    "parse_stars_invoice_payload payload = Some (code, ut)" "u \<in> set (users d)" "u_id u = user_of ut"
    using assms(2) by (auto simp: names_user_def list_ex_iff split: star_partner.splits option.splits)
  let ?i = "\<lparr>pi_chargeId = st_id t, pi_providerChargeId = None, pi_packageCode = code, pi_userId = user_of ut,
      pi_currency = STARS_CURRENCY, pi_totalAmount = st_amount t, pi_payer = payer, pi_paidAt = st_date t * 1000\<rparr>"
  obtain c where c: "credit_star_payment ?i d = Inr (c, d')"
    using assms(1) t by (auto simp: settle_payment_def split: sum.splits prod.splits)
  have "c \<noteq> StarsUserUnknown" using c t(3,4)
    by (auto simp: credit_star_payment_def Let_def sql_first_None_iff list_ex_iff split: option.splits sum.splits if_splits star_verdict.splits)
  then show ?thesis using credit_star_payment_cases [OF c]
    by (elim disjE bexE exE conjE) (auto simp: has_charge_def list_ex_iff new_star_payment_def)
qed

lemma each_payment_recorded:
  assumes "each_committed (\<lambda>_. True) (settle_payment user_of) ts d = (Inr n, d')" "db_ok d" "stars_ok d"
    "t \<in> set ts" "names_user user_of t d"
  shows "has_charge (st_id t) d'"
  using assms
proof (induction ts arbitrary: d n)
  case (Cons s ts)
  obtain a d1 where s: "settle_payment user_of s d = Inr (a, d1)"
    using Cons.prems(1) by (auto split: sum.splits prod.splits)
  obtain m where r: "each_committed (\<lambda>_. True) (settle_payment user_of) ts d1 = (Inr m, d')"
    using Cons.prems(1) s by (auto split: prod.splits sum.splits)
  have "star_change\<^sup>*\<^sup>* d d1" using settle_payment_change [OF s] by auto
  from star_changes_facts [OF this Cons.prems(2,3)] have d1: "db_ok d1" "stars_ok d1" "progress d d1" by blast+
  have rest: "star_change\<^sup>*\<^sup>* d1 d'" by (rule each_committed_changes [OF settle_payment_change r])
  show ?case
  proof (cases "t = s")
    case True
    then have "has_charge (st_id t) d1" using settle_payment_records [OF s] Cons.prems(5) by simp
    then show ?thesis using has_charge_later star_changes_facts [OF rest d1(1,2)] by blast
  next
    case False
    have "names_user user_of t d1" using Cons.prems(5) d1(3)
      unfolding names_user_def progress_def by (auto simp: list_ex_iff split: star_partner.splits option.splits) metis
    then show ?thesis using Cons.IH [OF r d1(1,2)] Cons.prems(4) False by simp
  qed
qed simp

text \<open>
  The reconciler loses no payment: when a page of Telegram's transactions has been gone through
  without a throw, every invoice payment of it inside the window whose payload names a user of ours is
  recorded, whether the webhook had brought it or not; the pass commits only steps of the platform.
\<close>

theorem reconciled_page_is_recorded:
  assumes "platform_step\<^sup>*\<^sup>* [d0] (d # h)" "db_ok d0" "stars_ok d0" "reconcile_page user_of oldest ts d = (Inr n, d')"
    "t \<in> set ts" "st_partner t = InvoicePaymentBy payer payload" "oldest \<le> st_date t"
    "parse_stars_invoice_payload payload = Some (code, userText)" "u \<in> set (users d)" "u_id u = user_of userText"
  shows "\<exists>p \<in> set (star_payments d'). sp_chargeId p = st_id t"
proof -
  have ok: "db_ok d" "stars_ok d" using run_ok [OF assms(1,2)] run_stars_ok [OF assms(1-3)] by blast+
  let ?ps = "filter (\<lambda>t. invoice_payment t \<and> oldest \<le> st_date t) ts"
  let ?known = "list_known_star_charges (map st_id ?ps) d"
  let ?new = "filter (\<lambda>t. \<not> List.member ?known (st_id t)) ?ps"
  have t: "t \<in> set ?ps" "names_user user_of t d"
    using assms(5-10) by (auto simp: names_user_def list_ex_iff)
  obtain n1 d1 where p1: "each_committed (\<lambda>_. True) (settle_payment user_of) ?new d = (Inr n1, d1)"
    using assms(4) unfolding reconcile_page_def Let_def by (auto split: prod.splits sum.splits)
  obtain r2 ts2 where p2: "each_committed refund_recorded settle_refund ts2 d1 = (r2, d')"
    using assms(4) p1 unfolding reconcile_page_def Let_def by (auto split: prod.splits sum.splits)
  have s1: "star_change\<^sup>*\<^sup>* d d1" by (rule each_committed_changes [OF settle_payment_change p1])
  have s2: "star_change\<^sup>*\<^sup>* d1 d'" by (rule each_committed_changes [OF settle_refund_change p2])
  have "has_charge (st_id t) d1"
  proof (cases "List.member ?known (st_id t)")
    case True
    then have "has_charge (st_id t) d" by (auto simp: list_known_star_charges_def has_charge_def list_ex_iff)
    then show ?thesis using has_charge_later star_changes_facts [OF s1 ok] by blast
  next
    case False
    then show ?thesis using each_payment_recorded [OF p1 ok _ t(2)] t(1) by simp
  qed
  moreover have "keeps_payments d1 d'" using star_changes_facts [OF s2] star_changes_facts [OF s1 ok] by blast
  ultimately have "has_charge (st_id t) d'" using has_charge_later by blast
  then show ?thesis by (auto simp: has_charge_def list_ex_iff)
qed

section \<open>A purchase and its refund\<close>

definition demo_payment :: star_payment_input where
  "demo_payment = \<lparr>pi_chargeId = ''charge-1'', pi_providerChargeId = None, pi_packageCode = ''p50'', pi_userId = 0,
     pi_currency = ''XTR'', pi_totalAmount = 100, pi_payer = 7, pi_paidAt = 1000\<rparr>"

definition demo_paid :: "int db" where
  "demo_paid = snd (projr (credit_star_payment demo_payment demo_db))"
definition demo_refunded :: "int db" where
  "demo_refunded = snd (projr (record_star_refund_by_system ''charge-1'' (Some 7) demo_paid))"

lemma demo_stars_ok: "stars_ok demo_db"
  by (simp add: stars_ok_def demo_db_def)

lemma demo_credit: "\<exists>c. credit_star_payment demo_payment demo_db = Inr (c, demo_paid)"
proof -
  have "\<not> isl (credit_star_payment demo_payment demo_db)" by code_simp
  then show ?thesis using Inr_pair demo_paid_def by metis
qed

lemma demo_refund: "\<exists>f. record_star_refund_by_system ''charge-1'' (Some 7) demo_paid = Inr (RefundRecorded f, demo_refunded) \<and> sr_paymentId f = 10"
proof -
  have "case record_star_refund_by_system ''charge-1'' (Some 7) demo_paid of Inr (RefundRecorded f, _) \<Rightarrow> sr_paymentId f = 10 | _ \<Rightarrow> False"
    by code_simp
  then show ?thesis by (auto simp: demo_refunded_def split: sum.splits prod.splits star_refund.splits)
qed

lemma demo_run_paid: "platform_step\<^sup>*\<^sup>* [demo_db] [demo_paid, demo_db]"
proof -
  obtain c where "credit_star_payment demo_payment demo_db = Inr (c, demo_paid)" using demo_credit by blast
  then show ?thesis by (intro r_into_rtranclp Commit StarStep CreditStars)
qed

lemma demo_paid_rows:
  "map (\<lambda>p. (sp_id p, sp_chargeId p, sp_status p, sp_tokens p, sp_userId p, sp_payer p)) (star_payments demo_paid)
     = [(10, ''charge-1'', StarPaid, Some 50, 0, 7)]"
  "map (\<lambda>u. (u_id u, u_tokenBalance u, u_tokenReserved u)) (users demo_paid) = [(0, 52, 0)]" "now demo_paid = 1000"
  by code_simp+

lemma demo_paid_payment:
  obtains p where "p \<in> set (star_payments demo_paid)" "sp_chargeId p = ''charge-1''" "sp_status p = StarPaid" "sp_tokens p = Some 50"
    "sp_userId p = 0" "sp_payer p = 7"
  using demo_paid_rows(1) by (cases "star_payments demo_paid") auto

theorem charge_credited_once_witness:
  "\<exists>l. purchase_rows ''charge-1'' demo_paid = [l] \<and> l_balanceDelta l = 50 \<and> l_userId l = 0"
proof -
  obtain p where p: "p \<in> set (star_payments demo_paid)" "sp_chargeId p = ''charge-1''" "sp_status p = StarPaid"
    "sp_tokens p = Some 50" "sp_userId p = 0" by (rule demo_paid_payment)
  from charge_credited_once [OF demo_run_paid demo_db_ok demo_stars_ok p(1)] p(2-) show ?thesis by auto
qed

theorem refund_takes_free_tokens_witness:
  "\<exists>f d'. record_star_refund ''charge-1'' (Some 7) demo_paid = Inr (RefundRecorded f, d') \<and> sr_taken f = 50
     \<and> (\<exists>u' \<in> set (users d'). u_tokenBalance u' = 2)"
proof -
  obtain p where p: "p \<in> set (star_payments demo_paid)" "sp_chargeId p = ''charge-1''" "sp_status p = StarPaid"
    "sp_tokens p = Some 50" "sp_userId p = 0" "sp_payer p = 7" by (rule demo_paid_payment)
  obtain u where u: "u \<in> set (users demo_paid)" "u_id u = 0" "u_tokenBalance u = 52" "u_tokenReserved u = 0"
    using demo_paid_rows(2) by (cases "users demo_paid") auto
  from refund_takes_free_tokens [OF demo_run_paid demo_db_ok demo_stars_ok p(1) _ u(1), of "Some 7" 50] p u
  show ?thesis by auto
qed

theorem refund_recorded_once_witness:
  "record_star_refund_by_system ''charge-1'' None demo_refunded = Inr (RefundAlreadyRecorded 10 1000, demo_refunded)"
proof -
  obtain f where f: "record_star_refund_by_system ''charge-1'' (Some 7) demo_paid = Inr (RefundRecorded f, demo_refunded)" "sr_paymentId f = 10"
    using demo_refund by blast
  show ?thesis using refund_recorded_once [OF demo_run_paid demo_db_ok demo_stars_ok f(1) rtranclp.rtrancl_refl, of None] f(2)
      demo_paid_rows(3) by simp
qed

definition demo_payload :: string where
  "demo_payload = stars_invoice_payload ''p50'' ''00000000-0000-4000-8000-00000000000a''"

definition demo_checkout :: pre_checkout_query where
  "demo_checkout = \<lparr>pq_telegramUserId = 7, pq_payload = demo_payload, pq_currency = ''XTR'', pq_totalAmount = 100\<rparr>"

definition demo_paid_request :: paid_request where
  "demo_paid_request = \<lparr>pr_telegramUserId = 7, pr_chargeId = ''charge-2'', pr_providerChargeId = None, pr_payload = demo_payload,
     pr_currency = ''XTR'', pr_totalAmount = 100, pr_paidAt = 1\<rparr>"

theorem approved_checkout_credits_witness:
  "\<exists>balance d'. stars_paid (\<lambda>_. 0) demo_paid_request demo_paid = Inr (Inr (PaidCredited 50 balance), d')"
proof -
  have pre: "pre_checkout_refusal (\<lambda>_. 0) demo_checkout demo_db = None" by code_simp
  have same: "(pr_telegramUserId demo_paid_request, pr_payload demo_paid_request, pr_currency demo_paid_request, pr_totalAmount demo_paid_request)
     = (pq_telegramUserId demo_checkout, pq_payload demo_checkout, pq_currency demo_checkout, pq_totalAmount demo_checkout)"
    by (simp add: demo_paid_request_def demo_checkout_def)
  have new: "\<forall>p \<in> set (star_payments demo_paid). sp_chargeId p \<noteq> pr_chargeId demo_paid_request"
    using demo_paid_rows(1) by (cases "star_payments demo_paid") (auto simp: demo_paid_request_def)
  have chk: "1 \<le> length (pr_chargeId demo_paid_request)" "length (pr_chargeId demo_paid_request) \<le> 255"
    "0 < pr_telegramUserId demo_paid_request" by (simp_all add: demo_paid_request_def)
  have "\<exists>pack. pack \<in> set STAR_PACKAGES \<and> pack_stars pack = pr_totalAmount demo_paid_request
      \<and> (\<exists>balance d'. stars_paid (\<lambda>_. 0) demo_paid_request demo_paid = Inr (Inr (PaidCredited (pack_tokens pack) balance), d'))"
    by (insert approved_checkout_credits [OF rtranclp.rtrancl_refl demo_db_ok demo_stars_ok pre demo_run_paid same new chk])
      (elim exE conjE, intro exI conjI, assumption+)
  moreover have "pr_totalAmount demo_paid_request = 100" by (simp add: demo_paid_request_def)
  ultimately show ?thesis by (auto simp: STAR_PACKAGES_def)
qed

definition demo_transaction :: star_transaction where
  "demo_transaction = \<lparr>st_id = ''charge-3'', st_amount = 100, st_date = 1, st_partner = InvoicePaymentBy 7 demo_payload\<rparr>"

theorem reconciled_page_is_recorded_witness:
  "\<exists>d'. reconcile_page (\<lambda>_. 0) 0 [demo_transaction] demo_paid = (Inr 1, d') \<and> (\<exists>p \<in> set (star_payments d'). sp_chargeId p = ''charge-3'')"
proof -
  have "fst (reconcile_page (\<lambda>_. 0) 0 [demo_transaction] demo_paid) = Inr 1" by code_simp
  then obtain d' where d': "reconcile_page (\<lambda>_. 0) 0 [demo_transaction] demo_paid = (Inr 1, d')" by (metis prod.collapse)
  have pl: "parse_stars_invoice_payload demo_payload = Some (''p50'', ''00000000-0000-4000-8000-00000000000a'')" by code_simp
  obtain u where u: "u \<in> set (users demo_paid)" "u_id u = 0" using demo_paid_rows(2) by (cases "users demo_paid") auto
  from reconciled_page_is_recorded [OF demo_run_paid demo_db_ok demo_stars_ok d', of demo_transaction 7 demo_payload] pl u d'
  show ?thesis by (auto simp: demo_transaction_def)
qed

end
