(* ===== verification/Bonus_Safe.thy ===== *)
theory Bonus_Safe
  imports Accounts_Safe
begin

text \<open>
  The bonus rules, the referrals and the grants: what every grant in the ledger refers to, that a user
  gets one starter pack and a referral one reward, that a rule's version is never rewritten; and what
  stays of the rules, the referrals, the grants and the deposits along every operation.
\<close>

section \<open>The invariant\<close>

definition is_grant :: "ledger_row \<Rightarrow> bool" where
  "is_grant l \<longleftrightarrow> l_accountId l \<noteq> None \<or> l_referralId l \<noteq> None"

text \<open>The row pays what a version of the kind says.\<close>

definition pays :: "bonus_rule_row list \<Rightarrow> bonus_rule_kind \<Rightarrow> ledger_row \<Rightarrow> bool" where
  "pays rules k l \<longleftrightarrow> (\<exists>r \<in> set rules. l_bonusRule l = Some (br_id r, k) \<and> br_kind r = k
     \<and> parse_bonus_rule_params k (br_params r) = Some (FixedTokens (l_balanceDelta l)))"

definition grant_ok :: "'p db \<Rightarrow> ledger_row \<Rightarrow> bool" where
  "grant_ok d l \<longleftrightarrow> l_kind l = LBonus
     \<and> (case l_accountId l of
          Some a \<Rightarrow> l_referralId l = None \<and> (\<exists>acc \<in> set (accounts d). a_id acc = a \<and> a_userId acc = l_userId l)
                      \<and> pays (bonus_rules d) LinkBonusRule l
        | None \<Rightarrow> (\<exists>rf \<in> set (referrals d). l_referralId l = Some (rf_id rf) \<and> rf_inviterUserId rf = l_userId l)
                      \<and> pays (bonus_rules d) ReferralRewardRule l)"

definition active_code_key :: "bonus_rule_row \<Rightarrow> string option" where
  "active_code_key r = (if br_isActive r then Some (br_code r) else None)"

definition rules_ok :: "bonus_rule_row list \<Rightarrow> nat \<Rightarrow> bool" where
  "rules_ok rs nid \<longleftrightarrow> unique_on (\<lambda>r. Some (br_id r)) rs \<and> unique_on (\<lambda>r. Some (br_code r, br_version r)) rs
     \<and> unique_on active_code_key rs \<and> (\<forall>r \<in> set rs. br_id r < nid)"

definition known :: "'p db \<Rightarrow> nat \<Rightarrow> bool" where
  "known d k \<longleftrightarrow> (\<exists>u \<in> set (users d). u_id u = k)"

definition referrals_ok :: "'p db \<Rightarrow> bool" where
  "referrals_ok d \<longleftrightarrow> unique_on (\<lambda>r. Some (rf_id r)) (referrals d) \<and> unique_on (\<lambda>r. Some (rf_inviteeUserId r)) (referrals d)
     \<and> (\<forall>r \<in> set (referrals d). rf_id r < next_id d \<and> rf_inviteeUserId r \<noteq> rf_inviterUserId r
          \<and> known d (rf_inviteeUserId r) \<and> known d (rf_inviterUserId r))
     \<and> (\<forall>(u, c) \<in> set (referral_codes d). known d u)
     \<and> unique_on (\<lambda>(u, c). Some u) (referral_codes d) \<and> unique_on (\<lambda>(u, c). Some c) (referral_codes d)"

definition bonus_ok :: "'p db \<Rightarrow> bool" where
  "bonus_ok d \<longleftrightarrow> rules_ok (bonus_rules d) (next_id d) \<and> referrals_ok d
     \<and> unique_on link_bonus_user_key (token_ledger d) \<and> unique_on referral_key (token_ledger d)
     \<and> (\<forall>l \<in> set (token_ledger d). is_grant l \<longrightarrow> grant_ok d l)"

text \<open>A payment is one deposit, a postback that is no rejection is journaled once and with its deposit.\<close>

definition journal_key :: "delivery_row \<Rightarrow> string option" where
  "journal_key v = (if pd_outcome v = DeliveryRejected then None else pd_postbackId v)"

definition deposits_ok :: "'p db \<Rightarrow> bool" where
  "deposits_ok d \<longleftrightarrow> unique_on (\<lambda>e. Some (de_id e)) (deposits d) \<and> unique_on (\<lambda>e. Some (de_paymentId e)) (deposits d)
     \<and> unique_on journal_key (deliveries d) \<and> (\<forall>e \<in> set (deposits d). de_id e < next_id d)
     \<and> (\<forall>v \<in> set (deliveries d). pd_outcome v \<noteq> DeliveryRejected \<longrightarrow> (\<exists>e \<in> set (deposits d). pd_depositId v = Some (de_id e)))"

section \<open>What stays\<close>

definition same_rule :: "bonus_rule_row \<Rightarrow> bonus_rule_row \<Rightarrow> bool" where
  "same_rule r r' \<longleftrightarrow> br_id r' = br_id r \<and> br_code r' = br_code r \<and> br_version r' = br_version r \<and> br_kind r' = br_kind r
     \<and> br_params r' = br_params r"

definition deposit_after :: "deposit_row \<Rightarrow> deposit_row \<Rightarrow> bool" where
  "deposit_after e e' \<longleftrightarrow> de_id e' = de_id e \<and> de_paymentId e' = de_paymentId e \<and> de_amount e' = de_amount e
     \<and> de_brokerUserId e' = de_brokerUserId e
     \<and> (de_userId e \<noteq> None \<longrightarrow> de_userId e' = de_userId e \<and> de_accountId e' = de_accountId e)
     \<and> (de_modeSwitch e \<noteq> None \<longrightarrow> de_modeSwitch e' = de_modeSwitch e)"

definition bonus_kept :: "'p db \<Rightarrow> 'p db \<Rightarrow> bool" where
  "bonus_kept d d' \<longleftrightarrow>
     (\<forall>r \<in> set (bonus_rules d). \<exists>r' \<in> set (bonus_rules d'). same_rule r r')
     \<and> set (referrals d) \<subseteq> set (referrals d') \<and> set (filter is_grant (token_ledger d)) \<subseteq> set (filter is_grant (token_ledger d'))
     \<and> (\<forall>e \<in> set (deposits d). \<exists>e' \<in> set (deposits d'). deposit_after e e') \<and> set (deliveries d) \<subseteq> set (deliveries d')"

lemma same_rule_refl [simp]: "same_rule r r"
  by (simp add: same_rule_def)

lemma same_rule_trans: "same_rule r s \<Longrightarrow> same_rule s t \<Longrightarrow> same_rule r t"
  by (simp add: same_rule_def)

lemma deposit_after_refl [simp]: "deposit_after e e"
  by (simp add: deposit_after_def)

lemma deposit_after_trans: "deposit_after e f \<Longrightarrow> deposit_after f g \<Longrightarrow> deposit_after e g"
  unfolding deposit_after_def by auto

lemma bonus_keptD:
  assumes "bonus_kept d e"
  shows "r \<in> set (bonus_rules d) \<Longrightarrow> \<exists>r' \<in> set (bonus_rules e). same_rule r r'"
    "rf \<in> set (referrals d) \<Longrightarrow> rf \<in> set (referrals e)"
    "l \<in> set (token_ledger d) \<Longrightarrow> is_grant l \<Longrightarrow> l \<in> set (token_ledger e)"
    "x \<in> set (deposits d) \<Longrightarrow> \<exists>x' \<in> set (deposits e). deposit_after x x'"
    "v \<in> set (deliveries d) \<Longrightarrow> v \<in> set (deliveries e)"
  using assms unfolding bonus_kept_def by (blast, blast, auto)

lemma bonus_kept_trans:
  assumes "bonus_kept d e" "bonus_kept e f" shows "bonus_kept d f"
proof -
  have "\<exists>r' \<in> set (bonus_rules f). same_rule r r'" if "r \<in> set (bonus_rules d)" for r
    using bonus_keptD(1) [OF assms(1) that] bonus_keptD(1) [OF assms(2)] same_rule_trans by metis
  moreover have "\<exists>x' \<in> set (deposits f). deposit_after x x'" if "x \<in> set (deposits d)" for x
    using bonus_keptD(4) [OF assms(1) that] bonus_keptD(4) [OF assms(2)] deposit_after_trans by metis
  ultimately show ?thesis
    using bonus_keptD(2,3,5) [OF assms(1)] bonus_keptD(2,3,5) [OF assms(2)] unfolding bonus_kept_def by auto
qed

lemma bonus_keptI:
  assumes "bonus_rules d' = bonus_rules d" "referrals d' = referrals d"
    "set (filter is_grant (token_ledger d)) \<subseteq> set (filter is_grant (token_ledger d'))"
    "deposits d' = deposits d" "deliveries d' = deliveries d"
  shows "bonus_kept d d'"
  using assms unfolding bonus_kept_def by (auto intro: same_rule_refl deposit_after_refl)

lemma bonus_kept_refl [simp]: "bonus_kept d d"
  by (rule bonus_keptI) auto

lemma known_later: "progress d d' \<Longrightarrow> known d k \<Longrightarrow> known d' k"
  unfolding known_def by (rule users_later)

lemma pays_later:
  assumes "\<forall>r \<in> set rs. \<exists>r' \<in> set rs'. same_rule r r'" "pays rs k l" shows "pays rs' k l"
proof -
  obtain r where r: "r \<in> set rs" "l_bonusRule l = Some (br_id r, k)" "br_kind r = k"
    "parse_bonus_rule_params k (br_params r) = Some (FixedTokens (l_balanceDelta l))" using assms(2) by (auto simp: pays_def)
  obtain r' where "r' \<in> set rs'" "same_rule r r'" using assms(1) r(1) by blast
  then show ?thesis using r unfolding pays_def by (intro bexI [of _ r']) (auto simp: same_rule_def)
qed

lemma grant_ok_later:
  assumes "bonus_kept d d'" "progress d d'" "grant_ok d l" shows "grant_ok d' l"
proof -
  have p: "pays (bonus_rules d) k l \<Longrightarrow> pays (bonus_rules d') k l" for k
    using assms(1) pays_later unfolding bonus_kept_def by blast
  have a: "\<exists>acc \<in> set (accounts d'). a_id acc = a \<and> a_userId acc = u"
    if "\<exists>acc \<in> set (accounts d). a_id acc = a \<and> a_userId acc = u" for a u
    using assms(2) that unfolding progress_def by metis
  have r: "\<exists>rf \<in> set (referrals d'). Q rf" if "\<exists>rf \<in> set (referrals d). Q rf" for Q
    using assms(1) that unfolding bonus_kept_def by blast
  show ?thesis using assms(3) p a r unfolding grant_ok_def by (cases "l_accountId l") auto
qed

text \<open>A unique index over a part of the rows.\<close>

lemma unique_on_filter:
  assumes "\<And>x. key x \<noteq> None \<Longrightarrow> p x" shows "unique_on key (filter p xs) = unique_on key xs"
proof -
  have "key_conflict key r (filter p ys) = key_conflict key r ys" for r ys
    unfolding key_conflict_iff set_filter using assms by (metis (no_types, lifting) mem_Collect_eq)
  moreover have "\<not> key_conflict key r ys" if "\<not> p r" for r ys using assms that by (auto simp: key_conflict_iff)
  ultimately show ?thesis by (induction xs) (auto simp: unique_on_Cons)
qed

lemma grant_keys: "link_bonus_user_key l \<noteq> None \<Longrightarrow> is_grant l" "referral_key l \<noteq> None \<Longrightarrow> is_grant l"
  by (auto simp: link_bonus_user_key_def referral_key_def is_grant_def split: if_splits)

lemma bonus_ok_frame:
  assumes ok: "bonus_ok d" and same: "bonus_rules d' = bonus_rules d" "referrals d' = referrals d" "referral_codes d' = referral_codes d"
    "filter is_grant (token_ledger d') = filter is_grant (token_ledger d)" "next_id d \<le> next_id d'" and p: "progress d d'"
  shows "bonus_ok d'"
proof -
  have "unique_on link_bonus_user_key (token_ledger d')" "unique_on referral_key (token_ledger d')"
    using ok unique_on_filter [of link_bonus_user_key is_grant] unique_on_filter [of referral_key is_grant] grant_keys same(4)
    unfolding bonus_ok_def by metis+
  moreover have "rules_ok (bonus_rules d') (next_id d')" using ok same by (auto simp: bonus_ok_def rules_ok_def)
  moreover have "referrals_ok d'"
    using ok same(2,3,5) known_later [OF p] by (auto simp: bonus_ok_def referrals_ok_def)
  moreover have "grant_ok d' l" if "l \<in> set (token_ledger d')" "is_grant l" for l
  proof -
    have "l \<in> set (filter is_grant (token_ledger d'))" using that by simp
    then have "l \<in> set (token_ledger d)" unfolding same(4) by simp
    then have "grant_ok d l" using ok that(2) by (simp add: bonus_ok_def)
    moreover have "grant_ok d' l = grant_ok (d\<lparr>accounts := accounts d'\<rparr>) l"
      unfolding grant_ok_def by (cases "l_accountId l") (simp_all add: same)
    moreover have "\<exists>acc \<in> set (accounts d'). a_id acc = a \<and> a_userId acc = u"
      if "\<exists>acc \<in> set (accounts d). a_id acc = a \<and> a_userId acc = u" for a u
      using p that unfolding progress_def by metis
    ultimately show ?thesis unfolding grant_ok_def by (cases "l_accountId l") auto
  qed
  ultimately show ?thesis unfolding bonus_ok_def by blast
qed

section \<open>One step\<close>

text \<open>\<open>seen\<close> holds the rules a grant reads: an older state, whose versions are still what they were.\<close>

definition bonus_step :: "'p db \<Rightarrow> 'p db \<Rightarrow> 'p db \<Rightarrow> bool" where
  "bonus_step seen d d' \<longleftrightarrow> (bonus_ok d \<and> bonus_kept seen d \<longrightarrow> bonus_ok d') \<and> bonus_kept d d'
     \<and> (deposits_ok d \<longrightarrow> deposits_ok d')"

lemma deposits_ok_same:
  "deposits_ok d \<Longrightarrow> deposits d' = deposits d \<Longrightarrow> deliveries d' = deliveries d \<Longrightarrow> next_id d \<le> next_id d' \<Longrightarrow> deposits_ok d'"
  by (auto simp: deposits_ok_def)

lemma bonus_step_trans:
  assumes "bonus_step seen d e" "bonus_step seen e f" shows "bonus_step seen d f"
  using assms bonus_kept_trans unfolding bonus_step_def by blast

lemma bonus_step_refl [simp]: "bonus_step seen d d"
  by (simp add: bonus_step_def)

lemma bonus_step_frame:
  assumes "bonus_rules d' = bonus_rules d" "referrals d' = referrals d" "referral_codes d' = referral_codes d"
    "filter is_grant (token_ledger d') = filter is_grant (token_ledger d)" "next_id d \<le> next_id d'" "progress d d'"
    "deposits d' = deposits d" "deliveries d' = deliveries d"
  shows "bonus_step seen d d'"
  using assms bonus_ok_frame [of d d'] by (auto simp: bonus_step_def intro!: bonus_keptI intro: deposits_ok_same)

lemma bonus_step_deposits:
  assumes "\<And>e. p e \<Longrightarrow> deposit_after e (f e)"
  shows "bonus_step seen d (d\<lparr>deposits := sql_update p f (deposits d)\<rparr>)"
proof -
  let ?d = "d\<lparr>deposits := sql_update p f (deposits d)\<rparr>"
  have "progress d ?d = progress d d" unfolding progress_def by simp
  then have "bonus_ok d \<Longrightarrow> bonus_ok ?d" by (auto intro: bonus_ok_frame)
  moreover have "\<exists>e' \<in> set (sql_update p f (deposits d)). deposit_after e e'" if "e \<in> set (deposits d)" for e
    using that assms by (auto simp: bex_sql_update intro!: bexI [of _ e])
  then have "bonus_kept d ?d" unfolding bonus_kept_def by (auto intro: same_rule_refl)
  moreover have "deposits_ok d \<Longrightarrow> deposits_ok ?d"
    using assms by (auto simp: deposits_ok_def deposit_after_def ball_sql_update bex_sql_update intro!: unique_on_update)
  ultimately show ?thesis by (simp add: bonus_step_def)
qed

definition reference_ok :: "bonus_reference \<Rightarrow> nat \<Rightarrow> 'p db \<Rightarrow> bool" where
  "reference_ok ref uid d \<longleftrightarrow>
     (case ref of AccountReference a \<Rightarrow> \<exists>acc \<in> set (accounts d). a_id acc = a \<and> a_userId acc = uid
      | ReferralReference r \<Rightarrow> \<exists>rf \<in> set (referrals d). rf_id rf = r \<and> rf_inviterUserId rf = uid)"

lemma apply_bonus_step:
  assumes t: "apply_bonus (bonus_rules seen) code uid ref d = Inr (g, d')" and ref: "reference_ok ref uid d"
  shows "bonus_step seen d d'"
  using apply_bonus_cases [OF t]
proof (elim disjE exE conjE)
  fix rule tokens
  assume r: "rule \<in> set (bonus_rules seen)" "br_kind rule = reference_kind ref"
    "parse_bonus_rule_params (br_kind rule) (br_params rule) = Some (FixedTokens tokens)"
    and free: "\<not> reference_conflict ref (bonus_ledger_row uid ref rule tokens (now d)) (token_ledger d)"
    and d': "d' = balance_moved (bonus_ledger_row uid ref rule tokens (now d)) d"
  let ?l = "bonus_ledger_row uid ref rule tokens (now d)"
  have led: "token_ledger d' = token_ledger d @ [?l]" using d' by simp
  have p: "progress d d'" unfolding d'
    by (rule progress_users [where p = "\<lambda>u. u_id u = l_userId ?l" and f = "\<lambda>u. u\<lparr>u_tokenBalance := u_tokenBalance u + l_balanceDelta ?l\<rparr>"])
      (simp_all add: balance_moved_def)
  have kept: "bonus_kept d d'" using d' by (intro bonus_keptI) auto
  have "bonus_ok d'" if ok: "bonus_ok d" and s: "bonus_kept seen d"
  proof -
    obtain r' where r': "r' \<in> set (bonus_rules d)" "same_rule rule r'" using r(1) s unfolding bonus_kept_def by blast
    have "pays (bonus_rules d') (reference_kind ref) ?l" using r' r(2,3) d' unfolding pays_def
      by (intro bexI [of _ r']) (auto simp: same_rule_def)
    then have new: "grant_ok d' ?l" using ref d' by (cases ref) (auto simp: grant_ok_def reference_ok_def)
    have old: "grant_ok d' l" if "l \<in> set (token_ledger d)" "is_grant l" for l
      using ok that grant_ok_later [OF kept p] by (simp add: bonus_ok_def)
    have "unique_on link_bonus_user_key (token_ledger d')" "unique_on referral_key (token_ledger d')"
      using ok free unfolding led by (cases ref; simp add: bonus_ok_def unique_on_snoc)+
    moreover have "referrals_ok d'" using ok known_later [OF p] d' by (auto simp: bonus_ok_def referrals_ok_def)
    ultimately show ?thesis using ok new old d' unfolding bonus_ok_def led by auto
  qed
  moreover have "deposits_ok d \<Longrightarrow> deposits_ok d'" using d' by (auto intro: deposits_ok_same)
  ultimately show ?thesis using kept by (simp add: bonus_step_def)
qed simp

section \<open>The operations\<close>

lemma bonus_step_aside:
  assumes "aside d d'" "bonus_rules d' = bonus_rules d" "referrals d' = referrals d" "referral_codes d' = referral_codes d"
    "token_ledger d' = token_ledger d" "deposits d' = deposits d" "deliveries d' = deliveries d"
  shows "bonus_step seen d d'"
  using assms by (intro bonus_step_frame) (simp_all add: aside_def same_stars_def)

lemma attach_step: "bonus_step seen d (attach_deposits_to_account a u b d)"
  unfolding attach_deposits_to_account_def by (rule bonus_step_deposits) (simp add: deposit_after_def)

lemma mark_where_step: "bonus_step seen d (snd (mark_where p outcome d))"
  unfolding mark_where_def Let_def snd_conv by (rule bonus_step_deposits) (simp add: deposit_after_def)

lemma reference_ok_later:
  assumes "progress d e" "set (referrals d) \<subseteq> set (referrals e)" "reference_ok ref uid d" shows "reference_ok ref uid e"
proof (cases ref)
  case (AccountReference a)
  then show ?thesis using assms(1,3) unfolding reference_ok_def progress_def by simp metis
next
  case (ReferralReference r)
  then show ?thesis using assms(2,3) unfolding reference_ok_def by auto
qed

lemma grant_link_bonus_step:
  assumes "grant_link_bonus (bonus_rules seen) uid account d = Inr (g, d')" "reference_ok (AccountReference (a_id account)) uid d"
  shows "bonus_step seen d d'"
proof (cases "a_isPartnerClient account")
  case False
  then show ?thesis using assms(1) by (simp add: grant_link_bonus_def)
next
  case True
  then obtain h where "apply_bonus (bonus_rules seen) LINK_BONUS_RULE_CODE uid (AccountReference (a_id account)) d = Inr (h, d')"
    using assms(1) by (auto simp: grant_link_bonus_def split: sum.splits prod.splits bonus_grant.splits)
  then show ?thesis using assms(2) by (rule apply_bonus_step)
qed

definition inviter_ok :: "referral_inviter \<Rightarrow> 'p db \<Rightarrow> bool" where
  "inviter_ok inviter d \<longleftrightarrow>
     (case inviter of InviterOpen rid iid blocked \<Rightarrow> reference_ok (ReferralReference rid) iid d | _ \<Rightarrow> True)"

lemma lock_referral_inviter_ok: "lock_referral_inviter uid d = Inr inviter \<Longrightarrow> inviter_ok inviter d"
  by (auto simp: lock_referral_inviter_def inviter_ok_def reference_ok_def split: option.splits if_splits dest!: sql_first_Some)

lemma inviter_ok_later: "progress d e \<Longrightarrow> set (referrals d) \<subseteq> set (referrals e) \<Longrightarrow> inviter_ok inviter d \<Longrightarrow> inviter_ok inviter e"
  using reference_ok_later by (auto simp: inviter_ok_def split: referral_inviter.splits)

lemma grant_referral_reward_step:
  assumes "grant_referral_reward (bonus_rules seen) inviter account d = Inr (g, d')" "inviter_ok inviter d"
  shows "bonus_step seen d d'"
  using grant_referral_reward_cases [OF assms(1)]
proof (elim disjE exE conjE)
  fix rid iid h
  assume i: "inviter = InviterOpen rid iid False"
    and a: "apply_bonus (bonus_rules seen) REFERRAL_REWARD_RULE_CODE iid (ReferralReference rid) d = Inr (h, d')"
  have "reference_ok (ReferralReference rid) iid d" using assms(2) i by (simp add: inviter_ok_def)
  then show ?thesis by (rule apply_bonus_step [OF a])
qed simp

text \<open>What a grant leaves of the people and the referrals.\<close>

lemma apply_bonus_people:
  assumes "apply_bonus rules code uid ref d = Inr (g, d')"
  shows "progress d d' \<and> referrals d' = referrals d \<and> accounts d' = accounts d"
  using apply_bonus_cases [OF assms]
proof (elim disjE exE conjE)
  fix rule tokens
  assume d': "d' = balance_moved (bonus_ledger_row uid ref rule tokens (now d)) d"
  have "progress d d'" unfolding d'
    by (rule progress_users [where p = "\<lambda>u. u_id u = uid" and f = "\<lambda>u. u\<lparr>u_tokenBalance := u_tokenBalance u + tokens\<rparr>"])
      (simp_all add: balance_moved_def)
  then show ?thesis using d' by simp
qed simp

lemma grant_link_bonus_people:
  assumes "grant_link_bonus rules uid account d = Inr (g, d')"
  shows "progress d d' \<and> referrals d' = referrals d \<and> accounts d' = accounts d"
  using assms by (auto simp: grant_link_bonus_def split: if_splits sum.splits prod.splits bonus_grant.splits dest: apply_bonus_people)

lemma credit_activation_step:
  assumes t: "credit_activation (bonus_rules seen) activate uid account inviter d = Inr (x, d')"
    and ref: "reference_ok (AccountReference (a_id account)) uid d" and inv: "inviter_ok inviter d"
  shows "bonus_step seen d d'"
proof (cases activate)
  case False
  show ?thesis
  proof (cases "a_status account = AActive")
    case True
    then obtain g where "grant_referral_reward (bonus_rules seen) inviter account d = Inr (g, d')"
      using t False by (auto simp: credit_activation_def split: sum.splits prod.splits)
    then show ?thesis using inv by (rule grant_referral_reward_step)
  next
    case no: False
    then show ?thesis using t False by (simp add: credit_activation_def)
  qed
next
  case True
  let ?d1 = "attach_deposits_to_account (a_id account) uid (a_brokerUserId account) d"
  obtain g d2 h where g: "grant_link_bonus (bonus_rules seen) uid account ?d1 = Inr (g, d2)"
    "grant_referral_reward (bonus_rules seen) inviter account d2 = Inr (h, d')"
    using t True by (auto simp: credit_activation_def split: sum.splits prod.splits)
  have "reference_ok (AccountReference (a_id account)) uid ?d1" using ref by (simp add: reference_ok_def attach_deposits_to_account_def)
  from grant_link_bonus_step [OF g(1) this] have s2: "bonus_step seen ?d1 d2" .
  have "inviter_ok inviter ?d1" using inv
    by (simp add: inviter_ok_def reference_ok_def attach_deposits_to_account_def split: referral_inviter.splits)
  then have "inviter_ok inviter d2" using grant_link_bonus_people [OF g(1)] by (auto intro: inviter_ok_later)
  from grant_referral_reward_step [OF g(2) this] s2 attach_step [of seen d] show ?thesis using bonus_step_trans by blast
qed

lemma insert_user_step:
  assumes "db_ok d" "\<forall>u \<in> set (users d). u_telegramUserId u \<noteq> tg" shows "bonus_step seen d (insert_user tg d)"
  by (rule bonus_step_aside [OF aside_insert_user [OF assms]]) (simp_all add: insert_user_def)

lemma upsert_user_step:
  assumes "upsert_user tg d = (x, d')" "db_ok d" shows "bonus_step seen d d'"
proof -
  have "d' = d \<or> (\<forall>u \<in> set (users d). u_telegramUserId u \<noteq> tg) \<and> d' = insert_user tg d"
    using assms(1) by (auto simp: upsert_user_def sql_first_None split: option.splits)
  then show ?thesis using insert_user_step [OF assms(2)] by auto
qed

lemma link_broker_account_step:
  assumes t: "link_broker_account hash (bonus_rules seen) tg tokens activate d = Inr (r, d')" and ok: "db_ok d"
  shows "bonus_step seen d d'"
  using t
proof (cases rule: link_broker_account_cases)
  case (blocked d1)
  then show ?thesis using upsert_user_step ok by blast
next
  case (taken uid d1 a)
  then show ?thesis using upsert_user_step ok by blast
next
  case (created uid d1 inviter x)
  let ?acc = "new_account hash tokens activate uid d1"
  let ?d2 = "d1\<lparr>accounts := accounts d1 @ [?acc], next_id := Suc (next_id d1)\<rparr>"
  have "progress d1 ?d2" using progress_refl [of d1] unfolding progress_def by auto
  then have "bonus_step seen d1 ?d2" by (intro bonus_step_frame) simp_all
  moreover have "bonus_step seen ?d2 d'"
  proof (rule credit_activation_step [OF created(4)])
    show "reference_ok (AccountReference (a_id ?acc)) uid ?d2" by (simp add: reference_ok_def new_account_def)
    show "inviter_ok inviter ?d2" using lock_referral_inviter_ok [OF created(2)]
      by (simp add: inviter_ok_def reference_ok_def split: referral_inviter.splits)
  qed
  ultimately show ?thesis using upsert_user_step [OF created(1) ok] bonus_step_trans by blast
next
  case (relogin uid d1 inviter a x)
  let ?f = "relinked hash tokens activate d1"
  let ?d2 = "d1\<lparr>accounts := sql_update (\<lambda>b. a_id b = a_id a) ?f (accounts d1)\<rparr>"
  have a2: "aside d1 ?d2"
    by (rule aside_accounts [OF aside_db_ok [OF upsert_user_aside(1) [OF relogin(1) ok]]]) (simp add: relinked_def)
  then have "bonus_step seen d1 ?d2" by (rule bonus_step_aside) simp_all
  moreover have "bonus_step seen ?d2 d'"
  proof (rule credit_activation_step [OF relogin(6)])
    have "reference_ok (AccountReference (a_id a)) uid d1" using relogin(3,5) by (auto simp: reference_ok_def)
    then show "reference_ok (AccountReference (a_id (?f a))) uid ?d2"
      using reference_ok_later [OF aside_progress [OF a2]] by (simp add: relinked_def)
    show "inviter_ok inviter ?d2" using lock_referral_inviter_ok [OF relogin(2)]
      by (simp add: inviter_ok_def reference_ok_def split: referral_inviter.splits)
  qed
  ultimately show ?thesis using upsert_user_step [OF relogin(1) ok] bonus_step_trans by blast
qed

lemma confirm_broker_account_step:
  assumes t: "confirm_broker_account (bonus_rules seen) tg accountId d = Inr (r, d')" and ok: "db_ok d"
  shows "bonus_step seen d d'"
  using t
proof (cases rule: confirm_broker_account_cases)
  case unchanged
  then show ?thesis by simp
next
  case (confirmed u a inviter g d3 h)
  let ?d1 = "d\<lparr>accounts := sql_update (\<lambda>b. a_id b = accountId) (\<lambda>b. b\<lparr>a_status := AActive\<rparr>) (accounts d)\<rparr>"
  let ?d2 = "attach_deposits_to_account accountId (u_id u) (a_brokerUserId a) ?d1"
  have a1: "aside d ?d1" by (rule aside_accounts [OF ok]) simp
  have s1: "bonus_step seen d ?d1" by (rule bonus_step_aside [OF a1]) simp_all
  have p: "progress d ?d2" using aside_progress [OF a1] unfolding attach_deposits_to_account_def progress_def by simp
  have same: "referrals ?d2 = referrals d" by (simp add: attach_deposits_to_account_def)
  have "reference_ok (AccountReference (a_id a)) (u_id u) d" using confirmed(5-7) by (auto simp: reference_ok_def)
  then have "reference_ok (AccountReference (a_id a)) (u_id u) ?d2" using reference_ok_later [OF p] same by simp
  from grant_link_bonus_step [OF confirmed(9) this] have s3: "bonus_step seen ?d2 d3" .
  have "inviter_ok inviter ?d2" using inviter_ok_later [OF p _ lock_referral_inviter_ok [OF confirmed(4)]] same by simp
  then have "inviter_ok inviter d3" using grant_link_bonus_people [OF confirmed(9)] by (auto intro: inviter_ok_later)
  from grant_referral_reward_step [OF confirmed(10) this] have s4: "bonus_step seen d3 d'" .
  show ?thesis by (rule bonus_step_trans [OF s1 bonus_step_trans [OF attach_step bonus_step_trans [OF s3 s4]]])
qed

lemma token_ops_step:
  assumes "db_ok d"
  shows "bonus_step seen d (apply_rotated_tokens hash a ts d)" "bonus_step seen d (backfill_refresh_token_hash a h d)"
    "bonus_step seen d (mark_access_token_expired a d)" "bonus_step seen d (revoke_account a reason d)"
    "bonus_step seen d (snd (revoke_account_if_unchanged a h0 reason d))"
proof -
  note same = apply_rotated_tokens_def backfill_refresh_token_hash_def mark_access_token_expired_def revoke_account_def
    revoke_account_if_unchanged_def set_account_def Let_def
  show "bonus_step seen d (apply_rotated_tokens hash a ts d)" by (rule bonus_step_aside [OF token_ops_aside(1) [OF assms]]) (simp_all add: same)
  show "bonus_step seen d (backfill_refresh_token_hash a h d)" by (rule bonus_step_aside [OF token_ops_aside(2) [OF assms]]) (simp_all add: same)
  show "bonus_step seen d (mark_access_token_expired a d)" by (rule bonus_step_aside [OF token_ops_aside(3) [OF assms]]) (simp_all add: same)
  show "bonus_step seen d (revoke_account a reason d)" by (rule bonus_step_aside [OF token_ops_aside(4) [OF assms]]) (simp_all add: same)
  show "bonus_step seen d (snd (revoke_account_if_unchanged a h0 reason d))"
    by (rule bonus_step_aside [OF token_ops_aside(5) [OF assms]]) (simp_all add: same split: option.split)
qed

lemma bonus_ok_referral:
  assumes ok: "bonus_ok d" and new: "\<forall>r \<in> set (referrals d). rf_inviteeUserId r \<noteq> iid" "known d iid" "known d inviter" "inviter \<noteq> iid"
  shows "bonus_ok (d\<lparr>referrals := referrals d @ [\<lparr>rf_id = next_id d, rf_inviteeUserId = iid, rf_inviterUserId = inviter\<rparr>],
      next_id := Suc (next_id d)\<rparr>)" (is "bonus_ok ?d")
proof -
  have r: "referrals_ok d" and ids: "\<forall>r \<in> set (referrals d). rf_id r \<noteq> next_id d" using ok by (auto simp: bonus_ok_def referrals_ok_def)
  have "referrals_ok ?d" using r ids new by (auto simp: referrals_ok_def unique_on_snoc key_conflict_iff known_def less_Suc_eq)
  moreover have "grant_ok ?d l" if "grant_ok d l" for l using that unfolding grant_ok_def by (cases "l_accountId l") auto
  ultimately show ?thesis using ok by (auto simp: bonus_ok_def rules_ok_def less_Suc_eq)
qed

lemma insert_referral_step:
  assumes "known d iid" shows "bonus_step seen d (snd (insert_referral code iid d))"
proof (cases "sql_first (\<lambda>(u, c). c = code \<and> u \<noteq> iid) (referral_codes d)")
  case None
  then show ?thesis by (simp add: insert_referral_def)
next
  case (Some x)
  obtain inviter c where x: "x = (inviter, c)" by (cases x)
  have m: "(inviter, c) \<in> set (referral_codes d)" "inviter \<noteq> iid" using sql_first_Some [OF Some] x by auto
  show ?thesis
  proof (cases "list_ex (\<lambda>r. rf_inviteeUserId r = iid) (referrals d)")
    case True
    then show ?thesis using Some x by (simp add: insert_referral_def)
  next
    case False
    let ?d = "d\<lparr>referrals := referrals d @ [\<lparr>rf_id = next_id d, rf_inviteeUserId = iid, rf_inviterUserId = inviter\<rparr>], next_id := Suc (next_id d)\<rparr>"
    have eq: "snd (insert_referral code iid d) = ?d" using Some x False by (simp add: insert_referral_def)
    have "bonus_ok ?d" if ok: "bonus_ok d"
      using False m assms ok by (intro bonus_ok_referral [OF ok]) (auto simp: list_ex_iff bonus_ok_def referrals_ok_def)
    moreover have "bonus_kept d ?d" unfolding bonus_kept_def by (auto intro: same_rule_refl deposit_after_refl)
    ultimately show ?thesis unfolding eq by (auto simp: bonus_step_def intro: deposits_ok_same)
  qed
qed

lemma record_user_start_step:
  assumes "record_user_start tg payload d = (s, d')" "db_ok d" shows "bonus_step seen d d'"
proof -
  have "known (insert_user tg d) (next_id d)" by (simp add: known_def insert_user_def new_user_def)
  then have "bonus_step seen (insert_user tg d) (snd (insert_referral code (next_id d) (insert_user tg d)))" for code
    by (rule insert_referral_step)
  then show ?thesis using record_user_start_cases [OF assms(1)] insert_user_step [OF assms(2)] bonus_step_trans bonus_step_refl by metis
qed

lemma insert_code_step:
  assumes "known d uid" shows "bonus_step seen d (insert_code uid c d)"
proof (cases "list_ex (\<lambda>(u, e). u = uid \<or> e = c) (referral_codes d)")
  case True
  then show ?thesis by (simp add: insert_code_def)
next
  case False
  let ?d = "d\<lparr>referral_codes := referral_codes d @ [(uid, c)]\<rparr>"
  have eq: "insert_code uid c d = ?d" using False by (simp add: insert_code_def)
  have free: "\<forall>(u, e) \<in> set (referral_codes d). u \<noteq> uid \<and> e \<noteq> c" using False by (auto simp: list_ex_iff)
  have "bonus_ok ?d" if ok: "bonus_ok d"
  proof -
    have "referrals_ok ?d" using ok assms free
      by (auto simp: bonus_ok_def referrals_ok_def unique_on_snoc key_conflict_iff known_def)
    moreover have "grant_ok ?d l" if "grant_ok d l" for l using that unfolding grant_ok_def by (cases "l_accountId l") auto
    ultimately show ?thesis using ok by (auto simp: bonus_ok_def)
  qed
  moreover have "bonus_kept d ?d" unfolding bonus_kept_def by (auto intro: same_rule_refl deposit_after_refl)
  ultimately show ?thesis unfolding eq by (auto simp: bonus_step_def intro: deposits_ok_same)
qed

lemma try_codes_step: "try_codes uid cs d = Inr (c, d') \<Longrightarrow> known d uid \<Longrightarrow> bonus_step seen d d'"
proof (induction cs arbitrary: d)
  case (Cons c cs)
  have a: "bonus_step seen d (insert_code uid c d)" by (rule insert_code_step [OF Cons.prems(2)])
  have k: "known (insert_code uid c d) uid" using Cons.prems(2) by (simp add: insert_code_def known_def)
  show ?case
  proof (cases "select_code uid (insert_code uid c d)")
    case None
    then show ?thesis using Cons.IH [OF _ k] Cons.prems(1) a bonus_step_trans by (auto simp: Let_def)
  next
    case (Some x)
    then show ?thesis using Cons.prems(1) a by (auto simp: Let_def)
  qed
qed simp

lemma read_user_referral_step:
  assumes "read_user_referral tg gen d = Inr (x, d')" shows "bonus_step seen d d'"
proof (cases "sql_first (\<lambda>u. u_telegramUserId u = tg) (users d)")
  case None
  then show ?thesis using assms by (simp add: read_user_referral_def)
next
  case (Some u)
  then have k: "known d (u_id u)" using sql_first_Some [OF Some] by (auto simp: known_def)
  have "d' = d \<or> (\<exists>c. try_codes (u_id u) (take REFERRAL_CODE_ATTEMPTS gen) d = Inr (c, d'))"
    using assms Some by (auto simp: read_user_referral_def code_of_def split: option.splits if_splits sum.splits prod.splits)
  then show ?thesis using try_codes_step [OF _ k] by auto
qed

lemma write_trading_mode_step:
  assumes "write_trading_mode p mode e d = (x, d')" "db_ok d" shows "bonus_step seen d d'"
  by (rule bonus_step_aside [OF write_trading_mode_aside [OF assms]])
    (use assms(1) in \<open>auto simp: write_trading_mode_def Let_def split: option.splits\<close>)

lemma set_trading_mode_step:
  assumes "set_trading_mode tg mode d = (x, d')" "db_ok d" shows "bonus_step seen d d'"
  using set_trading_mode_cases [OF assms(1)]
proof (elim disjE exE conjE)
  fix d1 assume "write_trading_mode (\<lambda>u. u_telegramUserId u = tg) mode None d = (None, d1)" "d' = d1"
  then show ?thesis using write_trading_mode_step assms(2) by blast
next
  fix uid d1 st d2
  assume w: "write_trading_mode (\<lambda>u. u_telegramUserId u = tg) mode None d = (Some uid, d1)" "stop_user_sessions tg d1 = (st, d2)"
    "d' = snd (mark_where (\<lambda>e. de_userId e = Some uid) Superseded d2)"
  have ok1: "db_ok d1" by (rule aside_db_ok [OF write_trading_mode_aside [OF w(1) assms(2)]])
  have d2: "d2 = d1\<lparr>sessions := sessions d2\<rparr>" using w(2) by (auto simp: stop_user_sessions_def stop_where_def Let_def)
  have "bonus_step seen d1 d2"
    by (rule bonus_step_aside [OF aside_sessions [OF ok1 StopUser [OF w(2)]]]) (subst d2, simp)+
  then show ?thesis unfolding w(3) using write_trading_mode_step [OF w(1) assms(2)] mark_where_step bonus_step_trans by blast
qed

lemma switch_on_deposit_step:
  assumes "switch_trading_mode_on_deposit seen' eid demoOnly d = Inr (x, d')" "db_ok d" shows "bonus_step seen d d'"
  using switch_on_deposit_cases [OF assms(1)]
proof (elim disjE exE conjE)
  fix outcome uid v d1
  assume w: "write_trading_mode (\<lambda>u. u_id u = uid) Real (Some eid) d = (Some v, d1)" "d' = snd (mark_where (\<lambda>e. de_id e = eid) outcome d1)"
  show ?thesis unfolding w(2) using write_trading_mode_step [OF w(1) assms(2)] mark_where_step bonus_step_trans by blast
qed (simp_all add: mark_where_step)

text \<open>Rows appended to the deposits and the deliveries.\<close>

lemma appended_step:
  assumes "bonus_rules d' = bonus_rules d" "referrals d' = referrals d" "referral_codes d' = referral_codes d"
    "token_ledger d' = token_ledger d" "next_id d \<le> next_id d'" "users d' = users d" "accounts d' = accounts d" "intents d' = intents d"
    "set (deposits d) \<subseteq> set (deposits d')" "set (deliveries d) \<subseteq> set (deliveries d')" "deposits_ok d \<Longrightarrow> deposits_ok d'"
  shows "bonus_step seen d d'"
proof -
  have "progress d d' = progress d d" using assms unfolding progress_def by simp
  then have "bonus_ok d \<Longrightarrow> bonus_ok d'" using assms by (auto intro: bonus_ok_frame)
  moreover have "bonus_kept d d'" using assms unfolding bonus_kept_def by (auto intro: same_rule_refl deposit_after_refl)
  ultimately show ?thesis using assms(11) by (simp add: bonus_step_def)
qed

lemma journaled_key: "journaled pid d \<longleftrightarrow> (\<exists>v \<in> set (deliveries d). journal_key v = Some pid)"
  by (auto simp: journaled_def journal_key_def list_ex_iff)

lemma rejected_delivery_ok: "deposits_ok d \<Longrightarrow> deposits_ok (insert_delivery (rejected_delivery reason pid ev vid) d)"
  by (auto simp: deposits_ok_def insert_delivery_def rejected_delivery_def unique_on_snoc key_conflict_iff journal_key_def less_Suc_eq)

lemma deposit_delivery_ok:
  assumes "deposits_ok d" "\<not> journaled (pb_postbackId p) d" "e \<in> set (deposits d)" "de_id e = did" "outcome \<noteq> DeliveryRejected"
  shows "deposits_ok (insert_delivery (deposit_delivery p outcome did vid) d)"
proof -
  have k: "journal_key (deposit_delivery p outcome did vid) = Some (pb_postbackId p)"
    using assms(5) by (simp add: journal_key_def deposit_delivery_def)
  then have "unique_on journal_key (deliveries d @ [deposit_delivery p outcome did vid])"
    using assms(1,2) by (auto simp: deposits_ok_def unique_on_snoc key_conflict_iff journaled_key)
  then show ?thesis using assms by (auto simp: deposits_ok_def insert_delivery_def deposit_delivery_def less_Suc_eq)
qed

lemma new_deposit_ok:
  assumes "deposits_ok d" "\<forall>e \<in> set (deposits d). de_paymentId e \<noteq> pb_paymentId p"
  shows "deposits_ok (d\<lparr>deposits := deposits d @ [new_deposit p d], next_id := next_id d + 1\<rparr>)"
  using assms by (auto simp: deposits_ok_def new_deposit_def unique_on_snoc key_conflict_iff less_Suc_eq)

lemma record_postback_step:
  assumes "record_postback seen' query d = (r, d')" shows "bonus_step seen d d'"
proof -
  have one: "bonus_step seen d (insert_delivery v d)" if "deposits_ok d \<Longrightarrow> deposits_ok (insert_delivery v d)" for v
    by (rule appended_step) (use that in \<open>auto simp: insert_delivery_def\<close>)
  from record_postback_cases [OF assms] show ?thesis
  proof (elim disjE exE conjE)
    fix p
    let ?d = "d\<lparr>deposits := deposits d @ [new_deposit p d], next_id := next_id d + 1\<rparr>"
    let ?v = "deposit_delivery p DepositRecorded (next_id d) (Suc (next_id d))"
    assume p: "\<not> journaled (pb_postbackId p) d" "\<forall>e \<in> set (deposits d). de_paymentId e \<noteq> pb_paymentId p"
      and d': "d' = insert_delivery ?v ?d"
    have "deposits_ok d'" if "deposits_ok d" unfolding d'
      by (rule deposit_delivery_ok [OF new_deposit_ok [OF that p(2)], where e = "new_deposit p d"])
        (use p(1) in \<open>simp_all add: journaled_def new_deposit_def\<close>)
    then show ?thesis by (intro appended_step) (use d' in \<open>auto simp: insert_delivery_def\<close>)
  next
    fix reason pid ev assume d': "d' = insert_delivery (rejected_delivery reason pid ev (next_id d)) d"
    show ?thesis unfolding d' by (rule one [OF rejected_delivery_ok])
  next
    fix p e a t
    assume e: "\<not> journaled (pb_postbackId p) d" "e \<in> set (deposits d)"
      and d': "d' = insert_delivery (deposit_delivery p DepositRepeated (de_id e) (next_id d)) d"
    show ?thesis unfolding d' by (rule one) (rule deposit_delivery_ok [OF _ e refl], simp_all)
  qed simp
qed

section \<open>The rules' writers\<close>

lemma bonus_step_rules:
  assumes "rules_ok (bonus_rules d) (next_id d) \<Longrightarrow> rules_ok rs n" "\<forall>r \<in> set (bonus_rules d). \<exists>r' \<in> set rs. same_rule r r'"
    "next_id d \<le> n"
  shows "bonus_step seen d (d\<lparr>bonus_rules := rs, next_id := n, audit_log := al\<rparr>)"
proof -
  let ?d = "d\<lparr>bonus_rules := rs, next_id := n, audit_log := al\<rparr>"
  have "progress d ?d = progress d d" unfolding progress_def by simp
  then have p: "progress d ?d" by simp
  have k: "bonus_kept d ?d" using assms(2) unfolding bonus_kept_def by (auto intro: deposit_after_refl)
  have "bonus_ok ?d" if ok: "bonus_ok d"
  proof -
    have "referrals_ok ?d" using ok assms(3) by (auto simp: bonus_ok_def referrals_ok_def known_def)
    moreover have "grant_ok ?d l" if "l \<in> set (token_ledger d)" "is_grant l" for l
      using grant_ok_later [OF k p] ok that by (simp add: bonus_ok_def)
    ultimately show ?thesis using ok assms(1) by (simp add: bonus_ok_def)
  qed
  moreover have "deposits_ok d \<Longrightarrow> deposits_ok ?d" using assms(3) by (auto intro: deposits_ok_same)
  ultimately show ?thesis using k by (simp add: bonus_step_def)
qed

lemma last_is_max:
  assumes "r \<in> set (lock_code code d)" shows "br_version r \<le> br_version (last (lock_code code d))"
proof -
  let ?rs = "lock_code code d"
  have "sorted (map br_version ?rs)" by (simp add: lock_code_def)
  moreover obtain i where i: "i < length ?rs" "r = ?rs ! i" using assms by (metis in_set_conv_nth)
  ultimately have "br_version (?rs ! i) \<le> br_version (?rs ! (length ?rs - 1))"
    using sorted_nth_mono [of "map br_version ?rs" i "length ?rs - 1"] by simp
  moreover have "?rs \<noteq> []" using assms by auto
  ultimately show ?thesis using i by (simp add: last_conv_nth)
qed

lemma version_is_new:
  assumes "r \<in> set (bonus_rules d)" "br_code r = code" shows "br_version r < next_version (lock_code code d)"
proof -
  have "r \<in> set (lock_code code d)" using assms by (simp add: lock_code_def)
  then show ?thesis using last_is_max by (fastforce simp: next_version_def)
qed

lemma create_rule_step:
  assumes "create_bonus_rule_version code kind params d = (x, d')" shows "bonus_step seen d d'"
proof -
  have "d' = d \<or> (\<exists>row al. d' = d\<lparr>bonus_rules := bonus_rules d @ [row], next_id := next_id d + 1, audit_log := al\<rparr>
      \<and> br_id row = next_id d \<and> br_code row = code \<and> br_version row = next_version (lock_code code d) \<and> \<not> br_isActive row)"
    using assms by (auto simp: create_bonus_rule_version_def Let_def split: option.splits if_splits)
  then show ?thesis
  proof (elim disjE exE conjE)
    fix row al
    assume d': "d' = d\<lparr>bonus_rules := bonus_rules d @ [row], next_id := next_id d + 1, audit_log := al\<rparr>"
      and row: "br_id row = next_id d" "br_code row = code" "br_version row = next_version (lock_code code d)" "\<not> br_isActive row"
    have "rules_ok (bonus_rules d @ [row]) (next_id d + 1)" if "rules_ok (bonus_rules d) (next_id d)"
      using that row version_is_new
      by (fastforce simp: rules_ok_def unique_on_snoc key_conflict_iff active_code_key_def less_Suc_eq)
    then show ?thesis unfolding d' by (rule bonus_step_rules) (auto intro: same_rule_refl)
  qed simp
qed

lemma rules_ok_deactivate:
  "rules_ok rs nid \<Longrightarrow> rules_ok (sql_update p (\<lambda>r. r\<lparr>br_isActive := False\<rparr>) rs) nid"
  by (auto simp: rules_ok_def ball_sql_update active_code_key_def intro!: unique_on_update)

lemma same_rule_update:
  assumes "r \<in> set rs" shows "\<exists>r' \<in> set (sql_update p (\<lambda>r. r\<lparr>br_isActive := b\<rparr>) rs). same_rule r r'"
  using assms unfolding bex_sql_update by (intro bexI [of _ r]) (simp_all add: same_rule_def)

lemma rules_ok_activate:
  assumes ok: "rules_ok rs nid" and t: "t \<in> set rs" and free: "\<forall>r \<in> set rs. br_code r = br_code t \<longrightarrow> \<not> br_isActive r"
  shows "rules_ok (sql_update (\<lambda>r. br_id r = br_id t) (\<lambda>r. r\<lparr>br_isActive := True\<rparr>) rs) nid"
proof -
  have u: "unique_on (\<lambda>r. Some (br_id r)) rs" using ok by (simp add: rules_ok_def)
  have one: "r = t" if "r \<in> set rs" "br_id r = br_id t" for r using unique_on_same [OF u that(1) t] that(2) by simp
  have "unique_on active_code_key (sql_update (\<lambda>r. br_id r = br_id t) (\<lambda>r. r\<lparr>br_isActive := True\<rparr>) rs)"
    using ok t free one
  proof -
    let ?us = "sql_update (\<lambda>r. br_id r = br_id t) (\<lambda>r. r\<lparr>br_isActive := True\<rparr>)"
    have "unique_on active_code_key (?us xs)"
      if "unique_on active_code_key xs" "set xs \<subseteq> set rs" "unique_on (\<lambda>r. Some (br_id r)) xs" for xs
      using that
    proof (induction xs)
      case (Cons r xs)
      have ih: "unique_on active_code_key (?us xs)" using Cons by (simp add: unique_on_Cons)
      have "\<not> key_conflict active_code_key (if br_id r = br_id t then r\<lparr>br_isActive := True\<rparr> else r) (?us xs)"
      proof
        assume "key_conflict active_code_key (if br_id r = br_id t then r\<lparr>br_isActive := True\<rparr> else r) (?us xs)"
        then obtain x where x: "x \<in> set xs"
          "active_code_key (if br_id x = br_id t then x\<lparr>br_isActive := True\<rparr> else x) = active_code_key (if br_id r = br_id t then r\<lparr>br_isActive := True\<rparr> else r)"
          "active_code_key (if br_id r = br_id t then r\<lparr>br_isActive := True\<rparr> else r) \<noteq> None"
          by (auto simp: key_conflict_iff sql_update_def)
        have mem: "x \<in> set rs" "r \<in> set rs" using x(1) Cons.prems(2) by auto
        have ne: "br_id x \<noteq> br_id r" using Cons.prems(3) x(1) by (auto simp: unique_on_Cons key_conflict_iff)
        show False
        proof (cases "br_id r = br_id t")
          case True
          then have "r = t" using one mem by blast
          then have "br_isActive x" "br_code x = br_code t" using x(2) ne True by (auto simp: active_code_key_def split: if_splits)
          then show False using free mem(1) by blast
        next
          case r: False
          show False
          proof (cases "br_id x = br_id t")
            case True
            then have "x = t" using one mem by blast
            then have "br_isActive r" "br_code r = br_code t" using x(2,3) ne True r by (auto simp: active_code_key_def split: if_splits)
            then show False using free mem(2) by blast
          next
            case False
            then have "active_code_key x = active_code_key r" "active_code_key r \<noteq> None" using x(2,3) r by simp_all
            then show False using Cons.prems(1) x(1) by (auto simp: unique_on_Cons key_conflict_iff)
          qed
        qed
      qed
      then show ?case using ih by (simp add: sql_update_def unique_on_Cons)
    qed (simp add: sql_update_def)
    then show ?thesis using ok by (simp add: rules_ok_def)
  qed
  then show ?thesis using ok by (auto simp: rules_ok_def ball_sql_update intro!: unique_on_update)
qed

lemma set_active_step:
  assumes "\<not> b" shows "bonus_step seen d ((set_active rid b d)\<lparr>audit_log := al\<rparr>)"
proof -
  have "bonus_step seen d (d\<lparr>bonus_rules := sql_update (\<lambda>r. br_id r = rid) (\<lambda>r. r\<lparr>br_isActive := b\<rparr>) (bonus_rules d),
      next_id := next_id d, audit_log := al\<rparr>)"
    using assms rules_ok_deactivate same_rule_update by (intro bonus_step_rules) auto
  then show ?thesis by (simp add: set_active_def)
qed

lemma deactivate_rule_step:
  assumes "deactivate_bonus_rule code d = (x, d')" shows "bonus_step seen d d'"
proof -
  have "d' = d \<or> (\<exists>rid al. d' = (set_active rid False d)\<lparr>audit_log := al\<rparr>)"
    using assms by (auto simp: deactivate_bonus_rule_def Let_def split: option.splits if_splits)
  then show ?thesis
  proof (elim disjE exE)
    fix rid al assume d': "d' = (set_active rid False d)\<lparr>audit_log := al\<rparr>"
    show ?thesis unfolding d' by (rule set_active_step) simp
  qed simp
qed

lemma activate_rule_step:
  assumes "activate_bonus_rule_version code version d = (x, d')" shows "bonus_step seen d d'"
proof (cases "d' = d")
  case False
  let ?rows = "lock_code code d"
  obtain t where t: "sql_first (\<lambda>r. br_version r = version) ?rows = Some t"
    using assms False by (auto simp: activate_bonus_rule_version_def Let_def split: option.splits)
  have tm: "t \<in> set (bonus_rules d)" "br_code t = code" using sql_first_Some [OF t] by (auto simp: lock_code_def)
  let ?off = "\<lambda>rs. case sql_first br_isActive ?rows of None \<Rightarrow> rs
      | Some c \<Rightarrow> sql_update (\<lambda>r. br_id r = br_id c) (\<lambda>r. r\<lparr>br_isActive := False\<rparr>) rs"
  let ?rs = "sql_update (\<lambda>r. br_id r = br_id t) (\<lambda>r. r\<lparr>br_isActive := True\<rparr>) (?off (bonus_rules d))"
  have "\<exists>al. d' = d\<lparr>bonus_rules := ?rs, audit_log := al\<rparr>"
    using assms t False by (auto simp: activate_bonus_rule_version_def Let_def set_active_def split: if_splits option.splits)
  then obtain al where d': "d' = d\<lparr>bonus_rules := ?rs, next_id := next_id d, audit_log := al\<rparr>" by auto
  have "rules_ok ?rs (next_id d)" if ok: "rules_ok (bonus_rules d) (next_id d)"
  proof -
    have off: "rules_ok (?off (bonus_rules d)) (next_id d)" using ok rules_ok_deactivate by (simp split: option.split)
    have free: "\<not> br_isActive r" if "r \<in> set (?off (bonus_rules d))" "br_code r = code" for r
    proof (cases "sql_first br_isActive ?rows")
      case None
      have "r \<in> set (bonus_rules d)" using that(1) None by simp
      then show ?thesis using None that(2) by (auto simp: sql_first_None lock_code_def)
    next
      case (Some c)
      have c: "c \<in> set (bonus_rules d)" "br_code c = code" "br_isActive c" using sql_first_Some [OF Some] by (auto simp: lock_code_def)
      obtain q where q: "q \<in> set (bonus_rules d)" "r = (if br_id q = br_id c then q\<lparr>br_isActive := False\<rparr> else q)"
        using \<open>r \<in> set (?off (bonus_rules d))\<close> Some by (auto simp: sql_update_def)
      show ?thesis
      proof
        assume a: "br_isActive r"
        then have "q = r" "br_id q \<noteq> br_id c" using q(2) by (auto split: if_splits)
        moreover have "unique_on active_code_key (bonus_rules d)" using ok by (simp add: rules_ok_def)
        ultimately show False
          using unique_on_same [of active_code_key "bonus_rules d" q c code] a q(1) c \<open>br_code r = code\<close> by (simp add: active_code_key_def)
      qed
    qed
    obtain t' where t': "t' \<in> set (?off (bonus_rules d))" "br_id t' = br_id t" "br_code t' = code"
    proof (cases "sql_first br_isActive ?rows")
      case None
      then show ?thesis using that [of t] tm by simp
    next
      case (Some c)
      then show ?thesis using that [of "if br_id t = br_id c then t\<lparr>br_isActive := False\<rparr> else t"] tm by (auto simp: sql_update_def)
    qed
    have "rules_ok (sql_update (\<lambda>r. br_id r = br_id t') (\<lambda>r. r\<lparr>br_isActive := True\<rparr>) (?off (bonus_rules d))) (next_id d)"
      using free t'(3) by (intro rules_ok_activate [OF off t'(1)]) auto
    then show ?thesis unfolding t'(2) .
  qed
  moreover have "\<exists>r' \<in> set ?rs. same_rule r r'" if r: "r \<in> set (bonus_rules d)" for r
  proof -
    have "\<exists>q \<in> set (?off (bonus_rules d)). same_rule r q"
      using same_rule_update [OF r] r by (cases "sql_first br_isActive ?rows") (auto intro: same_rule_refl)
    then obtain q where q: "q \<in> set (?off (bonus_rules d))" "same_rule r q" by blast
    obtain r' where "r' \<in> set ?rs" "same_rule q r'"
      using same_rule_update [OF q(1), of "\<lambda>r. br_id r = br_id t" True] by blast
    then show ?thesis using same_rule_trans [OF q(2)] by blast
  qed
  ultimately show ?thesis unfolding d' by (intro bonus_step_rules) auto
qed simp

lemma account_change_step:
  assumes "account_change seen d d'" "db_ok d" shows "bonus_step seen d d'"
  using assms(1)
proof (cases rule: account_change.cases)
  case (RevokeUnchanged accountId refreshHash reason rv)
  then show ?thesis using token_ops_step(5) [OF assms(2), of seen accountId refreshHash reason] by simp
qed (use assms(2) in \<open>blast intro: link_broker_account_step confirm_broker_account_step token_ops_step record_user_start_step
      read_user_referral_step set_trading_mode_step switch_on_deposit_step record_postback_step create_rule_step
      activate_rule_step deactivate_rule_step\<close>)+

end
