(* ===== verification/Grants.thy ===== *)
theory Grants
  imports Payments Bonus_Safe
begin

text \<open>
  What the bonus rules, the referrals and the deposits guarantee along any run of the platform: one
  starter pack per user, one reward per referral, both as the version they name says; versions never
  rewritten; a payment one deposit, a deposit one switch of the mode; who may make an account active.
\<close>

section \<open>The grants' invariant along a run\<close>

definition same_grants :: "'p db \<Rightarrow> 'p db \<Rightarrow> bool" where
  "same_grants d d' \<longleftrightarrow> bonus_rules d' = bonus_rules d \<and> referrals d' = referrals d \<and> referral_codes d' = referral_codes d
     \<and> deposits d' = deposits d \<and> deliveries d' = deliveries d
     \<and> filter is_grant (token_ledger d') = filter is_grant (token_ledger d) \<and> next_id d \<le> next_id d'"

lemma same_grants_refl [simp]: "same_grants d d"
  by (simp add: same_grants_def)

lemma same_grants_step: "same_grants d d' \<Longrightarrow> progress d d' \<Longrightarrow> bonus_step seen d d'"
  by (rule bonus_step_frame) (simp_all add: same_grants_def)

lemma same_treasury_grants: "same_treasury d d' \<Longrightarrow> same_grants d d'"
  unfolding same_treasury_def same_grants_def
  by (intro conjI) (auto elim!: filter_filter_eq simp: refers_def is_grant_def)

lemma star_row_no_grant [simp]: "\<not> is_grant (star_ledger_row p k x t)"
  by (simp add: is_grant_def star_ledger_row_def)

lemma credit_star_payment_grants:
  assumes "credit_star_payment payment d = Inr (c, d')" shows "same_grants d d'"
  using credit_star_payment_cases [OF assms] by (auto simp: same_grants_def recorded_in_def)

lemma record_star_refund_grants:
  assumes "record_star_refund chargeId receiver d = Inr (r, d')" shows "same_grants d d'"
proof (cases "sql_first (\<lambda>p. sp_chargeId p = chargeId) (star_payments d)")
  case None
  then show ?thesis using assms by (auto simp: record_star_refund_def)
next
  case (Some p)
  note p = Some
  show ?thesis
  proof (cases "sql_first (\<lambda>u. u_id u = sp_userId p) (users d)")
    case None
    then show ?thesis using assms p by (simp add: record_star_refund_def)
  next
    case (Some v)
    from refund_shape [OF assms p Some] show ?thesis
    proof (elim disjE exE conjE)
      fix k ps d1 w
      assume i: "insert_ledger (star_ledger_row p LRefund (- k) (now d)) d = Inr d1"
        and d': "d' = d1\<lparr>users := sql_update (\<lambda>u. u_id u = sp_userId p \<and> u_tokenReserved u \<le> u_tokenBalance u - k)
            (\<lambda>u. u\<lparr>u_tokenBalance := u_tokenBalance u - k\<rparr>) (users d1), star_payments := ps\<rparr>"
      have "d1 = d\<lparr>token_ledger := token_ledger d @ [star_ledger_row p LRefund (- k) (now d)]\<rparr>"
        using i by (simp add: insert_ledger_def split: if_splits)
      then show ?thesis unfolding d' by (simp add: same_grants_def)
    qed (auto simp: same_grants_def)
  qed
qed

lemma same_grants_audit: "same_grants d d' \<Longrightarrow> same_grants d (d'\<lparr>audit_log := al\<rparr>)"
  by (simp add: same_grants_def)

lemma star_change_grants:
  assumes "star_change d d'" shows "same_grants d d'"
  using assms
proof (cases rule: star_change.cases)
  case (CreditStars payment c)
  then show ?thesis by (rule credit_star_payment_grants)
next
  case (RefundBySystem chargeId receiver r)
  then obtain r1 d1 al where r: "record_star_refund chargeId receiver d = Inr (r1, d1)" "d' = d1 \<or> d' = d1\<lparr>audit_log := al\<rparr>"
    by (auto simp: record_star_refund_by_system_def split: sum.splits prod.splits star_refund.splits)
  show ?thesis using record_star_refund_grants [OF r(1)] r(2) same_grants_audit by blast
next
  case (RefundByStaff chargeId answered staffId r)
  then obtain r1 d1 al where r: "record_star_refund chargeId None d = Inr (r1, d1)" "d' = d1 \<or> d' = d1\<lparr>audit_log := al\<rparr>"
    by (auto simp: record_star_refund_by_staff_def split: sum.splits prod.splits star_refund.splits if_splits)
  show ?thesis using record_star_refund_grants [OF r(1)] r(2) same_grants_audit by blast
next
  case (RefundAttempt staffId result pid)
  then show ?thesis by (simp add: record_star_refund_attempt_by_staff_def same_grants_def)
next
  case (AskRefund telegramUserId pid q)
  then show ?thesis
    by (auto simp: request_star_refund_def Let_def same_grants_def split: option.splits if_splits)
qed

lemma change_step: "change d d' \<Longrightarrow> db_ok d \<Longrightarrow> bonus_step seen d d'"
  using change_treasury [of d d'] same_treasury_grants star_change_grants same_grants_step change_progress by blast

lemma platform_step_bonus:
  assumes "platform_step h h'" "history_ok h"
  shows "\<exists>d d' rest seen. h = d # rest \<and> h' = d' # d # rest \<and> seen \<in> set h \<and> bonus_step seen d d'"
  using assms(1)
proof (cases rule: platform_step.cases)
  case (Commit d d' rest)
  then have "db_ok d" using assms(2) by (simp add: history_ok_def)
  then have "bonus_step d d d'" by (rule change_step [OF Commit(3)])
  then show ?thesis using Commit by auto
next
  case (Create seen d rest input session opts res d')
  then have h: "db_ok d" "later seen d" "db_ok seen" using assms(2) by (auto simp: history_ok_def)
  from create_change [OF h(1-3) Create(4)] have "progress d d'" by (simp add: laterD)
  then have "bonus_step d d d'"
    using same_grants_step same_treasury_grants create_treasury [OF h(1) laterD(1) [OF h(2)] h(3) Create(4)] by blast
  then show ?thesis using Create by auto
next
  case (StartSession seen d rest started demoOnly created d')
  then have ok: "db_ok d" using assms(2) by (simp add: history_ok_def)
  have "progress d d'" using platform_step_newest [OF assms(1,2)] StartSession(1,2) by (auto dest: laterD(1))
  then have "bonus_step d d d'"
    using same_grants_step same_treasury_grants create_trading_session_treasury [OF ok StartSession(4)] by blast
  then show ?thesis using StartSession by auto
next
  case (Account seen d rest d')
  then have "db_ok d" using assms(2) by (simp add: history_ok_def)
  then have "bonus_step seen d d'" by (rule account_change_step [OF Account(4)])
  then show ?thesis using Account by blast
qed

definition grants_ok :: "'p db list \<Rightarrow> bool" where
  "grants_ok h \<longleftrightarrow> history_ok h \<and> (\<forall>d \<in> set h. bonus_ok d \<and> deposits_ok d \<and> bonus_kept d (hd h))"

definition grants_below :: "'p db list \<Rightarrow> 'p db list \<Rightarrow> bool" where
  "grants_below h h' \<longleftrightarrow> bonus_kept (hd h) (hd h')"

interpretation grants: ordered_machine platform_step grants_ok grants_below
proof unfold_locales
  fix h h' :: "'p db list"
  assume s: "platform_step h h'" "grants_ok h"
  then have ok: "history_ok h" "\<forall>d \<in> set h. bonus_ok d \<and> deposits_ok d \<and> bonus_kept d (hd h)" by (simp_all add: grants_ok_def)
  from platform_step_bonus [OF s(1) ok(1)] obtain d d' rest seen where
    n: "h = d # rest" "h' = d' # d # rest" "seen \<in> set h" "bonus_step seen d d'" by blast
  have "bonus_ok d" "deposits_ok d" "bonus_kept seen d" using ok(2) n(1,3) by auto
  then have d': "bonus_ok d'" "deposits_ok d'" "bonus_kept d d'" using n(4) by (simp_all add: bonus_step_def)
  then have "bonus_kept e d'" if "e \<in> set h" for e using ok(2) n(1) that bonus_kept_trans by auto
  then show "grants_ok h'" using platform.step_inv [OF s(1) ok(1)] ok(2) d' n(1,2) by (auto simp: grants_ok_def)
  show "grants_below h h'" using d'(3) n(1,2) by (simp add: grants_below_def)
next
  fix s t u :: "'p db list"
  show "grants_below s s" by (simp add: grants_below_def)
  assume "grants_below s t" "grants_below t u"
  then show "grants_below s u" unfolding grants_below_def by (rule bonus_kept_trans)
qed

lemma grants_start: "db_ok d0 \<Longrightarrow> bonus_ok d0 \<Longrightarrow> deposits_ok d0 \<Longrightarrow> grants_ok [d0]"
  by (simp add: grants_ok_def)

text \<open>What holds of a state the platform reaches, and of any two of them in turn.\<close>

lemma run_grants:
  assumes "platform_step\<^sup>*\<^sup>* [d0] (d # h)" "db_ok d0" "bonus_ok d0" "deposits_ok d0"
  shows "db_ok d" "bonus_ok d" "deposits_ok d" "seen \<in> set (d # h) \<Longrightarrow> bonus_kept seen d"
  using grants.run_inv [OF assms(1) grants_start [OF assms(2-4)]] by (auto simp: grants_ok_def history_ok_def)

lemma run_kept_since:
  assumes "platform_step\<^sup>*\<^sup>* [d0] (d1 # h)" "db_ok d0" "bonus_ok d0" "deposits_ok d0" "platform_step\<^sup>*\<^sup>* (d1 # h) (d # h')"
  shows "bonus_kept d1 d"
  using grants.run_below [OF assms(5) grants.run_inv [OF assms(1) grants_start [OF assms(2-4)]]] by (simp add: grants_below_def)

end
