(* ===== verification/Rewards.thy ===== *)
theory Rewards
  imports Grants
begin

text \<open>
  The properties of the grants: one starter pack a user, one reward a referral, each as the version it
  names says; versions that are never rewritten; what a confirmation changes and pays, what a login
  does not confirm, and that neither can fail but on a rule that cannot be applied.
\<close>

section \<open>One pack, one reward\<close>

lemma unique_on_length:
  assumes "unique_on key xs" "\<And>x. x \<in> set xs \<Longrightarrow> p x \<Longrightarrow> key x = Some k" shows "length (filter p xs) \<le> 1"
  using assms
proof (induction xs)
  case (Cons x xs)
  have ih: "length (filter p xs) \<le> 1" using Cons by (simp add: unique_on_Cons)
  show ?case
  proof (cases "p x")
    case True
    have "filter p xs = []" using True Cons.prems by (auto simp: filter_empty_conv unique_on_Cons key_conflict_iff)
    then show ?thesis by simp
  qed (use ih in simp)
qed simp

lemma grant_row:
  assumes "bonus_ok d" "l \<in> set (token_ledger d)"
  shows "l_accountId l \<noteq> None \<Longrightarrow> l_kind l = LBonus \<and> l_referralId l = None" "is_grant l \<Longrightarrow> grant_ok d l"
proof -
  show g: "is_grant l \<Longrightarrow> grant_ok d l" using assms by (simp add: bonus_ok_def)
  show "l_accountId l \<noteq> None \<Longrightarrow> l_kind l = LBonus \<and> l_referralId l = None"
    using g by (auto simp: is_grant_def grant_ok_def)
qed

text \<open>
  C9: A user gets the starter pack once, over all accounts and re-logins, and a referral is rewarded
  once: in every reachable state the ledger has at most one pack row per user and one row per
  referral. Each such row pays what the rule version it names says, of the kind its reference calls
  for; a pack goes to the owner of its account, a reward to the inviter and never to the invitee.
\<close>

theorem one_pack_one_reward:
  assumes "platform_step\<^sup>*\<^sup>* [d0] (d # h)" "db_ok d0" "bonus_ok d0" "deposits_ok d0"
    "l \<in> set (token_ledger d)" "l_accountId l \<noteq> None \<or> l_referralId l \<noteq> None"
  shows "length (filter (\<lambda>x. l_userId x = u \<and> l_accountId x \<noteq> None) (token_ledger d)) \<le> 1
    \<and> length (filter (\<lambda>x. l_referralId x = Some rid) (token_ledger d)) \<le> 1
    \<and> (\<exists>r \<in> set (bonus_rules d). l_bonusRule l = Some (br_id r, br_kind r)
          \<and> parse_bonus_rule_params (br_kind r) (br_params r) = Some (FixedTokens (l_balanceDelta l))
          \<and> ((\<exists>a \<in> set (accounts d). l_accountId l = Some (a_id a) \<and> l_userId l = a_userId a \<and> br_kind r = LinkBonusRule)
             \<or> (\<exists>f \<in> set (referrals d). l_referralId l = Some (rf_id f) \<and> l_userId l = rf_inviterUserId f
                   \<and> l_userId l \<noteq> rf_inviteeUserId f \<and> br_kind r = ReferralRewardRule)))"
proof (intro conjI)
  note ok = run_grants(2) [OF assms(1-4)]
  have "unique_on link_bonus_user_key (token_ledger d)" "unique_on referral_key (token_ledger d)" using ok by (simp_all add: bonus_ok_def)
  note u = this
  have k: "link_bonus_user_key x = Some u" if "x \<in> set (token_ledger d)" "l_userId x = u \<and> l_accountId x \<noteq> None" for x
    using grant_row(1) [OF ok that(1)] that(2) by (simp add: link_bonus_user_key_def)
  show "length (filter (\<lambda>x. l_userId x = u \<and> l_accountId x \<noteq> None) (token_ledger d)) \<le> 1" by (rule unique_on_length [OF u(1) k])
  show "length (filter (\<lambda>x. l_referralId x = Some rid) (token_ledger d)) \<le> 1"
    by (rule unique_on_length [OF u(2)]) (simp add: referral_key_def)
  have g: "grant_ok d l" using grant_row(2) [OF ok assms(5)] assms(6) by (simp add: is_grant_def)
  have rf: "\<forall>f \<in> set (referrals d). rf_inviteeUserId f \<noteq> rf_inviterUserId f" using ok by (auto simp: bonus_ok_def referrals_ok_def)
  show "\<exists>r \<in> set (bonus_rules d). l_bonusRule l = Some (br_id r, br_kind r)
          \<and> parse_bonus_rule_params (br_kind r) (br_params r) = Some (FixedTokens (l_balanceDelta l))
          \<and> ((\<exists>a \<in> set (accounts d). l_accountId l = Some (a_id a) \<and> l_userId l = a_userId a \<and> br_kind r = LinkBonusRule)
             \<or> (\<exists>f \<in> set (referrals d). l_referralId l = Some (rf_id f) \<and> l_userId l = rf_inviterUserId f
                   \<and> l_userId l \<noteq> rf_inviteeUserId f \<and> br_kind r = ReferralRewardRule))"
  proof (cases "l_accountId l")
    case None
    then obtain f where f: "f \<in> set (referrals d)" "l_referralId l = Some (rf_id f)" "rf_inviterUserId f = l_userId l"
      and p: "pays (bonus_rules d) ReferralRewardRule l" using g by (auto simp: grant_ok_def)
    have "\<exists>f \<in> set (referrals d). l_referralId l = Some (rf_id f) \<and> l_userId l = rf_inviterUserId f \<and> l_userId l \<noteq> rf_inviteeUserId f"
      using f rf by (intro bexI [of _ f]) auto
    then show ?thesis using p unfolding pays_def by metis
  next
    case (Some a)
    then obtain acc where "acc \<in> set (accounts d)" "l_accountId l = Some (a_id acc)" "l_userId l = a_userId acc"
      and p: "pays (bonus_rules d) LinkBonusRule l" using g by (auto simp: grant_ok_def)
    then show ?thesis unfolding pays_def by metis
  qed
qed

section \<open>The rules\<close>

text \<open>
  A rule's version is never rewritten and the rule in force is one: whatever the operator writes
  and the platform does between two reachable states, each version of the first is in the second with
  its code, number, kind and parameters; no two versions of a code share a number, and at most one is
  active. What a grant was paid by can therefore always be read back from the version it names.
\<close>

theorem rule_versions_frozen:
  assumes "platform_step\<^sup>*\<^sup>* [d0] (d1 # h)" "db_ok d0" "bonus_ok d0" "deposits_ok d0" "platform_step\<^sup>*\<^sup>* (d1 # h) (d # h')"
    "r \<in> set (bonus_rules d1)" "s \<in> set (bonus_rules d)" "t \<in> set (bonus_rules d)" "br_code s = br_code t"
    "br_version s = br_version t \<or> br_isActive s \<and> br_isActive t"
  shows "(\<exists>r' \<in> set (bonus_rules d). br_id r' = br_id r \<and> br_code r' = br_code r \<and> br_version r' = br_version r
      \<and> br_kind r' = br_kind r \<and> br_params r' = br_params r) \<and> s = t"
proof
  show "\<exists>r' \<in> set (bonus_rules d). br_id r' = br_id r \<and> br_code r' = br_code r \<and> br_version r' = br_version r
      \<and> br_kind r' = br_kind r \<and> br_params r' = br_params r"
    using bonus_keptD(1) [OF run_kept_since [OF assms(1-5)] assms(6)] by (auto simp: same_rule_def)
  have "rules_ok (bonus_rules d) (next_id d)"
    using run_grants(2) [OF rtranclp_trans [OF assms(1,5)] assms(2-4)] by (simp add: bonus_ok_def)
  then have u: "unique_on (\<lambda>r. Some (br_code r, br_version r)) (bonus_rules d)" "unique_on active_code_key (bonus_rules d)"
    by (simp_all add: rules_ok_def)
  from assms(10) show "s = t"
  proof
    assume "br_version s = br_version t"
    then show ?thesis using assms(9) by (intro unique_on_same [OF u(1) assms(7,8)]) simp_all
  next
    assume "br_isActive s \<and> br_isActive t"
    then show ?thesis using assms(9) by (intro unique_on_same [OF u(2) assms(7,8)]) (simp_all add: active_code_key_def)
  qed
qed

section \<open>What a grant is and when it fails\<close>

fun bonus_tokens :: "bonus_grant \<Rightarrow> int" where
  "bonus_tokens (BonusGranted n _ _) = n"
| "bonus_tokens (BonusSkipped _) = 0"

definition reference_taken :: "nat \<Rightarrow> bonus_reference \<Rightarrow> 'p db \<Rightarrow> bool" where
  "reference_taken uid ref d \<longleftrightarrow>
     (case ref of AccountReference _ \<Rightarrow> \<exists>l \<in> set (token_ledger d). link_bonus_user_key l = Some uid
      | ReferralReference r \<Rightarrow> \<exists>l \<in> set (token_ledger d). l_referralId l = Some r)"

lemma reference_conflict_taken:
  "reference_conflict ref (bonus_ledger_row uid ref rule n t) (token_ledger d) \<longleftrightarrow> reference_taken uid ref d"
  by (cases ref) (auto simp: reference_taken_def key_conflict_iff link_bonus_user_key_def referral_key_def)

lemma bonus_row_inserted:
  assumes "\<not> reference_conflict ref (bonus_ledger_row uid ref rule n t) (token_ledger d)"
  shows "insert_ledger (bonus_ledger_row uid ref rule n t) d = Inr (d\<lparr>token_ledger := token_ledger d @ [bonus_ledger_row uid ref rule n t]\<rparr>)"
proof -
  have "l_intentId (bonus_ledger_row uid ref rule n t) = None" by (simp add: bonus_ledger_row_def)
  then show ?thesis using assms by (cases ref) (simp_all add: insert_ledger_def)
qed

lemma deposit_terms_kind: "parse_bonus_rule_params k ps = Some (DepositTerms a b c) \<Longrightarrow> k = DepositBonusRule"
  by (cases k) (auto simp: parse_bonus_rule_params_def fixed_tokens_params_def split: option.splits if_splits)

text \<open>A grant throws for the rule alone: the indexes of the ledger never fire on its row.\<close>

definition unfit_rule :: "string \<Rightarrow> bonus_rule_kind \<Rightarrow> int \<Rightarrow> bonus_rule_row list \<Rightarrow> bool" where
  "unfit_rule code k t rules \<longleftrightarrow>
     (\<exists>r \<in> set rules. active_rule_where code t r \<and> (br_kind r \<noteq> k \<or> parse_bonus_rule_params (br_kind r) (br_params r) = None))"

lemma apply_bonus_throws:
  assumes "apply_bonus rules code uid ref d = Inl e"
  shows "e = invalid_bonus_rule code \<and> unfit_rule code (reference_kind ref) (now d) rules"
proof (cases "sql_first (active_rule_where code (now d)) rules")
  case None
  then show ?thesis using assms by (simp add: apply_bonus_def resolve_active_rule_def)
next
  case (Some r)
  note r = sql_first_Some [OF Some]
  show ?thesis
  proof (cases "parse_bonus_rule_params (br_kind r) (br_params r)")
    case None
    then show ?thesis using assms Some r by (auto simp: apply_bonus_def resolve_active_rule_def unfit_rule_def)
  next
    case p: (Some terms)
    show ?thesis
    proof (cases "br_kind r = reference_kind ref")
      case False
      then show ?thesis using assms Some r p by (auto simp: apply_bonus_def resolve_active_rule_def unfit_rule_def)
    next
      case True
      have "br_kind r \<noteq> DepositBonusRule" using True by (cases ref) auto
      then obtain n where n: "terms = FixedTokens n" using deposit_terms_kind p by (cases terms) blast+
      show ?thesis
      proof (cases "reference_conflict ref (bonus_ledger_row uid ref r n (now d)) (token_ledger d)")
        case c: True
        show ?thesis using assms Some p True n c by (simp add: apply_bonus_def resolve_active_rule_def Let_def)
      next
        case c: False
        show ?thesis using assms Some p True n c by (simp add: apply_bonus_def resolve_active_rule_def Let_def bonus_row_inserted)
      qed
    qed
  qed
qed

lemma sql_update_nothing [simp]: "sql_update p (\<lambda>u. u) us = us"
  by (auto simp: sql_update_def intro: map_idI)

lemma apply_bonus_grants:
  assumes "apply_bonus rules code uid ref d = Inr (g, d')"
  shows "(\<exists>n i v. g = BonusGranted n i v) \<longleftrightarrow> list_ex (active_rule_where code (now d)) rules \<and> \<not> reference_taken uid ref d"
    "users d' = sql_update (\<lambda>u. u_id u = uid) (\<lambda>u. u\<lparr>u_tokenBalance := u_tokenBalance u + bonus_tokens g\<rparr>) (users d)"
proof -
  show "users d' = sql_update (\<lambda>u. u_id u = uid) (\<lambda>u. u\<lparr>u_tokenBalance := u_tokenBalance u + bonus_tokens g\<rparr>) (users d)"
    using apply_bonus_cases [OF assms] by (elim disjE exE conjE) (simp_all add: balance_moved_def)
  show "(\<exists>n i v. g = BonusGranted n i v) \<longleftrightarrow> list_ex (active_rule_where code (now d)) rules \<and> \<not> reference_taken uid ref d"
    using apply_bonus_cases [OF assms]
  proof (elim disjE exE conjE)
    fix reason assume g: "g = BonusSkipped reason"
    have "\<not> (list_ex (active_rule_where code (now d)) rules \<and> \<not> reference_taken uid ref d)"
    proof (cases "sql_first (active_rule_where code (now d)) rules")
      case None
      then show ?thesis by (auto simp: sql_first_None list_ex_iff)
    next
      case (Some r)
      have "reference_taken uid ref d"
      proof (rule ccontr)
        assume "\<not> reference_taken uid ref d"
        then have "\<not> reference_conflict ref (bonus_ledger_row uid ref r n (now d)) (token_ledger d)" for n
          by (simp add: reference_conflict_taken)
        then show False using assms g Some
          by (auto simp: apply_bonus_def resolve_active_rule_def Let_def bonus_row_inserted split: option.splits if_splits rule_terms.splits)
      qed
      then show ?thesis by simp
    qed
    then show ?thesis using g by simp
  next
    fix rule tokens
    assume "g = BonusGranted tokens (br_id rule) (br_version rule)" "rule \<in> set rules" "active_rule_where code (now d) rule"
      "\<not> reference_conflict ref (bonus_ledger_row uid ref rule tokens (now d)) (token_ledger d)"
    then show ?thesis by (auto simp: reference_conflict_taken list_ex_iff)
  qed
qed

fun granted_tokens :: "link_bonus_grant \<Rightarrow> int" where
  "granted_tokens (PackGranted n) = n"
| "granted_tokens _ = 0"

fun rewarded_tokens :: "nat \<Rightarrow> referral_reward \<Rightarrow> int" where
  "rewarded_tokens uid (Rewarded _ inviter n _ _) = (if uid = inviter then n else 0)"
| "rewarded_tokens uid (NotRewarded _ _) = 0"

lemma grant_link_bonus_pays:
  assumes "grant_link_bonus rules uid account d = Inr (g, d')"
  shows "(\<exists>n. g = PackGranted n) \<longleftrightarrow> a_isPartnerClient account
      \<and> list_ex (active_rule_where LINK_BONUS_RULE_CODE (now d)) rules \<and> (\<forall>l \<in> set (token_ledger d). link_bonus_user_key l \<noteq> Some uid)"
    "users d' = sql_update (\<lambda>u. u_id u = uid) (\<lambda>u. u\<lparr>u_tokenBalance := u_tokenBalance u + granted_tokens g\<rparr>) (users d)"
    "now d' = now d" "filter (\<lambda>l. l_referralId l \<noteq> None) (token_ledger d') = filter (\<lambda>l. l_referralId l \<noteq> None) (token_ledger d)"
    "accounts d' = accounts d" "deposits d' = deposits d"
proof -
  have "g = PackNotPartnerClient \<and> d' = d \<and> \<not> a_isPartnerClient account
    \<or> (\<exists>h. a_isPartnerClient account \<and> apply_bonus rules LINK_BONUS_RULE_CODE uid (AccountReference (a_id account)) d = Inr (h, d')
         \<and> granted_tokens g = bonus_tokens h \<and> (\<exists>n. g = PackGranted n) = (\<exists>n i v. h = BonusGranted n i v))"
    using assms by (auto simp: grant_link_bonus_def split: if_splits sum.splits prod.splits bonus_grant.splits)
  then have "((\<exists>n. g = PackGranted n) \<longleftrightarrow> a_isPartnerClient account
      \<and> list_ex (active_rule_where LINK_BONUS_RULE_CODE (now d)) rules \<and> (\<forall>l \<in> set (token_ledger d). link_bonus_user_key l \<noteq> Some uid))
    \<and> users d' = sql_update (\<lambda>u. u_id u = uid) (\<lambda>u. u\<lparr>u_tokenBalance := u_tokenBalance u + granted_tokens g\<rparr>) (users d)
    \<and> now d' = now d \<and> filter (\<lambda>l. l_referralId l \<noteq> None) (token_ledger d') = filter (\<lambda>l. l_referralId l \<noteq> None) (token_ledger d)
    \<and> accounts d' = accounts d \<and> deposits d' = deposits d"
  proof (elim disjE exE conjE)
    fix h
    assume c: "a_isPartnerClient account" and h: "apply_bonus rules LINK_BONUS_RULE_CODE uid (AccountReference (a_id account)) d = Inr (h, d')"
      and g: "granted_tokens g = bonus_tokens h" "(\<exists>n. g = PackGranted n) = (\<exists>n i v. h = BonusGranted n i v)"
    have "now d' = now d \<and> filter (\<lambda>l. l_referralId l \<noteq> None) (token_ledger d') = filter (\<lambda>l. l_referralId l \<noteq> None) (token_ledger d)
      \<and> accounts d' = accounts d \<and> deposits d' = deposits d"
      using apply_bonus_cases [OF h] by (auto simp: balance_moved_def)
    then show ?thesis using apply_bonus_grants [OF h] c g by (auto simp: reference_taken_def)
  qed simp
  then show "(\<exists>n. g = PackGranted n) \<longleftrightarrow> a_isPartnerClient account
      \<and> list_ex (active_rule_where LINK_BONUS_RULE_CODE (now d)) rules \<and> (\<forall>l \<in> set (token_ledger d). link_bonus_user_key l \<noteq> Some uid)"
    "users d' = sql_update (\<lambda>u. u_id u = uid) (\<lambda>u. u\<lparr>u_tokenBalance := u_tokenBalance u + granted_tokens g\<rparr>) (users d)"
    "now d' = now d" "filter (\<lambda>l. l_referralId l \<noteq> None) (token_ledger d') = filter (\<lambda>l. l_referralId l \<noteq> None) (token_ledger d)"
    "accounts d' = accounts d" "deposits d' = deposits d"
    by blast+
qed

lemma grant_referral_reward_pays:
  assumes "grant_referral_reward rules inviter account d = Inr (g, d')"
  shows "(\<exists>r i n k v. g = Rewarded r i n k v) \<longleftrightarrow> a_isPartnerClient account
      \<and> list_ex (active_rule_where REFERRAL_REWARD_RULE_CODE (now d)) rules
      \<and> (\<exists>r i. inviter = InviterOpen r i False \<and> (\<forall>l \<in> set (token_ledger d). l_referralId l \<noteq> Some r))"
    "\<forall>v \<in> set (users d). v\<lparr>u_tokenBalance := u_tokenBalance v + rewarded_tokens (u_id v) g\<rparr> \<in> set (users d')"
    "accounts d' = accounts d" "deposits d' = deposits d"
proof -
  have "(\<not> (\<exists>r i n k v. g = Rewarded r i n k v) \<and> d' = d \<and> \<not> (a_isPartnerClient account \<and> (\<exists>r i. inviter = InviterOpen r i False)))
    \<or> (\<exists>r i h. a_isPartnerClient account \<and> inviter = InviterOpen r i False
         \<and> apply_bonus rules REFERRAL_REWARD_RULE_CODE i (ReferralReference r) d = Inr (h, d')
         \<and> (\<forall>v. rewarded_tokens v g = (if v = i then bonus_tokens h else 0))
         \<and> (\<exists>r i n k v. g = Rewarded r i n k v) = (\<exists>n i v. h = BonusGranted n i v))"
  proof (cases inviter)
    case (InviterOpen r i b)
    then show ?thesis using assms
      by (cases b) (auto simp: grant_referral_reward_def split: if_splits sum.splits prod.splits bonus_grant.splits bonus_skip.splits)
  qed (use assms in \<open>auto simp: grant_referral_reward_def split: if_splits\<close>)
  then have "((\<exists>r i n k v. g = Rewarded r i n k v) \<longleftrightarrow> a_isPartnerClient account
      \<and> list_ex (active_rule_where REFERRAL_REWARD_RULE_CODE (now d)) rules
      \<and> (\<exists>r i. inviter = InviterOpen r i False \<and> (\<forall>l \<in> set (token_ledger d). l_referralId l \<noteq> Some r)))
    \<and> (\<forall>v \<in> set (users d). v\<lparr>u_tokenBalance := u_tokenBalance v + rewarded_tokens (u_id v) g\<rparr> \<in> set (users d'))
    \<and> accounts d' = accounts d \<and> deposits d' = deposits d"
  proof (elim disjE exE conjE)
    assume n: "\<not> (\<exists>r i n k v. g = Rewarded r i n k v)" "d' = d" "\<not> (a_isPartnerClient account \<and> (\<exists>r i. inviter = InviterOpen r i False))"
    then have "rewarded_tokens v g = 0" for v by (cases g) auto
    then show ?thesis using n by auto
  next
    fix r i h
    assume c: "a_isPartnerClient account" "inviter = InviterOpen r i False"
      and h: "apply_bonus rules REFERRAL_REWARD_RULE_CODE i (ReferralReference r) d = Inr (h, d')"
      and g: "\<forall>v. rewarded_tokens v g = (if v = i then bonus_tokens h else 0)"
        "(\<exists>r i n k v. g = Rewarded r i n k v) = (\<exists>n i v. h = BonusGranted n i v)"
    have "accounts d' = accounts d \<and> deposits d' = deposits d" using apply_bonus_cases [OF h] by (auto simp: balance_moved_def)
    moreover have "v\<lparr>u_tokenBalance := u_tokenBalance v + rewarded_tokens (u_id v) g\<rparr> \<in> set (users d')" if "v \<in> set (users d)" for v
      using that g(1) unfolding apply_bonus_grants(2) [OF h] by (force simp: sql_update_def image_iff)
    ultimately show ?thesis unfolding g(2) apply_bonus_grants(1) [OF h] using c by (simp add: reference_taken_def)
  qed
  then show "(\<exists>r i n k v. g = Rewarded r i n k v) \<longleftrightarrow> a_isPartnerClient account
      \<and> list_ex (active_rule_where REFERRAL_REWARD_RULE_CODE (now d)) rules
      \<and> (\<exists>r i. inviter = InviterOpen r i False \<and> (\<forall>l \<in> set (token_ledger d). l_referralId l \<noteq> Some r))"
    "\<forall>v \<in> set (users d). v\<lparr>u_tokenBalance := u_tokenBalance v + rewarded_tokens (u_id v) g\<rparr> \<in> set (users d')"
    "accounts d' = accounts d" "deposits d' = deposits d"
    by blast+
qed

text \<open>The invitee's referral, as it is when the inviter is locked.\<close>

lemma lock_referral_inviter_open:
  assumes "lock_referral_inviter uid d = Inr inviter" "bonus_ok d" "db_ok d"
  shows "(\<exists>r i. inviter = InviterOpen r i False \<and> (\<forall>l \<in> set (token_ledger d). l_referralId l \<noteq> Some r))
    \<longleftrightarrow> (\<exists>f \<in> set (referrals d). rf_inviteeUserId f = uid \<and> (\<forall>l \<in> set (token_ledger d). l_referralId l \<noteq> Some (rf_id f))
          \<and> (\<exists>v \<in> set (users d). u_id v = rf_inviterUserId f \<and> u_status v \<noteq> UBlocked))"
proof (cases "sql_first (\<lambda>r. rf_inviteeUserId r = uid) (referrals d)")
  case None
  then have "inviter = NoInviter" using assms(1) by (simp add: lock_referral_inviter_def)
  then show ?thesis using None by (auto simp: sql_first_None)
next
  case (Some f)
  note f = sql_first_Some [OF Some]
  have one: "g = f" if "g \<in> set (referrals d)" "rf_inviteeUserId g = uid" for g
    using assms(2) that f unique_on_same [of "\<lambda>r. Some (rf_inviteeUserId r)" "referrals d" g f uid]
    by (simp add: bonus_ok_def referrals_ok_def)
  show ?thesis
  proof (cases "list_ex (\<lambda>l. l_referralId l = Some (rf_id f)) (token_ledger d)")
    case True
    then show ?thesis using assms(1) Some one by (auto simp: lock_referral_inviter_def list_ex_iff)
  next
    case False
    then obtain v where v: "sql_first (\<lambda>u. u_id u = rf_inviterUserId f) (users d) = Some v"
      "inviter = InviterOpen (rf_id f) (rf_inviterUserId f) (u_status v = UBlocked)"
      using assms(1) Some by (auto simp: lock_referral_inviter_def split: option.splits)
    have "w = v" if "w \<in> set (users d)" "u_id w = rf_inviterUserId f" for w
      using user_by_key [OF assms(3) that(1)] sql_first_Some [OF v(1)] that(2) by simp
    then show ?thesis using v(2) sql_first_Some [OF v(1)] f one False by (auto simp: list_ex_iff)
  qed
qed

section \<open>The confirmation\<close>

lemma no_pack_key:
  assumes "bonus_ok d"
  shows "(\<forall>l \<in> set (token_ledger d). link_bonus_user_key l \<noteq> Some uid)
    \<longleftrightarrow> (\<forall>l \<in> set (token_ledger d). \<not> (l_userId l = uid \<and> l_accountId l \<noteq> None))"
  using grant_row(1) [OF assms] by (auto simp: link_bonus_user_key_def)

text \<open>
  C10: A confirmation does what it answers, and pays exactly what is due: it makes the caller's own
  pending account active and gives the caller every deposit of that broker account nobody owned. The
  starter pack is granted just when the account is a partner client's, the rule is in force and the
  user had no pack yet; the inviter is rewarded just when the account is a partner client's, its rule
  is in force, and the caller's referral has a reward open for an inviter who is not blocked. Every
  balance moves by these grants and nothing else.
\<close>

theorem confirmation_pays:
  assumes "platform_step\<^sup>*\<^sup>* [d0] (d # h)" "db_ok d0" "bonus_ok d0" "deposits_ok d0" "seen \<in> set (d # h)"
    "confirm_broker_account (bonus_rules seen) tg accountId d = Inr (Confirmed account grant reward, d')"
  shows "\<exists>u a. u \<in> set (users d) \<and> u_telegramUserId u = tg \<and> u_status u \<noteq> UBlocked
    \<and> a \<in> set (accounts d) \<and> a_id a = accountId \<and> a_userId a = u_id u \<and> a_status a = APending
    \<and> account = a\<lparr>a_status := AActive\<rparr> \<and> account \<in> set (accounts d')
    \<and> (\<forall>e \<in> set (deposits d). de_brokerUserId e = a_brokerUserId a \<and> de_userId e = None \<and> de_accountId e = None
          \<longrightarrow> e\<lparr>de_userId := Some (u_id u), de_accountId := Some accountId\<rparr> \<in> set (deposits d'))
    \<and> ((\<exists>n. grant = PackGranted n) \<longleftrightarrow> a_isPartnerClient a \<and> list_ex (active_rule_where LINK_BONUS_RULE_CODE (now d)) (bonus_rules seen)
          \<and> (\<forall>l \<in> set (token_ledger d). \<not> (l_userId l = u_id u \<and> l_accountId l \<noteq> None)))
    \<and> ((\<exists>r i n k v. reward = Rewarded r i n k v) \<longleftrightarrow> a_isPartnerClient a
          \<and> list_ex (active_rule_where REFERRAL_REWARD_RULE_CODE (now d)) (bonus_rules seen)
          \<and> (\<exists>f \<in> set (referrals d). rf_inviteeUserId f = u_id u \<and> (\<forall>l \<in> set (token_ledger d). l_referralId l \<noteq> Some (rf_id f))
                \<and> (\<exists>v \<in> set (users d). u_id v = rf_inviterUserId f \<and> u_status v \<noteq> UBlocked)))
    \<and> (\<forall>v \<in> set (users d). v\<lparr>u_tokenBalance := u_tokenBalance v + (if u_id v = u_id u then granted_tokens grant else 0)
          + rewarded_tokens (u_id v) reward\<rparr> \<in> set (users d'))"
  using assms(6)
proof (cases rule: confirm_broker_account_cases)
  case (confirmed u a inviter g d3 h')
  note ok = run_grants(1,2) [OF assms(1-4)]
  let ?d2 = "attach_deposits_to_account accountId (u_id u) (a_brokerUserId a)
     (d\<lparr>accounts := sql_update (\<lambda>b. a_id b = accountId) (\<lambda>b. b\<lparr>a_status := AActive\<rparr>) (accounts d)\<rparr>)"
  have d2: "users ?d2 = users d" "token_ledger ?d2 = token_ledger d" "now ?d2 = now d"
    "accounts ?d2 = sql_update (\<lambda>b. a_id b = accountId) (\<lambda>b. b\<lparr>a_status := AActive\<rparr>) (accounts d)"
    "deposits ?d2 = sql_update (\<lambda>e. de_brokerUserId e = a_brokerUserId a \<and> de_userId e = None \<and> de_accountId e = None)
       (\<lambda>e. e\<lparr>de_userId := Some (u_id u), de_accountId := Some accountId\<rparr>) (deposits d)"
    by (simp_all add: attach_deposits_to_account_def)
  have res: "account = a\<lparr>a_status := AActive\<rparr>" "grant = g" "reward = h'" using confirmed(11) by simp_all
  note g = grant_link_bonus_pays [OF confirmed(9), unfolded d2]
  note w = grant_referral_reward_pays [OF confirmed(10), unfolded g(3,5,6)]
  have paid: "(\<forall>l \<in> set (token_ledger d3). l_referralId l \<noteq> Some r) \<longleftrightarrow> (\<forall>l \<in> set (token_ledger d). l_referralId l \<noteq> Some r)" for r
    using arg_cong [OF g(4), of "\<lambda>ls. Some r \<in> l_referralId ` set ls"] by force
  have one: "v\<lparr>u_tokenBalance := u_tokenBalance v + (if u_id v = u_id u then granted_tokens g else 0) + rewarded_tokens (u_id v) h'\<rparr>
      \<in> set (users d')" if v: "v \<in> set (users d)" for v
  proof -
    have "v\<lparr>u_tokenBalance := u_tokenBalance v + (if u_id v = u_id u then granted_tokens g else 0)\<rparr> \<in> set (users d3)"
      using v unfolding g(2) by (auto simp: sql_update_def image_iff intro!: bexI [of _ v])
    then show ?thesis using w(2) by force
  qed
  have moved: "\<forall>v \<in> set (users d). v\<lparr>u_tokenBalance := u_tokenBalance v + (if u_id v = u_id u then granted_tokens g else 0)
      + rewarded_tokens (u_id v) h'\<rparr> \<in> set (users d')" using one by blast
  have "account \<in> set (accounts d')" unfolding w(3) res using confirmed(5,6) by (auto simp: d2 sql_update_def image_iff)
  moreover have "e\<lparr>de_userId := Some (u_id u), de_accountId := Some accountId\<rparr> \<in> set (deposits d')"
    if "e \<in> set (deposits d)" "de_brokerUserId e = a_brokerUserId a \<and> de_userId e = None \<and> de_accountId e = None" for e
    unfolding w(4) using that by (auto simp: d2 sql_update_def image_iff)
  moreover note g(1) [unfolded no_pack_key [OF ok(2)]] w(1) [unfolded paid lock_referral_inviter_open [OF confirmed(4) ok(2,1)]]
  ultimately show ?thesis unfolding res(2,3) using confirmed(1-3,5-8) res(1) moved
    by (intro exI [of _ u] exI [of _ a] conjI) blast+
qed simp

section \<open>The login\<close>

lemma reward_keeps_packs:
  assumes "grant_referral_reward rules inviter account d = Inr (g, d')"
  shows "filter (\<lambda>l. l_accountId l \<noteq> None) (token_ledger d') = filter (\<lambda>l. l_accountId l \<noteq> None) (token_ledger d)"
    "accounts d' = accounts d" "deposits d' = deposits d" "progress d d'"
  using grant_referral_reward_cases [OF assms] by (auto dest: apply_bonus_cases apply_bonus_people simp: balance_moved_def)

lemma callback_credit:
  assumes "credit_activation rules False uid account inviter d = Inr (x, d')"
  shows "fst x = None" "filter (\<lambda>l. l_accountId l \<noteq> None) (token_ledger d') = filter (\<lambda>l. l_accountId l \<noteq> None) (token_ledger d)"
    "accounts d' = accounts d" "deposits d' = deposits d" "progress d d'"
  using assms reward_keeps_packs by (auto simp: credit_activation_def split: if_splits sum.splits prod.splits)

lemma upsert_user_keeps:
  "upsert_user tg d = (x, d') \<Longrightarrow> accounts d' = accounts d \<and> deposits d' = deposits d \<and> token_ledger d' = token_ledger d"
  by (auto simp: upsert_user_def insert_user_def split: option.splits)

text \<open>An account after a login: as it was, or the caller's, of the broker account the login was of.\<close>

definition logged_in :: "oauth_tokens \<Rightarrow> nat \<Rightarrow> account_row \<Rightarrow> bool" where
  "logged_in tokens uid a \<longleftrightarrow> a_brokerUserId a = tk_brokerUserId tokens \<and> a_userId a = uid"

lemma callback_cases:
  fixes d :: "'p db"
  assumes t: "link_broker_account hash rules tg tokens False d = Inr (r, d')" and ok: "db_ok d"
  obtains (same) "accounts d' = accounts d" "deposits d' = deposits d" "token_ledger d' = token_ledger d" "r = LinkUserBlocked \<or> r = BrokerAccountTaken"
  | (login) uid and d1 :: "'p db" and account reward where "\<exists>u \<in> set (users d'). u_id u = uid \<and> u_telegramUserId u = tg"
      "accounts d' = accounts d @ [account] \<and> a_status account = APending \<and> logged_in tokens uid account
        \<or> (\<exists>b \<in> set (accounts d). logged_in tokens uid b \<and> account = relinked hash tokens False d1 b
             \<and> accounts d' = sql_update (\<lambda>x. a_id x = a_id b) (relinked hash tokens False d1) (accounts d))"
      "deposits d' = deposits d" "filter (\<lambda>l. l_accountId l \<noteq> None) (token_ledger d') = filter (\<lambda>l. l_accountId l \<noteq> None) (token_ledger d)"
      "r = Linked account None reward"
  using t
proof (cases rule: link_broker_account_cases)
  case (blocked d1)
  then show ?thesis using same upsert_user_keeps by metis
next
  case (taken uid d1 a)
  then show ?thesis using same upsert_user_keeps by metis
next
  case (created uid d1 inviter x)
  note k = upsert_user_keeps [OF created(1)] and c = callback_credit [OF created(4)]
  let ?d2 = "d1\<lparr>accounts := accounts d1 @ [new_account hash tokens False uid d1], next_id := Suc (next_id d1)\<rparr>"
  note u = upsert_user_aside [OF created(1) ok]
  have us: "\<exists>u \<in> set (users d'). u_id u = uid \<and> u_telegramUserId u = tg" using u(2) c(5) unfolding progress_def by simp metis
  show ?thesis
    by (rule login [OF us, where account = "new_account hash tokens False uid d1"])
      (use k c created(5) in \<open>simp_all add: new_account_def logged_in_def\<close>)
next
  case (relogin uid d1 inviter a x)
  note k = upsert_user_keeps [OF relogin(1)] and c = callback_credit [OF relogin(6)] and u = upsert_user_aside [OF relogin(1) ok]
  have us: "\<exists>u \<in> set (users d'). u_id u = uid \<and> u_telegramUserId u = tg" using u(2) c(5) unfolding progress_def by simp metis
  show ?thesis
    by (rule login [OF us, where account = "relinked hash tokens False d1 a"])
      (use k c relogin(3-5,7) in \<open>auto simp: logged_in_def intro!: disjI2 bexI [of _ a]\<close>)
qed

text \<open>
  C11: A login by OAuth alone confirms nothing and takes nothing over: with \<open>activate\<close> off no starter pack
  is granted and no deposit changes hands; every account is as it was or is the caller's, of the broker
  account the login was of, and then it is active only if it had been confirmed before; an account of
  someone else stays what it was. A blocked user's login changes nothing.
\<close>

theorem callback_confirms_nothing:
  assumes "platform_step\<^sup>*\<^sup>* [d0] (d # h)" "db_ok d0" "seen \<in> set (d # h)"
    "link_broker_account hash (bonus_rules seen) tg tokens False d = Inr (r, d')"
  shows "(\<forall>account grant reward. r = Linked account grant reward \<longrightarrow> grant = None)
    \<and> deposits d' = deposits d
    \<and> filter (\<lambda>l. l_accountId l \<noteq> None) (token_ledger d') = filter (\<lambda>l. l_accountId l \<noteq> None) (token_ledger d)
    \<and> (\<forall>a \<in> set (accounts d'). a \<in> set (accounts d) \<or> a_brokerUserId a = tk_brokerUserId tokens
          \<and> (\<exists>u \<in> set (users d'). u_id u = a_userId a \<and> u_telegramUserId u = tg)
          \<and> (a_status a = APending \<or> (\<exists>b \<in> set (accounts d). a_id b = a_id a \<and> a_userId b = a_userId a \<and> a_status b \<noteq> APending)))
    \<and> (\<forall>a \<in> set (accounts d). a \<in> set (accounts d') \<or> a_brokerUserId a = tk_brokerUserId tokens
          \<and> (\<exists>u \<in> set (users d'). u_id u = a_userId a \<and> u_telegramUserId u = tg))
    \<and> ((\<exists>u \<in> set (users d). u_telegramUserId u = tg \<and> u_status u = UBlocked) \<longrightarrow> r = LinkUserBlocked \<and> d' = d)"
proof -
  have ok: "db_ok d" by (rule run_ok [OF assms(1,2)])
  have tg: "unique_on (\<lambda>u. Some (u_telegramUserId u)) (users d)" using ok by (simp add: db_ok_def users_part_def)
  have ids: "unique_on (\<lambda>a. Some (a_id a)) (accounts d)" using ok by (simp add: db_ok_def accounts_part_def)
  have "r = LinkUserBlocked \<and> d' = d" if u: "u \<in> set (users d)" "u_telegramUserId u = tg" "u_status u = UBlocked" for u
  proof -
    have "sql_first (\<lambda>u. u_telegramUserId u = tg) (users d) = Some u"
      by (rule sql_first_unique [OF tg u(1), where k = tg]) (use u(2) in auto)
    then show ?thesis using assms(4) u(3) by (simp add: link_broker_account_def upsert_user_def)
  qed
  then have blocked: "(\<exists>u \<in> set (users d). u_telegramUserId u = tg \<and> u_status u = UBlocked) \<longrightarrow> r = LinkUserBlocked \<and> d' = d" by blast
  show ?thesis using assms(4) ok
  proof (cases rule: callback_cases)
    case same
    then show ?thesis using blocked by auto
  next
    case (login uid d1 account reward)
    note us = login(1) and led = login(3,4,5)
    from login(2) show ?thesis
    proof (elim disjE conjE bexE)
      assume "accounts d' = accounts d @ [account]" "a_status account = APending" "logged_in tokens uid account"
      then show ?thesis using us led blocked by (auto simp: logged_in_def)
    next
      fix b assume b: "b \<in> set (accounts d)" "logged_in tokens uid b" "account = relinked hash tokens False d1 b"
        and acc: "accounts d' = sql_update (\<lambda>x. a_id x = a_id b) (relinked hash tokens False d1) (accounts d)"
      have one: "a = b" if "a \<in> set (accounts d)" "a_id a = a_id b" for a using unique_on_same [OF ids that(1) b(1)] that(2) by simp
      have new: "a \<in> set (accounts d) \<or> a = relinked hash tokens False d1 b" if "a \<in> set (accounts d')" for a
        using that one unfolding acc by (auto simp: sql_update_def)
      have old: "a \<in> set (accounts d') \<or> a = b" if "a \<in> set (accounts d)" for a
        using that one unfolding acc by (auto simp: sql_update_def image_iff)
      have st: "a_status (relinked hash tokens False d1 b) = APending \<or> a_status b \<noteq> APending"
        "a_id (relinked hash tokens False d1 b) = a_id b" "a_userId (relinked hash tokens False d1 b) = uid"
        "a_brokerUserId (relinked hash tokens False d1 b) = tk_brokerUserId tokens" "a_userId b = uid" "a_brokerUserId b = tk_brokerUserId tokens"
        using b(2) by (auto simp: relinked_def logged_in_def)
      have "a \<in> set (accounts d) \<or> a_brokerUserId a = tk_brokerUserId tokens
          \<and> (\<exists>u \<in> set (users d'). u_id u = a_userId a \<and> u_telegramUserId u = tg)
          \<and> (a_status a = APending \<or> (\<exists>b \<in> set (accounts d). a_id b = a_id a \<and> a_userId b = a_userId a \<and> a_status b \<noteq> APending))"
        if "a \<in> set (accounts d')" for a
        using new [OF that] st us b(1) by metis
      moreover have "a \<in> set (accounts d') \<or> a_brokerUserId a = tk_brokerUserId tokens
          \<and> (\<exists>u \<in> set (users d'). u_id u = a_userId a \<and> u_telegramUserId u = tg)" if "a \<in> set (accounts d)" for a
        using old [OF that] st us by metis
      ultimately show ?thesis using led blocked by auto
    qed
  qed
qed

section \<open>The failures\<close>

lemma lock_never_throws: "referrals_ok d \<Longrightarrow> lock_referral_inviter uid d \<noteq> Inl e"
  by (auto simp: lock_referral_inviter_def referrals_ok_def known_def sql_first_None split: option.splits dest!: sql_first_Some)

definition rule_failure :: "bonus_rule_row list \<Rightarrow> int \<Rightarrow> tx_error \<Rightarrow> bool" where
  "rule_failure rules t e \<longleftrightarrow> e = invalid_bonus_rule LINK_BONUS_RULE_CODE \<and> unfit_rule LINK_BONUS_RULE_CODE LinkBonusRule t rules
     \<or> e = invalid_bonus_rule REFERRAL_REWARD_RULE_CODE \<and> unfit_rule REFERRAL_REWARD_RULE_CODE ReferralRewardRule t rules"

lemma grants_throw:
  "grant_link_bonus rules uid account d = Inl e \<Longrightarrow> rule_failure rules (now d) e"
  "grant_referral_reward rules inviter account d = Inl e \<Longrightarrow> rule_failure rules (now d) e"
  by (auto simp: grant_link_bonus_def grant_referral_reward_def rule_failure_def dest!: apply_bonus_throws
      split: if_splits sum.splits prod.splits bonus_grant.splits bonus_skip.splits referral_inviter.splits)

lemma credit_throws:
  assumes "credit_activation rules activate uid account inviter d = Inl e" shows "rule_failure rules (now d) e"
proof (cases activate)
  case False
  then show ?thesis using assms grants_throw(2) by (auto simp: credit_activation_def split: if_splits sum.splits prod.splits)
next
  case True
  let ?d1 = "attach_deposits_to_account (a_id account) uid (a_brokerUserId account) d"
  have n: "now ?d1 = now d" by (simp add: attach_deposits_to_account_def)
  show ?thesis
  proof (cases "grant_link_bonus rules uid account ?d1")
    case (Inl f)
    then show ?thesis using assms True grants_throw(1) [OF Inl] n by (simp add: credit_activation_def)
  next
    case (Inr p)
    obtain g d2 where p: "p = (g, d2)" by (cases p)
    have "now d2 = now d" using grant_link_bonus_pays(3) [OF Inr [unfolded p]] n by simp
    then show ?thesis using assms True Inr p grants_throw(2) [of rules inviter account d2]
      by (auto simp: credit_activation_def split: sum.splits prod.splits)
  qed
qed

lemma confirm_throws:
  assumes t: "confirm_broker_account rules tg accountId d = Inl e" and lk: "\<And>uid f. lock_referral_inviter uid d \<noteq> Inl f"
  shows "rule_failure rules (now d) e"
proof (cases "sql_first (\<lambda>u. u_telegramUserId u = tg) (users d)")
  case None
  then show ?thesis using t by (simp add: confirm_broker_account_def)
next
  case (Some u)
  note u = Some
  have nb: "u_status u \<noteq> UBlocked" using t u by (auto simp: confirm_broker_account_def)
  obtain inviter where inv: "lock_referral_inviter (u_id u) d = Inr inviter" using lk by (cases "lock_referral_inviter (u_id u) d") auto
  show ?thesis
  proof (cases "sql_first (\<lambda>a. a_id a = accountId \<and> a_userId a = u_id u) (accounts d)")
    case None
    then show ?thesis using t u nb inv by (simp add: confirm_broker_account_def)
  next
    case (Some a)
    let ?d2 = "attach_deposits_to_account (a_id a) (u_id u) (a_brokerUserId a)
         (d\<lparr>accounts := sql_update (\<lambda>b. a_id b = a_id a) (\<lambda>b. b\<lparr>a_status := AActive\<rparr>) (accounts d)\<rparr>)"
    have n: "now ?d2 = now d" by (simp add: attach_deposits_to_account_def)
    have p: "a_status a = APending"
      using t u nb inv Some by (cases "a_status a = APending") (simp_all add: confirm_broker_account_def)
    show ?thesis
    proof (cases "grant_link_bonus rules (u_id u) a ?d2")
      case (Inl f)
      then show ?thesis using t u nb inv Some p n grants_throw(1) [OF Inl] by (simp add: confirm_broker_account_def Let_def)
    next
      case (Inr q)
      obtain g d3 where q: "q = (g, d3)" by (cases q)
      have "grant_referral_reward rules inviter a d3 = Inl e"
        using t u nb inv Some p Inr q by (simp add: confirm_broker_account_def Let_def split: sum.splits prod.splits)
      then show ?thesis using grants_throw(2) grant_link_bonus_pays(3) [OF Inr [unfolded q]] n by metis
    qed
  qed
qed

text \<open>
  C35: A login and a confirmation fail on a bonus rule and on nothing else: in a reachable state they
  throw only when the rule in force under one of the two codes is of another kind or has parameters
  that do not read. The unique indexes of the ledger, of the accounts and of the users never fire.
\<close>

theorem grants_fail_on_rules_only:
  assumes "platform_step\<^sup>*\<^sup>* [d0] (d # h)" "db_ok d0" "bonus_ok d0" "deposits_ok d0" "seen \<in> set (d # h)"
    "link_broker_account hash (bonus_rules seen) tg tokens activate d = Inl e
      \<or> confirm_broker_account (bonus_rules seen) tg accountId d = Inl e"
  shows "\<exists>code k. (code, k) \<in> {(LINK_BONUS_RULE_CODE, LinkBonusRule), (REFERRAL_REWARD_RULE_CODE, ReferralRewardRule)}
    \<and> e = invalid_bonus_rule code
    \<and> (\<exists>r \<in> set (bonus_rules seen). active_rule_where code (now d) r
          \<and> (br_kind r \<noteq> k \<or> parse_bonus_rule_params (br_kind r) (br_params r) = None))"
proof -
  note ok = run_grants(1,2) [OF assms(1-4)]
  have "rule_failure (bonus_rules seen) (now d) e" using assms(6)
  proof
    assume t: "link_broker_account hash (bonus_rules seen) tg tokens activate d = Inl e"
    obtain x d1 where up: "upsert_user tg d = (x, d1)" by (cases "upsert_user tg d")
    have n: "now d1 = now d" using up by (auto simp: upsert_user_def insert_user_def split: option.splits)
    have "bonus_ok d1" using upsert_user_step [OF up ok(1), of d] ok(2) by (simp add: bonus_step_def)
    then have "lock_referral_inviter uid d1 \<noteq> Inl f" for uid f by (intro lock_never_throws) (simp add: bonus_ok_def)
    then show ?thesis using t up n
      by (auto simp: link_broker_account_def Let_def split: option.splits sum.splits if_splits prod.splits dest!: credit_throws)
  next
    assume t: "confirm_broker_account (bonus_rules seen) tg accountId d = Inl e"
    have "lock_referral_inviter uid d \<noteq> Inl f" for uid f using ok(2) by (intro lock_never_throws) (simp add: bonus_ok_def)
    then show ?thesis by (rule confirm_throws [OF t])
  qed
  then show ?thesis unfolding rule_failure_def unfit_rule_def by auto
qed

section \<open>A login, its confirmation, a pack and a reward\<close>

definition demo_rule :: "nat \<Rightarrow> string \<Rightarrow> bonus_rule_kind \<Rightarrow> string \<Rightarrow> bonus_rule_row" where
  "demo_rule rid code kind tokens = \<lparr>br_id = rid, br_code = code, br_version = 1, br_kind = kind, br_isActive = True,
     br_params = Some [(''tokens'', JsonString tokens)], br_validFrom = None, br_validTo = None\<rparr>"

definition demo_start :: "int db" where
  "demo_start = demo_db\<lparr>users := users demo_db @ [\<lparr>u_id = 2, u_telegramUserId = 8, u_status = UActive, u_tradingMode = Demo,
       u_tokenBalance = 0, u_tokenReserved = 0\<rparr>],
     bonus_rules := [demo_rule 4 ''link_bonus'' LinkBonusRule ''3'', demo_rule 5 ''referral_reward'' ReferralRewardRule ''5''],
     referrals := [\<lparr>rf_id = 3, rf_inviteeUserId = 0, rf_inviterUserId = 2\<rparr>]\<rparr>"

definition demo_tokens :: oauth_tokens where
  "demo_tokens = \<lparr>tk_brokerUserId = ''trader-9'', tk_isPartnerClient = True, tk_refreshToken = ''r'', tk_expiresInSec = 60\<rparr>"

definition demo_linked :: "int db" where
  "demo_linked = snd (projr (link_broker_account id (bonus_rules demo_start) 7 demo_tokens False demo_start))"
definition demo_confirmed :: "int db" where
  "demo_confirmed = snd (projr (confirm_broker_account (bonus_rules demo_linked) 7 10 demo_linked))"

lemma demo_start_ok: "db_ok demo_start" "bonus_ok demo_start" "deposits_ok demo_start"
  by (simp_all add: demo_start_def demo_rule_def db_ok_def demo_db_def users_part_def user_row_ok_def accounts_part_def sessions_part_def
      intents_part_def ledger_part_def trades_part_def outbox_part_def people_part_def unique_on_Cons key_conflict_def ledger_sum_def held_def
      bonus_ok_def rules_ok_def referrals_ok_def known_def active_code_key_def is_grant_def link_bonus_user_key_def referral_key_def deposits_ok_def)

lemma demo_login: "\<exists>account reward. link_broker_account id (bonus_rules demo_start) 7 demo_tokens False demo_start
    = Inr (Linked account None reward, demo_linked)"
proof -
  have "case link_broker_account id (bonus_rules demo_start) 7 demo_tokens False demo_start of Inr (Linked _ None _, _) \<Rightarrow> True | _ \<Rightarrow> False"
    by code_simp
  then show ?thesis by (auto simp: demo_linked_def split: sum.splits prod.splits link_result.splits option.splits)
qed

lemma demo_confirm: "\<exists>account. confirm_broker_account (bonus_rules demo_linked) 7 10 demo_linked
    = Inr (Confirmed account (PackGranted 3) (Rewarded 3 2 5 5 1), demo_confirmed)"
proof -
  have "case confirm_broker_account (bonus_rules demo_linked) 7 10 demo_linked of
      Inr (Confirmed _ g r, _) \<Rightarrow> g = PackGranted 3 \<and> r = Rewarded 3 2 5 5 1 | _ \<Rightarrow> False" by code_simp
  then show ?thesis by (auto simp: demo_confirmed_def split: sum.splits prod.splits confirm_result.splits)
qed

lemma demo_run_linked: "platform_step\<^sup>*\<^sup>* [demo_start] [demo_linked, demo_start]"
proof -
  obtain account reward where "link_broker_account id (bonus_rules demo_start) 7 demo_tokens False demo_start
    = Inr (Linked account None reward, demo_linked)" using demo_login by blast
  then have "account_change demo_start demo_start demo_linked" by (rule LinkAccount)
  then show ?thesis by (intro r_into_rtranclp Account [of demo_start]) simp_all
qed

lemma demo_confirm_run: "platform_step\<^sup>*\<^sup>* [demo_linked, demo_start] [demo_confirmed, demo_linked, demo_start]"
proof -
  obtain account where "confirm_broker_account (bonus_rules demo_linked) 7 10 demo_linked
    = Inr (Confirmed account (PackGranted 3) (Rewarded 3 2 5 5 1), demo_confirmed)" using demo_confirm by blast
  then have "account_change demo_linked demo_linked demo_confirmed" by (rule ConfirmAccount)
  then show ?thesis by (intro r_into_rtranclp Account [of demo_linked]) simp_all
qed

lemma demo_run_confirmed: "platform_step\<^sup>*\<^sup>* [demo_start] [demo_confirmed, demo_linked, demo_start]"
  using demo_run_linked demo_confirm_run by (rule rtranclp_trans)

lemma demo_grant_rows:
  "map (\<lambda>l. (l_userId l, l_balanceDelta l, l_accountId l, l_referralId l)) (token_ledger demo_confirmed)
     = [(0, 2, None, None), (0, 3, Some 10, None), (2, 5, None, Some 3)]"
  "map (\<lambda>u. (u_id u, u_tokenBalance u)) (users demo_confirmed) = [(0, 5), (2, 5)]"
  "map (\<lambda>u. (u_id u, u_tokenBalance u)) (users demo_linked) = [(0, 2), (2, 0)]"
  "map (\<lambda>a. (a_id a, a_status a)) (accounts demo_confirmed) = [(1, AActive), (10, AActive)]"
  by code_simp+

lemma demo_rules: "bonus_rules demo_confirmed = bonus_rules demo_start" "demo_rule 4 ''link_bonus'' LinkBonusRule ''3'' \<in> set (bonus_rules demo_start)"
  by (code_simp, simp add: demo_start_def)

theorem one_pack_one_reward_witness:
  "\<exists>l \<in> set (token_ledger demo_confirmed). l_accountId l = Some 10 \<and> l_userId l = 0
     \<and> length (filter (\<lambda>x. l_userId x = 0 \<and> l_accountId x \<noteq> None) (token_ledger demo_confirmed)) \<le> 1
     \<and> (\<exists>r \<in> set (bonus_rules demo_confirmed). br_kind r = LinkBonusRule \<and> l_bonusRule l = Some (br_id r, LinkBonusRule))"
proof -
  have "\<exists>l \<in> set (token_ledger demo_confirmed). l_accountId l = Some 10 \<and> l_userId l = 0 \<and> l_referralId l = None"
    using demo_grant_rows(1) by (auto simp: map_eq_Cons_conv)
  then obtain l where l: "l \<in> set (token_ledger demo_confirmed)" "l_accountId l = Some 10" "l_userId l = 0" "l_referralId l = None" by blast
  have k: "l_accountId l \<noteq> None \<or> l_referralId l \<noteq> None" using l by simp
  from one_pack_one_reward [OF demo_run_confirmed demo_start_ok l(1) k, of 0 3] obtain r where
    "r \<in> set (bonus_rules demo_confirmed)" "l_bonusRule l = Some (br_id r, br_kind r)" "br_kind r = LinkBonusRule"
    "length (filter (\<lambda>x. l_userId x = 0 \<and> l_accountId x \<noteq> None) (token_ledger demo_confirmed)) \<le> 1" using l by auto
  then show ?thesis using l by (intro bexI [of _ l] conjI) auto
qed

theorem rule_versions_frozen_witness:
  "\<exists>r' \<in> set (bonus_rules demo_confirmed). br_id r' = 4 \<and> br_version r' = 1 \<and> br_params r' = Some [(''tokens'', JsonString ''3'')]"
proof -
  let ?r = "demo_rule 4 ''link_bonus'' LinkBonusRule ''3''"
  have m: "?r \<in> set (bonus_rules demo_confirmed)" using demo_rules by simp
  from rule_versions_frozen [OF rtranclp.rtrancl_refl demo_start_ok demo_run_confirmed demo_rules(2) m m] obtain r' where
    "r' \<in> set (bonus_rules demo_confirmed)" "br_id r' = br_id ?r" "br_version r' = br_version ?r" "br_params r' = br_params ?r" by auto
  then show ?thesis by (intro bexI [of _ r'] conjI) (simp_all add: demo_rule_def)
qed

theorem confirmation_pays_witness:
  "\<exists>account. a_id account = 10 \<and> a_status account = AActive \<and> account \<in> set (accounts demo_confirmed)
     \<and> (\<exists>v \<in> set (users demo_linked). u_id v = 2 \<and> v\<lparr>u_tokenBalance := u_tokenBalance v + 5\<rparr> \<in> set (users demo_confirmed))"
proof -
  obtain account where c: "confirm_broker_account (bonus_rules demo_linked) 7 10 demo_linked
    = Inr (Confirmed account (PackGranted 3) (Rewarded 3 2 5 5 1), demo_confirmed)" using demo_confirm by blast
  have "\<exists>v \<in> set (users demo_linked). u_id v = 2 \<and> u_tokenBalance v = 0"
    using demo_grant_rows(3) by (auto simp: map_eq_Cons_conv)
  then obtain v where v: "v \<in> set (users demo_linked)" "u_id v = 2" "u_tokenBalance v = 0" by blast
  from confirmation_pays [OF demo_run_linked demo_start_ok _ c] obtain u a where
    "a_id a = 10" "account = a\<lparr>a_status := AActive\<rparr>" "account \<in> set (accounts demo_confirmed)" "u_telegramUserId u = 7" "u \<in> set (users demo_linked)"
    "\<forall>v \<in> set (users demo_linked). v\<lparr>u_tokenBalance := u_tokenBalance v + (if u_id v = u_id u then granted_tokens (PackGranted 3) else 0)
          + rewarded_tokens (u_id v) (Rewarded 3 2 5 5 1)\<rparr> \<in> set (users demo_confirmed)" by auto
  moreover have "u_id u = 0"
  proof -
    have "map (\<lambda>u. (u_id u, u_telegramUserId u)) (users demo_linked) = [(0, 7), (2, 8)]" by code_simp
    then show ?thesis using calculation(4,5) by (auto simp: map_eq_Cons_conv)
  qed
  ultimately show ?thesis using v by (intro exI [of _ account]) (auto dest!: bspec [of _ _ v])
qed

theorem callback_confirms_nothing_witness:
  "deposits demo_linked = deposits demo_start
     \<and> filter (\<lambda>l. l_accountId l \<noteq> None) (token_ledger demo_linked) = filter (\<lambda>l. l_accountId l \<noteq> None) (token_ledger demo_start)"
proof -
  obtain account reward where l: "link_broker_account id (bonus_rules demo_start) 7 demo_tokens False demo_start
    = Inr (Linked account None reward, demo_linked)" using demo_login by blast
  show ?thesis using callback_confirms_nothing [OF rtranclp.rtrancl_refl demo_start_ok(1) _ l] by simp
qed

definition demo_unfit :: "int db" where
  "demo_unfit = demo_start\<lparr>bonus_rules := [demo_rule 4 ''link_bonus'' LinkBonusRule ''03'']\<rparr>"

theorem grants_fail_on_rules_only_witness:
  "\<exists>e. link_broker_account id (bonus_rules demo_unfit) 7 demo_tokens True demo_unfit = Inl e
     \<and> (e = invalid_bonus_rule LINK_BONUS_RULE_CODE \<or> e = invalid_bonus_rule REFERRAL_REWARD_RULE_CODE)"
proof -
  have "isl (link_broker_account id (bonus_rules demo_unfit) 7 demo_tokens True demo_unfit)" by code_simp
  then obtain e where e: "link_broker_account id (bonus_rules demo_unfit) 7 demo_tokens True demo_unfit = Inl e" by (auto simp: isl_def)
  have ok: "db_ok demo_unfit" "bonus_ok demo_unfit" "deposits_ok demo_unfit"
    using demo_start_ok by (simp_all add: demo_unfit_def db_ok_def deposits_ok_def)
      (simp add: demo_start_def demo_rule_def demo_db_def bonus_ok_def rules_ok_def referrals_ok_def known_def active_code_key_def is_grant_def
        link_bonus_user_key_def referral_key_def unique_on_Cons key_conflict_def)
  from grants_fail_on_rules_only [OF rtranclp.rtrancl_refl ok, of demo_unfit id 7 demo_tokens True e] e show ?thesis by auto
qed

end
