(* ===== verification/Deposit_Life.thy ===== *)
theory Deposit_Life
  imports Grants
begin

text \<open>
  The properties of the postbacks and of the trading mode: a payment is one deposit however often and
  under whatever id it is delivered, a deposit decides the mode once, and no session outlives the mode
  it was started in.
\<close>

section \<open>Postbacks\<close>

lemma deposit_by_payment:
  "deposits_ok d \<Longrightarrow> e \<in> set (deposits d) \<Longrightarrow> f \<in> set (deposits d) \<Longrightarrow> de_paymentId e = de_paymentId f \<Longrightarrow> e = f"
  unfolding deposits_ok_def by (rule unique_on_same [of "\<lambda>e. Some (de_paymentId e)"]) auto

lemma deposit_by_id: "deposits_ok d \<Longrightarrow> e \<in> set (deposits d) \<Longrightarrow> f \<in> set (deposits d) \<Longrightarrow> de_id e = de_id f \<Longrightarrow> e = f"
  unfolding deposits_ok_def by (rule unique_on_same [of "\<lambda>e. Some (de_id e)"]) auto

lemma journaled_later: "bonus_kept d d' \<Longrightarrow> journaled pid d \<Longrightarrow> journaled pid d'"
  unfolding journaled_def list_ex_iff using bonus_keptD(5) by blast

text \<open>A delivery with its deposit, as the answer to a postback leaves them.\<close>

lemma record_postback_deposit:
  assumes ok: "deposits_ok d" and p: "classify_postback query = DepositPostback p"
    and t: "record_postback seen query d = (r, d')" and new: "\<not> journaled (pb_postbackId p) d" "\<not> journaled (pb_postbackId p) seen"
  shows "\<exists>e \<in> set (deposits d'). de_paymentId e = pb_paymentId p
    \<and> (\<exists>a. r = PostbackRecorded (pb_postbackId p) (pb_event p) (de_id e) a
        \<or> (\<exists>b. r = PostbackRepeated (pb_postbackId p) (pb_event p) (de_id e) a b)) \<and> journaled (pb_postbackId p) d'"
proof (cases "sql_first (\<lambda>e. de_paymentId e = pb_paymentId p) (deposits d)")
  case None
  have d': "d' = insert_delivery (deposit_delivery p DepositRecorded (next_id d) (Suc (next_id d)))
      (d\<lparr>deposits := deposits d @ [new_deposit p d], next_id := Suc (next_id d)\<rparr>)"
    "r = PostbackRecorded (pb_postbackId p) (pb_event p) (next_id d) (de_userId (new_deposit p d) \<noteq> None)"
    using t p new None by (auto simp: record_postback_def Let_def new_deposit_def)
  then show ?thesis
    by (intro bexI [of _ "new_deposit p d"]) (auto simp: insert_delivery_def new_deposit_def journaled_def deposit_delivery_def)
next
  case (Some e)
  have d': "d' = insert_delivery (deposit_delivery p DepositRepeated (de_id e) (next_id d)) d"
    "\<exists>a b. r = PostbackRepeated (pb_postbackId p) (pb_event p) (de_id e) a b"
    using t p new Some by (auto simp: record_postback_def Let_def)
  then show ?thesis using sql_first_Some [OF Some]
    by (intro bexI [of _ e]) (auto simp: insert_delivery_def journaled_def deposit_delivery_def)
qed

text \<open>
  C15: A payment is one deposit, however often the broker reports it: when a postback with a payment is
  received in a reachable state, then in every later state there is exactly one deposit of that
  payment, with the amount and the trader it was first recorded with; and the same postback id sent
  again, with whatever fields, is answered as a duplicate and changes nothing.
\<close>

theorem payment_is_one_deposit:
  assumes "platform_step\<^sup>*\<^sup>* [d0] (d1 # h)" "db_ok d0" "bonus_ok d0" "deposits_ok d0" "seen1 \<in> set (d1 # h)"
    "classify_postback query = DepositPostback p" "record_postback seen1 query d1 = (r, d2)"
    "platform_step\<^sup>*\<^sup>* (d2 # d1 # h) (d # h')" "seen \<in> set (d # h')"
    "classify_postback again = DepositPostback q" "pb_postbackId q = pb_postbackId p"
  shows "record_postback seen again d = (PostbackDuplicate (pb_postbackId q) (pb_event q), d)
    \<and> (\<not> journaled (pb_postbackId p) d1 \<longrightarrow>
        (\<exists>e \<in> set (deposits d). de_paymentId e = pb_paymentId p \<and> (\<forall>f \<in> set (deposits d). de_paymentId f = pb_paymentId p \<longrightarrow> f = e)
          \<and> (\<exists>e2 \<in> set (deposits d2). de_id e2 = de_id e \<and> de_amount e2 = de_amount e \<and> de_brokerUserId e2 = de_brokerUserId e)))"
proof -
  note o1 = run_grants [OF assms(1-4)]
  have "account_change seen1 d1 d2" using assms(7) by (rule ReceivePostback)
  then have s: "platform_step (d1 # h) (d2 # d1 # h)" by (rule Account [OF assms(5)])
  have run2: "platform_step\<^sup>*\<^sup>* [d0] (d2 # d1 # h)" using assms(1) s by (rule rtranclp.rtrancl_into_rtrancl)
  have run: "platform_step\<^sup>*\<^sup>* [d0] (d # h')" using run2 assms(8) by (rule rtranclp_trans)
  note o = run_grants [OF run assms(2-4)]
  have kept: "bonus_kept d2 d" by (rule run_kept_since [OF run2 assms(2-4,8)])
  have seen: "journaled (pb_postbackId p) seen1 \<Longrightarrow> journaled (pb_postbackId p) d1" using journaled_later o1(4) assms(5) by blast
  have "journaled (pb_postbackId p) d2"
  proof (cases "journaled (pb_postbackId p) d1")
    case True
    have "bonus_kept d1 d2" using run_kept_since [OF assms(1-4), of d2 "d1 # h"] s by blast
    then show ?thesis using True journaled_later by blast
  next
    case False
    then show ?thesis using record_postback_deposit [OF o1(3) assms(6,7) False] seen by blast
  qed
  then have j: "journaled (pb_postbackId q) d" using journaled_later [OF kept] assms(11) by simp
  then have dup: "record_postback seen again d = (PostbackDuplicate (pb_postbackId q) (pb_event q), d)"
    using assms(10) by (simp add: record_postback_def Let_def split: prod.split)
  have "\<exists>e \<in> set (deposits d). de_paymentId e = pb_paymentId p \<and> (\<forall>f \<in> set (deposits d). de_paymentId f = pb_paymentId p \<longrightarrow> f = e)
      \<and> (\<exists>e2 \<in> set (deposits d2). de_id e2 = de_id e \<and> de_amount e2 = de_amount e \<and> de_brokerUserId e2 = de_brokerUserId e)"
    if new: "\<not> journaled (pb_postbackId p) d1"
  proof -
    obtain e2 where e2: "e2 \<in> set (deposits d2)" "de_paymentId e2 = pb_paymentId p"
      using record_postback_deposit [OF o1(3) assms(6,7) new] seen new by blast
    obtain e where e: "e \<in> set (deposits d)" "deposit_after e2 e" using bonus_keptD(4) [OF kept e2(1)] by blast
    then have "de_paymentId e = pb_paymentId p" using e2(2) by (simp add: deposit_after_def)
    moreover have "f = e" if "f \<in> set (deposits d)" "de_paymentId f = pb_paymentId p" for f
      using deposit_by_payment [OF o(3) that(1) e(1)] that(2) calculation by simp
    moreover have "de_id e2 = de_id e" "de_amount e2 = de_amount e" "de_brokerUserId e2 = de_brokerUserId e"
      using e(2) by (simp_all add: deposit_after_def)
    ultimately show ?thesis using e(1) e2(1) by blast
  qed
  then show ?thesis using dup by (intro conjI impI)
qed

section \<open>The mode after a deposit\<close>

lemma same_deposits:
  assumes "es = deposits d" shows "d\<lparr>deposits := es\<rparr> = d"
  using assms by (cases d) (hypsubst, simp only: db.simps)

text \<open>The compare-and-set on a deposit's outcome: it writes the rows that have none, or does nothing.\<close>

lemma mark_deposit_cases:
  assumes "mark_deposit_mode_switch eid outcome d = (marked, d')"
  shows "marked \<longleftrightarrow> (\<exists>e \<in> set (deposits d). de_id e = eid \<and> de_modeSwitch e = None)" "\<not> marked \<Longrightarrow> d' = d"
    "marked \<Longrightarrow> e \<in> set (deposits d') \<Longrightarrow> de_id e = eid \<Longrightarrow> de_modeSwitch e \<noteq> None"
proof -
  let ?q = "\<lambda>e. de_id e = eid \<and> de_modeSwitch e = None"
  have m: "marked = (0 < length (filter ?q (deposits d)))"
    "d' = d\<lparr>deposits := sql_update ?q (\<lambda>e. e\<lparr>de_modeSwitch := Some outcome\<rparr>) (deposits d)\<rparr>"
    using assms by (simp_all add: mark_deposit_mode_switch_def mark_where_def Let_def)
  show iff: "marked \<longleftrightarrow> (\<exists>e \<in> set (deposits d). ?q e)" unfolding m(1) by (simp add: filter_empty_conv)
  show "d' = d" if "\<not> marked"
  proof -
    have same: "sql_update ?q (\<lambda>e. e\<lparr>de_modeSwitch := Some outcome\<rparr>) (deposits d) = deposits d"
      unfolding sql_update_def using that iff by (intro map_idI) auto
    show ?thesis using m(2) same_deposits [OF same] by (rule trans)
  qed
  show "de_modeSwitch e \<noteq> None" if "e \<in> set (deposits d')" "de_id e = eid"
  proof -
    have "deposits d' = deposits (snd (mark_deposit_mode_switch eid outcome d))" using assms by simp
    also have "\<dots> = sql_update ?q (\<lambda>e. e\<lparr>de_modeSwitch := Some outcome\<rparr>) (deposits d)"
      by (simp add: mark_deposit_mode_switch_def mark_where_def Let_def)
    finally have "e \<in> set (sql_update ?q (\<lambda>e. e\<lparr>de_modeSwitch := Some outcome\<rparr>) (deposits d))" using that(1) by (simp only:)
    then obtain x where x: "e = (if ?q x then x\<lparr>de_modeSwitch := Some outcome\<rparr> else x)"
      unfolding sql_update_def set_map by (rule imageE)
    show ?thesis using that(2) unfolding x by (cases "?q x") simp_all
  qed
qed

lemma write_trading_mode_keeps:
  "write_trading_mode p mode did d = (v, d') \<Longrightarrow> deposits d' = deposits d \<and> sessions d' = sessions d \<and> accounts d' = accounts d"
  by (auto simp: write_trading_mode_def Let_def split: option.splits)

text \<open>How the pass over a deposit ends.\<close>

lemma switch_on_deposit_ends:
  assumes t: "switch_trading_mode_on_deposit seen eid demoOnly d = Inr (x, d')"
  shows "(x = AttemptGone \<or> x = AttemptSessionActive) \<and> d' = d
    \<or> (\<exists>outcome d1. x = Attempt outcome \<and> deposits d1 = deposits d \<and> mark_deposit_mode_switch eid outcome d1 = (True, d'))"
proof (cases demoOnly)
  case True
  obtain m d1 where m: "mark_deposit_mode_switch eid DepositDemoOnly d = (m, d1)" by (cases "mark_deposit_mode_switch eid DepositDemoOnly d")
  then show ?thesis using t True mark_deposit_cases(2) [OF m] by (cases m) (auto simp: switch_trading_mode_on_deposit_def)
next
  case False
  show ?thesis
  proof (cases "\<exists>e uid u. sql_first (\<lambda>e. de_id e = eid) (deposits seen) = Some e \<and> de_userId e = Some uid \<and> de_modeSwitch e = None
      \<and> sql_first (\<lambda>u. u_id u = uid) (users d) = Some u")
    case no: False
    then show ?thesis using t False by (auto simp: switch_trading_mode_on_deposit_def split: option.splits)
  next
    case True
    then obtain e uid u where e: "sql_first (\<lambda>e. de_id e = eid) (deposits seen) = Some e" "de_userId e = Some uid" "de_modeSwitch e = None"
      "sql_first (\<lambda>u. u_id u = uid) (users d) = Some u" by blast
    show ?thesis
    proof (cases "deposit_attempt e u d")
      case (Attempt outcome)
      let ?w = "if outcome = Switched then write_trading_mode (\<lambda>u. u_id u = uid) Real (Some eid) d else (Some uid, d)"
      obtain v d1 where w: "?w = (v, d1)" by (cases ?w)
      have d1: "deposits d1 = deposits d" using w write_trading_mode_keeps [of "\<lambda>u. u_id u = uid" Real "Some eid" d] by (auto split: if_splits)
      obtain m d2 where m: "mark_deposit_mode_switch eid outcome d1 = (m, d2)" by (cases "mark_deposit_mode_switch eid outcome d1")
      have "\<exists>k. v = Some k" using t False e Attempt w by (cases v) (simp_all add: switch_trading_mode_on_deposit_def)
      then have "(if m then Inr (Attempt outcome, d2) else Inr (AttemptGone, d)) = (Inr (x, d') :: tx_error + mode_attempt \<times> 'a db)"
        using t False e Attempt w m by (auto simp: switch_trading_mode_on_deposit_def)
      then show ?thesis using d1 m by (cases m) auto
    qed (use t False e in \<open>simp_all add: switch_trading_mode_on_deposit_def\<close>)
  qed
qed

lemma outcome_later:
  assumes "bonus_kept d d'" "deposits_ok d'" "\<exists>e \<in> set (deposits d). de_id e = eid" "\<forall>e \<in> set (deposits d). de_id e = eid \<longrightarrow> de_modeSwitch e \<noteq> None"
  shows "\<forall>e \<in> set (deposits d'). de_id e = eid \<longrightarrow> de_modeSwitch e \<noteq> None"
proof (intro ballI impI)
  fix e' assume e': "e' \<in> set (deposits d')" "de_id e' = eid"
  obtain e where e: "e \<in> set (deposits d)" "de_id e = eid" using assms(3) by blast
  obtain f where f: "f \<in> set (deposits d')" "deposit_after e f" using bonus_keptD(4) [OF assms(1) e(1)] by blast
  have "de_id f = eid" using f(2) e(2) by (simp add: deposit_after_def)
  then have "f = e'" using deposit_by_id [OF assms(2) f(1) e'(1)] e'(2) by simp
  then show "de_modeSwitch e' \<noteq> None" using f(2) assms(4) e by (auto simp: deposit_after_def)
qed

text \<open>
  C16: A deposit decides the mode once: when the pass has written an outcome for a deposit, no later
  attempt on it changes anything, in whatever state it comes, even when it had read the deposit before
  the outcome was written and whether or not the platform is limited to demo; it finds it gone or
  leaves it waiting. The user who went back to demo is not switched to real by the same deposit again.
\<close>

theorem deposit_switches_once:
  assumes "platform_step\<^sup>*\<^sup>* [d0] (d1 # h)" "db_ok d0" "bonus_ok d0" "deposits_ok d0" "seen1 \<in> set (d1 # h)"
    "switch_trading_mode_on_deposit seen1 eid demoOnly1 d1 = Inr (Attempt outcome, d2)"
    "platform_step\<^sup>*\<^sup>* (d2 # d1 # h) (d # h')" "switch_trading_mode_on_deposit seen eid demoOnly d = Inr (x, d')"
  shows "d' = d \<and> (x = AttemptGone \<or> x = AttemptSessionActive)"
proof -
  have "account_change seen1 d1 d2" using assms(6) by (rule SwitchOnDeposit)
  then have s: "platform_step (d1 # h) (d2 # d1 # h)" by (rule Account [OF assms(5)])
  have run2: "platform_step\<^sup>*\<^sup>* [d0] (d2 # d1 # h)" using assms(1) s by (rule rtranclp.rtrancl_into_rtrancl)
  note o = run_grants [OF rtranclp_trans [OF run2 assms(7)] assms(2-4)]
  have kept: "bonus_kept d2 d" by (rule run_kept_since [OF run2 assms(2-4,7)])
  obtain e1 where m: "deposits e1 = deposits d1" "mark_deposit_mode_switch eid outcome e1 = (True, d2)"
    using switch_on_deposit_ends [OF assms(6)] by auto
  have all: "\<forall>e \<in> set (deposits d2). de_id e = eid \<longrightarrow> de_modeSwitch e \<noteq> None" using mark_deposit_cases(3) [OF m(2)] by blast
  obtain e where "e \<in> set (deposits d1)" "de_id e = eid" using mark_deposit_cases(1) [OF m(2)] m(1) by auto
  moreover have "bonus_kept d1 d2" using run_kept_since [OF assms(1-4), of d2 "d1 # h"] s by blast
  ultimately have "\<exists>e \<in> set (deposits d2). de_id e = eid" using bonus_keptD(4) unfolding deposit_after_def by metis
  from outcome_later [OF kept o(3) this all] have dec: "\<forall>e \<in> set (deposits d). de_id e = eid \<longrightarrow> de_modeSwitch e \<noteq> None" .
  from switch_on_deposit_ends [OF assms(8)] show ?thesis
  proof (elim disjE conjE exE)
    fix o' e2 assume "deposits e2 = deposits d" "mark_deposit_mode_switch eid o' e2 = (True, d')"
    then show ?thesis using mark_deposit_cases(1) [of eid o' e2 True d'] dec by auto
  qed simp_all
qed

section \<open>The user's own switch\<close>

lemma stop_user_sessions_stops:
  assumes "stop_user_sessions tg d = (out, d')" "s \<in> set (sessions d')" "session_owned_by d tg s" shows "s_status s \<noteq> SActive"
proof -
  let ?p = "\<lambda>s. s_status s = SActive \<and> List.member (active_ids_where (session_owned_by d tg) d) (s_id s)"
  have "sessions d' = sessions (snd (stop_user_sessions tg d))" using assms(1) by simp
  also have "\<dots> = sql_update ?p (stopped_by UserStopped (now d)) (sessions d)"
    by (simp add: stop_user_sessions_def stop_where_def Let_def)
  finally have "s \<in> set (sql_update ?p (stopped_by UserStopped (now d)) (sessions d))" using assms(2) by (simp only:)
  then obtain r where r: "r \<in> set (sessions d)" "s = (if ?p r then stopped_by UserStopped (now d) r else r)"
    unfolding sql_update_def set_map by (rule imageE)
  show ?thesis
  proof (cases "?p r")
    case True
    then show ?thesis using r(2) by (simp add: stopped_by_def)
  next
    case False
    have "s = r" using r(2) if_not_P [OF False] by (rule trans)
    then show ?thesis using False r(1) assms(3) by (auto simp: active_ids_where_def)
  qed
qed

text \<open>
  C17: A session runs only in its user's mode: when the user's own switch changes the mode, the user is
  in the new mode, none of the user's sessions is active any more, and every deposit that was still
  waiting to switch the mode is closed; when it changes nothing it writes nothing.
\<close>

theorem mode_change_stops_sessions:
  assumes "platform_step\<^sup>*\<^sup>* [d0] (d # h)" "db_ok d0" "set_trading_mode tg mode d = (Some res, d')"
  shows "(sm_changed res \<longrightarrow> (\<exists>u \<in> set (users d). u_telegramUserId u = tg \<and> u_tradingMode u \<noteq> mode
          \<and> u\<lparr>u_tradingMode := mode\<rparr> \<in> set (users d')
          \<and> (\<forall>s \<in> set (sessions d'). session_owned_by d' tg s \<longrightarrow> s_status s \<noteq> SActive)
          \<and> (\<forall>e \<in> set (deposits d'). de_userId e = Some (u_id u) \<longrightarrow> de_modeSwitch e \<noteq> None)))
    \<and> (\<not> sm_changed res \<longrightarrow> d' = d \<and> sm_tradingMode res = mode)"
proof -
  have ok: "db_ok d" by (rule run_ok [OF assms(1,2)])
  let ?p = "\<lambda>u. u_telegramUserId u = tg \<and> u_tradingMode u \<noteq> mode"
  show ?thesis
  proof (cases "sql_first ?p (users d)")
    case None
    then have w: "write_trading_mode (\<lambda>u. u_telegramUserId u = tg) mode None d = (None, d)" by (simp add: write_trading_mode_def)
    have "d' = d" using assms(3) w by (simp add: set_trading_mode_def)
    moreover have "\<not> sm_changed res" using assms(3) w by (auto simp: set_trading_mode_def)
    moreover have "sm_tradingMode res = mode" using assms(3) w None by (auto simp: set_trading_mode_def sql_first_None dest!: sql_first_Some)
    ultimately show ?thesis by simp
  next
    case (Some u)
    note u = sql_first_Some [OF Some]
    obtain al where w: "write_trading_mode (\<lambda>u. u_telegramUserId u = tg) mode None d
        = (Some (u_id u), d\<lparr>users := sql_update ?p (\<lambda>u. u\<lparr>u_tradingMode := mode\<rparr>) (users d), audit_log := al\<rparr>)"
      using Some by (auto simp: write_trading_mode_def Let_def)
    let ?d1 = "d\<lparr>users := sql_update ?p (\<lambda>u. u\<lparr>u_tradingMode := mode\<rparr>) (users d), audit_log := al\<rparr>"
    obtain st d2 where st: "stop_user_sessions tg ?d1 = (st, d2)" by (cases "stop_user_sessions tg ?d1")
    have d': "d' = snd (mark_where (\<lambda>e. de_userId e = Some (u_id u)) Superseded d2)" and res: "sm_changed res"
      using assms(3) w st by (auto simp: set_trading_mode_def mark_user_deposit_mode_switches_def)
    have d2: "users d2 = users ?d1" "accounts d2 = accounts d"
      using st by (auto simp: stop_user_sessions_def stop_where_def Let_def)
    have same: "users d' = users ?d1" "accounts d' = accounts d" "sessions d' = sessions d2"
      unfolding d' by (simp_all add: mark_where_def Let_def d2)
    have own: "session_owned_by d' tg s = session_owned_by ?d1 tg s" for s unfolding session_owned_by_def same by simp
    have "s_status s \<noteq> SActive" if "s \<in> set (sessions d')" "session_owned_by d' tg s" for s
      by (rule stop_user_sessions_stops [OF st]) (use that own same(3) in simp_all)
    moreover have "u\<lparr>u_tradingMode := mode\<rparr> \<in> set (users d')" unfolding same(1) using u by (auto simp: sql_update_def image_iff)
    moreover have "de_modeSwitch e \<noteq> None" if "e \<in> set (deposits d')" "de_userId e = Some (u_id u)" for e
    proof -
      let ?q = "\<lambda>e. de_userId e = Some (u_id u) \<and> de_modeSwitch e = None"
      have "e \<in> set (sql_update ?q (\<lambda>e. e\<lparr>de_modeSwitch := Some Superseded\<rparr>) (deposits d2))"
        using that(1) unfolding d' by (simp add: mark_where_def Let_def)
      then obtain x where x: "e = (if ?q x then x\<lparr>de_modeSwitch := Some Superseded\<rparr> else x)"
        unfolding sql_update_def set_map by (rule imageE)
      show ?thesis using that(2) unfolding x by (cases "?q x") simp_all
    qed
    ultimately show ?thesis using u res by blast
  qed
qed

section \<open>A deposit and the mode it switches\<close>

definition demo_postback :: postback_query where
  "demo_postback = [''id'' \<mapsto> ''pb-1'', ''event'' \<mapsto> ''deposit'', ''payment_id'' \<mapsto> ''pay-1'', ''a'' \<mapsto> ''trader-1'', ''amount'' \<mapsto> ''100'']"

definition demo_again :: postback_query where
  "demo_again = demo_postback(''amount'' \<mapsto> ''250'')"

definition demo_deposited :: "int db" where
  "demo_deposited = snd (record_postback demo_db demo_postback demo_db)"
definition demo_switched :: "int db" where
  "demo_switched = snd (projr (switch_trading_mode_on_deposit demo_deposited 10 False demo_deposited))"
definition demo_back :: "int db" where
  "demo_back = snd (set_trading_mode 7 Demo demo_switched)"

lemma demo_bonus_ok: "bonus_ok demo_db" "deposits_ok demo_db"
  by (simp_all add: demo_db_def bonus_ok_def rules_ok_def referrals_ok_def known_def active_code_key_def is_grant_def
      link_bonus_user_key_def referral_key_def deposits_ok_def unique_on_Cons key_conflict_def)

lemma demo_received: "record_postback demo_db demo_postback demo_db = (PostbackRecorded ''pb-1'' EventDeposit 10 True, demo_deposited)"
proof -
  have "fst (record_postback demo_db demo_postback demo_db) = PostbackRecorded ''pb-1'' EventDeposit 10 True" by code_simp
  then show ?thesis unfolding demo_deposited_def by (metis prod.collapse)
qed

lemma demo_classified:
  "classify_postback demo_postback = DepositPostback \<lparr>pb_postbackId = ''pb-1'', pb_event = EventDeposit, pb_paymentId = ''pay-1'',
     pb_traderId = ''trader-1'', pb_amount = ''100''\<rparr>"
  "classify_postback demo_again = DepositPostback \<lparr>pb_postbackId = ''pb-1'', pb_event = EventDeposit, pb_paymentId = ''pay-1'',
     pb_traderId = ''trader-1'', pb_amount = ''250''\<rparr>"
  by code_simp+

lemma demo_switch: "switch_trading_mode_on_deposit demo_deposited 10 False demo_deposited = Inr (Attempt Switched, demo_switched)"
proof -
  have "case switch_trading_mode_on_deposit demo_deposited 10 False demo_deposited of Inr (x, _) \<Rightarrow> x = Attempt Switched | _ \<Rightarrow> False" by code_simp
  then show ?thesis by (auto simp: demo_switched_def split: sum.splits prod.splits)
qed

lemma demo_mode_back: "set_trading_mode 7 Demo demo_switched
    = (Some \<lparr>sm_tradingMode = Demo, sm_changed = True, sm_stoppedSessions = 0\<rparr>, demo_back)"
proof -
  have "fst (set_trading_mode 7 Demo demo_switched) = Some \<lparr>sm_tradingMode = Demo, sm_changed = True, sm_stoppedSessions = 0\<rparr>" by code_simp
  then show ?thesis unfolding demo_back_def by (metis prod.collapse)
qed

lemma demo_run_deposited: "platform_step\<^sup>*\<^sup>* [demo_db] [demo_deposited, demo_db]"
  by (rule r_into_rtranclp, rule Account [of demo_db], simp, rule ReceivePostback [OF demo_received])

lemma demo_run_switched: "platform_step\<^sup>*\<^sup>* [demo_db] [demo_switched, demo_deposited, demo_db]"
  by (rule rtranclp.rtrancl_into_rtrancl [OF demo_run_deposited], rule Account [of demo_deposited], simp, rule SwitchOnDeposit [OF demo_switch])

lemma demo_step_back: "platform_step\<^sup>*\<^sup>* [demo_switched, demo_deposited, demo_db] [demo_back, demo_switched, demo_deposited, demo_db]"
  by (rule r_into_rtranclp, rule Account [of demo_switched], simp, rule SetMode [OF demo_mode_back])

theorem payment_is_one_deposit_witness:
  "record_postback demo_db demo_again demo_switched = (PostbackDuplicate ''pb-1'' EventDeposit, demo_switched)
     \<and> (\<exists>e \<in> set (deposits demo_switched). de_paymentId e = ''pay-1'')"
proof -
  have run: "platform_step\<^sup>*\<^sup>* [demo_deposited, demo_db] [demo_switched, demo_deposited, demo_db]"
    by (rule r_into_rtranclp, rule Account [of demo_deposited], simp, rule SwitchOnDeposit [OF demo_switch])
  have new: "\<not> journaled ''pb-1'' demo_db" by (simp add: journaled_def demo_db_def)
  from payment_is_one_deposit [OF rtranclp.rtrancl_refl demo_db_ok demo_bonus_ok _ demo_classified(1) demo_received run _ demo_classified(2), of demo_db]
  show ?thesis using new by auto
qed

theorem deposit_switches_once_witness:
  "switch_trading_mode_on_deposit demo_deposited 10 False demo_back = Inr (AttemptGone, demo_back)
   \<or> switch_trading_mode_on_deposit demo_deposited 10 False demo_back = Inr (AttemptSessionActive, demo_back)"
proof -
  have "\<not> isl (switch_trading_mode_on_deposit demo_deposited 10 False demo_back)" by code_simp
  then obtain x d' where t: "switch_trading_mode_on_deposit demo_deposited 10 False demo_back = Inr (x, d')" by (metis Inr_pair)
  from deposit_switches_once [OF demo_run_deposited demo_db_ok demo_bonus_ok _ demo_switch demo_step_back t] t show ?thesis by auto
qed

theorem mode_change_stops_sessions_witness:
  "\<exists>u \<in> set (users demo_switched). u_telegramUserId u = 7 \<and> u_tradingMode u = Real \<and> u\<lparr>u_tradingMode := Demo\<rparr> \<in> set (users demo_back)"
proof -
  have "u_tradingMode u = Real" if "u_tradingMode u \<noteq> Demo" for u :: user_row using that by (cases "u_tradingMode u") auto
  then show ?thesis using mode_change_stops_sessions [OF demo_run_switched demo_db_ok demo_mode_back] by auto
qed

end
