(* ===== verification/Breaker.thy ===== *)
theory Breaker
  imports Executor Guarantees
begin

text \<open>
  The circuit breaker of the worker, \<^verbatim>\<open>apps/trading-worker/src/circuit-breaker\<close>: the sliding window of
  answered and failed events (\<^verbatim>\<open>window.ts\<close>), the breaker over two of them (\<^verbatim>\<open>breaker.ts\<close>), and what
  an order's submission reports to it (\<^verbatim>\<open>observe-executor.ts\<close>). The times are the caller's clock; the
  answer of \<open>stopTrading\<close> and the end of the trip's promise are events of their own. It refines a
  breaker that never forgets: one that keeps every event since its window was last cleared.
\<close>

section \<open>The window\<close>

text \<open>The map in its insertion order: the key, whether it failed, and when.\<close>

type_synonym event = "nat \<times> bool \<times> int"

definition prune :: "int \<Rightarrow> int \<Rightarrow> event list \<Rightarrow> event list" where
  "prune windowMs atMs latest = dropWhile (\<lambda>(key, failed, ms). ms \<le> atMs - windowMs) latest"

definition record_event :: "int \<Rightarrow> nat \<Rightarrow> bool \<Rightarrow> int \<Rightarrow> event list \<Rightarrow> event list" where
  "record_event windowMs key failed atMs latest =
     prune windowMs atMs (filter (\<lambda>(k, _). k \<noteq> key) latest @ [(key, failed, atMs)])"

record window_stats =
  ws_failures :: nat
  ws_total :: nat

definition stats_of :: "event list \<Rightarrow> window_stats" where
  "stats_of latest = \<lparr>ws_failures = length (filter (\<lambda>(k, failed, ms). failed) latest), ws_total = length latest\<rparr>"

record breaker_config =
  bc_windowMs :: int
  bc_minFailures :: nat
  bc_failurePercent :: nat

definition trips_at :: "window_stats \<Rightarrow> breaker_config \<Rightarrow> bool" where
  "trips_at s cfg \<longleftrightarrow> bc_minFailures cfg \<le> ws_failures s \<and> bc_failurePercent cfg * ws_total s \<le> ws_failures s * 100"

section \<open>The breaker\<close>

datatype breaker_signal = RestSignal | SocketSignal

record trip =
  tr_signal :: breaker_signal
  tr_failures :: nat
  tr_total :: nat

text \<open>\<open>bk_tripping\<close>: the trip in flight, and whether \<open>stopTrading\<close> has answered or thrown already.\<close>

record breaker =
  bk_rest :: "event list"
  bk_socket :: "event list"
  bk_tripping :: "(trip \<times> bool) option"
  bk_stopped :: bool

definition create_circuit_breaker :: breaker where
  "create_circuit_breaker = \<lparr>bk_rest = [], bk_socket = [], bk_tripping = None, bk_stopped = False\<rparr>"

fun window_of :: "breaker_signal \<Rightarrow> breaker \<Rightarrow> event list" where
  "window_of RestSignal b = bk_rest b"
| "window_of SocketSignal b = bk_socket b"

fun set_window :: "breaker_signal \<Rightarrow> event list \<Rightarrow> breaker \<Rightarrow> breaker" where
  "set_window RestSignal w b = b\<lparr>bk_rest := w\<rparr>"
| "set_window SocketSignal w b = b\<lparr>bk_socket := w\<rparr>"

definition evaluate :: "breaker_config \<Rightarrow> breaker_signal \<Rightarrow> int \<Rightarrow> breaker \<Rightarrow> breaker" where
  "evaluate cfg s t b =
     (if bk_stopped b \<or> bk_tripping b \<noteq> None then b
      else let w = prune (bc_windowMs cfg) t (window_of s b); stats = stats_of w; b1 = set_window s w b in
        if \<not> trips_at stats cfg then b1
        else b1\<lparr>bk_tripping := Some (\<lparr>tr_signal = s, tr_failures = ws_failures stats, tr_total = ws_total stats\<rparr>, False)\<rparr>)"

text \<open>
  What happens to a breaker: the three reports, the answer of \<open>stopTrading\<close> (whether it returned or
  threw), the end of the trip's promise, and \<open>stop\<close>.
\<close>

datatype breaker_event =
  Rest nat bool | SocketLost nat | SocketReady nat | StopTradingAnswered bool | TripSettled | StopBreaker

definition observe :: "breaker_config \<Rightarrow> breaker_signal \<Rightarrow> nat \<Rightarrow> bool \<Rightarrow> int \<Rightarrow> breaker \<Rightarrow> breaker" where
  "observe cfg s key failed t b = set_window s (record_event (bc_windowMs cfg) key failed t (window_of s b)) b"

fun breaker_step :: "breaker_config \<Rightarrow> breaker \<Rightarrow> int \<times> breaker_event \<Rightarrow> breaker" where
  "breaker_step cfg b (t, Rest intentId failed) =
     (let b1 = observe cfg RestSignal intentId failed t b in if failed then evaluate cfg RestSignal t b1 else b1)"
| "breaker_step cfg b (t, SocketLost accountId) = evaluate cfg SocketSignal t (observe cfg SocketSignal accountId True t b)"
| "breaker_step cfg b (t, SocketReady accountId) = observe cfg SocketSignal accountId False t b"
| "breaker_step cfg b (t, StopTradingAnswered ok) =
     (case bk_tripping b of
        Some (trip, False) \<Rightarrow> (if ok then set_window (tr_signal trip) [] b else b)\<lparr>bk_tripping := Some (trip, True)\<rparr>
      | _ \<Rightarrow> b)"
| "breaker_step cfg b (t, TripSettled) =
     (case bk_tripping b of Some (trip, True) \<Rightarrow> b\<lparr>bk_tripping := None\<rparr> | _ \<Rightarrow> b)"
| "breaker_step cfg b (t, StopBreaker) = b\<lparr>bk_stopped := True\<rparr>"

text \<open>What a submission reports; \<open>None\<close> is a throw, which reports nothing.\<close>

definition observe_executor :: "intent_row \<Rightarrow> 'p submit_result option \<Rightarrow> bool \<Rightarrow> breaker_event option" where
  "observe_executor intent result aborted =
     (case result of
        None \<Rightarrow> None
      | Some r \<Rightarrow>
          if aborted then None
          else case r of
            SubmitUnknown reason \<Rightarrow> if reason = BrokerUnavailable then Some (Rest (i_id intent) True) else None
          | _ \<Rightarrow> Some (Rest (i_id intent) False))"

section \<open>The breaker that forgets nothing\<close>

text \<open>The latest event of a key wins; it counts while it is younger than the window.\<close>

definition latest_event :: "event list \<Rightarrow> nat \<Rightarrow> (bool \<times> int) option" where
  "latest_event evs key = map_of (rev evs) key"

definition log_stats :: "int \<Rightarrow> int \<Rightarrow> event list \<Rightarrow> window_stats" where
  "log_stats windowMs t evs =
     \<lparr>ws_failures = card {key. \<exists>ms. latest_event evs key = Some (True, ms) \<and> t - windowMs < ms},
      ws_total = card {key. \<exists>failed ms. latest_event evs key = Some (failed, ms) \<and> t - windowMs < ms}\<rparr>"

definition log_evaluate :: "breaker_config \<Rightarrow> breaker_signal \<Rightarrow> int \<Rightarrow> breaker \<Rightarrow> breaker" where
  "log_evaluate cfg s t b =
     (let stats = log_stats (bc_windowMs cfg) t (window_of s b) in
      if \<not> bk_stopped b \<and> bk_tripping b = None \<and> trips_at stats cfg
      then b\<lparr>bk_tripping := Some (\<lparr>tr_signal = s, tr_failures = ws_failures stats, tr_total = ws_total stats\<rparr>, False)\<rparr> else b)"

definition log_observe :: "breaker_signal \<Rightarrow> nat \<Rightarrow> bool \<Rightarrow> int \<Rightarrow> breaker \<Rightarrow> breaker" where
  "log_observe s key failed t b = set_window s (window_of s b @ [(key, failed, t)]) b"

fun log_step :: "breaker_config \<Rightarrow> breaker \<Rightarrow> int \<times> breaker_event \<Rightarrow> breaker" where
  "log_step cfg b (t, Rest k failed) =
     (let b1 = log_observe RestSignal k failed t b in if failed then log_evaluate cfg RestSignal t b1 else b1)"
| "log_step cfg b (t, SocketLost k) = log_evaluate cfg SocketSignal t (log_observe SocketSignal k True t b)"
| "log_step cfg b (t, SocketReady k) = log_observe SocketSignal k False t b"
| "log_step cfg b (t, e) = breaker_step cfg b (t, e)"

section \<open>The window counts the latest events\<close>

fun last_only :: "event list \<Rightarrow> event list \<Rightarrow> event list" where
  "last_only acc [] = acc"
| "last_only acc ((k, v) # evs) = last_only (filter (\<lambda>(j, _). j \<noteq> k) acc @ [(k, v)]) evs"

definition lasts :: "event list \<Rightarrow> event list" where
  "lasts evs = last_only [] evs"

lemma last_only_snoc: "last_only acc (evs @ [(k, v)]) = filter (\<lambda>(j, _). j \<noteq> k) (last_only acc evs) @ [(k, v)]"
  by (induction acc evs rule: last_only.induct) simp_all

lemma lasts_snoc: "lasts (evs @ [(k, v)]) = filter (\<lambda>(j, _). j \<noteq> k) (lasts evs) @ [(k, v)]"
  by (simp add: lasts_def last_only_snoc)

lemma lasts_Nil [simp]: "lasts [] = []"
  by (simp add: lasts_def)

lemma set_lasts: "set (lasts evs) = {(k, v). latest_event evs k = Some v}"
proof (induction evs rule: rev_induct)
  case (snoc e evs)
  obtain k v where e: "e = (k, v)" by (cases e)
  show ?case unfolding e lasts_snoc set_append set_filter snoc.IH by (auto simp: latest_event_def split: if_splits)
qed (simp add: latest_event_def)

lemma distinct_lasts: "distinct (map fst (lasts evs))"
proof (induction evs rule: rev_induct)
  case (snoc e evs)
  obtain k v where e: "e = (k, v)" by (cases e)
  have "distinct (map fst (filter (\<lambda>(j, _). j \<noteq> k) (lasts evs)))" using snoc by (rule distinct_map_filter)
  then show ?case unfolding e lasts_snoc by auto
qed simp

definition sorted_times :: "event list \<Rightarrow> bool" where
  "sorted_times evs \<longleftrightarrow> sorted (map (\<lambda>(_, _, ms). ms) evs)"

lemma sorted_lasts: "sorted_times evs \<Longrightarrow> sorted_times (lasts evs)"
proof (induction evs rule: rev_induct)
  case (snoc e evs)
  obtain k f t where e: "e = (k, f, t)" by (cases e)
  have s: "sorted_times evs" "\<forall>(_, _, ms) \<in> set evs. ms \<le> t" using snoc.prems e by (auto simp: sorted_times_def sorted_append)
  have "set (lasts evs) \<subseteq> set evs" unfolding set_lasts latest_event_def by (auto dest: map_of_SomeD)
  then have "\<forall>(_, _, ms) \<in> set (filter (\<lambda>(j, _). j \<noteq> k) (lasts evs)). ms \<le> t" using s(2) by fastforce
  moreover have "sorted (map (\<lambda>(_, _, ms). ms) (filter (\<lambda>(j, _). j \<noteq> k) (lasts evs)))"
    using snoc.IH [OF s(1)] unfolding sorted_times_def by (rule sorted_filter)
  ultimately show ?case unfolding e lasts_snoc sorted_times_def by (auto simp: sorted_append)
qed (simp add: sorted_times_def)

definition fresh :: "int \<Rightarrow> event \<Rightarrow> bool" where
  "fresh c e \<longleftrightarrow> (case e of (_, _, ms) \<Rightarrow> c < ms)"

lemma prune_is_filter: "sorted_times w \<Longrightarrow> prune windowMs t w = filter (fresh (t - windowMs)) w"
proof (induction w)
  case (Cons e w)
  obtain k f ms where e: "e = (k, f, ms)" by (cases e)
  have s: "sorted_times w" "\<forall>(_, _, u) \<in> set w. ms \<le> u" using Cons.prems e by (auto simp: sorted_times_def)
  show ?case
  proof (cases "ms \<le> t - windowMs")
    case True
    then show ?thesis using Cons.IH [OF s(1)] e by (simp add: prune_def fresh_def)
  next
    case False
    then have "filter (fresh (t - windowMs)) w = w" using s(2) by (fastforce simp: fresh_def intro: filter_True)
    moreover have "fresh (t - windowMs) e" using False e by (simp add: fresh_def)
    ultimately show ?thesis using False e by (simp add: prune_def)
  qed
qed (simp add: prune_def)

lemma filter_fresh_fresh: "c \<le> c' \<Longrightarrow> filter (fresh c') (filter (fresh c) w) = filter (fresh c') w"
  by (auto simp: fresh_def intro: filter_cong)

lemma sorted_times_filter: "sorted_times w \<Longrightarrow> sorted_times (filter p w)"
  unfolding sorted_times_def by (rule sorted_filter)

lemma stats_lasts:
  "stats_of (filter (fresh (t - windowMs)) (lasts evs)) = log_stats windowMs t evs"
proof -
  let ?w = "filter (fresh (t - windowMs)) (lasts evs)"
  have d: "distinct (map fst (filter p (lasts evs)))" for p using distinct_lasts by (rule distinct_map_filter)
  have n: "length (filter p (lasts evs)) = card (fst ` {e \<in> set (lasts evs). p e})" for p
    using distinct_card [OF d [of p]] by simp
  have f: "filter (\<lambda>(k, failed, ms). failed) ?w = filter (\<lambda>e. fresh (t - windowMs) e \<and> (case e of (k, failed, ms) \<Rightarrow> failed)) (lasts evs)"
    by (simp add: conj_commute)
  have "fst ` {e \<in> set (lasts evs). fresh (t - windowMs) e} = {key. \<exists>failed ms. latest_event evs key = Some (failed, ms) \<and> t - windowMs < ms}"
    "fst ` {e \<in> set (lasts evs). fresh (t - windowMs) e \<and> (case e of (k, failed, ms) \<Rightarrow> failed)}
       = {key. \<exists>ms. latest_event evs key = Some (True, ms) \<and> t - windowMs < ms}"
    unfolding set_lasts fresh_def by (force simp: image_iff)+
  then show ?thesis unfolding stats_of_def log_stats_def f n by simp
qed

section \<open>The refinement\<close>

definition remembers :: "int \<Rightarrow> int \<Rightarrow> event list \<Rightarrow> event list \<Rightarrow> bool" where
  "remembers windowMs t w evs \<longleftrightarrow> sorted_times evs \<and> (\<forall>(_, _, ms) \<in> set evs. ms \<le> t)
     \<and> (\<exists>c \<le> t - windowMs. w = filter (fresh c) (lasts evs))"

definition simulates :: "breaker_config \<Rightarrow> int \<Rightarrow> breaker \<Rightarrow> breaker \<Rightarrow> bool" where
  "simulates cfg t b a \<longleftrightarrow> (\<forall>s. remembers (bc_windowMs cfg) t (window_of s b) (window_of s a))
     \<and> bk_tripping b = bk_tripping a \<and> bk_stopped b = bk_stopped a"

lemma window_other: "r \<noteq> s \<Longrightarrow> window_of r (set_window s w b) = window_of r b"
  by (cases s; cases r) simp_all

lemma window_simps [simp]:
  "window_of s (set_window s w b) = w"
  "bk_tripping (set_window s w b) = bk_tripping b" "bk_stopped (set_window s w b) = bk_stopped b"
  "window_of s (b\<lparr>bk_tripping := x\<rparr>) = window_of s b" "window_of s (b\<lparr>bk_stopped := y\<rparr>) = window_of s b"
  by (cases s, simp_all)+

lemma remembers_empty [simp]: "remembers windowMs t [] []"
  by (auto simp: remembers_def sorted_times_def)

lemma remembers_later: "remembers windowMs t w evs \<Longrightarrow> t \<le> t' \<Longrightarrow> remembers windowMs t' w evs"
proof -
  assume r: "remembers windowMs t w evs" "t \<le> t'"
  then obtain c where "c \<le> t - windowMs" "w = filter (fresh c) (lasts evs)" by (auto simp: remembers_def)
  then have "\<exists>c \<le> t' - windowMs. w = filter (fresh c) (lasts evs)" using r(2) by (intro exI [of _ c]) simp
  moreover have "\<forall>(_, _, ms) \<in> set evs. ms \<le> t'" using r by (fastforce simp: remembers_def)
  ultimately show ?thesis using r(1) by (simp add: remembers_def)
qed

lemma simulates_later: "simulates cfg t b a \<Longrightarrow> t \<le> t' \<Longrightarrow> simulates cfg t' b a"
  unfolding simulates_def using remembers_later by blast

lemma remembers_prune:
  assumes "remembers windowMs t w evs" shows "prune windowMs t w = filter (fresh (t - windowMs)) (lasts evs)"
proof -
  obtain c where c: "c \<le> t - windowMs" "w = filter (fresh c) (lasts evs)" using assms by (auto simp: remembers_def)
  have "sorted_times w" unfolding c(2) using assms by (intro sorted_times_filter sorted_lasts) (simp add: remembers_def)
  then show ?thesis using prune_is_filter c by (simp add: filter_fresh_fresh del: filter_filter)
qed

lemma remembers_record:
  assumes "remembers windowMs t w evs"
  shows "remembers windowMs t (record_event windowMs k f t w) (evs @ [(k, f, t)])"
proof -
  obtain c where c: "c \<le> t - windowMs" "w = filter (fresh c) (lasts evs)" using assms by (auto simp: remembers_def)
  have s: "sorted_times (evs @ [(k, f, t)])" "\<forall>(_, _, ms) \<in> set (evs @ [(k, f, t)]). ms \<le> t"
    using assms by (auto simp: remembers_def sorted_times_def sorted_append)
  let ?p = "\<lambda>(j, _). j \<noteq> k" and ?F = "filter (fresh (t - windowMs))"
  have "sorted_times (filter ?p w @ [(k, f, t)])"
  proof -
    have "\<forall>(_, _, ms) \<in> set w. ms \<le> t" using assms set_lasts [of evs] unfolding c(2) remembers_def latest_event_def
      by (fastforce dest!: map_of_SomeD)
    moreover have "sorted_times (filter ?p w)" unfolding c(2) using assms by (intro sorted_times_filter sorted_lasts) (simp add: remembers_def)
    ultimately show ?thesis by (fastforce simp: sorted_times_def sorted_append)
  qed
  then have "record_event windowMs k f t w = ?F (filter ?p w @ [(k, f, t)])" by (simp only: record_event_def prune_is_filter)
  also have "?F (filter ?p w) = ?F (filter ?p (lasts evs))"
    using c(1) unfolding c(2) by (auto simp: fresh_def intro!: filter_cong)
  then have "?F (filter ?p w @ [(k, f, t)]) = ?F (lasts (evs @ [(k, f, t)]))" by (simp only: lasts_snoc filter_append)
  finally show ?thesis using s unfolding remembers_def by blast
qed

lemma simulates_observe: "simulates cfg t b a \<Longrightarrow> simulates cfg t (observe cfg s k f t b) (log_observe s k f t a)"
  unfolding simulates_def observe_def log_observe_def using remembers_record
  by (metis window_simps(1-3) window_other)

lemma simulates_evaluate:
  assumes sim: "simulates cfg t b a" shows "simulates cfg t (evaluate cfg s t b) (log_evaluate cfg s t a)"
proof (cases "bk_stopped b \<or> bk_tripping b \<noteq> None")
  case True
  then show ?thesis using sim by (auto simp: evaluate_def log_evaluate_def Let_def simulates_def)
next
  case False
  let ?w = "prune (bc_windowMs cfg) t (window_of s b)"
  have r: "remembers (bc_windowMs cfg) t (window_of s b) (window_of s a)" using sim by (simp add: simulates_def)
  have w: "?w = filter (fresh (t - bc_windowMs cfg)) (lasts (window_of s a))" by (rule remembers_prune [OF r])
  then have st: "stats_of ?w = log_stats (bc_windowMs cfg) t (window_of s a)" by (simp only: stats_lasts)
  have "remembers (bc_windowMs cfg) t ?w (window_of s a)" using r w unfolding remembers_def by blast
  then have "\<forall>q. remembers (bc_windowMs cfg) t (window_of q (set_window s ?w b)) (window_of q a)"
    using sim unfolding simulates_def by (metis window_simps(1) window_other)
  then show ?thesis using False sim st by (simp add: evaluate_def log_evaluate_def Let_def simulates_def)
qed

lemma simulates_clear: "simulates cfg t b a \<Longrightarrow> simulates cfg t (set_window s [] b) (set_window s [] a)"
  unfolding simulates_def by (metis window_simps(1-3) window_other remembers_empty)

lemma simulates_step:
  assumes "simulates cfg t b a" "t \<le> t'" shows "simulates cfg t' (breaker_step cfg b (t', e)) (log_step cfg a (t', e))"
proof -
  have sim: "simulates cfg t' b a" by (rule simulates_later [OF assms])
  note steps = simulates_evaluate [OF simulates_observe [OF sim]] simulates_observe [OF sim]
  have tr: "bk_tripping a = bk_tripping b" using sim by (simp add: simulates_def)
  have set: "simulates cfg t' (b1\<lparr>bk_tripping := x\<rparr>) (a1\<lparr>bk_tripping := x\<rparr>)" if "simulates cfg t' b1 a1" for b1 a1 x
    using that by (simp add: simulates_def)
  show ?thesis
  proof (cases e)
    case (StopTradingAnswered ok)
    then show ?thesis using sim tr set simulates_clear [OF sim] by (auto split: option.splits bool.splits)
  next
    case TripSettled
    then show ?thesis using sim tr set by (auto split: option.splits bool.splits)
  next
    case StopBreaker
    then show ?thesis using sim by (simp add: simulates_def)
  qed (use steps in \<open>auto simp: Let_def\<close>)
qed

definition times :: "(int \<times> breaker_event) list \<Rightarrow> int list" where
  "times evs = map fst evs"

lemma simulates_run:
  "sorted (times evs) \<Longrightarrow> (\<forall>u \<in> set (times evs). t \<le> u) \<Longrightarrow> simulates cfg t b a
   \<Longrightarrow> \<exists>t'. simulates cfg t' (foldl (breaker_step cfg) b evs) (foldl (log_step cfg) a evs)"
proof (induction evs arbitrary: t b a)
  case (Cons x evs)
  obtain u e where x: "x = (u, e)" by (cases x)
  have "simulates cfg u (breaker_step cfg b x) (log_step cfg a x)" unfolding x using Cons.prems by (intro simulates_step) (auto simp: times_def x)
  then show ?case using Cons.IH [of u "breaker_step cfg b x" "log_step cfg a x"] Cons.prems by (auto simp: times_def x)
qed auto

text \<open>
  C12: The breaker refines one that forgets nothing: on a clock that does not go back, whatever is
  reported to it, it starts exactly the trips, with exactly the counts, of a breaker that keeps every
  event since its signal's window was last cleared and counts each key by its latest event, when that
  event is younger than the window. Pruning, and moving a key to the end, lose nothing that counts.
\<close>

theorem breaker_refines_log:
  assumes "sorted (map fst evs)"
  shows "bk_tripping (foldl (breaker_step cfg) create_circuit_breaker evs) = bk_tripping (foldl (log_step cfg) create_circuit_breaker evs)
    \<and> bk_stopped (foldl (breaker_step cfg) create_circuit_breaker evs) = bk_stopped (foldl (log_step cfg) create_circuit_breaker evs)"
proof -
  define t where "t = (if evs = [] then 0 else fst (hd evs))"
  have "\<forall>u \<in> set (times evs). t \<le> u" using assms by (cases evs) (auto simp: t_def times_def)
  moreover have "remembers (bc_windowMs cfg) t (window_of s create_circuit_breaker) (window_of s create_circuit_breaker)" for s
    by (cases s) (simp_all add: create_circuit_breaker_def)
  then have "simulates cfg t create_circuit_breaker create_circuit_breaker" by (simp add: simulates_def)
  ultimately show ?thesis using simulates_run [of evs t cfg] assms by (auto simp: simulates_def times_def)
qed

section \<open>What a trip does\<close>

lemma stop_trading_closes: "stop_trading source reason d = Inr (x, d') \<Longrightarrow> \<not> is_trading_open (trading_switch d')"
  by (auto simp: stop_trading_def write_switch_def is_trading_open_def audit_def locked_state_def split: option.splits if_splits sum.splits)

text \<open>
  C13: A trip pauses the platform: once \<open>stopTrading\<close> has answered the breaker, the switch is closed,
  whoever had closed it before; and as long as nobody writes the switch again, a creation that reads it
  creates no intent and changes nothing, and no session starts, for every user and in both modes.
\<close>

theorem trip_pauses_trading:
  assumes "platform_step\<^sup>*\<^sup>* [d0] (d # h)" "db_ok d0" "stop_trading ByCircuitBreaker reason d = Inr (x, d1)"
    "platform_step\<^sup>*\<^sup>* (d1 # d # h) (d2 # h2)" "seen \<in> set (d2 # h2)" "trading_switch seen = trading_switch d1" "trading_switch d2 = trading_switch d1"
  shows "\<not> is_trading_open (trading_switch d1)
    \<and> (\<forall>input session opts res d3. create_trade_intent seen input session opts d2 = (Inr res, d3) \<longrightarrow> \<not> cr_created res \<and> d3 = d2)
    \<and> (\<forall>started demoOnly res d3. create_trading_session seen started demoOnly d2 = (res, d3) \<longrightarrow> (\<exists>e. res = Inl (SessionRefused e)) \<and> d3 = d2)"
proof (intro conjI allI impI)
  show closed: "\<not> is_trading_open (trading_switch d1)" by (rule stop_trading_closes [OF assms(3)])
  have "change d d1" using assms(3) unfolding stop_trading_def by (rule SwitchStep)
  then have "platform_step (d # h) (d1 # d # h)" by (rule Commit)
  then have run: "platform_step\<^sup>*\<^sup>* [d0] (d2 # h2)" using assms(1,4) by (meson rtranclp.rtrancl_into_rtrancl rtranclp_trans)
  have ok: "db_ok d2" "grows seen d2" "db_ok seen"
    using run_ok [OF run assms(2)] run_progress [OF run assms(2,5)] run_seen_ok [OF run assms(2,5)] progress_grows by blast+
  fix input session opts res d3
  assume c: "create_trade_intent seen input session opts d2 = (Inr res, d3)"
  have "\<not> created_in seen input session d2 r e" for r e using closed assms(6) by (auto simp: created_in_def)
  then have "replay_of input seen res \<or> replay_of input d2 res" "d3 = d2" using create_trade_intent_cases [OF ok, of input session opts] c by auto
  then show "\<not> cr_created res" "d3 = d2" by (auto simp: replay_of_def)
next
  fix started demoOnly res d3
  assume "create_trading_session seen started demoOnly d2 = (res, d3)"
  moreover have "change d d1" using assms(3) unfolding stop_trading_def by (rule SwitchStep)
  then have "platform_step (d # h) (d1 # d # h)" by (rule Commit)
  then have "db_ok d2" using assms(1,2,4) run_ok by (meson rtranclp.rtrancl_into_rtrancl rtranclp_trans)
  ultimately show "\<exists>e. res = Inl (SessionRefused e)" "d3 = d2"
    using create_trading_session_cases [of d2 seen started demoOnly res d3] stop_trading_closes [OF assms(3)] assms(7) by auto
qed

section \<open>A storm\<close>

definition demo_breaker :: breaker_config where
  "demo_breaker = \<lparr>bc_windowMs = 120000, bc_minFailures = 2, bc_failurePercent = 50\<rparr>"

definition demo_storm :: "(int \<times> breaker_event) list" where
  "demo_storm = [(0, Rest 1 True), (100000, Rest 2 False), (130000, Rest 3 True), (140000, Rest 3 True), (150000, Rest 4 True)]"

theorem breaker_refines_log_witness:
  "bk_tripping (foldl (breaker_step demo_breaker) create_circuit_breaker demo_storm)
     = Some (\<lparr>tr_signal = RestSignal, tr_failures = 2, tr_total = 3\<rparr>, False)
   \<and> bk_tripping (foldl (log_step demo_breaker) create_circuit_breaker demo_storm)
     = Some (\<lparr>tr_signal = RestSignal, tr_failures = 2, tr_total = 3\<rparr>, False)"
proof -
  have "bk_tripping (foldl (breaker_step demo_breaker) create_circuit_breaker demo_storm)
     = Some (\<lparr>tr_signal = RestSignal, tr_failures = 2, tr_total = 3\<rparr>, False)" by code_simp
  moreover have "sorted (map fst demo_storm)" by (simp add: demo_storm_def)
  ultimately show ?thesis using breaker_refines_log [of demo_storm demo_breaker] by simp
qed

definition demo_tripped :: "int db" where
  "demo_tripped = snd (projr (stop_trading ByCircuitBreaker ''no answer'' demo_db))"

lemma demo_trip: "\<exists>x. stop_trading ByCircuitBreaker ''no answer'' demo_db = Inr (x, demo_tripped)"
proof -
  have "\<not> isl (stop_trading ByCircuitBreaker ''no answer'' demo_db)" by code_simp
  then show ?thesis using Inr_pair demo_tripped_def by metis
qed

theorem trip_pauses_trading_witness:
  "\<not> is_trading_open (trading_switch demo_tripped)
   \<and> fst (create_trade_intent demo_tripped demo_request None demo_options demo_tripped) = Inl (IntentRefused TradingPaused)"
proof -
  obtain x where x: "stop_trading ByCircuitBreaker ''no answer'' demo_db = Inr (x, demo_tripped)" using demo_trip by blast
  have "fst (create_trade_intent demo_tripped demo_request None demo_options demo_tripped) = Inl (IntentRefused TradingPaused)" by code_simp
  then show ?thesis
    using trip_pauses_trading [OF rtranclp.rtrancl_refl demo_db_ok x rtranclp.rtrancl_refl _ refl refl] by simp
qed

end
