(* ===== verification/Get_Budget.thy ===== *)
theory Get_Budget
  imports Prelude
begin

text \<open>
  The worker's budget of broker GETs, \<^verbatim>\<open>apps/trading-worker/src/broker/get-budget.ts\<close>: a loop reserves
  the worst case of an attempt, every GET is counted before it is sent, and the GETs of any window of
  one minute stay within the cap. The meters are numbered in the order they are made; the clock is an
  argument of each call.
\<close>

section \<open>The budget\<close>

definition BROKER_GET_WINDOW_MS :: int where "BROKER_GET_WINDOW_MS = 60000"

record meter =
  m_left :: nat
  m_active :: bool

record get_budget =
  gb_perMinute :: nat
  gb_made :: "int list"
  gb_outstanding :: int
  gb_meters :: "meter list"

definition create_broker_get_budget :: "int \<Rightarrow> int \<Rightarrow> int \<Rightarrow> get_budget option" where
  "create_broker_get_budget perMinute carriedOver now =
     (if perMinute < 1 \<or> carriedOver < 0 \<or> perMinute < carriedOver then None
      else Some \<lparr>gb_perMinute = nat perMinute, gb_made = replicate (nat carriedOver) now, gb_outstanding = 0, gb_meters = []\<rparr>)"

definition trim :: "int \<Rightarrow> get_budget \<Rightarrow> get_budget" where
  "trim now b = b\<lparr>gb_made := dropWhile (\<lambda>ms. ms \<le> now - BROKER_GET_WINDOW_MS) (gb_made b)\<rparr>"

definition committed :: "int \<Rightarrow> get_budget \<Rightarrow> int \<times> get_budget" where
  "committed now b = (let b1 = trim now b in (int (length (gb_made b1)) + gb_outstanding b1, b1))"

definition new_meter :: "get_budget \<Rightarrow> get_budget" where
  "new_meter b = b\<lparr>gb_meters := gb_meters b @ [\<lparr>m_left = 0, m_active = False\<rparr>]\<rparr>"

definition count_get :: "nat \<Rightarrow> int \<Rightarrow> get_budget \<Rightarrow> get_budget" where
  "count_get i now b =
     (let m = gb_meters b ! i;
          b1 = (if 0 < m_left m then b\<lparr>gb_meters := (gb_meters b)[i := m\<lparr>m_left := m_left m - 1\<rparr>], gb_outstanding := gb_outstanding b - 1\<rparr> else b) in
      b1\<lparr>gb_made := gb_made b1 @ [now]\<rparr>)"

text \<open>The answer, or \<open>None\<close> where the code throws.\<close>

definition begin_attempt :: "nat \<Rightarrow> int \<Rightarrow> int \<Rightarrow> get_budget \<Rightarrow> bool option \<times> get_budget" where
  "begin_attempt i gets now b =
     (if gets < 1 then (None, b)
      else if m_active (gb_meters b ! i) then (None, b)
      else case committed now b of
        (c, b1) \<Rightarrow>
          if int (gb_perMinute b1) < c + gets then (Some False, b1)
          else (Some True, b1\<lparr>gb_outstanding := gb_outstanding b1 + gets,
            gb_meters := (gb_meters b1)[i := \<lparr>m_left = nat gets, m_active = True\<rparr>]\<rparr>))"

definition end_attempt :: "nat \<Rightarrow> get_budget \<Rightarrow> get_budget" where
  "end_attempt i b =
     b\<lparr>gb_outstanding := gb_outstanding b - int (m_left (gb_meters b ! i)),
       gb_meters := (gb_meters b)[i := \<lparr>m_left = 0, m_active = False\<rparr>]\<rparr>"

section \<open>Its use\<close>

datatype budget_call = NewMeter | BeginAttempt nat int | SendGet nat | EndAttempt nat

fun budget_step :: "get_budget \<Rightarrow> int \<times> budget_call \<Rightarrow> get_budget" where
  "budget_step b (now, NewMeter) = new_meter b"
| "budget_step b (now, BeginAttempt i gets) = snd (begin_attempt i gets now b)"
| "budget_step b (now, SendGet i) = count_get i now b"
| "budget_step b (now, EndAttempt i) = end_attempt i b"

text \<open>Every call is on a meter that was made, and every GET is inside its meter's reservation.\<close>

fun call_allowed :: "get_budget \<Rightarrow> budget_call \<Rightarrow> bool" where
  "call_allowed b NewMeter \<longleftrightarrow> True"
| "call_allowed b (BeginAttempt i gets) \<longleftrightarrow> i < length (gb_meters b)"
| "call_allowed b (SendGet i) \<longleftrightarrow> i < length (gb_meters b) \<and> 0 < m_left (gb_meters b ! i)"
| "call_allowed b (EndAttempt i) \<longleftrightarrow> i < length (gb_meters b)"

fun within_reservations :: "get_budget \<Rightarrow> (int \<times> budget_call) list \<Rightarrow> bool" where
  "within_reservations b [] \<longleftrightarrow> True"
| "within_reservations b ((now, c) # cs) \<longleftrightarrow> call_allowed b c \<and> within_reservations (budget_step b (now, c)) cs"

fun sent_gets :: "(int \<times> budget_call) list \<Rightarrow> int list" where
  "sent_gets [] = []"
| "sent_gets ((now, SendGet i) # cs) = now # sent_gets cs"
| "sent_gets ((now, _) # cs) = sent_gets cs"

text \<open>The GETs of the window that ends at \<open>t\<close>.\<close>

definition gets_in_window :: "int list \<Rightarrow> int \<Rightarrow> nat" where
  "gets_in_window sent t = length (filter (\<lambda>s. t - BROKER_GET_WINDOW_MS < s \<and> s \<le> t) sent)"

section \<open>The invariant\<close>

definition reserved :: "get_budget \<Rightarrow> int" where
  "reserved b = (\<Sum>m \<leftarrow> gb_meters b. int (m_left m))"

definition budget_ok :: "get_budget \<Rightarrow> int list \<Rightarrow> int \<Rightarrow> bool" where
  "budget_ok b sent t \<longleftrightarrow> sorted sent \<and> (\<forall>s \<in> set sent. s \<le> t) \<and> gb_outstanding b = reserved b
     \<and> (\<forall>m \<in> set (gb_meters b). \<not> m_active m \<longrightarrow> m_left m = 0)
     \<and> (\<exists>c \<le> t - BROKER_GET_WINDOW_MS. gb_made b = filter (\<lambda>s. c < s) sent)
     \<and> int (length (filter (\<lambda>s. t - BROKER_GET_WINDOW_MS < s) sent)) + reserved b \<le> int (gb_perMinute b)
     \<and> (\<forall>u. gets_in_window sent u \<le> gb_perMinute b)"

lemma reserved_nonneg: "0 \<le> reserved b"
  unfolding reserved_def by (rule sum_list_nonneg) auto

lemma sum_list_set:
  assumes "i < length xs" shows "(\<Sum>x \<leftarrow> xs[i := y]. f x) = (\<Sum>x \<leftarrow> xs. f x) - f (xs ! i) + (f y :: int)"
  using assms
proof (induction xs arbitrary: i)
  case (Cons x xs)
  then show ?case by (cases i) auto
qed simp

lemma reserved_update:
  assumes "i < length (gb_meters b)"
  shows "(\<Sum>m \<leftarrow> (gb_meters b)[i := x]. int (m_left m)) = reserved b - int (m_left (gb_meters b ! i)) + int (m_left x)"
  unfolding reserved_def by (rule sum_list_set [OF assms])

lemma dropWhile_sorted: "sorted xs \<Longrightarrow> dropWhile (\<lambda>s. s \<le> (c :: int)) xs = filter (\<lambda>s. c < s) xs"
proof (induction xs)
  case (Cons x xs)
  then show ?case by (cases "x \<le> c") (auto simp: not_le intro!: filter_True [symmetric])
qed simp

lemma length_filter_le_imp: "(\<And>x. x \<in> set xs \<Longrightarrow> p x \<Longrightarrow> q x) \<Longrightarrow> length (filter p xs) \<le> length (filter q xs)"
  by (induction xs) auto

lemma budget_ok_later:
  assumes "budget_ok b sent t" "t \<le> t'" shows "budget_ok b sent t'"
proof -
  have "length (filter (\<lambda>s. t' - BROKER_GET_WINDOW_MS < s) sent) \<le> length (filter (\<lambda>s. t - BROKER_GET_WINDOW_MS < s) sent)"
    using assms(2) by (intro length_filter_le_imp) auto
  moreover obtain c where "c \<le> t - BROKER_GET_WINDOW_MS" "gb_made b = filter (\<lambda>s. c < s) sent" using assms(1) by (auto simp: budget_ok_def)
  then have "\<exists>c \<le> t' - BROKER_GET_WINDOW_MS. gb_made b = filter (\<lambda>s. c < s) sent" using assms(2) by (intro exI [of _ c]) auto
  ultimately show ?thesis using assms unfolding budget_ok_def by force
qed

lemma trim_made:
  assumes "budget_ok b sent t" shows "gb_made (trim t b) = filter (\<lambda>s. t - BROKER_GET_WINDOW_MS < s) sent"
proof -
  obtain c where c: "c \<le> t - BROKER_GET_WINDOW_MS" "gb_made b = filter (\<lambda>s. c < s) sent" using assms by (auto simp: budget_ok_def)
  have "sorted (gb_made b)" unfolding c(2) using assms sorted_filter [of "\<lambda>s. s" sent] by (simp add: budget_ok_def)
  then have "gb_made (trim t b) = filter (\<lambda>s. t - BROKER_GET_WINDOW_MS < s) (gb_made b)" by (simp add: trim_def dropWhile_sorted)
  then show ?thesis using c by (auto intro!: filter_cong)
qed

lemma begin_attempt_ok:
  assumes ok: "budget_ok b sent t" and i: "i < length (gb_meters b)"
  shows "budget_ok (snd (begin_attempt i gets t b)) sent t \<and> gb_perMinute (snd (begin_attempt i gets t b)) = gb_perMinute b"
proof (cases "gets < 1 \<or> m_active (gb_meters b ! i)")
  case True
  then show ?thesis using ok by (auto simp: begin_attempt_def)
next
  case False
  let ?b = "trim t b"
  have m: "gb_made ?b = filter (\<lambda>s. t - BROKER_GET_WINDOW_MS < s) sent" by (rule trim_made [OF ok])
  have same: "gb_meters ?b = gb_meters b" "gb_outstanding ?b = gb_outstanding b" "gb_perMinute ?b = gb_perMinute b" "reserved ?b = reserved b"
    by (simp_all add: trim_def reserved_def)
  have okt: "budget_ok ?b sent t" using ok m same by (auto simp: budget_ok_def)
  show ?thesis
  proof (cases "int (gb_perMinute b) < int (length (gb_made ?b)) + gb_outstanding b + gets")
    case True
    then show ?thesis using False okt same by (simp add: begin_attempt_def committed_def Let_def)
  next
    case fits: False
    let ?n = "?b\<lparr>gb_outstanding := gb_outstanding ?b + gets, gb_meters := (gb_meters ?b)[i := \<lparr>m_left = nat gets, m_active = True\<rparr>]\<rparr>"
    have n: "snd (begin_attempt i gets t b) = ?n" using False fits same by (simp add: begin_attempt_def committed_def Let_def)
    have "gb_meters b ! i \<in> set (gb_meters b)" using i by simp
    then have "m_left (gb_meters b ! i) = 0" using ok False unfolding budget_ok_def by blast
    moreover have "gb_meters ?n = (gb_meters b)[i := \<lparr>m_left = nat gets, m_active = True\<rparr>]" by (simp add: same)
    ultimately have res: "reserved ?n = reserved b + gets"
      unfolding reserved_def [of ?n] using reserved_update [OF i, of "\<lparr>m_left = nat gets, m_active = True\<rparr>"] False by simp
    have "\<forall>m \<in> set (gb_meters ?n). \<not> m_active m \<longrightarrow> m_left m = 0"
      using okt by (auto simp: budget_ok_def dest!: set_update_subset_insert [THEN subsetD])
    then have "budget_ok ?n sent t" using okt res fits same m ok by (auto simp: budget_ok_def)
    then show ?thesis unfolding n by (simp add: same)
  qed
qed

lemma count_get_ok:
  assumes ok: "budget_ok b sent t" and i: "i < length (gb_meters b)" "0 < m_left (gb_meters b ! i)"
  shows "budget_ok (count_get i t b) (sent @ [t]) t \<and> gb_perMinute (count_get i t b) = gb_perMinute b"
proof -
  let ?m = "gb_meters b ! i" and ?W = "t - BROKER_GET_WINDOW_MS"
  let ?n = "count_get i t b"
  have n: "gb_meters ?n = (gb_meters b)[i := ?m\<lparr>m_left := m_left ?m - 1\<rparr>]" "gb_outstanding ?n = gb_outstanding b - 1"
    "gb_made ?n = gb_made b @ [t]" "gb_perMinute ?n = gb_perMinute b"
    using i(2) by (simp_all add: count_get_def Let_def)
  have res: "reserved ?n = reserved b - 1" using reserved_update [OF i(1), of "?m\<lparr>m_left := m_left ?m - 1\<rparr>"] i(2) by (simp add: reserved_def [of ?n] n)
  have W: "?W < t" by (simp add: BROKER_GET_WINDOW_MS_def)
  obtain c where c: "c \<le> ?W" "gb_made b = filter (\<lambda>s. c < s) sent" using ok by (auto simp: budget_ok_def)
  have made: "gb_made ?n = filter (\<lambda>s. c < s) (sent @ [t])" using c W by (simp add: n)
  have inside: "int (length (filter (\<lambda>s. ?W < s) (sent @ [t]))) + reserved ?n \<le> int (gb_perMinute ?n)"
    using ok W by (simp add: budget_ok_def n res)
  have "gets_in_window (sent @ [t]) u \<le> gb_perMinute ?n" for u
  proof (cases "t \<le> u")
    case True
    have "gets_in_window (sent @ [t]) u \<le> length (filter (\<lambda>s. ?W < s) (sent @ [t]))"
      unfolding gets_in_window_def using True by (intro length_filter_le_imp) auto
    then show ?thesis using inside reserved_nonneg [of ?n] by linarith
  next
    case False
    then have "gets_in_window (sent @ [t]) u = gets_in_window sent u" by (simp add: gets_in_window_def)
    then show ?thesis using ok by (simp add: budget_ok_def n)
  qed
  moreover have "?m \<in> set (gb_meters b)" using i(1) by simp
  then have "m_active ?m" using ok i(2) unfolding budget_ok_def by fastforce
  then have "\<forall>m \<in> set (gb_meters ?n). \<not> m_active m \<longrightarrow> m_left m = 0"
    using ok unfolding n by (auto simp: budget_ok_def dest!: set_update_subset_insert [THEN subsetD])
  moreover have "sorted (sent @ [t])" "\<forall>s \<in> set (sent @ [t]). s \<le> t" using ok by (auto simp: budget_ok_def sorted_append)
  moreover have "gb_outstanding ?n = reserved ?n" using ok by (simp add: budget_ok_def n res)
  moreover have "\<exists>c \<le> ?W. gb_made ?n = filter (\<lambda>s. c < s) (sent @ [t])" using made c(1) by blast
  ultimately show ?thesis using inside n(4) unfolding budget_ok_def by blast
qed

lemma end_attempt_ok:
  assumes ok: "budget_ok b sent t" and i: "i < length (gb_meters b)"
  shows "budget_ok (end_attempt i b) sent t \<and> gb_perMinute (end_attempt i b) = gb_perMinute b"
proof -
  let ?n = "end_attempt i b"
  have n: "gb_meters ?n = (gb_meters b)[i := \<lparr>m_left = 0, m_active = False\<rparr>]" "gb_made ?n = gb_made b" "gb_perMinute ?n = gb_perMinute b"
    "gb_outstanding ?n = gb_outstanding b - int (m_left (gb_meters b ! i))" by (simp_all add: end_attempt_def)
  have res: "reserved ?n = reserved b - int (m_left (gb_meters b ! i))"
    using reserved_update [OF i, of "\<lparr>m_left = 0, m_active = False\<rparr>"] by (simp add: reserved_def [of ?n] n)
  have "\<forall>m \<in> set (gb_meters ?n). \<not> m_active m \<longrightarrow> m_left m = 0"
    using ok unfolding n by (auto simp: budget_ok_def dest!: set_update_subset_insert [THEN subsetD])
  then show ?thesis using ok n res unfolding budget_ok_def by force
qed

lemma budget_step_ok:
  assumes "budget_ok b sent t" "t \<le> now" "call_allowed b c"
  shows "budget_ok (budget_step b (now, c)) (sent @ sent_gets [(now, c)]) now \<and> gb_perMinute (budget_step b (now, c)) = gb_perMinute b"
proof -
  have ok: "budget_ok b sent now" by (rule budget_ok_later [OF assms(1,2)])
  show ?thesis
  proof (cases c)
    case NewMeter
    then show ?thesis using ok by (auto simp: new_meter_def budget_ok_def reserved_def)
  next
    case (BeginAttempt i gets)
    then show ?thesis using begin_attempt_ok [OF ok] assms(3) by simp
  next
    case (SendGet i)
    then show ?thesis using count_get_ok [OF ok] assms(3) by simp
  next
    case (EndAttempt i)
    then show ?thesis using end_attempt_ok [OF ok] assms(3) by simp
  qed
qed

lemma sent_gets_Cons: "sent_gets (x # cs) = sent_gets [x] @ sent_gets cs"
  by (cases x; cases "snd x") auto

lemma budget_run_ok:
  "sorted (map fst cs) \<Longrightarrow> (\<forall>u \<in> set (map fst cs). t \<le> u) \<Longrightarrow> within_reservations b cs \<Longrightarrow> budget_ok b sent t
   \<Longrightarrow> \<exists>t'. budget_ok (foldl budget_step b cs) (sent @ sent_gets cs) t' \<and> gb_perMinute (foldl budget_step b cs) = gb_perMinute b"
proof (induction cs arbitrary: t b sent)
  case (Cons x cs)
  obtain now c where x: "x = (now, c)" by (cases x)
  have "budget_ok (budget_step b x) (sent @ sent_gets [x]) now \<and> gb_perMinute (budget_step b x) = gb_perMinute b"
    unfolding x using Cons.prems x by (intro budget_step_ok) auto
  moreover have "sent @ sent_gets (x # cs) = (sent @ sent_gets [x]) @ sent_gets cs" by (subst sent_gets_Cons) simp
  ultimately show ?case using Cons.IH [of now "budget_step b x" "sent @ sent_gets [x]"] Cons.prems x by auto
qed auto

text \<open>
  C14: The worker stays within its share of the broker's limit: on a clock that does not go back, as long
  as every GET is sent inside the reservation of its loop's attempt, no window of one minute, wherever
  it ends, holds more GETs than the cap, the ones carried over from the process before included, in
  whatever order any number of loops begin, send and end.
\<close>

theorem gets_within_cap:
  assumes "create_broker_get_budget perMinute carriedOver start = Some b" "sorted (map fst calls)"
    "\<forall>u \<in> set (map fst calls). start \<le> u" "within_reservations b calls"
  shows "int (gets_in_window (replicate (nat carriedOver) start @ sent_gets calls) u) \<le> perMinute"
proof -
  have b: "b = \<lparr>gb_perMinute = nat perMinute, gb_made = replicate (nat carriedOver) start, gb_outstanding = 0, gb_meters = []\<rparr>"
    "1 \<le> perMinute" "0 \<le> carriedOver" "carriedOver \<le> perMinute"
    using assms(1) by (auto simp: create_broker_get_budget_def split: if_splits)
  have "length (filter p (replicate (nat carriedOver) start)) \<le> nat perMinute" for p
    using b(4) length_filter_le [of p "replicate (nat carriedOver) start"] by simp
  moreover have "\<exists>c \<le> start - BROKER_GET_WINDOW_MS. replicate (nat carriedOver) start = filter (\<lambda>s. c < s) (replicate (nat carriedOver) start)"
    by (intro exI [of _ "start - BROKER_GET_WINDOW_MS"]) (simp add: BROKER_GET_WINDOW_MS_def)
  moreover have "sorted (replicate (nat carriedOver) start)" by (simp add: sorted_replicate)
  ultimately have "budget_ok b (replicate (nat carriedOver) start) start"
    unfolding budget_ok_def b(1) gets_in_window_def reserved_def using b(2-4) by (simp add: BROKER_GET_WINDOW_MS_def)
  from budget_run_ok [OF assms(2,3,4) this] obtain t where
    t: "budget_ok (foldl budget_step b calls) (replicate (nat carriedOver) start @ sent_gets calls) t"
      "gb_perMinute (foldl budget_step b calls) = gb_perMinute b" by blast
  from t(1) have "gets_in_window (replicate (nat carriedOver) start @ sent_gets calls) u \<le> gb_perMinute (foldl budget_step b calls)"
    unfolding budget_ok_def by blast
  then show ?thesis unfolding t(2) unfolding b(1) using b(2) by simp
qed

definition demo_budget :: get_budget where
  "demo_budget = the (create_broker_get_budget 3 1 0)"

definition demo_calls :: "(int \<times> budget_call) list" where
  "demo_calls = [(0, NewMeter), (0, NewMeter), (10, BeginAttempt 0 2), (20, SendGet 0), (30, BeginAttempt 1 1), (40, EndAttempt 0),
     (50, BeginAttempt 1 1), (60, SendGet 1), (70, EndAttempt 1), (60000, BeginAttempt 0 1), (60000, SendGet 0)]"

theorem gets_within_cap_witness:
  "int (gets_in_window (replicate 1 0 @ sent_gets demo_calls) 100) \<le> 3 \<and> sent_gets demo_calls = [20, 60, 60000]"
proof -
  have "create_broker_get_budget 3 1 0 = Some demo_budget" by (simp add: demo_budget_def create_broker_get_budget_def)
  moreover have "within_reservations demo_budget demo_calls" by code_simp
  moreover have "sorted (map fst demo_calls)" "\<forall>u \<in> set (map fst demo_calls). 0 \<le> u" by (simp_all add: demo_calls_def)
  ultimately show ?thesis using gets_within_cap [of 3 1 0 demo_budget demo_calls 100] by (simp add: demo_calls_def)
qed

end
