(* ===== verification/Catchup.thy ===== *)
theory Catchup
  imports Trade_Pages Matching Platform "HOL-Library.AList"
begin

text \<open>
  The settlement catch-up, \<^verbatim>\<open>apps/trading-worker/src/intents/settlement-catchup.ts\<close>: the timer that asks
  the broker for the closed trades of intents past their expected close. An attempt is a task of one
  transaction per step; the tick, its hold-backs and the attempts its deadline abandoned are the
  state of the process. The token, the pages, the GET budget and the clock answer from outside.
\<close>

section \<open>The overdue intents\<close>

record overdue =
  ov_id :: nat
  ov_accountId :: nat
  ov_brokerTradeId :: string
  ov_mode :: trade_mode

definition expected_close_ms :: "intent_row \<times> 'p trade_row \<Rightarrow> int" where
  "expected_close_ms p = t_openTimestampMs (snd p) + i_durationSec (fst p) * 1000"

definition accepted_open :: "'p db \<Rightarrow> (intent_row \<times> 'p trade_row) list" where
  "accepted_open d = [(r, t). r \<leftarrow> intents d, t \<leftarrow> trades d, t_intentId t = Some (i_id r) \<and> i_status r = Accepted \<and> t_status t = TOpen]"

definition list_overdue_accepted_intents :: "int \<Rightarrow> nat \<Rightarrow> nat list \<Rightarrow> 'p db \<Rightarrow> overdue list" where
  "list_overdue_accepted_intents graceMs limit exclude d =
     map (\<lambda>(r, t). \<lparr>ov_id = i_id r, ov_accountId = i_accountId r, ov_brokerTradeId = t_brokerTradeId t, ov_mode = i_mode r\<rparr>)
       (take limit (sort_key expected_close_ms (filter (\<lambda>p. expected_close_ms p + graceMs < now d
          \<and> (exclude = [] \<or> \<not> List.member exclude (i_accountId (fst p)))) (accepted_open d))))"

section \<open>The attempt\<close>

datatype catchup_ending = EndingSettled | EndingLeft | EndingStalled | EndingRateLimited | EndingStopped

record catchup_config =
  cc_graceMs :: int
  cc_batchSize :: nat
  cc_maxPages :: nat
  cc_stalledRetryMs :: int

record 'p catchup_input =
  ci_token :: token_answer
  ci_fetch :: "nat \<Rightarrow> nat \<Rightarrow> rest_error + 'p broker_trade list"

text \<open>\<open>CatchupSettle\<close>: the trades still to settle and the outcomes so far. \<open>CatchupEnded\<close>: the ending, and
  whether \<open>onIntentEnded\<close> was called.\<close>

datatype 'p attempt =
  CatchupAsk overdue
| CatchupSettle overdue "'p broker_trade list" "closed_outcome list"
| CatchupEnded overdue catchup_ending bool

definition read_closed :: "catchup_config \<Rightarrow> 'p catchup_input \<Rightarrow> overdue \<Rightarrow> pages_error + 'p broker_trade list" where
  "read_closed cfg inp ov =
     (case read_trade_pages (ci_fetch inp) (cc_maxPages cfg) (\<lambda>t. bt_id t = ov_brokerTradeId ov) of
        Inl e \<Rightarrow> Inl e
      | Inr read \<Rightarrow> Inr (filter is_closed_trade (pr_trades read)))"

definition catchup_ask :: "catchup_config \<Rightarrow> bool \<Rightarrow> 'p catchup_input \<Rightarrow> overdue \<Rightarrow> 'p attempt" where
  "catchup_ask cfg stopping inp ov =
     (case ci_token inp of
        TokenRefused \<Rightarrow> CatchupEnded ov EndingStalled False
      | TokenUnlearned \<Rightarrow> CatchupEnded ov (if stopping then EndingStopped else EndingStalled) False
      | TokenOk _ \<Rightarrow>
      (case read_closed cfg inp ov of
         Inl (TradePagesError _) \<Rightarrow> CatchupEnded ov EndingStalled False
       | Inl (RestThrew e) \<Rightarrow>
           CatchupEnded ov (if e = RestAborted \<and> stopping then EndingStopped
             else if e = RestRateLimited then EndingRateLimited else EndingStalled) False
       | Inr ts \<Rightarrow> CatchupSettle ov ts []))"

fun outcome_trade :: "closed_outcome \<Rightarrow> string" where
  "outcome_trade (OutcomeSettled tid _) = tid"
| "outcome_trade (AlreadySettled tid _) = tid"
| "outcome_trade (NotOurs tid) = tid"
| "outcome_trade (IntentNotAccepted tid _ _) = tid"

fun is_settled_outcome :: "closed_outcome \<Rightarrow> bool" where
  "is_settled_outcome (OutcomeSettled _ _) \<longleftrightarrow> True"
| "is_settled_outcome _ \<longleftrightarrow> False"

definition catchup_verdict :: "overdue \<Rightarrow> closed_outcome list \<Rightarrow> catchup_ending" where
  "catchup_verdict ov outcomes =
     (case find (\<lambda>out. outcome_trade out = ov_brokerTradeId ov) outcomes of
        Some (OutcomeSettled _ _) \<Rightarrow> EndingSettled
      | Some (AlreadySettled _ _) \<Rightarrow> EndingLeft
      | Some (IntentNotAccepted _ _ _) \<Rightarrow> EndingLeft
      | _ \<Rightarrow> EndingStalled)"

fun attempt_step :: "catchup_config \<Rightarrow> bool \<Rightarrow> 'p catchup_input \<Rightarrow> 'p attempt \<Rightarrow> 'p db \<Rightarrow> 'p attempt \<times> 'p db" where
  "attempt_step cfg stopping inp (CatchupAsk ov) d = (catchup_ask cfg stopping inp ov, d)"
| "attempt_step cfg stopping inp (CatchupSettle ov [] outs) d =
     (CatchupEnded ov (catchup_verdict ov outs) (list_ex is_settled_outcome outs), d)"
| "attempt_step cfg stopping inp (CatchupSettle ov (t # ts) outs) d =
     (case settle_closed_trade (ov_accountId ov) t d of
        (Inl e, d1) \<Rightarrow> (CatchupEnded ov EndingStalled False, d1)
      | (Inr out, d1) \<Rightarrow> (CatchupSettle ov ts (outs @ [out]), d1))"
| "attempt_step cfg stopping inp (CatchupEnded ov e w) d = (CatchupEnded ov e w, d)"

section \<open>The tick\<close>

datatype 'p tick = Listing | Looping "overdue list" | Attempting "overdue list" overdue "'p attempt"

record 'p catchup =
  cu_clock :: int
  cu_stalled :: "(nat \<times> int) list"
  cu_stopped :: bool
  cu_tick :: "'p tick option"
  cu_abandoned :: "'p attempt list"

definition create_settlement_catchup :: "int \<Rightarrow> 'p catchup" where
  "create_settlement_catchup t = \<lparr>cu_clock = t, cu_stalled = [], cu_stopped = False, cu_tick = None, cu_abandoned = []\<rparr>"

definition hold :: "catchup_config \<Rightarrow> nat \<Rightarrow> 'p catchup \<Rightarrow> 'p catchup" where
  "hold cfg accountId c = c\<lparr>cu_stalled := AList.update accountId (cu_clock c + cc_stalledRetryMs cfg) (cu_stalled c)\<rparr>"

text \<open>\<open>tick\<close>: a running tick serves the call; a new one drops the hold-backs whose time has come.\<close>

definition begin_tick :: "'p catchup \<Rightarrow> 'p catchup" where
  "begin_tick c =
     (if cu_stopped c \<or> cu_tick c \<noteq> None then c
      else c\<lparr>cu_stalled := filter (\<lambda>(a, retryAt). \<not> retryAt \<le> cu_clock c) (cu_stalled c), cu_tick := Some Listing\<rparr>)"

text \<open>A turn of the loop: the head of the list, or the end of an attempt.\<close>

definition loop_turn :: "catchup_config \<Rightarrow> bool \<Rightarrow> 'p catchup \<Rightarrow> 'p catchup" where
  "loop_turn cfg fits c =
     (case cu_tick c of
        Some (Looping []) \<Rightarrow> c\<lparr>cu_tick := None\<rparr>
      | Some (Looping (ov # ovs)) \<Rightarrow>
          if cu_stopped c then c\<lparr>cu_tick := None\<rparr>
          else if \<not> fits then c\<lparr>cu_tick := None\<rparr>
          else c\<lparr>cu_tick := Some (Attempting ovs ov (CatchupAsk ov))\<rparr>
      | Some (Attempting ovs ov (CatchupEnded _ e _)) \<Rightarrow>
          if e = EndingStopped \<or> e = EndingRateLimited then c\<lparr>cu_tick := None\<rparr>
          else (if e = EndingStalled then hold cfg (ov_accountId ov) c else c)\<lparr>cu_tick := Some (Looping ovs)\<rparr>
      | _ \<Rightarrow> c)"

datatype 'p happening =
  TickBegins | OverdueListed | ListingFails | LoopTurns bool | AttemptRuns "'p catchup_input"
| DeadlinePasses | AbandonedRuns nat "'p catchup_input" | CatchupStops | ClockMoves int | ProcessRestarts

text \<open>What each event makes of the process and of the database; the attempt past its deadline goes on
  beside the tick.\<close>

fun catchup_event :: "catchup_config \<Rightarrow> 'p happening \<Rightarrow> 'p catchup \<Rightarrow> 'p db \<Rightarrow> 'p catchup \<times> 'p db" where
  "catchup_event cfg TickBegins c d = (begin_tick c, d)"
| "catchup_event cfg OverdueListed c d =
     (case cu_tick c of
        Some Listing \<Rightarrow> (c\<lparr>cu_tick := Some (Looping
          (list_overdue_accepted_intents (cc_graceMs cfg) (cc_batchSize cfg) (map fst (cu_stalled c)) d))\<rparr>, d)
      | _ \<Rightarrow> (c, d))"
| "catchup_event cfg ListingFails c d = (case cu_tick c of Some Listing \<Rightarrow> (c\<lparr>cu_tick := None\<rparr>, d) | _ \<Rightarrow> (c, d))"
| "catchup_event cfg (LoopTurns fits) c d = (loop_turn cfg fits c, d)"
| "catchup_event cfg (AttemptRuns inp) c d =
     (case cu_tick c of
        Some (Attempting ovs ov a) \<Rightarrow>
          (case attempt_step cfg (cu_stopped c) inp a d of (a', d') \<Rightarrow> (c\<lparr>cu_tick := Some (Attempting ovs ov a')\<rparr>, d'))
      | _ \<Rightarrow> (c, d))"
| "catchup_event cfg DeadlinePasses c d =
     (case cu_tick c of
        Some (Attempting ovs ov a) \<Rightarrow>
          ((hold cfg (ov_accountId ov) c)\<lparr>cu_tick := Some (Looping ovs), cu_abandoned := cu_abandoned c @ [a]\<rparr>, d)
      | _ \<Rightarrow> (c, d))"
| "catchup_event cfg (AbandonedRuns k inp) c d =
     (if k < length (cu_abandoned c) then
        (case attempt_step cfg (cu_stopped c) inp (cu_abandoned c ! k) d of
           (a', d') \<Rightarrow> (c\<lparr>cu_abandoned := (cu_abandoned c)[k := a']\<rparr>, d'))
      else (c, d))"
| "catchup_event cfg CatchupStops c d = (c\<lparr>cu_stopped := True\<rparr>, d)"
| "catchup_event cfg (ClockMoves t) c d = (if cu_clock c \<le> t then (c\<lparr>cu_clock := t\<rparr>, d) else (c, d))"
| "catchup_event cfg ProcessRestarts c d = (create_settlement_catchup (cu_clock c), d)"

text \<open>Beside the rest of the platform.\<close>

inductive catchup_step :: "catchup_config \<Rightarrow> 'p db list \<times> 'p catchup \<Rightarrow> 'p db list \<times> 'p catchup \<Rightarrow> bool" for cfg where
  Own: "catchup_event cfg e c d = (c', d') \<Longrightarrow> catchup_step cfg (d # h, c) (d' # d # h, c')"
| Beside: "platform_step h h' \<Longrightarrow> catchup_step cfg (h, c) (h', c)"

inductive_cases catchup_stepE: "catchup_step cfg x y"

section \<open>What an attempt leaves\<close>

definition closed_at :: "nat \<Rightarrow> string \<Rightarrow> 'p db \<Rightarrow> bool" where
  "closed_at accountId tradeId d \<longleftrightarrow> (\<exists>iid. closed_link accountId tradeId iid d)"

lemma closed_at_keeps: "closed_at a t d \<Longrightarrow> keeps_trades d d' \<Longrightarrow> closed_at a t d'"
  by (auto simp: closed_at_def keeps_trades_def)

lemma in_accepted_open:
  "(r, t) \<in> set (accepted_open d) \<longleftrightarrow>
     r \<in> set (intents d) \<and> t \<in> set (trades d) \<and> t_intentId t = Some (i_id r) \<and> i_status r = Accepted \<and> t_status t = TOpen"
  by (auto simp: accepted_open_def)

lemma in_overdue:
  assumes "ov \<in> set (list_overdue_accepted_intents g l x d)"
  obtains r t where "(r, t) \<in> set (accepted_open d)" "ov_id ov = i_id r" "ov_accountId ov = i_accountId r"
    "ov_brokerTradeId ov = t_brokerTradeId t" "x = [] \<or> \<not> List.member x (ov_accountId ov)"
  using assms by (auto simp: list_overdue_accepted_intents_def dest!: in_set_takeD)

lemma trade_account: "db_ok d \<Longrightarrow> (r, t) \<in> set (accepted_open d) \<Longrightarrow> t_accountId t = i_accountId r"
  unfolding in_accepted_open
  by (metis db_ok_def trades_part_def trade_row_ok_def db_ok_unique unique_ids_eq)

lemma closed_not_listed:
  assumes ok: "db_ok d" and c: "closed_at (ov_accountId ov) (ov_brokerTradeId ov) d"
  shows "ov \<notin> set (list_overdue_accepted_intents g l x d)"
proof
  assume "ov \<in> set (list_overdue_accepted_intents g l x d)"
  then obtain r t where p: "(r, t) \<in> set (accepted_open d)" "ov_accountId ov = i_accountId r" "ov_brokerTradeId ov = t_brokerTradeId t"
    by (rule in_overdue)
  have acc: "t_accountId t = ov_accountId ov" using trade_account [OF ok p(1)] p(2) by simp
  obtain i s where s: "s \<in> set (trades d)" "t_accountId s = ov_accountId ov" "t_brokerTradeId s = ov_brokerTradeId ov" "t_status s = TClosed"
    using c by (auto simp: closed_at_def closed_link_def)
  have "t \<in> set (trades d)" "t_status t = TOpen" using p(1) by (simp_all add: in_accepted_open)
  moreover have "unique_on account_trade_key (trades d)" using ok by (simp add: db_ok_def trades_part_def)
  ultimately have "t = s" using s acc p(3) by (intro unique_on_same [of account_trade_key "trades d" t s]) (auto simp: account_trade_key_def)
  then show False using s(4) \<open>t_status t = TOpen\<close> by simp
qed

lemma consume_no_mismatch: "consume_tokens u i n d = Inl (MismatchThrown why j b) \<Longrightarrow> False"
  by (auto simp: consume_tokens_def insert_ledger_def Let_def split: sum.splits option.splits if_splits)

lemma transition_no_mismatch: "transition_intent iid a b ex patch whr d = Inl (MismatchThrown why j bt) \<Longrightarrow> False"
  by (auto simp: transition_intent_def Let_def split: if_splits option.splits)

text \<open>The trade of a link: the only row of its intent, open exactly while the intent is accepted.\<close>

lemma linked_row:
  assumes ok: "db_ok d" and t: "t \<in> set (trades d)" "t_intentId t = Some iid"
  obtains r where "r \<in> set (intents d)" "i_id r = iid" "find_intent_row iid d = Some r" "link_statuses (i_status r) = [t_status t]"
    "sql_first (\<lambda>x. t_intentId x = Some iid) (trades d) = Some t"
proof -
  have "trade_row_ok (intents d) (next_id d) t" using ok t(1) by (simp add: db_ok_def trades_part_def)
  then obtain r where r: "r \<in> set (intents d)" "i_id r = iid" using t(2) unfolding trade_row_ok_def by blast
  have links: "map t_status (filter (\<lambda>x. t_intentId x = Some iid) (trades d)) = link_statuses (i_status r)"
    using db_ok_links [OF ok r(1)] r(2) by (simp add: links_of_def)
  have "t \<in> set (filter (\<lambda>x. t_intentId x = Some iid) (trades d))" using t by simp
  moreover have "length (link_statuses (i_status r)) \<le> 1" by (simp add: link_statuses_def)
  then have "length (filter (\<lambda>x. t_intentId x = Some iid) (trades d)) \<le> 1" unfolding links [symmetric] by simp
  ultimately have one: "filter (\<lambda>x. t_intentId x = Some iid) (trades d) = [t]"
    by (cases "filter (\<lambda>x. t_intentId x = Some iid) (trades d)") auto
  have "sql_first (\<lambda>x. t_intentId x = Some iid) (trades d) \<noteq> None" using t by (auto simp: sql_first_None)
  then obtain l where l: "sql_first (\<lambda>x. t_intentId x = Some iid) (trades d) = Some l" by blast
  have "l \<in> set (filter (\<lambda>x. t_intentId x = Some iid) (trades d))" using sql_first_Some [OF l] by simp
  then have "l = t" using one by simp
  then show ?thesis using that [OF r(1,2)] find_intent_unique [OF db_ok_unique [OF ok] r(1)] r(2) links one l by simp
qed

text \<open>A closed trade of the account: its settlement never throws; it is not ours, or closed from then on.\<close>

lemma settle_closed_trade_leaves:
  assumes ok: "db_ok d" and c: "is_closed_trade trade" and s: "settle_closed_trade accountId trade d = (res, d1)"
  obtains out where "res = Inr out" "outcome_trade out = bt_id trade" "out = NotOurs (bt_id trade) \<or> closed_at accountId (bt_id trade) d1"
    "out = NotOurs (bt_id trade) \<longrightarrow> \<not> (\<exists>t \<in> set (trades d). t_accountId t = accountId \<and> t_brokerTradeId t = bt_id trade \<and> t_intentId t \<noteq> None)"
proof (cases "\<exists>t \<in> set (trades d). t_accountId t = accountId \<and> t_brokerTradeId t = bt_id trade \<and> t_intentId t \<noteq> None")
  case False
  have "classify_link (bt_id trade) (trade_link accountId (bt_id trade) d) = Inl (NotOurs (bt_id trade))"
  proof (cases "sql_first (\<lambda>t. t_accountId t = accountId \<and> t_brokerTradeId t = bt_id trade) (trades d)")
    case (Some t)
    then have "t_intentId t = None" using False sql_first_Some [OF Some] by auto
    then show ?thesis using Some by (simp add: classify_link_def trade_link_def)
  qed (simp add: classify_link_def trade_link_def)
  then show ?thesis using s False that by (auto simp: settle_closed_trade_def)
next
  case True
  then obtain t iid where t: "t \<in> set (trades d)" "t_accountId t = accountId" "t_brokerTradeId t = bt_id trade" "t_intentId t = Some iid" by blast
  obtain r where r: "r \<in> set (intents d)" "i_id r = iid" "find_intent_row iid d = Some r" "link_statuses (i_status r) = [t_status t]"
    "sql_first (\<lambda>x. t_intentId x = Some iid) (trades d) = Some t" by (rule linked_row [OF ok t(1,4)])
  have u: "unique_on account_trade_key (trades d)" using ok by (simp add: db_ok_def trades_part_def)
  have found: "sql_first (\<lambda>t. t_accountId t = accountId \<and> t_brokerTradeId t = bt_id trade) (trades d) = Some t"
    using t by (intro sql_first_unique [OF u t(1)]) (auto simp: account_trade_key_def)
  have link: "trade_link accountId (bt_id trade) d = Some (t_status t, Some iid, Some (i_status r))"
    using found t(4) r(3) by (simp add: trade_link_def)
  show ?thesis
  proof (cases "t_status t")
    case TClosed
    then have "res = Inr (AlreadySettled (bt_id trade) iid)" "d1 = d" using s link by (simp_all add: settle_closed_trade_def classify_link_def)
    moreover have "closed_at accountId (bt_id trade) d" using t TClosed by (auto simp: closed_at_def closed_link_def)
    ultimately show ?thesis by (intro that [of "AlreadySettled (bt_id trade) iid"]) auto
  next
    case TOpen
    then have st: "i_status r = Accepted" using r(4) by (auto simp: link_statuses_def split: if_splits)
    have cl: "classify_link (bt_id trade) (trade_link accountId (bt_id trade) d) = Inr iid" using link TOpen st by (simp add: classify_link_def)
    have "settle_intent iid None Accepted trade d \<noteq> Inl (MismatchThrown why iid (bt_id trade))" for why
      using r(3,5) st t(3)
      by (auto simp: settle_intent_def dest: consume_no_mismatch transition_no_mismatch split: sum.splits option.splits if_splits)
    moreover have "cas_matches iid Accepted None (\<lambda>_. True) r" using st r(2) by (simp add: cas_matches_def)
    ultimately obtain row d2 where "settle_intent iid None Accepted trade d = Inr (Some row, d2)"
      using settle_intent_cases [OF ok disjI1 [OF refl] c, of iid None] r(1) by blast
    then have out: "settle_closed_trade accountId trade d = (Inr (OutcomeSettled (bt_id trade) iid), d2)"
      using cl by (simp add: settle_closed_trade_def run_transaction_def)
    then have "closed_at accountId (bt_id trade) d2" using settle_closed_trade_settles [OF ok c out] by (auto simp: closed_at_def)
    then show ?thesis using out s by (intro that [of "OutcomeSettled (bt_id trade) iid"]) auto
  qed
qed

section \<open>The invariant\<close>

fun attempt_overdue :: "'p attempt \<Rightarrow> overdue" where
  "attempt_overdue (CatchupAsk ov) = ov"
| "attempt_overdue (CatchupSettle ov _ _) = ov"
| "attempt_overdue (CatchupEnded ov _ _) = ov"

fun attempt_ok :: "'p attempt \<Rightarrow> 'p db \<Rightarrow> bool" where
  "attempt_ok (CatchupAsk ov) d \<longleftrightarrow> True"
| "attempt_ok (CatchupSettle ov ts outs) d \<longleftrightarrow> (\<forall>t \<in> set ts. is_closed_trade t)
     \<and> (\<forall>out \<in> set outs. out = NotOurs (outcome_trade out) \<or> closed_at (ov_accountId ov) (outcome_trade out) d)"
| "attempt_ok (CatchupEnded ov e w) d \<longleftrightarrow>
     (e = EndingSettled \<or> e = EndingLeft \<longrightarrow> closed_at (ov_accountId ov) (ov_brokerTradeId ov) d)"

lemma attempt_ok_keeps: "attempt_ok a d \<Longrightarrow> keeps_trades d d' \<Longrightarrow> attempt_ok a d'"
  by (cases a) (auto intro: closed_at_keeps)

lemma ask_ok: "attempt_ok (catchup_ask cfg stopping inp ov) d \<and> attempt_overdue (catchup_ask cfg stopping inp ov) = ov"
  by (auto simp: catchup_ask_def read_closed_def split: token_answer.splits sum.splits pages_error.splits)

lemma verdict_closed:
  assumes "attempt_ok (CatchupSettle ov [] outs) d" "catchup_verdict ov outs = EndingSettled \<or> catchup_verdict ov outs = EndingLeft"
  shows "closed_at (ov_accountId ov) (ov_brokerTradeId ov) d"
proof -
  obtain out where "find (\<lambda>out. outcome_trade out = ov_brokerTradeId ov) outs = Some out" "out \<noteq> NotOurs (outcome_trade out)"
    using assms(2) by (auto simp: catchup_verdict_def split: option.splits closed_outcome.splits)
  then show ?thesis using assms(1) by (auto simp: find_Some_iff)
qed

lemma change_same: "change d d"
  using ClockStep [of d "now d"] by simp

lemma attempt_step_ok:
  assumes ok: "db_ok d" and a: "attempt_ok a d" and s: "attempt_step cfg stopping inp a d = (a', d')"
  shows "attempt_ok a' d' \<and> attempt_overdue a' = attempt_overdue a \<and> change d d'"
proof -
  have "attempt_ok a' d' \<and> attempt_overdue a' = attempt_overdue a \<and> (d' = d \<or> change d d')"
  proof (cases a)
    case (CatchupAsk ov)
    then show ?thesis using s by (auto simp: ask_ok)
  next
    case set: (CatchupSettle ov ts outs)
    show ?thesis
    proof (cases ts)
      case Nil
      then show ?thesis using s a set verdict_closed [of ov outs d] by auto
    next
      case (Cons t rest)
      have c: "is_closed_trade t" using a set Cons by simp
      obtain res d1 where r: "settle_closed_trade (ov_accountId ov) t d = (res, d1)" by force
      obtain out where out: "res = Inr out" "outcome_trade out = bt_id t" "out = NotOurs (bt_id t) \<or> closed_at (ov_accountId ov) (bt_id t) d1"
        by (rule settle_closed_trade_leaves [OF ok c r])
      have "attempt_ok (CatchupSettle ov ts outs) d1"
        using a set attempt_ok_keeps [of "CatchupSettle ov ts outs" d, OF _ settle_closed_trade_keeps [OF r c]] by simp
      then show ?thesis using s set Cons r out SettleStep [OF c r] by auto
    qed
  next
    case CatchupEnded
    then show ?thesis using s a by simp
  qed
  then show ?thesis using change_same by blast
qed

definition fresh_accounts :: "overdue list \<Rightarrow> (nat \<times> int) list \<Rightarrow> bool" where
  "fresh_accounts ovs st \<longleftrightarrow> distinct (map ov_accountId ovs) \<and> (\<forall>ov \<in> set ovs. ov_accountId ov \<notin> fst ` set st)"

definition catchup_ok :: "'p catchup \<Rightarrow> 'p db \<Rightarrow> bool" where
  "catchup_ok c d \<longleftrightarrow> (\<forall>a \<in> set (cu_abandoned c). attempt_ok a d)
     \<and> (case cu_tick c of
          Some (Looping ovs) \<Rightarrow> fresh_accounts ovs (cu_stalled c)
        | Some (Attempting ovs ov a) \<Rightarrow> fresh_accounts (ov # ovs) (cu_stalled c) \<and> attempt_ok a d \<and> attempt_overdue a = ov
        | _ \<Rightarrow> True)"

lemma catchup_ok_keeps: "catchup_ok c d \<Longrightarrow> keeps_trades d d' \<Longrightarrow> catchup_ok c d'"
  by (auto simp: catchup_ok_def intro: attempt_ok_keeps split: option.splits tick.splits)

lemma distinct_take_sort:
  assumes "distinct (map f xs)" shows "distinct (map f (take n (sort_key k (filter p xs))))"
proof -
  have "distinct (sort_key k (filter p xs))" "inj_on f (set (sort_key k (filter p xs)))"
    using assms by (auto simp: distinct_map intro: inj_on_subset)
  then have "distinct (map f (sort_key k (filter p xs)))" by (simp add: distinct_map)
  then show ?thesis by (simp add: take_map [symmetric])
qed

definition open_rows :: "'p trade_row list \<Rightarrow> intent_row \<Rightarrow> (intent_row \<times> 'p trade_row) list" where
  "open_rows ts r = [(r, t). t \<leftarrow> ts, t_intentId t = Some (i_id r) \<and> i_status r = Accepted \<and> t_status t = TOpen]"

lemma open_rows_one:
  assumes "map t_status (filter (\<lambda>x. t_intentId x = Some (i_id r)) ts) = link_statuses (i_status r)"
  shows "map (\<lambda>p. i_accountId (fst p)) (open_rows ts r) = (if i_status r = Accepted then [i_accountId r] else [])"
proof -
  have "open_rows ts r = (if i_status r = Accepted then map (Pair r) (filter (\<lambda>t. t_status t = TOpen) (filter (\<lambda>x. t_intentId x = Some (i_id r)) ts)) else [])"
    unfolding open_rows_def by (induction ts) auto
  moreover have "map t_status (filter (\<lambda>t. t_status t = TOpen) (filter (\<lambda>x. t_intentId x = Some (i_id r)) ts)) = filter (\<lambda>s. s = TOpen) (link_statuses (i_status r))"
    unfolding assms [symmetric] by (simp add: filter_map o_def)
  ultimately show ?thesis
    by (cases "filter (\<lambda>t. t_status t = TOpen) (filter (\<lambda>x. t_intentId x = Some (i_id r)) ts)") (auto simp: link_statuses_def)
qed

lemma distinct_open_rows:
  assumes "unique_on active_account_key rs" "\<And>r. r \<in> set rs \<Longrightarrow> map t_status (filter (\<lambda>x. t_intentId x = Some (i_id r)) ts) = link_statuses (i_status r)"
  shows "distinct (map (\<lambda>p. i_accountId (fst p)) (concat (map (open_rows ts) rs)))"
  using assms
proof (induction rs)
  case (Cons r rs)
  have one: "map (\<lambda>p. i_accountId (fst p)) (open_rows ts r) = (if i_status r = Accepted then [i_accountId r] else [])"
    using Cons.prems(2) by (intro open_rows_one) simp
  have "i_accountId r' \<noteq> i_accountId r" if "i_status r = Accepted" "r' \<in> set rs" "i_status r' = Accepted" for r'
  proof -
    have "active_account_key r' \<noteq> active_account_key r"
      using Cons.prems(1) that by (auto simp: unique_on_Cons key_conflict_iff active_account_key_def)
    then show ?thesis using that by (auto simp: active_account_key_def)
  qed
  moreover have "\<exists>r' \<in> set rs. i_status r' = Accepted \<and> i_accountId r' = x" if "x \<in> (\<lambda>p. i_accountId (fst p)) ` set (concat (map (open_rows ts) rs))" for x
    using that by (auto simp: open_rows_def)
  ultimately have "i_status r = Accepted \<longrightarrow> i_accountId r \<notin> (\<lambda>p. i_accountId (fst p)) ` set (concat (map (open_rows ts) rs))" by metis
  then show ?case using Cons one by (auto simp: unique_on_Cons)
qed simp

lemma overdue_fresh:
  assumes ok: "db_ok d" shows "fresh_accounts (list_overdue_accepted_intents g l (map fst st) d) st"
proof -
  have acc: "accepted_open d = concat (map (open_rows (trades d)) (intents d))"
    unfolding accepted_open_def open_rows_def [abs_def] ..
  have "unique_on active_account_key (intents d)" using ok by (simp add: db_ok_def intents_part_def)
  then have "distinct (map (\<lambda>p. i_accountId (fst p)) (accepted_open d))"
    unfolding acc using db_ok_links [OF ok] by (intro distinct_open_rows) (simp_all add: links_of_def)
  then have "distinct (map ov_accountId (list_overdue_accepted_intents g l (map fst st) d))"
    using distinct_take_sort [of "\<lambda>p. i_accountId (fst p)" "accepted_open d" l expected_close_ms]
    by (simp add: list_overdue_accepted_intents_def case_prod_beta o_def)
  moreover have "ov_accountId ov \<notin> fst ` set st" if "ov \<in> set (list_overdue_accepted_intents g l (map fst st) d)" for ov
    using that by (rule in_overdue) auto
  ultimately show ?thesis by (simp add: fresh_accounts_def)
qed

lemma fresh_hold: "fresh_accounts (ov # ovs) st \<Longrightarrow> fresh_accounts ovs (AList.update (ov_accountId ov) t st)"
  unfolding fresh_accounts_def dom_update by (auto simp: image_iff)

lemma fresh_tail: "fresh_accounts (ov # ovs) st \<Longrightarrow> fresh_accounts ovs st"
  by (simp add: fresh_accounts_def)

lemma loop_turn_ok: "catchup_ok c d \<Longrightarrow> catchup_ok (loop_turn cfg fits c) d"
  by (auto simp: catchup_ok_def loop_turn_def hold_def intro: fresh_hold fresh_tail
      split: option.splits tick.splits list.splits attempt.splits)

lemma event_ok:
  assumes ok: "db_ok d" and c: "catchup_ok c d" and s: "catchup_event cfg e c d = (c', d')"
  shows "catchup_ok c' d' \<and> change d d'"
proof (cases e)
  case OverdueListed
  then show ?thesis using s c overdue_fresh [OF ok] change_same
    by (auto simp: catchup_ok_def split: option.splits tick.splits)
next
  case (LoopTurns fits)
  then show ?thesis using s loop_turn_ok [OF c] change_same by auto
next
  case (AttemptRuns inp)
  show ?thesis
  proof (cases "\<exists>ovs ov a. cu_tick c = Some (Attempting ovs ov a)")
    case True
    then obtain ovs ov a where t: "cu_tick c = Some (Attempting ovs ov a)" by blast
    obtain a' where r: "attempt_step cfg (cu_stopped c) inp a d = (a', d')" "c' = c\<lparr>cu_tick := Some (Attempting ovs ov a')\<rparr>"
      using s AttemptRuns t by (auto split: prod.splits)
    have "attempt_ok a d" "attempt_overdue a = ov" using c t by (simp_all add: catchup_ok_def)
    from attempt_step_ok [OF ok this(1) r(1)] this(2)
    show ?thesis using catchup_ok_keeps [OF c change_keeps [OF _ ok]] c t by (auto simp: catchup_ok_def r(2))
  next
    case False
    then have "(c', d') = (c, d)" using s AttemptRuns by (auto split: option.splits tick.splits)
    then show ?thesis using c change_same by simp
  qed
next
  case DeadlinePasses
  then show ?thesis using s c change_same
    by (auto simp: catchup_ok_def hold_def intro: fresh_hold split: option.splits tick.splits)
next
  case (AbandonedRuns k inp)
  show ?thesis
  proof (cases "k < length (cu_abandoned c)")
    case True
    then obtain a' where r: "attempt_step cfg (cu_stopped c) inp (cu_abandoned c ! k) d = (a', d')" "c' = c\<lparr>cu_abandoned := (cu_abandoned c)[k := a']\<rparr>"
      using s AbandonedRuns by (auto split: prod.splits)
    have "attempt_ok (cu_abandoned c ! k) d" using c True by (simp add: catchup_ok_def)
    from attempt_step_ok [OF ok this r(1)]
    show ?thesis using catchup_ok_keeps [OF c change_keeps [OF _ ok]] set_update_subset_insert [of "cu_abandoned c" k a']
      by (auto simp: catchup_ok_def r(2) split: option.splits tick.splits)
  next
    case False
    then show ?thesis using s AbandonedRuns c change_same by simp
  qed
next
  case TickBegins
  then show ?thesis using s c change_same by (auto simp: catchup_ok_def begin_tick_def split: if_splits)
qed (use s c change_same in \<open>auto simp: catchup_ok_def create_settlement_catchup_def split: option.splits tick.splits if_splits\<close>)

definition world_ok :: "'p db list \<times> 'p catchup \<Rightarrow> bool" where
  "world_ok w \<longleftrightarrow> history_ok (fst w) \<and> catchup_ok (snd w) (hd (fst w))"

lemma catchup_step_platform:
  assumes "catchup_step cfg w w'" "world_ok w"
  shows "platform_step (fst w) (fst w') \<and> world_ok w'"
  using assms(1)
proof cases
  case (Own e c d c' d' h)
  have "db_ok d" "catchup_ok c d" using assms(2) Own by (simp_all add: world_ok_def history_ok_def)
  from event_ok [OF this Own(3)] have s: "platform_step (d # h) (d' # d # h)" "catchup_ok c' d'" by (auto intro: Commit)
  have "history_ok (d' # d # h)" using platform.step_inv [OF s(1)] assms(2) Own by (simp add: world_ok_def)
  then show ?thesis using s Own by (simp add: world_ok_def)
next
  case (Beside h h' c)
  have ok: "history_ok h" "catchup_ok c (hd h)" using assms(2) Beside by (simp_all add: world_ok_def)
  have "keeps_trades (hd h) (hd h')" using platform.step_below [OF Beside(3) ok(1)] by (simp add: history_below_def laterD)
  then show ?thesis using ok Beside platform.step_inv [OF Beside(3) ok(1)] catchup_ok_keeps [OF ok(2)] by (simp add: world_ok_def)
qed

interpretation catchup: machine "catchup_step cfg" world_ok for cfg
  by unfold_locales (rule conjunct2 [OF catchup_step_platform])

lemma catchup_world_start [simp]: "world_ok ([d], create_settlement_catchup t) = db_ok d"
  by (simp add: world_ok_def catchup_ok_def create_settlement_catchup_def)

section \<open>Nobody is starved\<close>

lemma update_other: "(a, u) \<in> set st \<Longrightarrow> a \<noteq> k \<Longrightarrow> (a, u) \<in> set (AList.update k v st)"
  by (induction st) auto

lemma catchup_reachable:
  assumes "(catchup_step cfg)\<^sup>*\<^sup>* ([d0], create_settlement_catchup t0) (d # h, c)" "db_ok d0"
  shows "history_ok (d # h)" "db_ok d" "catchup_ok c d"
  using catchup.run_inv [OF assms(1)] assms(2) catchup_world_start [of d0 t0] unfolding world_ok_def by (auto simp: history_ok_def)

lemma attempt_closes:
  assumes "catchup_ok c d" "catchup_event cfg e c d = (c', d')" "cu_tick c = Some (Attempting ovs ov a)" "cu_tick c' = Some (Looping ovs)"
  shows "map_of (cu_stalled c') (ov_accountId ov) = Some (cu_clock c + cc_stalledRetryMs cfg)
    \<or> closed_at (ov_accountId ov) (ov_brokerTradeId ov) d \<and> d' = d"
proof (cases e)
  case (LoopTurns fits)
  then obtain ov' en w where a: "a = CatchupEnded ov' en w" "en \<noteq> EndingStopped" "en \<noteq> EndingRateLimited"
    using assms(2-4) by (cases a) (auto simp: loop_turn_def split: if_splits)
  have closed: "attempt_ok a d" "attempt_overdue a = ov" using assms(1,3) by (simp_all add: catchup_ok_def)
  then have "en \<noteq> EndingStalled \<Longrightarrow> closed_at (ov_accountId ov) (ov_brokerTradeId ov) d" using a by (cases en) auto
  moreover have "d' = d" "c' = loop_turn cfg fits c" using assms(2) LoopTurns by simp_all
  ultimately show ?thesis using assms(3) a by (cases "en = EndingStalled") (auto simp: loop_turn_def hold_def update_Some_unfold)
qed (use assms in \<open>auto simp: begin_tick_def hold_def update_Some_unfold create_settlement_catchup_def split: if_splits prod.splits\<close>)


section \<open>What the broker has closed is settled\<close>

definition linked_at :: "nat \<Rightarrow> string \<Rightarrow> nat \<Rightarrow> 'p db \<Rightarrow> bool" where
  "linked_at accountId tradeId iid d \<longleftrightarrow>
     (\<exists>t \<in> set (trades d). t_accountId t = accountId \<and> t_brokerTradeId t = tradeId \<and> t_intentId t = Some iid)"

lemma linked_same: "trades d' = trades d \<Longrightarrow> linked_at a t i d \<Longrightarrow> linked_at a t i d'"
  by (simp add: linked_at_def)

lemma settle_linked:
  assumes "settle_closed_trade accountId trade d = (res, d1)" "linked_at a tid i d"
  shows "linked_at a tid i d1"
proof -
  have "d1 = d \<or> (\<exists>iid x. settle_intent iid None Accepted trade d = Inr (x, d1))"
    using assms(1) by (auto simp: settle_closed_trade_def run_transaction_def split: sum.splits option.splits prod.splits)
  moreover have "linked_at a tid i d1" if s: "settle_intent iid None Accepted trade d = Inr (x, d1)" for iid x
  proof -
    have "trades d1 = trades d \<or> (\<exists>ts. trades d1 = trades d @ ts)
        \<or> (\<exists>k. trades d1 = sql_update (\<lambda>t. t_id t = k) (closing_values trade) (trades d))"
      using s by (auto simp: settle_intent_def dest!: transition_trades consume_trades insert_trade_trades split: option.splits if_splits sum.splits; blast)
    then show ?thesis using assms(2) by (auto simp: linked_at_def bex_sql_update closing_values_simps)
  qed
  ultimately show ?thesis using assms(2) by blast
qed

lemma linked_closed:
  assumes ok: "db_ok d" and l: "linked_at a tid i d" and c: "closed_at a tid d"
  shows "\<exists>r \<in> set (intents d). i_id r = i \<and> i_status r = Settled"
proof -
  obtain t where t: "t \<in> set (trades d)" "t_accountId t = a" "t_brokerTradeId t = tid" "t_intentId t = Some i" using l by (auto simp: linked_at_def)
  obtain s where s: "s \<in> set (trades d)" "t_accountId s = a" "t_brokerTradeId s = tid" "t_status s = TClosed"
    using c by (auto simp: closed_at_def closed_link_def)
  have "unique_on account_trade_key (trades d)" using ok by (simp add: db_ok_def trades_part_def)
  then have "t = s" using s t by (intro unique_on_same [of account_trade_key "trades d" t s]) (auto simp: account_trade_key_def)
  then obtain r where "r \<in> set (intents d)" "i_id r = i" "link_statuses (i_status r) = [TClosed]"
    using linked_row [OF ok t(1,4)] s(4) by metis
  then show ?thesis by (intro bexI [of _ r]) (auto simp: link_statuses_def split: if_splits)
qed

text \<open>An attempt left alone: its steps to the end.\<close>

fun run_attempt :: "catchup_config \<Rightarrow> 'p catchup_input \<Rightarrow> nat \<Rightarrow> 'p attempt \<Rightarrow> 'p db \<Rightarrow> 'p attempt \<times> 'p db" where
  "run_attempt cfg inp 0 a d = (a, d)"
| "run_attempt cfg inp (Suc n) a d = (case attempt_step cfg False inp a d of (a', d') \<Rightarrow> run_attempt cfg inp n a' d')"

definition target_outcomes :: "overdue \<Rightarrow> closed_outcome list \<Rightarrow> bool" where
  "target_outcomes ov outs \<longleftrightarrow> NotOurs (ov_brokerTradeId ov) \<notin> set outs"

lemma verdict_target:
  assumes "target_outcomes ov outs" "out \<in> set outs" "outcome_trade out = ov_brokerTradeId ov"
  shows "catchup_verdict ov outs = EndingSettled \<or> catchup_verdict ov outs = EndingLeft"
proof -
  obtain x where x: "find (\<lambda>out. outcome_trade out = ov_brokerTradeId ov) outs = Some x"
    using assms(2,3) by (cases "find (\<lambda>out. outcome_trade out = ov_brokerTradeId ov) outs") (auto simp: find_None_iff)
  then have "x \<in> set outs" "outcome_trade x = ov_brokerTradeId ov" by (auto simp: find_Some_iff)
  then have "x \<noteq> NotOurs b" for b using assms(1) by (auto simp: target_outcomes_def)
  then show ?thesis using x by (cases x) (auto simp: catchup_verdict_def)
qed

lemma settle_to_the_end:
  assumes "db_ok d" "linked_at (ov_accountId ov) (ov_brokerTradeId ov) i d" "attempt_ok (CatchupSettle ov ts outs) d" "target_outcomes ov outs"
    "(\<exists>t \<in> set ts. bt_id t = ov_brokerTradeId ov) \<or> (\<exists>out \<in> set outs. outcome_trade out = ov_brokerTradeId ov)"
  shows "\<exists>e w d'. run_attempt cfg inp (Suc (length ts)) (CatchupSettle ov ts outs) d = (CatchupEnded ov e w, d')
    \<and> (e = EndingSettled \<or> e = EndingLeft) \<and> (\<exists>r \<in> set (intents d'). i_id r = i \<and> i_status r = Settled)"
  using assms
proof (induction ts arbitrary: outs d)
  case Nil
  then obtain out where out: "out \<in> set outs" "outcome_trade out = ov_brokerTradeId ov" by auto
  have e: "catchup_verdict ov outs = EndingSettled \<or> catchup_verdict ov outs = EndingLeft" by (rule verdict_target [OF Nil(4) out])
  from linked_closed [OF Nil(1,2) verdict_closed [OF Nil(3) e]] e show ?case by simp
next
  case (Cons t ts)
  have c: "is_closed_trade t" using Cons.prems(3) by simp
  obtain res d1 where r: "settle_closed_trade (ov_accountId ov) t d = (res, d1)" by force
  obtain out where out: "res = Inr out" "outcome_trade out = bt_id t"
    "out = NotOurs (bt_id t) \<longrightarrow> \<not> (\<exists>x \<in> set (trades d). t_accountId x = ov_accountId ov \<and> t_brokerTradeId x = bt_id t \<and> t_intentId x \<noteq> None)"
    by (rule settle_closed_trade_leaves [OF Cons.prems(1) c r])
  have s: "attempt_step cfg False inp (CatchupSettle ov (t # ts) outs) d = (CatchupSettle ov ts (outs @ [out]), d1)" using r out by simp
  from attempt_step_ok [OF Cons.prems(1,3) s] have n: "attempt_ok (CatchupSettle ov ts (outs @ [out])) d1" "db_ok d1"
    using change_ok [OF _ Cons.prems(1)] by simp_all
  have l: "linked_at (ov_accountId ov) (ov_brokerTradeId ov) i d1" by (rule settle_linked [OF r Cons.prems(2)])
  have "out \<noteq> NotOurs (ov_brokerTradeId ov)" using out(2,3) Cons.prems(2) by (auto simp: linked_at_def)
  then have "target_outcomes ov (outs @ [out])" using Cons.prems(4) by (auto simp: target_outcomes_def)
  from Cons.IH [OF n(2) l n(1) this] s out(2) Cons.prems(5) show ?case by auto
qed


section \<open>A concrete catch-up\<close>

definition demo_late :: "int db" where "demo_late = demo_accepted\<lparr>now := 100000000\<rparr>"

definition demo_overdue :: overdue where
  "demo_overdue = \<lparr>ov_id = 10, ov_accountId = 1, ov_brokerTradeId = ''t-1'', ov_mode = Demo\<rparr>"

definition demo_config :: catchup_config where
  "demo_config = \<lparr>cc_graceMs = 30000, cc_batchSize = 20, cc_maxPages = 5, cc_stalledRetryMs = 60000\<rparr>"

definition demo_answer :: "token_answer \<Rightarrow> int catchup_input" where
  "demo_answer tok = \<lparr>ci_token = tok, ci_fetch = (\<lambda>page offset. Inr (take 2 (drop offset [closed_trade])))\<rparr>"

lemma demo_late_run: "platform_step\<^sup>*\<^sup>* [demo_db] [demo_late, demo_accepted, demo_taken, demo_created, demo_db]"
proof -
  have "now demo_accepted \<le> 100000000" by code_simp
  then show ?thesis unfolding demo_late_def by (rule run_change [OF demo_run_accepted ClockStep])
qed

lemma demo_late_listed: "list_overdue_accepted_intents 30000 20 [] demo_late = [demo_overdue]"
  by code_simp

fun run_events :: "catchup_config \<Rightarrow> 'p happening list \<Rightarrow> 'p catchup \<times> 'p db \<Rightarrow> 'p catchup \<times> 'p db" where
  "run_events cfg [] w = w"
| "run_events cfg (e # es) w = run_events cfg es (catchup_event cfg e (fst w) (snd w))"

lemma run_events_reachable:
  "\<exists>h'. (catchup_step cfg)\<^sup>*\<^sup>* (d # h, c) (snd (run_events cfg es (c, d)) # h', fst (run_events cfg es (c, d)))"
proof (induction es arbitrary: c d h)
  case (Cons e es)
  obtain c' d' where e: "catchup_event cfg e c d = (c', d')" by (cases "catchup_event cfg e c d")
  have "catchup_step cfg (d # h, c) (d' # d # h, c')" by (rule Own [OF e])
  then show ?case using Cons [of d' "d # h" c'] e by (auto intro: converse_rtranclp_into_rtranclp)
qed auto

definition demo_events :: "int happening list" where
  "demo_events = [TickBegins, OverdueListed, LoopTurns True, AttemptRuns (demo_answer TokenRefused)]"

lemma demo_events_run:
  "run_events demo_config demo_events (create_settlement_catchup 5, demo_late)
    = (\<lparr>cu_clock = 5, cu_stalled = [], cu_stopped = False, cu_tick = Some (Attempting [] demo_overdue (CatchupEnded demo_overdue EndingStalled False)),
         cu_abandoned = []\<rparr>, demo_late)"
  using demo_late_listed
  by (simp add: demo_events_def demo_config_def create_settlement_catchup_def begin_tick_def loop_turn_def catchup_ask_def demo_answer_def)



end
