(* ===== verification/Session_Plan.thy ===== *)
theory Session_Plan
  imports Sessions Stake_Sizer Stake_Bounds
begin

text \<open>
  A session's settings and what follows from them, \<^verbatim>\<open>packages/shared/src/trading-session.ts\<close>,
  \<^verbatim>\<open>session-steps.ts\<close> and the interval of \<^verbatim>\<open>signal.ts\<close>: the versions and their schema, the length and
  the progress, why a session may not create its next intent, the settings of a new session and their
  limits, the cycle and the step of each trade. The signal's own parameters, frozen in versions 4 and
  5, are left out: nothing here reads them.
\<close>

section \<open>Settings\<close>

definition MAX_SESSION_CYCLES :: int where "MAX_SESSION_CYCLES = 20"
definition INT4_MAX :: int where "INT4_MAX = 2147483647"
definition MIN_SESSION_DURATION_SEC :: int where "MIN_SESSION_DURATION_SEC = 5"
definition SESSION_MAX_DURATION_MS :: int where "SESSION_MAX_DURATION_MS = 3600000"
definition MAX_SESSION_SUMMARY_TRADES :: int where
  "MAX_SESSION_SUMMARY_TRADES = SESSION_MAX_DURATION_MS div (MIN_SESSION_DURATION_SEC * 1000)"
definition H1_EXPIRY_SEC :: int where "H1_EXPIRY_SEC = 5"

record stake_fields =
  sf_baseStake :: string
  sf_stakeScale :: int

text \<open>The constructors' arguments: the asset, the duration, the length and the stake.\<close>

datatype session_settings =
  SettingsV1 int int int stake_fields
| SettingsV2 int int int stake_params
| SettingsV3 int int int stake_params
| SettingsV4 int int int stake_params string
| SettingsV5 int int int stake_params

fun settings_assetId :: "session_settings \<Rightarrow> int" where
  "settings_assetId (SettingsV1 a _ _ _) = a"
| "settings_assetId (SettingsV2 a _ _ _) = a"
| "settings_assetId (SettingsV3 a _ _ _) = a"
| "settings_assetId (SettingsV4 a _ _ _ _) = a"
| "settings_assetId (SettingsV5 a _ _ _) = a"

fun settings_durationSec :: "session_settings \<Rightarrow> int" where
  "settings_durationSec (SettingsV1 _ s _ _) = s"
| "settings_durationSec (SettingsV2 _ s _ _) = s"
| "settings_durationSec (SettingsV3 _ s _ _) = s"
| "settings_durationSec (SettingsV4 _ s _ _ _) = s"
| "settings_durationSec (SettingsV5 _ s _ _) = s"

text \<open>\<open>tradeAmountSchema\<close> is \<open>numericDomainDecimalSchema\<close>.\<close>

definition trade_amount :: "string option \<Rightarrow> bool" where
  "trade_amount t = (case t of None \<Rightarrow> False | Some s \<Rightarrow> numeric_domain_decimal s)"

definition martingale_limits_schema :: "martingale_limits \<Rightarrow> bool" where
  "martingale_limits_schema l \<longleftrightarrow> js_at_least (maxSteps l) 2 \<and> trade_amount (maxStake l)
     \<and> trade_amount (maxSessionLoss l) \<and> js_at_least (maxSessionDurationMs l) 1"

definition MAX_STAKE_SCALE :: int where "MAX_STAKE_SCALE = 8"

definition strategy_stake_schema :: "stake_params \<Rightarrow> bool" where
  "strategy_stake_schema p \<longleftrightarrow> trade_amount (baseStake p) \<and> js_integer_in (stakeScale p) 0 MAX_STAKE_SCALE
     \<and> (case strategy p of
          Fixed \<Rightarrow> limits p = NoLimits
        | Martingale \<Rightarrow> (case limits p of Limits l \<Rightarrow> martingale_limits_schema l | _ \<Rightarrow> False)
        | OtherStrategy \<Rightarrow> False)"

definition asset_schema :: "int \<Rightarrow> bool" where "asset_schema a \<longleftrightarrow> 0 < a \<and> a \<le> INT4_MAX"

fun settings_schema :: "session_settings \<Rightarrow> bool" where
  "settings_schema (SettingsV1 a s n f) \<longleftrightarrow> asset_schema a \<and> MIN_SESSION_DURATION_SEC \<le> s \<and> s \<le> INT4_MAX \<and> 1 \<le> n \<and> n \<le> 20
     \<and> numeric_domain_decimal (sf_baseStake f) \<and> 0 \<le> sf_stakeScale f \<and> sf_stakeScale f \<le> MAX_STAKE_SCALE"
| "settings_schema (SettingsV2 a s n p) \<longleftrightarrow> asset_schema a \<and> MIN_SESSION_DURATION_SEC \<le> s \<and> s \<le> INT4_MAX \<and> 1 \<le> n \<and> n \<le> 20
     \<and> strategy_stake_schema p"
| "settings_schema (SettingsV3 a s n p) \<longleftrightarrow> asset_schema a \<and> MIN_SESSION_DURATION_SEC \<le> s \<and> s \<le> INT4_MAX \<and> 1 \<le> n \<and> n \<le> MAX_SESSION_CYCLES
     \<and> strategy_stake_schema p"
| "settings_schema (SettingsV4 a s n p maxLoss) \<longleftrightarrow> asset_schema a \<and> s = H1_EXPIRY_SEC \<and> 1 \<le> n \<and> n \<le> MAX_SESSION_SUMMARY_TRADES
     \<and> strategy p = Fixed \<and> strategy_stake_schema p \<and> numeric_domain_decimal maxLoss"
| "settings_schema (SettingsV5 a s n p) \<longleftrightarrow> asset_schema a \<and> s = H1_EXPIRY_SEC \<and> 1 \<le> n \<and> n \<le> MAX_SESSION_CYCLES
     \<and> strategy_stake_schema p"

definition safe_parse_settings :: "session_settings option \<Rightarrow> session_settings option" where
  "safe_parse_settings input = (case input of None \<Rightarrow> None | Some s \<Rightarrow> if settings_schema s then Some s else None)"

fun is_h1_settings :: "session_settings \<Rightarrow> bool" where
  "is_h1_settings (SettingsV4 _ _ _ _ _) \<longleftrightarrow> True"
| "is_h1_settings (SettingsV5 _ _ _ _) \<longleftrightarrow> True"
| "is_h1_settings _ \<longleftrightarrow> False"

fun session_stake_params :: "session_settings \<Rightarrow> stake_params" where
  "session_stake_params (SettingsV1 _ _ _ f) =
     \<lparr>strategy = Fixed, baseStake = Some (sf_baseStake f), stakeScale = JInt (sf_stakeScale f), limits = NoLimits\<rparr>"
| "session_stake_params (SettingsV2 _ _ _ p) = p"
| "session_stake_params (SettingsV3 _ _ _ p) = p"
| "session_stake_params (SettingsV4 _ _ _ p _) = p"
| "session_stake_params (SettingsV5 _ _ _ p) = p"

text \<open>\<open>sessionProgress\<close>: what is planned and what of it is done.\<close>

fun session_progress :: "session_settings \<Rightarrow> nat \<Rightarrow> nat \<Rightarrow> int \<times> int" where
  "session_progress (SettingsV3 _ _ cycles p) settled won = (cycles, int (if strategy p = Martingale then won else settled))"
| "session_progress (SettingsV5 _ _ cycles p) settled won = (cycles, int (if strategy p = Martingale then won else settled))"
| "session_progress (SettingsV1 _ _ planned _) settled won = (planned, int settled)"
| "session_progress (SettingsV2 _ _ planned _) settled won = (planned, int settled)"
| "session_progress (SettingsV4 _ _ planned _ _) settled won = (planned, int settled)"

section \<open>Why a session may not go on\<close>

definition is_win :: "string option \<Rightarrow> bool" where
  "is_win profit = (case profit of None \<Rightarrow> False
     | Some s \<Rightarrow> dec_body s \<noteq> None \<and> list_ex (\<lambda>c. is_dig c \<and> c \<noteq> CHR ''0'') s)"

datatype intent_block = BlockExpired | BlockLive | BlockCompleted nat int | BlockRejectedTwice

definition session_intent_block :: "bool \<Rightarrow> history_intent list \<Rightarrow> session_settings \<Rightarrow> intent_block option" where
  "session_intent_block expired his settings =
     (if expired then Some BlockExpired
      else if list_ex (\<lambda>i. TRADE_INTENT_TRANSITIONS (hi_status i) \<noteq> []) his then Some BlockLive
      else let settledIntents = filter (\<lambda>i. hi_status i = Settled) his;
               won = length (filter (\<lambda>i. is_win (hi_profit i)) settledIntents);
               (planned, done) = session_progress settings (length settledIntents) won in
        if planned \<le> done then Some (BlockCompleted (length settledIntents) done)
        else let lastTwo = drop (length his - 2) his in
          if length lastTwo = 2 \<and> list_all (\<lambda>i. hi_status i = Rejected) lastTwo then Some BlockRejectedTwice
          else None)"

text \<open>\<open>SESSION_INTENT_REFUSALS\<close>: a reason to stop with, or \<open>None\<close> to be scheduled again.\<close>

fun session_intent_refusal :: "intent_error \<Rightarrow> stop_reason option" where
  "session_intent_refusal AccountHalted = Some StopManualReview"
| "session_intent_refusal TradingPaused = Some KillSwitch"
| "session_intent_refusal ActiveIntentExists = None"
| "session_intent_refusal ClientRequestIdConflict = None"
| "session_intent_refusal intent_error.BalanceUnavailable = Some StopBalanceUnavailable"
| "session_intent_refusal StakePrecision = Some StakeStop"
| "session_intent_refusal StakeBelowMinimum = Some StakeStop"
| "session_intent_refusal intent_error.InsufficientBalance = Some StakeStop"
| "session_intent_refusal _ = Some AccountUnavailable"

section \<open>A new session\<close>

definition stake_settings_for :: "string \<Rightarrow> js_error + stake_fields" where
  "stake_settings_for minTrade =
     (let canonical = normalize_decimal minTrade in
      case decimal_parse canonical of Inl e \<Rightarrow> Inl e
      | Inr base \<Rightarrow> Inr \<lparr>sf_baseStake = base, sf_stakeScale = int (length (dot_frac canonical))\<rparr>)"

definition stake_settings_from :: "string option \<Rightarrow> string \<Rightarrow> js_error + stake_fields" where
  "stake_settings_from stake minTrade =
     (case stake of None \<Rightarrow> stake_settings_for minTrade
      | Some s \<Rightarrow> (case decimal_parse (normalize_decimal s) of Inl e \<Rightarrow> Inl e
          | Inr base \<Rightarrow> Inr \<lparr>sf_baseStake = base, sf_stakeScale = int (stake_scale minTrade)\<rparr>))"

definition MARTINGALE_MAX_STEPS :: int where "MARTINGALE_MAX_STEPS = 4"
definition MARTINGALE_MAX_STAKE_MULTIPLIER :: int where "MARTINGALE_MAX_STAKE_MULTIPLIER = 12"
definition MARTINGALE_MAX_SESSION_LOSS_MULTIPLIER :: int where "MARTINGALE_MAX_SESSION_LOSS_MULTIPLIER = 20"
definition SESSION_SETTLE_SLACK_SEC :: int where "SESSION_SETTLE_SLACK_SEC = 120"

definition martingale_limits_for :: "string \<Rightarrow> js_error + martingale_limits" where
  "martingale_limits_for base =
     (case multiply_decimal base MARTINGALE_MAX_STAKE_MULTIPLIER of Inl e \<Rightarrow> Inl e
      | Inr ms \<Rightarrow>
      (case multiply_decimal base MARTINGALE_MAX_SESSION_LOSS_MULTIPLIER of Inl e \<Rightarrow> Inl e
       | Inr ml \<Rightarrow> Inr \<lparr>maxSteps = JInt MARTINGALE_MAX_STEPS, maxStake = Some ms, maxSessionLoss = Some ml,
           maxSessionDurationMs = JInt SESSION_MAX_DURATION_MS\<rparr>))"

definition build_h1_session_settings :: "int \<Rightarrow> int \<Rightarrow> stake_fields \<Rightarrow> stake_strategy \<Rightarrow> js_error + session_settings option" where
  "build_h1_session_settings assetId cycles stake strat =
     (let params = (\<lambda>l. \<lparr>strategy = strat, baseStake = Some (sf_baseStake stake), stakeScale = JInt (sf_stakeScale stake), limits = l\<rparr>);
          parsed = (\<lambda>l. safe_parse_settings (Some (SettingsV5 assetId H1_EXPIRY_SEC cycles (params l)))) in
      if strat = Martingale
      then (case martingale_limits_for (sf_baseStake stake) of Inl e \<Rightarrow> Inl e | Inr l \<Rightarrow> Inr (parsed (Limits l)))
      else Inr (parsed NoLimits))"

text \<open>The intervals of a chart, longest first; a duration below the shortest takes the shortest.\<close>

definition INTERVALS_LONGEST_FIRST :: "int list" where
  "INTERVALS_LONGEST_FIRST = [3600000, 1800000, 900000, 300000, 60000, 15000, 5000]"

definition interval_for_duration :: "int \<Rightarrow> js_error + int" where
  "interval_for_duration durationSec =
     (if durationSec \<le> 0 then Inl RangeError
      else case find (\<lambda>ms. ms \<le> durationSec * 1000) INTERVALS_LONGEST_FIRST of None \<Rightarrow> Inr 5000 | Some ms \<Rightarrow> Inr ms)"

definition SESSION_NO_SIGNAL_CANDLES :: int where "SESSION_NO_SIGNAL_CANDLES = 20"

definition session_no_signal_timeout_ms :: "int \<Rightarrow> int \<Rightarrow> js_error + int" where
  "session_no_signal_timeout_ms durationSec candles =
     (case interval_for_duration durationSec of Inl e \<Rightarrow> Inl e | Inr ms \<Rightarrow> Inr (candles * ms))"

definition session_fits_deadline :: "int \<Rightarrow> int \<Rightarrow> stake_strategy \<Rightarrow> bool" where
  "session_fits_deadline cycles durationSec strat \<longleftrightarrow>
     cycles * (if strat = Martingale then MARTINGALE_MAX_STEPS else 1) * (durationSec + SESSION_SETTLE_SLACK_SEC) * 1000
       \<le> SESSION_MAX_DURATION_MS"

section \<open>Cycles and steps\<close>

datatype trade_result = Won | Lost | Tied

fun trade_steps_from :: "bool \<Rightarrow> nat \<Rightarrow> nat \<Rightarrow> trade_result list \<Rightarrow> (nat \<times> nat) list" where
  "trade_steps_from martingale tradesSinceWin cycle [] = []"
| "trade_steps_from martingale tradesSinceWin cycle (r # rs) =
     (let step = (if martingale then tradesSinceWin + 1 else 1); cycle' = (if step = 1 then cycle + 1 else cycle) in
      (cycle', step) # trade_steps_from martingale (if r = Won then 0 else tradesSinceWin + 1) cycle' rs)"

definition session_trade_steps :: "trade_result list \<Rightarrow> stake_strategy \<Rightarrow> (nat \<times> nat) list" where
  "session_trade_steps results strat = trade_steps_from (strat = Martingale) 0 0 results"

definition session_next_step :: "trade_result list \<Rightarrow> stake_strategy \<Rightarrow> nat \<times> nat" where
  "session_next_step results strat = last (session_trade_steps (results @ [Won]) strat)"

section \<open>The parsed sign of a profit\<close>

lemma list_ex_nonzero_iff: "list_all is_dig u \<Longrightarrow> list_ex (\<lambda>c. is_dig c \<and> c \<noteq> CHR ''0'') u \<longleftrightarrow> dval u \<noteq> 0"
proof
  assume u: "list_all is_dig u" "dval u \<noteq> 0"
  show "list_ex (\<lambda>c. is_dig c \<and> c \<noteq> CHR ''0'') u"
  proof (rule ccontr)
    assume "\<not> ?thesis"
    then have "u = replicate (length u) CHR ''0''" using u(1) by (auto simp: list_ex_iff list_all_iff intro!: replicate_eqI)
    then show False using u(2) by (metis dval_zeros)
  qed
qed (auto simp: list_ex_iff dest: dval_zero_set)

lemma is_win_parsed:
  assumes "parse_amount s = Some v" shows "is_win (Some s) \<longleftrightarrow> 0 < v"
proof -
  from assms obtain w f where s: "w \<noteq> []" "list_all is_dig w" "list_all is_dig f" "length f \<le> 8" "unsigned s = dec_shape w f"
    and v: "v = (if starts_minus s then - 1 else 1) * (int (dval w) * 10 ^ 8 + int (dval (pad_end 8 f)))"
    by (rule parse_amountE)
  show ?thesis
  proof (cases "starts_minus s")
    case True
    then obtain t where "s = CHR ''-'' # t" by (cases s) (auto simp: starts_minus_def)
    then have "dec_body s = None" by (simp add: dec_body_def is_dig_def)
    moreover have "v \<le> 0" using True v by simp
    ultimately show ?thesis by (simp add: is_win_def)
  next
    case False
    then have sh: "s = dec_shape w f" using s(5) by (simp add: unsigned_def)
    have "dec_body s = Some (w, f)" unfolding sh using s by (simp add: dec_body_iff)
    moreover have "list_ex (\<lambda>c. is_dig c \<and> c \<noteq> CHR ''0'') s \<longleftrightarrow> dval w \<noteq> 0 \<or> dval f \<noteq> 0"
      unfolding sh using list_ex_nonzero_iff [OF s(2)] list_ex_nonzero_iff [OF s(3)] by (auto simp: dec_shape_def is_dig_def)
    moreover have "0 < v \<longleftrightarrow> dval w \<noteq> 0 \<or> dval (pad_end 8 f) \<noteq> 0" using v False by auto
    moreover have "dval (pad_end 8 f) \<noteq> 0 \<longleftrightarrow> dval f \<noteq> 0" by (simp add: dval_pad_end)
    ultimately show ?thesis by (auto simp: is_win_def)
  qed
qed

section \<open>The series of the sizer\<close>

definition outcome_of :: "history_intent \<Rightarrow> session_intent_outcome" where
  "outcome_of i = \<lparr>so_status = hi_status i, so_amount = hi_amount i, so_profit = hi_profit i\<rparr>"

definition trades_of :: "history_intent list \<Rightarrow> session_trade list" where
  "trades_of his = map (\<lambda>i. session_trade_of (outcome_of i)) his"

definition result_of :: "int \<Rightarrow> trade_result" where
  "result_of p = (if 0 < p then Won else if p < 0 then Lost else Tied)"

lemma trades_of_simps [simp]: "trades_of [] = []" "trades_of (xs @ ys) = trades_of xs @ trades_of ys"
  by (simp_all add: trades_of_def)

declare profits_append [simp]

text \<open>One intent of a readable history: no trade, or one of a readable profit.\<close>

lemma usable_intent:
  assumes "list_all usable (trades_of [i])"
  shows "(hi_status i \<noteq> Settled \<and> profits (trades_of [i]) = []) \<or> (\<exists>p v. hi_status i = Settled \<and> hi_profit i = Some p \<and> parse_amount p = Some v \<and> profits (trades_of [i]) = [v])"
  using assms by (auto simp: trades_of_def session_trade_of_def outcome_of_def split: if_splits option.splits)

definition settled_of :: "history_intent list \<Rightarrow> history_intent list" where
  "settled_of his = filter (\<lambda>i. hi_status i = Settled) his"

definition won_of :: "history_intent list \<Rightarrow> history_intent list" where
  "won_of his = filter (\<lambda>i. is_win (hi_profit i)) (settled_of his)"

lemma counts_of_history:
  assumes "list_all usable (trades_of his)"
  shows "length (settled_of his) = length (profits (trades_of his)) \<and> length (won_of his) = length (filter (\<lambda>p. 0 < p) (profits (trades_of his)))"
  using assms
proof (induction his)
  case (Cons i his)
  have split: "trades_of (i # his) = trades_of [i] @ trades_of his" by (simp add: trades_of_def)
  have "list_all usable (trades_of [i])" "list_all usable (trades_of his)" using Cons.prems unfolding split by simp_all
  with usable_intent [OF this(1)] Cons.IH show ?case unfolding split by (auto simp: settled_of_def won_of_def is_win_parsed)
qed (simp add: settled_of_def won_of_def trades_of_def)

definition since_win :: "int list \<Rightarrow> int list" where
  "since_win ps = takeWhile (\<lambda>p. \<not> 0 < p) (rev ps)"

lemma since_win_snoc: "since_win (ps @ [p]) = (if 0 < p then [] else p # since_win ps)"
  by (simp add: since_win_def)

lemma streak_since_win: "streak ps = filter (\<lambda>p. p < 0) (since_win ps)"
  by (induction ps rule: rev_induct) (auto simp: since_win_def streak_def)

lemma streak_zero: "length (since_win ps) = length (streak ps) + length (filter (\<lambda>p. p = 0) (since_win ps))"
proof -
  have "\<forall>p \<in> set (since_win ps). \<not> 0 < p" by (auto simp: since_win_def dest: set_takeWhileD)
  then have "filter (\<lambda>p. \<not> p < 0) (since_win ps) = filter (\<lambda>p. p = 0) (since_win ps)" by (intro filter_cong) auto
  then show ?thesis using sum_length_filter_compl [of "\<lambda>p. p < 0" "since_win ps"] by (simp add: streak_since_win)
qed

definition since_count :: "nat \<Rightarrow> int list \<Rightarrow> nat" where
  "since_count t ps = foldl (\<lambda>k p. if 0 < p then 0 else Suc k) t ps"

lemma since_count_win: "since_count 0 ps = length (since_win ps)"
  by (induction ps rule: rev_induct) (simp_all add: since_count_def since_win_snoc, simp add: since_win_def)

lemma steps_nonempty: "trade_steps_from m t c (rs @ [r]) \<noteq> []"
  by (cases rs) (simp_all add: Let_def)

lemma martingale_step:
  "t = 0 \<or> 0 < c \<Longrightarrow> last (trade_steps_from True t c (map result_of ps @ [r]))
    = ((if t = 0 then c else c - 1) + length (filter (\<lambda>p. 0 < p) ps) + 1, Suc (since_count t ps))"
proof (induction ps arbitrary: t c)
  case (Cons p ps)
  have "last (trade_steps_from True t c (map result_of (p # ps) @ [r]))
    = last (trade_steps_from True (if 0 < p then 0 else t + 1) (if t = 0 then c + 1 else c) (map result_of ps @ [r]))"
    using steps_nonempty by (simp add: Let_def result_of_def)
  also have "\<dots> = ((if t = 0 then c else c - 1) + length (filter (\<lambda>p. 0 < p) (p # ps)) + 1, Suc (since_count t (p # ps)))"
    using Cons.prems by (subst Cons.IH) (auto simp: since_count_def)
  finally show ?case .
qed (auto simp: since_count_def)

lemma fixed_step: "last (trade_steps_from False t c (map result_of ps @ [r])) = (c + length ps + 1, 1)"
proof (induction ps arbitrary: t c)
  case (Cons p ps)
  then show ?case using steps_nonempty by (simp add: Let_def)
qed simp

text \<open>
  C31: The plan, the messages and the sizer count one series: for any history the stake sizer can read,
  the next trade's cycle is one more than the cycles \<open>sessionProgress\<close> counts as done, under either
  strategy; under martingale its step is one more than the losses the sizer has to recover and the ties
  since the last win together, and under fixed every trade is step 1. The plan counts wins by the text
  of a profit, the sizer and the messages by its value.
\<close>

theorem series_are_cycles:
  assumes "read_history (trades_of his) = Inr l" "strategy p = Fixed \<or> strategy p = Martingale"
  shows "session_next_step (map result_of (profits (trades_of his))) (strategy p)
      = (nat (snd (session_progress (SettingsV5 a s cycles p) (length (settled_of his)) (length (won_of his)))) + 1,
         if strategy p = Fixed then 1
         else 1 + nat (consecutiveLosses l) + length (filter (\<lambda>v. v = 0) (since_win (profits (trades_of his)))))"
proof -
  have u: "list_all usable (trades_of his)" and l: "l = ledger_of (profits (trades_of his))" using assms(1) by (simp_all add: read_history_iff)
  show ?thesis
  proof (cases "strategy p = Fixed")
    case True
    then show ?thesis using fixed_step [of 0 0] counts_of_history [OF u] by (simp add: session_next_step_def session_trade_steps_def)
  next
    case False
    then have "strategy p = Martingale" using assms(2) by simp
    then show ?thesis using martingale_step [of 0 0] counts_of_history [OF u]
      by (simp add: session_next_step_def session_trade_steps_def since_count_win streak_zero l ledger_of_def)
  qed
qed

definition demo_trade_of :: "string \<Rightarrow> history_intent" where
  "demo_trade_of p = \<lparr>hi_id = 1, hi_action = Up, hi_status = Settled, hi_amount = ''2.00000000'', hi_profit = Some p, hi_lastError = None\<rparr>"

definition demo_history :: "history_intent list" where
  "demo_history = [demo_trade_of ''1.60000000'', demo_trade_of ''-2.00000000'', demo_trade_of ''0.00000000'']"

definition demo_martingale :: stake_params where
  "demo_martingale = \<lparr>strategy = Martingale, baseStake = Some ''2'', stakeScale = JInt 2,
     limits = Limits \<lparr>maxSteps = JInt 4, maxStake = Some ''24'', maxSessionLoss = Some ''40'', maxSessionDurationMs = JInt 3600000\<rparr>\<rparr>"

definition demo_ledger :: ledger where
  "demo_ledger = \<lparr>settledTrades = 3, consecutiveLosses = 1, streakLoss = 200000000, net = - 40000000\<rparr>"

lemma demo_history_read: "read_history (trades_of demo_history) = Inr demo_ledger"
  by code_simp

theorem series_are_cycles_witness:
  "session_next_step (map result_of (profits (trades_of demo_history))) Martingale = (2, 3)"
proof -
  have "strategy demo_martingale = Martingale" by (simp add: demo_martingale_def)
  moreover have "length (settled_of demo_history) = 3" "length (won_of demo_history) = 1"
    "length (filter (\<lambda>v. v = 0) (since_win (profits (trades_of demo_history)))) = 1" by code_simp+
  ultimately show ?thesis
    using series_are_cycles [OF demo_history_read, of demo_martingale 1 5 5] by (simp add: demo_ledger_def)
qed

text \<open>
  C32: A martingale session ends as completed only between two series: the intent after which the plan
  counts the last cycle as done is a won trade, exactly the planned cycles are done, and the sizer's
  streak is empty, so nothing lost in the running series is left unrecovered.
\<close>

theorem completes_between_series:
  assumes "read_history (trades_of (his @ [i])) = Inr l" "strategy p = Martingale" "settings = SettingsV5 a s cycles p"
    "\<forall>n k. session_intent_block False his settings \<noteq> Some (BlockCompleted n k)"
    "session_intent_block False (his @ [i]) settings = Some (BlockCompleted n k)" "0 < cycles"
  shows "k = cycles \<and> hi_status i = Settled \<and> is_win (hi_profit i) \<and> consecutiveLosses l = 0 \<and> streakLoss l = 0"
proof -
  have live: "\<not> list_ex (\<lambda>j. TRADE_INTENT_TRANSITIONS (hi_status j) \<noteq> []) (his @ [i])"
    using assms(5) by (auto simp: session_intent_block_def split: if_splits)
  have k: "cycles \<le> k" "k = int (length (won_of (his @ [i])))"
    using assms(2,3,5) live by (auto simp: session_intent_block_def Let_def won_of_def settled_of_def split: if_splits)
  have "\<not> cycles \<le> int (length (won_of his))"
    using assms(2,3,4) live by (auto simp: session_intent_block_def Let_def won_of_def settled_of_def split: if_splits)
  then have w: "hi_status i = Settled" "is_win (hi_profit i)" "k = cycles"
    using k by (auto simp: won_of_def settled_of_def split: if_splits)
  have u: "list_all usable (trades_of (his @ [i]))" "l = ledger_of (profits (trades_of (his @ [i])))"
    using assms(1) by (simp_all add: read_history_iff)
  from u(1) have "list_all usable (trades_of [i])" by simp
  from usable_intent [OF this] w(1,2) obtain v where v: "profits (trades_of [i]) = [v]" "0 < v" by (auto simp: is_win_parsed)
  then have "l = ledger_of (profits (trades_of his) @ [v])" using u(2) by simp
  then show ?thesis using v(2) w by (simp add: ledger_of_def)
qed

theorem completes_between_series_witness:
  "consecutiveLosses (projr (read_history (trades_of (demo_history @ [demo_trade_of ''9.00000000''])))) = 0"
proof -
  let ?s = "SettingsV5 1 5 2 demo_martingale"
  have r: "read_history (trades_of (demo_history @ [demo_trade_of ''9.00000000'']))
      = Inr \<lparr>settledTrades = 4, consecutiveLosses = 0, streakLoss = 0, net = 860000000\<rparr>" by code_simp
  have "session_intent_block False demo_history ?s = None" "session_intent_block False (demo_history @ [demo_trade_of ''9.00000000'']) ?s = Some (BlockCompleted 4 2)"
    by code_simp+
  then have "consecutiveLosses \<lparr>settledTrades = 4, consecutiveLosses = 0, streakLoss = 0, net = 860000000\<rparr> = 0"
    by (intro conjunct1 [OF conjunct2 [OF conjunct2 [OF conjunct2
          [OF completes_between_series [OF r, of demo_martingale ?s 1 5 2 4 2]]]]]) (simp_all add: demo_martingale_def)
  then show ?thesis unfolding r by simp
qed

section \<open>The settings of a new session trade\<close>

lemma domain_amount:
  assumes "numeric_domain_decimal s"
  shows "parse_amount s = Some (units s)" "0 < units s" "units s < MAX_UNITS" "money_text s" "normalize_decimal s = amount_text (units s)"
proof -
  have d: "is_decimal_string s" "\<not> starts_minus s" "length (dot_int s) \<le> 12" "length (dot_frac s) \<le> 8" "list_ex (\<lambda>c. is_dig c \<and> c \<noteq> CHR ''0'') s"
    using assms by (simp_all add: numeric_domain_decimal_def positive_decimal_def money_defs)
  then show m: "money_text s" by (simp add: money_text_def)
  from d(1,2) obtain w f where s: "w \<noteq> []" "list_all is_dig w" "list_all is_dig f" "s = dec_shape w f" by (rule plain_decimalE)
  have "length w \<le> 12" "length f \<le> 8" using d(3,4) s by (simp_all add: dot_parts_shape)
  then show p: "parse_amount s = Some (units s)" using s by (simp add: parse_amount_shape units_shape)
  have "is_win (Some s)" using d(1,2,5) by (auto simp: is_win_def is_decimal_string_def unsigned_def)
  then show "0 < units s" using is_win_parsed [OF p] by simp
  show "units s < MAX_UNITS" using parse_amount_range [OF p] by (simp add: money_defs)
  show "normalize_decimal s = amount_text (units s)" using amount_text_parse [OF p d(2)] by simp
qed

lemma sized:
  assumes "0 < b" "b < MAX_UNITS" "n \<le> 8" "grid n dvd b"
  shows "create_stake_sizer \<lparr>strategy = Fixed, baseStake = Some (amount_text b), stakeScale = JInt (int n), limits = NoLimits\<rparr>
      = Inr \<lparr>sz_params = \<lparr>strategy = Fixed, baseStake = Some (amount_text b), stakeScale = JInt (int n), limits = NoLimits\<rparr>, sz_base = b, sz_martingale = None\<rparr>"
proof -
  have p: "parse_amount (amount_text b) = Some b" using assms(1,2) by (intro parse_amount_text) (simp add: money_defs)
  have "floor_to_scale b (JInt (int n)) = Inr b" using assms floor_to_scale_ok [of n b] floor_grid_id [of b n] by simp
  then show ?thesis using p assms
    by (simp add: create_stake_sizer_def assert_stake_params_def param_amount_def require_amount_def money_defs)
qed

lemma sized_martingale:
  assumes "0 < b" "20 * b < MAX_UNITS" "n \<le> 8" "grid n dvd b"
    "p = \<lparr>strategy = Martingale, baseStake = Some (amount_text b), stakeScale = JInt (int n),
       limits = Limits \<lparr>maxSteps = JInt 4, maxStake = Some (amount_text (12 * b)), maxSessionLoss = Some (amount_text (20 * b)),
         maxSessionDurationMs = JInt 3600000\<rparr>\<rparr>"
  shows "\<exists>mc. create_stake_sizer p = Inr \<lparr>sz_params = p, sz_base = b, sz_martingale = Some mc\<rparr>
    \<and> mc_maxSteps mc = 4 \<and> mc_maxStake mc = 12 * b \<and> mc_maxSessionLoss mc = 20 * b"
proof -
  have r: "parse_amount (amount_text b) = Some b" "parse_amount (amount_text (12 * b)) = Some (12 * b)" "parse_amount (amount_text (20 * b)) = Some (20 * b)"
    using assms(1,2) by (simp_all add: parse_amount_text money_defs)
  have "floor_to_scale b (JInt (int n)) = Inr b" using assms floor_to_scale_ok [of n b] floor_grid_id [of b n] by simp
  then show ?thesis using r assms
    by (simp add: create_stake_sizer_def assert_stake_params_def param_amount_def require_amount_def js_at_least_def money_defs)
qed

text \<open>The base stake of a new session: its value and the grid it lies on.\<close>

lemma settings_from:
  assumes "numeric_domain_decimal minTrade" "pred_option numeric_domain_decimal stake"
    "\<forall>s. stake = Some s \<longrightarrow> decimal_scale s \<le> stake_scale minTrade"
  defines "b \<equiv> units (case stake of None \<Rightarrow> minTrade | Some s \<Rightarrow> s)"
  obtains n where "stake_settings_from stake minTrade = Inr \<lparr>sf_baseStake = amount_text b, sf_stakeScale = int n\<rparr>" "n \<le> 8" "grid n dvd b"
    "0 < b" "b < MAX_UNITS"
proof -
  note m = domain_amount [OF assms(1)]
  have dec: "decimal_parse (amount_text v) = Inr (amount_text v)" for v by (simp add: decimal_parse_def)
  have scale: "decimal_scale s \<le> 8" if "numeric_domain_decimal s" for s
    using money_text_units(1) [OF domain_amount(4) [OF that]] by (simp add: unsigned_money_def)
  have frac: "length (dot_frac s) \<le> 8" if "numeric_domain_decimal s" for s
    using that by (simp add: numeric_domain_decimal_def money_defs)
  show ?thesis
  proof (cases stake)
    case None
    have "grid (decimal_scale minTrade) dvd units minTrade"
      using decimal_scale_le_iff [OF money_text_units(1) [OF m(4)] scale [OF assms(1)] frac [OF assms(1)]] by simp
    then show ?thesis using None m scale [OF assms(1)] dec
      by (intro that [of "decimal_scale minTrade"]) (simp_all add: stake_settings_from_def stake_settings_for_def decimal_scale_def b_def Let_def)
  next
    case (Some s)
    have s: "numeric_domain_decimal s" "decimal_scale s \<le> stake_scale minTrade" using assms(2,3) Some by simp_all
    have n: "stake_scale minTrade \<le> 8" using scale [OF assms(1)] by (simp add: stake_scale_def money_defs)
    note d = domain_amount [OF s(1)]
    have "grid (stake_scale minTrade) dvd units s" using decimal_scale_le_iff [OF money_text_units(1) [OF d(4)] n frac [OF s(1)]] s(2) by simp
    then show ?thesis using Some d n dec by (intro that [of "stake_scale minTrade"]) (simp_all add: stake_settings_from_def b_def)
  qed
qed

text \<open>
  C33: A session that starts can be traded: from any stored minimum and any saved stake that passed
  the check's precision, as long as twenty times the base fits a money column, the base stake is built
  without a throw and keeps its value to the unit; the schema takes the settings of either strategy; and
  they give a sizer on that base, under martingale with at most four steps, twelve times the base as
  one stake and twenty times it as the session's loss.
\<close>

theorem built_settings_trade:
  assumes "numeric_domain_decimal minTrade" "pred_option numeric_domain_decimal stake"
    "\<forall>s. stake = Some s \<longrightarrow> check_stake s \<lparr>minTradeAmount = minTrade, available = avail\<rparr> \<noteq> Some Precision"
    "1 \<le> cycles" "cycles \<le> 20" "0 < asset" "asset \<le> INT4_MAX" "strat = Fixed \<or> strat = Martingale"
    "20 * units (case stake of None \<Rightarrow> minTrade | Some s \<Rightarrow> s) < MAX_UNITS"
  shows "\<exists>fields settings sz. stake_settings_from stake minTrade = Inr fields
    \<and> build_h1_session_settings asset cycles fields strat = Inr (Some settings) \<and> settings_schema settings \<and> is_h1_settings settings
    \<and> create_stake_sizer (session_stake_params settings) = Inr sz \<and> sz_base sz = units (case stake of None \<Rightarrow> minTrade | Some s \<Rightarrow> s)
    \<and> (case sz_martingale sz of None \<Rightarrow> strat = Fixed
         | Some mc \<Rightarrow> strat = Martingale \<and> mc_maxSteps mc = 4 \<and> mc_maxStake mc = 12 * sz_base sz \<and> mc_maxSessionLoss mc = 20 * sz_base sz)"
proof -
  let ?b = "units (case stake of None \<Rightarrow> minTrade | Some s \<Rightarrow> s)"
  have "\<forall>s. stake = Some s \<longrightarrow> decimal_scale s \<le> stake_scale minTrade"
    using assms(3) by (auto simp: check_stake_def not_less split: if_splits)
  from settings_from [OF assms(1,2) this] obtain n where
    f: "stake_settings_from stake minTrade = Inr \<lparr>sf_baseStake = amount_text ?b, sf_stakeScale = int n\<rparr>" "n \<le> 8" "grid n dvd ?b" "0 < ?b" "?b < MAX_UNITS"
    by blast
  have dom: "numeric_domain_decimal (amount_text ?b)" "numeric_domain_decimal (amount_text (12 * ?b))" "numeric_domain_decimal (amount_text (20 * ?b))"
    using f(4,5) assms(9) by (simp_all add: amount_text_domain)
  have lims: "martingale_limits_for (amount_text ?b) = Inr \<lparr>maxSteps = JInt 4, maxStake = Some (amount_text (12 * ?b)),
      maxSessionLoss = Some (amount_text (20 * ?b)), maxSessionDurationMs = JInt 3600000\<rparr>"
    using f(4) by (simp add: martingale_limits_for_def multiply_decimal_def units_amount_text from_units_ok mult.commute
        MARTINGALE_MAX_STEPS_def MARTINGALE_MAX_STAKE_MULTIPLIER_def MARTINGALE_MAX_SESSION_LOSS_MULTIPLIER_def SESSION_MAX_DURATION_MS_def)
  note schema = asset_schema_def strategy_stake_schema_def trade_amount_def martingale_limits_schema_def js_at_least_def MAX_STAKE_SCALE_def MAX_SESSION_CYCLES_def
  show ?thesis
  proof (cases "strat = Martingale")
    case True
    let ?p = "\<lparr>strategy = Martingale, baseStake = Some (amount_text ?b), stakeScale = JInt (int n),
       limits = Limits \<lparr>maxSteps = JInt 4, maxStake = Some (amount_text (12 * ?b)), maxSessionLoss = Some (amount_text (20 * ?b)),
         maxSessionDurationMs = JInt 3600000\<rparr>\<rparr>"
    have ok: "settings_schema (SettingsV5 asset H1_EXPIRY_SEC cycles ?p)" using assms(4-7) dom f(2) by (simp add: schema)
    then have built: "build_h1_session_settings asset cycles \<lparr>sf_baseStake = amount_text ?b, sf_stakeScale = int n\<rparr> strat = Inr (Some (SettingsV5 asset H1_EXPIRY_SEC cycles ?p))"
      using True lims by (simp add: build_h1_session_settings_def safe_parse_settings_def)
    obtain mc where "create_stake_sizer ?p = Inr \<lparr>sz_params = ?p, sz_base = ?b, sz_martingale = Some mc\<rparr>"
      "mc_maxSteps mc = 4" "mc_maxStake mc = 12 * ?b" "mc_maxSessionLoss mc = 20 * ?b"
      using sized_martingale [OF f(4) assms(9) f(2,3) refl] by blast
    then show ?thesis unfolding f(1) using built ok True
      by (intro exI [of _ "\<lparr>sf_baseStake = amount_text ?b, sf_stakeScale = int n\<rparr>"] exI [of _ "SettingsV5 asset H1_EXPIRY_SEC cycles ?p"]
            exI [of _ "\<lparr>sz_params = ?p, sz_base = ?b, sz_martingale = Some mc\<rparr>"] conjI) simp_all
  next
    case False
    let ?p = "\<lparr>strategy = Fixed, baseStake = Some (amount_text ?b), stakeScale = JInt (int n), limits = NoLimits\<rparr>"
    have ok: "settings_schema (SettingsV5 asset H1_EXPIRY_SEC cycles ?p)" using assms(4-7) dom f(2) by (simp add: schema)
    then have built: "build_h1_session_settings asset cycles \<lparr>sf_baseStake = amount_text ?b, sf_stakeScale = int n\<rparr> strat = Inr (Some (SettingsV5 asset H1_EXPIRY_SEC cycles ?p))"
      using False assms(8) by (simp add: build_h1_session_settings_def safe_parse_settings_def)
    then show ?thesis unfolding f(1) using ok False assms(8) sized [OF f(4,5,2,3)]
      by (intro exI [of _ "\<lparr>sf_baseStake = amount_text ?b, sf_stakeScale = int n\<rparr>"] exI [of _ "SettingsV5 asset H1_EXPIRY_SEC cycles ?p"]
            exI [of _ "\<lparr>sz_params = ?p, sz_base = ?b, sz_martingale = None\<rparr>"] conjI) simp_all
  qed
qed

theorem built_settings_trade_witness:
  "\<exists>fields settings sz. stake_settings_from (Some ''2.50000000'') ''1.00000000'' = Inr fields
    \<and> build_h1_session_settings 7 5 fields Martingale = Inr (Some settings) \<and> create_stake_sizer (session_stake_params settings) = Inr sz \<and> sz_base sz = 250000000"
proof -
  have "numeric_domain_decimal ''1.00000000''" "numeric_domain_decimal ''2.50000000''" "units ''2.50000000'' = 250000000"
    "check_stake ''2.50000000'' \<lparr>minTradeAmount = ''1.00000000'', available = ''9.00000000''\<rparr> = None" by code_simp+
  then show ?thesis
    using built_settings_trade [of "''1.00000000''" "Some ''2.50000000''" "''9.00000000''" 5 7 Martingale] by (auto simp: INT4_MAX_def money_defs)
qed

end
