(* ===== verification/Orchestrator.thy ===== *)
theory Orchestrator
  imports Session_Plan Session_Guarantees "HOL-Library.AList"
begin

text \<open>
  The session orchestrator, \<^verbatim>\<open>apps/trading-worker/src/trading-session/orchestrator.ts\<close>: the sweeps, the
  scan, the decision on every runnable session over one batched read and one read of the pairs, the
  writes, the hold-backs, and the calls that wake it. One transaction, or one answer from outside, per
  step; the batch's deadline and \<open>stop\<close> may cut it between any two. What \<open>JSON.parse\<close> gives for a
  stored settings text is the argument \<open>parse\<close>. \<open>touchBalancesRequested\<close> writes a column nothing here
  reads and is left out.
\<close>

section \<open>The decision on one session\<close>

record orchestrator_config =
  oc_tickMs :: int
  oc_batchSize :: nat
  oc_retryMs :: int
  oc_h1CheckMs :: int
  oc_holdSlackMs :: int
  oc_maxDurationMs :: int
  oc_noSignalCandles :: int

datatype session_ending = StopSession stop_reason | RescheduleSession | HoldSession int | FailedSession

record prepared_session =
  pp_session :: session_row
  pp_settings :: session_settings
  pp_sizer :: sizer
  pp_noSignalTimeoutMs :: int

text \<open>A \<open>RangeError\<close> of the sizer is a stop; any other throw is the guard's.\<close>

definition prepare_session ::
  "(string \<Rightarrow> session_settings option) \<Rightarrow> orchestrator_config \<Rightarrow> session_row \<Rightarrow> session_ending + prepared_session" where
  "prepare_session parse cfg session =
     (case safe_parse_settings (parse (s_settings session)) of
        None \<Rightarrow> Inl (StopSession InvalidSettings)
      | Some settings \<Rightarrow>
      (case create_stake_sizer (session_stake_params settings) of
         Inl e \<Rightarrow> Inl (case e of HelperThrew je \<Rightarrow> if je = RangeError then StopSession InvalidSettings else FailedSession
             | _ \<Rightarrow> StopSession InvalidSettings)
       | Inr szr \<Rightarrow>
           if \<not> is_h1_settings settings then Inl (StopSession InvalidSettings)
           else case session_no_signal_timeout_ms (settings_durationSec settings) (oc_noSignalCandles cfg) of
             Inl _ \<Rightarrow> Inl FailedSession
           | Inr ms \<Rightarrow> Inr \<lparr>pp_session = session, pp_settings = settings, pp_sizer = szr, pp_noSignalTimeoutMs = ms\<rparr>))"

record waiting_session =
  wt_prepared :: prepared_session
  wt_history :: session_history
  wt_balance :: balance_read

definition before_pair :: "orchestrator_config \<Rightarrow> prepared_session \<Rightarrow> batch_read option \<Rightarrow> session_ending + waiting_session" where
  "before_pair cfg prepared read =
     (case read of
        None \<Rightarrow> Inl (HoldSession (oc_retryMs cfg))
      | Some b \<Rightarrow>
      (case session_intent_block (sh_expired (bt_history b)) (sh_intents (bt_history b)) (pp_settings prepared) of
         Some BlockExpired \<Rightarrow> Inl (StopSession StopTimeout)
       | Some BlockLive \<Rightarrow> Inl RescheduleSession
       | Some (BlockCompleted _ _) \<Rightarrow> Inl (StopSession Completed)
       | Some BlockRejectedTwice \<Rightarrow> Inl (StopSession RejectedTwice)
       | None \<Rightarrow>
           (case bt_balance b of
              None \<Rightarrow> Inl (StopSession StopBalanceUnavailable)
            | Some balance \<Rightarrow> Inr \<lparr>wt_prepared = prepared, wt_history = bt_history b, wt_balance = balance\<rparr>)))"

record pair_view =
  pv_id :: int
  pv_minTimeframe :: int
  pv_maxTimeframe :: int
  pv_scheduledUntil :: int
  pv_payout :: js_payout

definition is_pair_open :: "pair_view \<Rightarrow> int \<Rightarrow> bool" where
  "is_pair_open pair nowMs \<longleftrightarrow> pv_scheduledUntil pair = 0 \<or> pv_scheduledUntil pair \<le> nowMs"

definition pair_accepts_duration :: "pair_view \<Rightarrow> int \<Rightarrow> bool" where
  "pair_accepts_duration pair durationSec \<longleftrightarrow> pv_minTimeframe pair \<le> durationSec \<and> durationSec \<le> pv_maxTimeframe pair"

text \<open>The answer of the pairs' source: a failure, or a catalog and whether it is fresh.\<close>

datatype pairs_outcome = PairsFailed | PairsRead bool "pair_view list"

fun stake_stop_reason :: "stake_decision \<Rightarrow> stop_reason option" where
  "stake_stop_reason (Stake _ _) = None"
| "stake_stop_reason (StopLimit l _) = Some (case l of
      MaxStepsExceeded _ _ \<Rightarrow> StopMaxSteps | MaxStakeExceeded _ _ \<Rightarrow> StopMaxStake
    | MaxSessionLossExceeded _ _ _ \<Rightarrow> StopMaxSessionLoss | SessionDurationExceeded _ _ \<Rightarrow> StopSessionDuration
    | _ \<Rightarrow> StakeStop)"
| "stake_stop_reason (StopData _) = Some StakeStop"

fun waits_for_balance :: "stake_decision \<Rightarrow> balance_read \<Rightarrow> bool" where
  "waits_for_balance (StopLimit (Stake_Sizer.InsufficientBalance _ _) _) b \<longleftrightarrow> br_awaitsBalance b"
| "waits_for_balance _ b \<longleftrightarrow> False"

definition at_pair :: "orchestrator_config \<Rightarrow> int \<Rightarrow> pairs_outcome \<Rightarrow> waiting_session \<Rightarrow> session_ending" where
  "at_pair cfg tickAt catalog w =
     (let settings = pp_settings (wt_prepared w); session = pp_session (wt_prepared w) in
      case catalog of
        PairsFailed \<Rightarrow> HoldSession (oc_retryMs cfg)
      | PairsRead fresh pairs \<Rightarrow>
          if \<not> fresh then HoldSession (oc_retryMs cfg)
          else case find (\<lambda>p. pv_id p = settings_assetId settings) pairs of
            None \<Rightarrow> StopSession PairUnavailable
          | Some pair \<Rightarrow>
              if \<not> pair_accepts_duration pair (settings_durationSec settings) then StopSession PairUnavailable
              else if \<not> is_pair_open pair tickAt then
                (if sh_waitExpired (wt_history w) then StopSession NoSignalTimeout
                 else HoldSession (min (pv_scheduledUntil pair - tickAt) (oc_retryMs cfg)))
              else case sizer_next (pp_sizer (wt_prepared w))
                  (session_stake_input (map outcome_of (sh_intents (wt_history w))) (pv_payout pair)
                    (br_minTradeAmount (wt_balance w)) (br_available (wt_balance w)) (s_startedAt session) tickAt) of
                Inl _ \<Rightarrow> FailedSession
              | Inr decision \<Rightarrow>
                  if waits_for_balance decision (wt_balance w) then HoldSession (oc_tickMs cfg)
                  else case stake_stop_reason decision of
                    Some reason \<Rightarrow> StopSession reason
                  | None \<Rightarrow> HoldSession (oc_h1CheckMs cfg))"

section \<open>The writes of a batch\<close>

fun add_stop :: "stop_reason \<Rightarrow> nat \<Rightarrow> (stop_reason \<times> nat list) list \<Rightarrow> (stop_reason \<times> nat list) list" where
  "add_stop r i [] = [(r, [i])]"
| "add_stop r i ((r', ids) # gs) = (if r' = r then (r', ids @ [i]) # gs else (r', ids) # add_stop r i gs)"

record batch_writes =
  bw_stops :: "(stop_reason \<times> nat list) list"
  bw_marked :: "nat list"
  bw_holds :: "(nat \<times> int) list"

definition no_writes :: batch_writes where "no_writes = \<lparr>bw_stops = [], bw_marked = [], bw_holds = []\<rparr>"

fun add_ending :: "orchestrator_config \<Rightarrow> session_row \<times> session_ending \<Rightarrow> batch_writes \<Rightarrow> batch_writes" where
  "add_ending cfg (s, StopSession reason) w = w\<lparr>bw_stops := add_stop reason (s_id s) (bw_stops w)\<rparr>"
| "add_ending cfg (s, HoldSession ms) w = w\<lparr>bw_holds := bw_holds w @ [(s_id s, ms)], bw_marked := bw_marked w @ [s_id s]\<rparr>"
| "add_ending cfg (s, RescheduleSession) w = w\<lparr>bw_marked := bw_marked w @ [s_id s]\<rparr>"
| "add_ending cfg (s, FailedSession) w = w\<lparr>bw_holds := bw_holds w @ [(s_id s, oc_retryMs cfg)]\<rparr>"

definition writes_of :: "orchestrator_config \<Rightarrow> (session_row \<times> session_ending) list \<Rightarrow> batch_writes" where
  "writes_of cfg endings = fold (add_ending cfg) endings no_writes"

section \<open>The tick\<close>

datatype tick_phase =
  SweepPaused | SweepExpired | SweepHalted | Scanning
| BatchReading "prepared_session list" "(session_row \<times> session_ending) list"
| BatchPairing "waiting_session list" "(session_row \<times> session_ending) list"
| BatchStopping batch_writes
| BatchMarking batch_writes
| BatchHolding batch_writes

record running_tick =
  tk_at :: int
  tk_full :: bool
  tk_accounts :: "nat list"
  tk_runnable :: "session_row list"
  tk_phase :: tick_phase

text \<open>\<open>or_begun\<close> is no state of the code: the scopes of the ticks begun so far, \<open>None\<close> for a full one.\<close>

record orchestrator =
  or_clock :: int
  or_heldUntil :: "(nat \<times> int) list"
  or_stopped :: bool
  or_running :: "running_tick option"
  or_pending :: nat
  or_pendingAccounts :: "nat list"
  or_pendingFull :: bool
  or_lastFullAt :: "int option"
  or_late :: "batch_writes list"
  or_begun :: "nat list option list"

definition create_session_orchestrator :: "int \<Rightarrow> orchestrator" where
  "create_session_orchestrator t =
     \<lparr>or_clock = t, or_heldUntil = [], or_stopped = False, or_running = None, or_pending = 0, or_pendingAccounts = [],
      or_pendingFull = False, or_lastFullAt = None, or_late = [], or_begun = []\<rparr>"

text \<open>\<open>runTick\<close> up to its first \<open>await\<close>.\<close>

definition begin_run :: "orchestrator_config \<Rightarrow> orchestrator \<Rightarrow> orchestrator" where
  "begin_run cfg c =
     (let accs = or_pendingAccounts c;
          full = (or_pendingFull c \<or> accs = []
            \<or> (case or_lastFullAt c of None \<Rightarrow> True | Some t \<Rightarrow> oc_tickMs cfg \<le> or_clock c - t)) in
      c\<lparr>or_pending := 0, or_pendingAccounts := [], or_pendingFull := False,
        or_running := Some \<lparr>tk_at = or_clock c, tk_full = full, tk_accounts = accs, tk_runnable = [],
          tk_phase = (if full then SweepPaused else Scanning)\<rparr>,
        or_begun := or_begun c @ [if full then None else Some accs]\<rparr>)"

text \<open>\<open>tick\<close>: the interval's call, a wake's, or the one after a tick.\<close>

definition call_tick :: "orchestrator_config \<Rightarrow> orchestrator \<Rightarrow> orchestrator" where
  "call_tick cfg c =
     (if or_stopped c then c
      else case or_running c of
        None \<Rightarrow> begin_run cfg c
      | Some tk \<Rightarrow> if \<not> tk_full tk then c\<lparr>or_pendingFull := True\<rparr> else c)"

definition wake :: "orchestrator_config \<Rightarrow> nat option \<Rightarrow> orchestrator \<Rightarrow> orchestrator" where
  "wake cfg account c =
     (let c1 = c\<lparr>or_pending := or_pending c + 1\<rparr>;
          c2 = (case account of None \<Rightarrow> c1\<lparr>or_pendingFull := True\<rparr>
                | Some a \<Rightarrow> c1\<lparr>or_pendingAccounts := List.insert a (or_pendingAccounts c1)\<rparr>) in
      if or_running c2 = None then call_tick cfg c2 else c2)"

definition end_run :: "orchestrator_config \<Rightarrow> orchestrator \<Rightarrow> orchestrator" where
  "end_run cfg c =
     (let c1 = c\<lparr>or_running := None\<rparr> in
      if 0 < or_pending c1 \<or> or_pendingFull c1 then call_tick cfg c1 else c1)"

definition to_phase :: "running_tick \<Rightarrow> tick_phase \<Rightarrow> orchestrator \<Rightarrow> orchestrator" where
  "to_phase tk ph c = c\<lparr>or_running := Some (tk\<lparr>tk_phase := ph\<rparr>)\<rparr>"

text \<open>A checkpoint after an \<open>await\<close> of the batch: a stopped orchestrator writes and holds nothing more.\<close>

definition checkpoint :: "orchestrator_config \<Rightarrow> running_tick \<Rightarrow> tick_phase \<Rightarrow> orchestrator \<Rightarrow> orchestrator" where
  "checkpoint cfg tk ph c = (if or_stopped c then end_run cfg c else to_phase tk ph c)"

definition lefts :: "('a \<Rightarrow> session_row) \<Rightarrow> ('a \<Rightarrow> session_ending + 'b) \<Rightarrow> 'a list \<Rightarrow> (session_row \<times> session_ending) list" where
  "lefts row f xs = List.map_filter (\<lambda>x. case f x of Inl e \<Rightarrow> Some (row x, e) | Inr _ \<Rightarrow> None) xs"

definition rights :: "('a \<Rightarrow> session_ending + 'b) \<Rightarrow> 'a list \<Rightarrow> 'b list" where
  "rights f xs = List.map_filter (\<lambda>x. case f x of Inl _ \<Rightarrow> None | Inr y \<Rightarrow> Some y) xs"

definition scan :: "(string \<Rightarrow> session_settings option) \<Rightarrow> orchestrator_config \<Rightarrow> running_tick \<Rightarrow> orchestrator \<Rightarrow> 'p db \<Rightarrow> orchestrator" where
  "scan parse cfg tk c d =
     (let held = filter (\<lambda>(i, until). tk_at tk + oc_holdSlackMs cfg < until) (or_heldUntil c);
          c1 = c\<lparr>or_heldUntil := held\<rparr>;
          runnable = list_runnable_sessions (oc_batchSize cfg) (oc_maxDurationMs cfg) (map fst held)
            (if tk_full tk then None else Some (tk_accounts tk)) d in
      if or_stopped c1 \<or> runnable = [] then end_run cfg c1
      else to_phase (tk\<lparr>tk_runnable := runnable\<rparr>)
        (BatchReading (rights (prepare_session parse cfg) runnable) (lefts id (prepare_session parse cfg) runnable)) c1)"

definition batch_read_step ::
  "orchestrator_config \<Rightarrow> running_tick \<Rightarrow> prepared_session list \<Rightarrow> (session_row \<times> session_ending) list \<Rightarrow> orchestrator \<Rightarrow> 'p db \<Rightarrow> orchestrator" where
  "batch_read_step cfg tk prepared endings c d =
     (let reads = read_session_batch (map (\<lambda>p. (s_id (pp_session p), pp_noSignalTimeoutMs p)) prepared) (oc_maxDurationMs cfg) d;
          decide = (\<lambda>p. before_pair cfg p (reads (s_id (pp_session p))));
          waiting = rights decide prepared; endings1 = endings @ lefts pp_session decide prepared in
      checkpoint cfg tk (if waiting = [] then BatchStopping (writes_of cfg endings1) else BatchPairing waiting endings1) c)"

definition pairs_step ::
  "orchestrator_config \<Rightarrow> pairs_outcome \<Rightarrow> running_tick \<Rightarrow> waiting_session list \<Rightarrow> (session_row \<times> session_ending) list \<Rightarrow> orchestrator \<Rightarrow> orchestrator" where
  "pairs_step cfg catalog tk waiting endings c =
     checkpoint cfg tk (BatchStopping (writes_of cfg
       (endings @ map (\<lambda>w. (pp_session (wt_prepared w), at_pair cfg (tk_at tk) catalog w)) waiting))) c"

definition hold_all :: "orchestrator_config \<Rightarrow> running_tick \<Rightarrow> batch_writes \<Rightarrow> orchestrator \<Rightarrow> orchestrator" where
  "hold_all cfg tk w c =
     c\<lparr>or_heldUntil := fold (\<lambda>(i, ms). AList.update i (tk_at tk + max ms (oc_tickMs cfg))) (bw_holds w) (or_heldUntil c)\<rparr>"

text \<open>The statement in flight when the batch is cut; it may still land.\<close>

definition in_flight :: "tick_phase \<Rightarrow> batch_writes list" where
  "in_flight ph =
     (case ph of
        BatchStopping w \<Rightarrow> [w\<lparr>bw_stops := take 1 (bw_stops w), bw_marked := []\<rparr>]
      | BatchMarking w \<Rightarrow> [w\<lparr>bw_stops := []\<rparr>]
      | _ \<Rightarrow> [])"

fun is_batch :: "tick_phase \<Rightarrow> bool" where
  "is_batch (BatchReading _ _) \<longleftrightarrow> True"
| "is_batch (BatchPairing _ _) \<longleftrightarrow> True"
| "is_batch (BatchStopping _) \<longleftrightarrow> True"
| "is_batch (BatchMarking _) \<longleftrightarrow> True"
| "is_batch (BatchHolding _) \<longleftrightarrow> True"
| "is_batch _ \<longleftrightarrow> False"

type_synonym pick = "nat \<Rightarrow> nat list \<Rightarrow> nat list"

definition tick_step ::
  "(string \<Rightarrow> session_settings option) \<Rightarrow> orchestrator_config \<Rightarrow> pick \<Rightarrow> pairs_outcome \<Rightarrow> running_tick \<Rightarrow> orchestrator \<Rightarrow> 'p db
    \<Rightarrow> orchestrator \<times> 'p db" where
  "tick_step parse cfg pick catalog tk c d =
     (case tk_phase tk of
        SweepPaused \<Rightarrow> (to_phase tk SweepExpired c, snd (stop_paused_sessions pick (oc_batchSize cfg) d))
      | SweepExpired \<Rightarrow> (to_phase tk SweepHalted c, snd (stop_expired_sessions pick (oc_maxDurationMs cfg) (oc_batchSize cfg) d))
      | SweepHalted \<Rightarrow> (to_phase tk Scanning (c\<lparr>or_lastFullAt := Some (tk_at tk)\<rparr>), snd (stop_halted_sessions pick (oc_batchSize cfg) d))
      | Scanning \<Rightarrow> (scan parse cfg tk c d, d)
      | BatchReading prepared endings \<Rightarrow> (batch_read_step cfg tk prepared endings c d, d)
      | BatchPairing waiting endings \<Rightarrow> (pairs_step cfg catalog tk waiting endings c, d)
      | BatchStopping w \<Rightarrow>
          (case bw_stops w of
             [] \<Rightarrow> (to_phase tk (BatchMarking w) c, d)
           | (reason, ids) # gs \<Rightarrow>
               (checkpoint cfg tk (BatchStopping (w\<lparr>bw_stops := gs\<rparr>)) c, snd (stop_trading_sessions ids reason d)))
      | BatchMarking w \<Rightarrow> (checkpoint cfg tk (BatchHolding w) c, mark_session_decisions (bw_marked w) d)
      | BatchHolding w \<Rightarrow> (end_run cfg (if or_stopped c then c else hold_all cfg tk w c), d))"

datatype orchestrator_happening =
  TickCalled | Woken "nat option" | TickGoesOn pick pairs_outcome | TickFails | BatchCut | LateLands nat
| OrchestratorStops | OrchestratorClock int

text \<open>\<open>TickFails\<close>: a rejected statement outside the batch, or inside it, ends the tick with a log line.
  \<open>BatchCut\<close>: the deadline. The statement of a cut batch lands late or not at all.\<close>

fun orchestrator_event ::
  "(string \<Rightarrow> session_settings option) \<Rightarrow> orchestrator_config \<Rightarrow> orchestrator_happening \<Rightarrow> orchestrator \<Rightarrow> 'p db \<Rightarrow> orchestrator \<times> 'p db" where
  "orchestrator_event parse cfg TickCalled c d = (call_tick cfg c, d)"
| "orchestrator_event parse cfg (Woken account) c d = (wake cfg account c, d)"
| "orchestrator_event parse cfg (TickGoesOn pick catalog) c d =
     (case or_running c of None \<Rightarrow> (c, d) | Some tk \<Rightarrow> tick_step parse cfg pick catalog tk c d)"
| "orchestrator_event parse cfg TickFails c d =
     (case or_running c of None \<Rightarrow> (c, d) | Some tk \<Rightarrow> (end_run cfg c, d))"
| "orchestrator_event parse cfg BatchCut c d =
     (case or_running c of None \<Rightarrow> (c, d)
      | Some tk \<Rightarrow> if is_batch (tk_phase tk)
          then (end_run cfg (c\<lparr>or_late := or_late c @ in_flight (tk_phase tk)\<rparr>), d) else (c, d))"
| "orchestrator_event parse cfg (LateLands k) c d =
     (if k < length (or_late c) then
        (c\<lparr>or_late := take k (or_late c) @ drop (Suc k) (or_late c)\<rparr>,
         (case bw_stops (or_late c ! k) of
            [] \<Rightarrow> mark_session_decisions (bw_marked (or_late c ! k)) d
          | (reason, ids) # _ \<Rightarrow> snd (stop_trading_sessions ids reason d)))
      else (c, d))"
| "orchestrator_event parse cfg OrchestratorStops c d = (c\<lparr>or_stopped := True\<rparr>, d)"
| "orchestrator_event parse cfg (OrchestratorClock t) c d = (if or_clock c \<le> t then (c\<lparr>or_clock := t\<rparr>, d) else (c, d))"

inductive orchestrator_step ::
  "(string \<Rightarrow> session_settings option) \<Rightarrow> orchestrator_config \<Rightarrow> 'p db list \<times> orchestrator \<Rightarrow> 'p db list \<times> orchestrator \<Rightarrow> bool"
  for parse cfg where
  OwnStep: "orchestrator_event parse cfg e c d = (c', d') \<Longrightarrow> orchestrator_step parse cfg (d # h, c) (d' # d # h, c')"
| BesideStep: "platform_step h h' \<Longrightarrow> orchestrator_step parse cfg (h, c) (h', c)"

section \<open>No wake is lost\<close>

text \<open>The tick a wake asks for: over its account, or a full one.\<close>

definition covers :: "nat option \<Rightarrow> nat list option \<Rightarrow> bool" where
  "covers account scope \<longleftrightarrow> (case scope of None \<Rightarrow> True | Some accs \<Rightarrow> (case account of None \<Rightarrow> False | Some a \<Rightarrow> a \<in> set accs))"

definition asked :: "nat option \<Rightarrow> orchestrator \<Rightarrow> bool" where
  "asked account c \<longleftrightarrow> 0 < or_pending c
     \<and> (case account of None \<Rightarrow> or_pendingFull c | Some a \<Rightarrow> a \<in> set (or_pendingAccounts c))"

lemma asked_fields [simp]:
  "asked a (c\<lparr>or_heldUntil := x\<rparr>) = asked a c" "asked a (c\<lparr>or_late := y\<rparr>) = asked a c"
  "asked a (c\<lparr>or_lastFullAt := z\<rparr>) = asked a c" "asked a (c\<lparr>or_stopped := b\<rparr>) = asked a c"
  "asked a (c\<lparr>or_clock := t\<rparr>) = asked a c" "asked a (c\<lparr>or_running := r\<rparr>) = asked a c"
  "asked a c \<Longrightarrow> asked a (c\<lparr>or_pendingFull := True\<rparr>)"
  by (cases a; simp add: asked_def)+

text \<open>A tick begun after the first \<open>n\<close> covers it, or the next one will.\<close>

definition owed :: "nat \<Rightarrow> nat option \<Rightarrow> orchestrator \<Rightarrow> bool" where
  "owed n a c \<longleftrightarrow> n \<le> length (or_begun c) \<and> ((\<exists>scope \<in> set (drop n (or_begun c)). covers a scope) \<or> asked a c)"

definition idle_ok :: "orchestrator \<Rightarrow> bool" where
  "idle_ok c \<longleftrightarrow> (or_running c = None \<and> \<not> or_stopped c \<longrightarrow> or_pending c = 0)"

definition serving :: "nat \<Rightarrow> nat option \<Rightarrow> orchestrator \<Rightarrow> bool" where
  "serving n a c \<longleftrightarrow> owed n a c \<and> idle_ok c"

lemma begin_run_owed: "owed n a c \<Longrightarrow> owed n a (begin_run cfg c)"
  by (auto simp: owed_def begin_run_def Let_def covers_def asked_def split: option.splits)

lemma begin_run_idle: "idle_ok (begin_run cfg c)"
  by (simp add: idle_ok_def begin_run_def Let_def)

lemma call_tick_owed: "owed n a c \<Longrightarrow> owed n a (call_tick cfg c)"
  by (auto simp: call_tick_def begin_run_owed split: option.splits) (auto simp: owed_def)

lemma call_tick_idle: "idle_ok c \<or> or_running c = None \<Longrightarrow> idle_ok (call_tick cfg c)"
  using begin_run_idle [of cfg c] by (auto simp: call_tick_def idle_ok_def split: option.splits)

lemma end_run_serving:
  assumes "owed n a c" shows "serving n a (end_run cfg c)"
proof -
  have "owed n a (c\<lparr>or_running := None\<rparr>)" using assms by (simp add: owed_def)
  then show ?thesis
    using call_tick_owed [of n a "c\<lparr>or_running := None\<rparr>" cfg] call_tick_idle [of "c\<lparr>or_running := None\<rparr>" cfg]
    by (auto simp: serving_def end_run_def Let_def idle_ok_def)
qed

lemma to_phase_serving: "owed n a c \<Longrightarrow> serving n a (to_phase tk ph c)"
  by (simp add: serving_def owed_def idle_ok_def to_phase_def)

lemma checkpoint_serving: "owed n a c \<Longrightarrow> serving n a (checkpoint cfg tk ph c)"
  by (simp add: checkpoint_def end_run_serving to_phase_serving)

lemma owed_fields [simp]:
  "owed n a (c\<lparr>or_heldUntil := x\<rparr>) = owed n a c" "owed n a (c\<lparr>or_late := y\<rparr>) = owed n a c"
  "owed n a (c\<lparr>or_lastFullAt := z\<rparr>) = owed n a c" "owed n a (c\<lparr>or_stopped := b\<rparr>) = owed n a c"
  "owed n a (c\<lparr>or_clock := t\<rparr>) = owed n a c"
  by (simp_all add: owed_def)

lemma idle_fields [simp]:
  "idle_ok (c\<lparr>or_late := y\<rparr>) = idle_ok c" "idle_ok (c\<lparr>or_clock := t\<rparr>) = idle_ok c" "idle_ok (c\<lparr>or_stopped := True\<rparr>)"
  by (simp_all add: idle_ok_def)

lemma tick_step_serving: "owed n a c \<Longrightarrow> serving n a (fst (tick_step parse cfg pick catalog tk c d))"
  by (auto simp: tick_step_def scan_def batch_read_step_def pairs_step_def hold_all_def Let_def
      intro: end_run_serving to_phase_serving checkpoint_serving split: tick_phase.split list.split)

definition noted :: "nat option \<Rightarrow> orchestrator \<Rightarrow> orchestrator" where
  "noted account c = (case account of None \<Rightarrow> c\<lparr>or_pending := or_pending c + 1, or_pendingFull := True\<rparr>
      | Some a \<Rightarrow> c\<lparr>or_pending := or_pending c + 1, or_pendingAccounts := List.insert a (or_pendingAccounts c)\<rparr>)"

lemma noted_simps [simp]: "or_running (noted account c) = or_running c" "or_begun (noted account c) = or_begun c" "asked account (noted account c)"
  by (simp_all add: noted_def asked_def split: option.split)

lemma wake_noted: "wake cfg account c = (if or_running c = None then call_tick cfg (noted account c) else noted account c)"
  by (cases account; cases "or_running c") (simp_all add: wake_def noted_def Let_def)

lemma wake_serving:
  assumes "owed n a c \<or> a = account \<and> n \<le> length (or_begun c)" shows "serving n a (wake cfg account c)"
proof -
  have "owed n a (noted account c)" using assms
    by (cases account; cases a) (auto simp: owed_def asked_def noted_def)
  then show ?thesis using call_tick_owed [of n a "noted account c" cfg] call_tick_idle [of "noted account c" cfg]
    unfolding wake_noted by (auto simp: serving_def idle_ok_def)
qed

lemma event_serving:
  assumes "serving n a c" "orchestrator_event parse cfg e c d = (c', d')" shows "serving n a c'"
proof (cases e)
  case TickCalled
  then show ?thesis using assms call_tick_owed call_tick_idle by (auto simp: serving_def)
next
  case (Woken account)
  then have "c' = wake cfg account c" using assms(2) by simp
  then show ?thesis using assms(1) wake_serving [of n a c account cfg] by (simp add: serving_def)
next
  case (TickGoesOn pick catalog)
  show ?thesis
  proof (cases "or_running c")
    case (Some tk)
    then have "c' = fst (tick_step parse cfg pick catalog tk c d)" using assms(2) TickGoesOn by simp
    then show ?thesis using assms(1) tick_step_serving [of n a c parse cfg pick catalog tk d] by (simp add: serving_def)
  qed (use assms TickGoesOn in simp)
qed (use assms end_run_serving in \<open>auto simp: serving_def split: option.splits if_splits\<close>)

lemma run_serving: "(orchestrator_step parse cfg)\<^sup>*\<^sup>* w w' \<Longrightarrow> serving n a (snd w) \<Longrightarrow> serving n a (snd w')"
proof (induction rule: rtranclp_induct)
  case (step x y)
  from step(2) show ?case using step(3,4) by cases (auto intro: event_serving)
qed

text \<open>
  C30: No wake is lost: after a call of \<open>wake\<close>, however ticks, further wakes, failures, cut batches and
  every other process interleave, the orchestrator is not idle, unless it was stopped, before a tick
  has begun that the call did not miss, over the account the call named or over all sessions; a call
  without an account gets a full tick with its sweeps.
\<close>

theorem wake_is_served:
  assumes "orchestrator_event parse cfg (Woken account) c d = (c', d')" "(orchestrator_step parse cfg)\<^sup>*\<^sup>* (d' # h, c') (h2, c2)"
    "or_running c2 = None" "\<not> or_stopped c2"
  shows "\<exists>scope \<in> set (drop (length (or_begun c)) (or_begun c2)).
    scope = None \<or> (\<exists>a accs. account = Some a \<and> scope = Some accs \<and> a \<in> set accs)"
proof -
  have "serving (length (or_begun c)) account c'" using assms(1) wake_serving [of "length (or_begun c)" account c account cfg] by simp
  from run_serving [OF assms(2)] this have "serving (length (or_begun c)) account c2" by simp
  then have "\<exists>scope \<in> set (drop (length (or_begun c)) (or_begun c2)). covers account scope"
    using assms(3,4) by (auto simp: serving_def owed_def idle_ok_def asked_def)
  then obtain scope where s: "scope \<in> set (drop (length (or_begun c)) (or_begun c2))" "covers account scope" by blast
  then show ?thesis by (intro bexI [OF _ s(1)]) (cases scope; cases account; simp add: covers_def)
qed

definition demo_orchestrator_config :: orchestrator_config where
  "demo_orchestrator_config = \<lparr>oc_tickMs = 1000, oc_batchSize = 10, oc_retryMs = 5000, oc_h1CheckMs = 60000,
     oc_holdSlackMs = 100, oc_maxDurationMs = 86400000, oc_noSignalCandles = 3\<rparr>"

text \<open>A wake over account 1 while a tick runs; both ticks then fail.\<close>

theorem wake_is_served_witness:
  "\<exists>scope \<in> set (drop 1 [None, None :: nat list option]). scope = None \<or> (\<exists>a accs. Some (1::nat) = Some a \<and> scope = Some accs \<and> a \<in> set accs)"
proof -
  let ?parse = "\<lambda>_. None" and ?cfg = demo_orchestrator_config
  define c where "c = call_tick ?cfg (create_session_orchestrator 0)"
  define c1 where "c1 = wake ?cfg (Some 1) c"
  define c2 where "c2 = end_run ?cfg c1"
  define c3 where "c3 = end_run ?cfg c2"
  note runs = c_def c1_def c2_def c3_def call_tick_def begin_run_def wake_def end_run_def create_session_orchestrator_def Let_def List.insert_def
  have "orchestrator_event ?parse ?cfg (Woken (Some 1)) c demo_db = (c1, demo_db)" by (simp add: c1_def)
  moreover have "orchestrator_step ?parse ?cfg (demo_db # [], c1) (demo_db # demo_db # [], c2)"
    "orchestrator_step ?parse ?cfg (demo_db # [demo_db], c2) (demo_db # demo_db # [demo_db], c3)"
    by (rule OwnStep [of _ _ TickFails], simp add: runs)+
  then have "(orchestrator_step ?parse ?cfg)\<^sup>*\<^sup>* (demo_db # [], c1) (demo_db # demo_db # [demo_db], c3)"
    by simp
  moreover have "or_running c3 = None" "\<not> or_stopped c3" by (simp_all add: runs)
  ultimately have "\<exists>scope \<in> set (drop (length (or_begun c)) (or_begun c3)).
      scope = None \<or> (\<exists>a accs. Some (1::nat) = Some a \<and> scope = Some accs \<and> a \<in> set accs)"
    by (rule wake_is_served)
  moreover have "or_begun c = [None]" "or_begun c3 = [None, None]" by (simp_all add: runs)
  ultimately show ?thesis by simp
qed

end
