(* ===== verification/Orchestrator_Safe.thy ===== *)
theory Orchestrator_Safe
  imports Orchestrator
begin

text \<open>
  What a batch of the orchestrator does to the sessions it took: each ends as a stopped row, a hold-back
  or, with a live intent of its own, back in the queue.
\<close>

section \<open>Nobody in a batch is forgotten\<close>

definition stop_ids :: "batch_writes \<Rightarrow> nat set" where
  "stop_ids w = (\<Union>(r, ids) \<in> set (bw_stops w). set ids)"

lemma add_stop_ids: "(\<Union>(r, ids) \<in> set (add_stop r i gs). set ids) = insert i (\<Union>(r, ids) \<in> set gs. set ids)"
  by (induction r i gs rule: add_stop.induct) auto

text \<open>A session's ending is among the writes: a stop, a hold, or a mark alone.\<close>

definition decided_in :: "batch_writes \<Rightarrow> session_row \<times> session_ending \<Rightarrow> bool" where
  "decided_in w p \<longleftrightarrow> (case snd p of StopSession _ \<Rightarrow> s_id (fst p) \<in> stop_ids w
     | RescheduleSession \<Rightarrow> True | _ \<Rightarrow> s_id (fst p) \<in> fst ` set (bw_holds w))"

lemma add_ending_keeps:
  "stop_ids w \<subseteq> stop_ids (add_ending cfg p w)" "fst ` set (bw_holds w) \<subseteq> fst ` set (bw_holds (add_ending cfg p w))"
  by (cases p; cases "snd p"; auto simp: stop_ids_def add_stop_ids)+

lemma add_ending_decides: "decided_in (add_ending cfg p w) p"
  by (cases p; cases "snd p"; auto simp: decided_in_def stop_ids_def add_stop_ids)

lemma fold_keeps: "decided_in w p \<Longrightarrow> decided_in (fold (add_ending cfg) es w) p"
proof (induction es arbitrary: w)
  case (Cons e es)
  have "decided_in (add_ending cfg e w) p" using Cons.prems add_ending_keeps [of w cfg e] by (auto simp: decided_in_def split: session_ending.splits)
  then show ?case using Cons.IH by simp
qed simp

lemma writes_decide: "p \<in> set es \<Longrightarrow> decided_in (writes_of cfg es) p"
proof -
  have "p \<in> set es \<Longrightarrow> decided_in (fold (add_ending cfg) es w) p" for w
    by (induction es arbitrary: w) (auto intro: fold_keeps add_ending_decides)
  then show "p \<in> set es \<Longrightarrow> decided_in (writes_of cfg es) p" by (simp add: writes_of_def)
qed

text \<open>What was seen of a session that is neither stopped nor held: a live intent of its own, or a paused
  row, which nothing modelled writes.\<close>

definition spared :: "'p db list \<Rightarrow> nat \<Rightarrow> bool" where
  "spared h sid \<longleftrightarrow> (\<exists>d \<in> set h. (\<exists>r \<in> set (intents d). i_sessionId r = Some sid \<and> \<not> terminal (i_status r))
     \<or> (\<exists>s \<in> set (sessions d). s_id s = sid \<and> s_status s = SPaused))"

definition known :: "'p db \<Rightarrow> nat \<Rightarrow> bool" where
  "known d sid \<longleftrightarrow> (\<exists>s \<in> set (sessions d). s_id s = sid)"

definition ended_row :: "'p db \<Rightarrow> nat \<Rightarrow> bool" where
  "ended_row d sid \<longleftrightarrow> (\<exists>s \<in> set (sessions d). s_id s = sid \<and> s_status s = SStopped)"

lemma spared_mono: "spared h sid \<Longrightarrow> set h \<subseteq> set h' \<Longrightarrow> spared h' sid"
  by (auto simp: spared_def)

lemma keeps_rows: "keeps_sessions d d' \<Longrightarrow> known d sid \<Longrightarrow> known d' sid" "keeps_sessions d d' \<Longrightarrow> ended_row d sid \<Longrightarrow> ended_row d' sid"
  unfolding keeps_sessions_def known_def ended_row_def session_after_def by metis+

lemma stop_ends:
  assumes "known d sid" "sid \<in> set ids"
  shows "ended_row (snd (stop_trading_sessions ids reason d)) sid \<or> spared [d] sid"
proof -
  obtain s where s: "s \<in> set (sessions d)" "s_id s = sid" using assms(1) by (auto simp: known_def)
  let ?f = "stopped_by reason (now d)" and ?p = "\<lambda>s. s_status s = SActive \<and> List.member ids (s_id s)"
  have d': "sessions (snd (stop_trading_sessions ids reason d)) = sql_update ?p ?f (sessions d)"
    using assms(2) by (auto simp: stop_trading_sessions_def stop_where_def Let_def)
  show ?thesis
  proof (cases "s_status s")
    case SActive
    then have "?f s \<in> set (sql_update ?p ?f (sessions d))" using s assms(2) by (auto simp: sql_update_def image_iff intro!: bexI [of _ s])
    moreover have "s_id (?f s) = sid" "s_status (?f s) = SStopped" using s(2) by (simp_all add: stopped_by_def)
    ultimately show ?thesis unfolding ended_row_def d' by blast
  next
    case SPaused
    then show ?thesis using s by (auto simp: spared_def)
  next
    case SStopped
    then have "s \<in> set (sql_update ?p ?f (sessions d))" using s by (auto simp: sql_update_def image_iff intro!: bexI [of _ s])
    then show ?thesis using s(2) SStopped by (auto simp: ended_row_def d')
  qed
qed

definition read_from_rows :: "'p db \<Rightarrow> (nat \<rightharpoonup> batch_read) \<Rightarrow> bool" where
  "read_from_rows d reads \<longleftrightarrow> (\<forall>sid b hi. reads sid = Some b \<longrightarrow> hi \<in> set (sh_intents (bt_history b))
     \<longrightarrow> (\<exists>r \<in> set (intents d). i_sessionId r = Some sid \<and> i_status r = hi_status hi))"

lemma push_from_rows:
  assumes "read_from_rows d reads" "\<exists>r \<in> set (intents d). i_sessionId r = Some (fst row) \<and> i_status r = hi_status (snd row)"
  shows "read_from_rows d (push_intent row reads)"
proof (cases "reads (fst row)")
  case (Some b)
  let ?b = "b\<lparr>bt_history := (bt_history b)\<lparr>sh_intents := sh_intents (bt_history b) @ [snd row]\<rparr>\<rparr>"
  have p: "push_intent row reads = reads(fst row \<mapsto> ?b)" using Some by (simp add: push_intent_def)
  have old: "\<exists>r \<in> set (intents d). i_sessionId r = Some (fst row) \<and> i_status r = hi_status hi" if "hi \<in> set (sh_intents (bt_history b))" for hi
    using assms(1) Some that unfolding read_from_rows_def by blast
  show ?thesis unfolding read_from_rows_def p
  proof (intro allI impI)
    fix sid b' hi
    assume h: "(reads(fst row \<mapsto> ?b)) sid = Some b'" "hi \<in> set (sh_intents (bt_history b'))"
    show "\<exists>r \<in> set (intents d). i_sessionId r = Some sid \<and> i_status r = hi_status hi"
    proof (cases "sid = fst row")
      case True
      then have "hi = snd row \<or> hi \<in> set (sh_intents (bt_history b))" using h by auto
      then show ?thesis using old assms(2) True by blast
    next
      case False
      then show ?thesis using h assms(1) unfolding read_from_rows_def by simp
    qed
  qed
qed (use assms in \<open>simp add: push_intent_def\<close>)

lemma history_live:
  assumes "read_session_batch items maxMs d sid = Some b" "hi \<in> set (sh_intents (bt_history b))"
  shows "\<exists>r \<in> set (intents d). i_sessionId r = Some sid \<and> i_status r = hi_status hi"
proof -
  have rows: "\<forall>row \<in> set (batch_intents ids d). \<exists>r \<in> set (intents d). i_sessionId r = Some (fst row) \<and> i_status r = hi_status (snd row)" for ids
    by (fastforce simp: batch_intents_def history_rows_def Let_def split: option.splits list.splits)
  have push: "read_from_rows d (fold push_intent rs reads)"
    if "read_from_rows d reads" "\<forall>row \<in> set rs. \<exists>r \<in> set (intents d). i_sessionId r = Some (fst row) \<and> i_status r = hi_status (snd row)" for rs reads
    using that by (induction rs arbitrary: reads) (simp_all add: push_from_rows)
  have start: "read_from_rows d (fold (\<lambda>(sid, b) m. m(sid \<mapsto> b)) rs m)"
    if "read_from_rows d m" "\<forall>(sid, b) \<in> set rs. sh_intents (bt_history b) = []" for rs m
    using that
  proof (induction rs arbitrary: m)
    case (Cons a rs)
    obtain sid b where a: "a = (sid, b)" by (cases a)
    have "read_from_rows d (m(sid \<mapsto> b))" using Cons.prems unfolding read_from_rows_def a by simp
    moreover have "\<forall>(sid, b) \<in> set rs. sh_intents (bt_history b) = []" using Cons.prems(2) by simp
    ultimately have "read_from_rows d (fold (\<lambda>(sid, b) m. m(sid \<mapsto> b)) rs (m(sid \<mapsto> b)))" by (rule Cons.IH)
    then show ?case by (simp add: a del: fun_upd_apply)
  qed simp
  have empty: "\<forall>(sid, b) \<in> set (batch_rows items maxMs d). sh_intents (bt_history b) = []"
    by (auto simp: batch_rows_def List.map_filter_def history_of_def bind_eq_Some_conv)
  have "read_from_rows d Map.empty" by (simp add: read_from_rows_def)
  from push [OF start [OF this empty] rows] have "read_from_rows d (read_session_batch items maxMs d)"
    using \<open>read_from_rows d Map.empty\<close> by (simp add: read_session_batch_def Let_def)
  then show ?thesis using assms unfolding read_from_rows_def by blast
qed

lemma reschedule_spared:
  assumes "before_pair cfg p (read_session_batch items maxMs d sid) = Inl RescheduleSession" shows "spared [d] sid"
proof -
  obtain b where b: "read_session_batch items maxMs d sid = Some b"
    "session_intent_block (sh_expired (bt_history b)) (sh_intents (bt_history b)) (pp_settings p) = Some BlockLive"
    using assms by (auto simp: before_pair_def split: option.splits intent_block.splits)
  then obtain hi where hi: "hi \<in> set (sh_intents (bt_history b))" "TRADE_INTENT_TRANSITIONS (hi_status hi) \<noteq> []"
    by (auto simp: session_intent_block_def list_ex_iff Let_def split: if_splits prod.splits)
  from history_live [OF b(1) hi(1)] hi(2) show ?thesis by (cases "hi_status hi") (auto simp: spared_def)
qed

lemma in_lefts: "x \<in> set xs \<Longrightarrow> f x = Inl e \<Longrightarrow> (row x, e) \<in> set (lefts row f xs)"
  by (force simp: lefts_def List.map_filter_def)

lemma in_rights: "x \<in> set xs \<Longrightarrow> f x = Inr y \<Longrightarrow> y \<in> set (rights f xs)"
  by (force simp: rights_def List.map_filter_def)

lemma prepare_session_ends: "prepare_session parse cfg s \<noteq> Inl RescheduleSession" "prepare_session parse cfg s = Inr p \<Longrightarrow> pp_session p = s"
  by (auto simp: prepare_session_def split: option.splits sum.splits sizer_error.splits if_splits)

lemma before_pair_waits: "before_pair cfg p read = Inr w \<Longrightarrow> wt_prepared w = p"
  by (auto simp: before_pair_def split: option.splits intent_block.splits)

lemma at_pair_ends: "at_pair cfg t catalog w \<noteq> RescheduleSession"
  by (auto simp: at_pair_def Let_def split: pairs_outcome.splits option.splits sum.splits)

definition settled_in :: "'p db list \<Rightarrow> (session_row \<times> session_ending) list \<Rightarrow> session_row \<Rightarrow> bool" where
  "settled_in h es s \<longleftrightarrow> (\<exists>e. (s, e) \<in> set es \<and> (e = RescheduleSession \<longrightarrow> spared h (s_id s)))"

definition handled :: "'p db list \<Rightarrow> batch_writes \<Rightarrow> session_row \<Rightarrow> bool" where
  "handled h w s \<longleftrightarrow> s_id s \<in> stop_ids w \<or> s_id s \<in> fst ` set (bw_holds w) \<or> ended_row (hd h) (s_id s) \<or> spared h (s_id s)"

fun phase_ok :: "'p db list \<Rightarrow> session_row list \<Rightarrow> tick_phase \<Rightarrow> bool" where
  "phase_ok h rs (BatchReading ps es) \<longleftrightarrow> (\<forall>s \<in> set rs. settled_in h es s \<or> (\<exists>p \<in> set ps. pp_session p = s))"
| "phase_ok h rs (BatchPairing ws es) \<longleftrightarrow> (\<forall>s \<in> set rs. settled_in h es s \<or> (\<exists>w \<in> set ws. pp_session (wt_prepared w) = s))"
| "phase_ok h rs (BatchStopping w) \<longleftrightarrow> (\<forall>s \<in> set rs. handled h w s)"
| "phase_ok h rs (BatchMarking w) \<longleftrightarrow> bw_stops w = [] \<and> (\<forall>s \<in> set rs. handled h w s)"
| "phase_ok h rs (BatchHolding w) \<longleftrightarrow> bw_stops w = [] \<and> (\<forall>s \<in> set rs. handled h w s)"
| "phase_ok h rs _ \<longleftrightarrow> True"

definition running_ok :: "'p db list \<Rightarrow> orchestrator \<Rightarrow> bool" where
  "running_ok h c \<longleftrightarrow> (case or_running c of None \<Rightarrow> True
     | Some tk \<Rightarrow> phase_ok h (tk_runnable tk) (tk_phase tk) \<and> (\<forall>s \<in> set (tk_runnable tk). known (hd h) (s_id s)))"

lemma settled_in_mono: "settled_in h es s \<Longrightarrow> set h \<subseteq> set h' \<Longrightarrow> set es \<subseteq> set es' \<Longrightarrow> settled_in h' es' s"
  unfolding settled_in_def using spared_mono by blast

lemma handled_later:
  "handled h w s \<Longrightarrow> set h \<subseteq> set h' \<Longrightarrow> keeps_sessions (hd h) (hd h') \<Longrightarrow> handled h' w s"
  unfolding handled_def using spared_mono keeps_rows(2) by blast

lemma running_later:
  assumes "running_ok h c" "set h \<subseteq> set h'" "keeps_sessions (hd h) (hd h')" shows "running_ok h' c"
proof -
  have "phase_ok h rs ph \<Longrightarrow> phase_ok h' rs ph" for rs ph
    using settled_in_mono [OF _ assms(2) order.refl] handled_later [OF _ assms(2,3)] by (cases ph) auto
  then show ?thesis using assms(1) keeps_rows(1) [OF assms(3)] by (auto simp: running_ok_def split: option.splits)
qed

lemma writes_handled: "settled_in h es s \<Longrightarrow> handled h (writes_of cfg es) s"
proof -
  assume "settled_in h es s"
  then obtain e where e: "(s, e) \<in> set es" "e = RescheduleSession \<longrightarrow> spared h (s_id s)" by (auto simp: settled_in_def)
  from writes_decide [OF e(1), of cfg] e(2) show ?thesis by (cases e) (auto simp: decided_in_def handled_def)
qed

lemma begin_run_ok: "running_ok h (begin_run cfg c)"
  by (simp add: running_ok_def begin_run_def Let_def)

lemma call_tick_ok: "running_ok h c \<Longrightarrow> running_ok h (call_tick cfg c)"
  using begin_run_ok [of h cfg c] by (auto simp: call_tick_def running_ok_def split: option.splits)

lemma end_run_ok: "running_ok h (end_run cfg c)"
  using call_tick_ok [of h "c\<lparr>or_running := None\<rparr>" cfg] by (simp add: end_run_def Let_def running_ok_def)

lemma checkpoint_ok:
  "(\<not> or_stopped c \<Longrightarrow> phase_ok h (tk_runnable tk) ph \<and> (\<forall>s \<in> set (tk_runnable tk). known (hd h) (s_id s))) \<Longrightarrow> running_ok h (checkpoint cfg tk ph c)"
  using end_run_ok by (auto simp: checkpoint_def to_phase_def running_ok_def)

lemma list_runnable_known: "s \<in> set (list_runnable_sessions l ms ex accs d) \<Longrightarrow> known d (s_id s)"
  by (auto simp: list_runnable_sessions_def known_def dest!: in_set_takeD split: if_splits)

text \<open>The state the history is read in is the newest; a transaction of the tick commits on top of it.\<close>

lemma scan_ok: "running_ok (d # h) (scan parse cfg tk c d)"
proof -
  define c1 where "c1 = c\<lparr>or_heldUntil := filter (\<lambda>(i, until). tk_at tk + oc_holdSlackMs cfg < until) (or_heldUntil c)\<rparr>"
  define rs where "rs = list_runnable_sessions (oc_batchSize cfg) (oc_maxDurationMs cfg) (map fst (or_heldUntil c1)) (if tk_full tk then None else Some (tk_accounts tk)) d"
  have "settled_in (d # h) (lefts id (prepare_session parse cfg) rs) s \<or> (\<exists>p \<in> set (rights (prepare_session parse cfg) rs). pp_session p = s)" if "s \<in> set rs" for s
  proof (cases "prepare_session parse cfg s")
    case (Inl e)
    then show ?thesis using in_lefts [of s rs "prepare_session parse cfg" e id, OF that Inl] prepare_session_ends(1) by (auto simp: settled_in_def)
  next
    case (Inr p)
    then show ?thesis using in_rights [of s rs "prepare_session parse cfg" p, OF that Inr] prepare_session_ends(2) [OF Inr] by blast
  qed
  moreover have "known d (s_id s)" if "s \<in> set rs" for s using that list_runnable_known unfolding rs_def by blast
  moreover have "scan parse cfg tk c d = (if or_stopped c1 \<or> rs = [] then end_run cfg c1
      else to_phase (tk\<lparr>tk_runnable := rs\<rparr>) (BatchReading (rights (prepare_session parse cfg) rs) (lefts id (prepare_session parse cfg) rs)) c1)"
    by (simp add: scan_def rs_def c1_def Let_def)
  ultimately show ?thesis using end_run_ok [of "d # h" cfg c1] by (simp add: to_phase_def running_ok_def)
qed

lemma batch_read_ok:
  assumes "\<forall>s \<in> set (tk_runnable tk). settled_in (d # h) es s \<or> (\<exists>p \<in> set ps. pp_session p = s)" "\<forall>s \<in> set (tk_runnable tk). known d (s_id s)"
  shows "running_ok (d # h) (batch_read_step cfg tk ps es c d)"
proof -
  define reads where "reads = read_session_batch (map (\<lambda>p. (s_id (pp_session p), pp_noSignalTimeoutMs p)) ps) (oc_maxDurationMs cfg) d"
  define f where "f = (\<lambda>p. before_pair cfg p (reads (s_id (pp_session p))))"
  have all: "settled_in (d # h) (es @ lefts pp_session f ps) s \<or> (\<exists>w \<in> set (rights f ps). pp_session (wt_prepared w) = s)" if m: "s \<in> set (tk_runnable tk)" for s
  proof (cases "settled_in (d # h) es s")
    case True
    then show ?thesis using settled_in_mono [OF True order.refl, of "es @ lefts pp_session f ps"] by simp
  next
    case False
    then obtain p where p: "p \<in> set ps" "pp_session p = s" using assms(1) [rule_format, OF m] by blast
    show ?thesis
    proof (cases "f p")
      case (Inl e)
      have "e = RescheduleSession \<longrightarrow> spared (d # h) (s_id s)"
      proof
        assume "e = RescheduleSession"
        then have "spared [d] (s_id s)" using reschedule_spared Inl p(2) unfolding f_def reads_def by blast
        then show "spared (d # h) (s_id s)" by (rule spared_mono) simp
      qed
      then show ?thesis using in_lefts [of p ps f e pp_session, OF p(1) Inl] p(2) unfolding settled_in_def by (intro disjI1 exI [of _ e]) simp
    next
      case (Inr w)
      then have "wt_prepared w = p" by (simp add: f_def before_pair_waits)
      then show ?thesis using in_rights [of p ps f w, OF p(1) Inr] p(2) by blast
    qed
  qed
  have step: "batch_read_step cfg tk ps es c d = checkpoint cfg tk (if rights f ps = [] then BatchStopping (writes_of cfg (es @ lefts pp_session f ps))
      else BatchPairing (rights f ps) (es @ lefts pp_session f ps)) c"
    by (simp add: batch_read_step_def f_def reads_def Let_def)
  show ?thesis unfolding step
    using all assms(2) by (intro checkpoint_ok) (auto intro: writes_handled)
qed

lemma pairs_ok:
  assumes "\<forall>s \<in> set (tk_runnable tk). settled_in h es s \<or> (\<exists>w \<in> set ws. pp_session (wt_prepared w) = s)" "\<forall>s \<in> set (tk_runnable tk). known (hd h) (s_id s)"
  shows "running_ok h (pairs_step cfg catalog tk ws es c)"
proof -
  let ?es = "es @ map (\<lambda>w. (pp_session (wt_prepared w), at_pair cfg (tk_at tk) catalog w)) ws"
  have "settled_in h ?es s" if m: "s \<in> set (tk_runnable tk)" for s
  proof (cases "settled_in h es s")
    case True
    then show ?thesis using settled_in_mono [OF True order.refl, of ?es] by simp
  next
    case False
    then obtain w where "w \<in> set ws" "pp_session (wt_prepared w) = s" using assms(1) [rule_format, OF m] by blast
    then have "(s, at_pair cfg (tk_at tk) catalog w) \<in> set ?es" by force
    then show ?thesis unfolding settled_in_def using at_pair_ends by blast
  qed
  then have "handled h (writes_of cfg ?es) s" if "s \<in> set (tk_runnable tk)" for s using that writes_handled by blast
  then show ?thesis using assms(2) unfolding pairs_step_def by (intro checkpoint_ok) auto
qed

lemma stop_handled:
  assumes "handled (d # h) w s" "bw_stops w = (reason, ids) # gs" "known d (s_id s)"
    "d' = snd (stop_trading_sessions ids reason d)" "keeps_sessions d d'"
  shows "handled (d' # d # h) (w\<lparr>bw_stops := gs\<rparr>) s"
proof (cases "s_id s \<in> set ids")
  case True
  from stop_ends [OF assms(3) this, of reason] have "ended_row d' (s_id s) \<or> spared (d' # d # h) (s_id s)"
    using spared_mono [of "[d]" "s_id s" "d' # d # h"] unfolding assms(4) by auto
  then show ?thesis by (auto simp: handled_def)
next
  case False
  then have "handled (d # h) (w\<lparr>bw_stops := gs\<rparr>) s" using assms(1,2) by (auto simp: handled_def stop_ids_def)
  then show ?thesis using assms(5) by (elim handled_later) auto
qed

text \<open>Every statement of the orchestrator is a change of the platform, or reads.\<close>

lemma tick_step_changes:
  "snd (tick_step parse cfg pick catalog tk c d) = d \<or> change d (snd (tick_step parse cfg pick catalog tk c d))"
proof (cases "tk_phase tk")
  case SweepPaused
  then show ?thesis by (auto simp: tick_step_def intro!: SessionStep StopPaused [OF prod.collapse [symmetric]])
next
  case SweepExpired
  then show ?thesis by (auto simp: tick_step_def intro!: SessionStep StopExpired [OF prod.collapse [symmetric]])
next
  case SweepHalted
  then show ?thesis by (auto simp: tick_step_def intro!: SessionStep StopHalted [OF prod.collapse [symmetric]])
next
  case (BatchStopping w)
  then show ?thesis by (auto simp: tick_step_def split: list.split intro!: SessionStep StopMany [OF prod.collapse [symmetric]])
qed (auto simp: tick_step_def intro!: SessionStep MarkDecisions)

lemma event_changes:
  assumes "orchestrator_event parse cfg e c d = (c', d')" shows "d' = d \<or> change d d'"
proof (cases e)
  case (TickGoesOn pick catalog)
  show ?thesis
  proof (cases "or_running c")
    case (Some tk)
    then have "d' = snd (tick_step parse cfg pick catalog tk c d)" using assms TickGoesOn by simp
    then show ?thesis using tick_step_changes by metis
  qed (use assms TickGoesOn in simp)
next
  case (LateLands k)
  then show ?thesis using assms
    by (auto split: if_splits list.splits intro!: SessionStep MarkDecisions StopMany [OF prod.collapse [symmetric]])
qed (use assms in \<open>auto split: option.splits if_splits\<close>)

lemma tick_step_ok:
  assumes "running_ok (d # h) c" "or_running c = Some tk" "tick_step parse cfg pick catalog tk c d = (c', d')" "keeps_sessions d d'"
  shows "running_ok (d' # d # h) c'"
proof -
  have known: "\<forall>s \<in> set (tk_runnable tk). known d (s_id s)" and ph: "phase_ok (d # h) (tk_runnable tk) (tk_phase tk)"
    using assms(1,2) by (auto simp: running_ok_def)
  have later: "running_ok (d # h) c1 \<Longrightarrow> running_ok (d' # d # h) c1" for c1
    using running_later [of "d # h" c1 "d' # d # h"] assms(4) by auto
  have known': "\<forall>s \<in> set (tk_runnable tk). known d' (s_id s)" using known keeps_rows(1) [OF assms(4)] by blast
  have handled': "handled (d' # d # h) w s" if "handled (d # h) w s" for w s
    using handled_later [OF that, of "d' # d # h"] assms(4) by auto
  show ?thesis
  proof (cases "tk_phase tk")
    case Scanning
    then show ?thesis using assms(3) later scan_ok by (auto simp: tick_step_def)
  next
    case (BatchReading ps es)
    then show ?thesis using assms(3) later batch_read_ok [of tk d h es ps cfg c] ph known by (auto simp: tick_step_def)
  next
    case (BatchPairing ws es)
    then show ?thesis using assms(3) later pairs_ok [of tk "d # h" es ws cfg catalog c] ph known by (auto simp: tick_step_def)
  next
    case (BatchStopping w)
    show ?thesis
    proof (cases "bw_stops w")
      case Nil
      then show ?thesis using assms(3) BatchStopping ph known' handled' by (auto simp: tick_step_def to_phase_def running_ok_def)
    next
      case (Cons g gs)
      obtain reason ids where g: "g = (reason, ids)" by (cases g)
      have e: "c' = checkpoint cfg tk (BatchStopping (w\<lparr>bw_stops := gs\<rparr>)) c" "d' = snd (stop_trading_sessions ids reason d)"
        using assms(3) BatchStopping Cons g by (simp_all add: tick_step_def)
      have "handled (d' # d # h) (w\<lparr>bw_stops := gs\<rparr>) s" if "s \<in> set (tk_runnable tk)" for s
        using ph known that BatchStopping by (intro stop_handled [OF _ Cons [unfolded g] _ e(2) assms(4)]) auto
      then show ?thesis unfolding e(1) using known' by (intro checkpoint_ok) auto
    qed
  next
    case (BatchMarking w)
    then have "c' = checkpoint cfg tk (BatchHolding w) c" using assms(3) by (simp add: tick_step_def)
    then show ?thesis using ph known' handled' BatchMarking by (auto intro!: checkpoint_ok)
  next
    case (BatchHolding w)
    then show ?thesis using assms(3) end_run_ok by (auto simp: tick_step_def)
  qed (use assms(3) known' in \<open>auto simp: tick_step_def to_phase_def running_ok_def\<close>)
qed

lemma running_ok_fields [simp]:
  "running_ok h (c\<lparr>or_stopped := b\<rparr>) = running_ok h c" "running_ok h (c\<lparr>or_clock := t\<rparr>) = running_ok h c"
  "running_ok h (c\<lparr>or_late := x\<rparr>) = running_ok h c" "running_ok h (c\<lparr>or_pending := n\<rparr>) = running_ok h c"
  "running_ok h (c\<lparr>or_pendingFull := f\<rparr>) = running_ok h c" "running_ok h (c\<lparr>or_pendingAccounts := as\<rparr>) = running_ok h c"
  by (simp_all add: running_ok_def)

lemma wake_ok: "running_ok h c \<Longrightarrow> running_ok h (wake cfg account c)"
  by (cases account) (auto simp: wake_def Let_def intro!: call_tick_ok)

lemma orchestrator_event_ok:
  assumes "orchestrator_event parse cfg e c d = (c', d')" "running_ok (d # h) c" "keeps_sessions d d'"
  shows "running_ok (d' # d # h) c'"
proof -
  have later: "running_ok (d # h) c1 \<Longrightarrow> running_ok (d' # d # h) c1" for c1
    using running_later [of "d # h" c1 "d' # d # h"] assms(3) by auto
  show ?thesis
  proof (cases e)
    case (TickGoesOn pick catalog)
    show ?thesis
    proof (cases "or_running c")
      case (Some tk)
      then show ?thesis using tick_step_ok [OF assms(2) Some, of parse cfg pick catalog c' d'] assms(1,3) TickGoesOn by simp
    qed (use assms later TickGoesOn in simp)
  next
    case TickCalled
    then show ?thesis using assms(1,2) later call_tick_ok [of "d # h" c cfg] by auto
  next
    case (Woken account)
    then show ?thesis using assms(1,2) later wake_ok [of "d # h" c cfg account] by auto
  qed (use assms(1,2) later end_run_ok in \<open>auto split: option.splits if_splits\<close>)
qed

definition service_ok :: "'p db list \<times> orchestrator \<Rightarrow> bool" where
  "service_ok w \<longleftrightarrow> history_ok (fst w) \<and> running_ok (fst w) (snd w)"

lemma orchestrator_step_ok:
  assumes "orchestrator_step parse cfg w w'" "service_ok w" shows "service_ok w'"
  using assms(1)
proof cases
  case (OwnStep e c d c' d' h)
  then have ok: "db_ok d" "running_ok (d # h) c" using assms(2) by (simp_all add: service_ok_def history_ok_def)
  have ch: "d' = d \<or> change d d'" by (rule event_changes [OF OwnStep(3)])
  then have "keeps_sessions d d'" using ok(1) change_sessions by auto
  then have "running_ok (d' # d # h) c'" by (rule orchestrator_event_ok [OF OwnStep(3) ok(2)])
  moreover have "history_ok (d' # d # h)" using ch assms(2) OwnStep platform.step_inv [OF Commit, of d d' h]
    by (auto simp: service_ok_def history_ok_def)
  ultimately show ?thesis using OwnStep by (simp add: service_ok_def)
next
  case (BesideStep h h' c)
  then have ok: "history_ok h" "running_ok h c" using assms(2) by (simp_all add: service_ok_def)
  from platform_step_newest [OF BesideStep(3) ok(1)] obtain d d' rest where n: "h = d # rest" "h' = d' # d # rest" "later d d'" by blast
  have "running_ok h' c" using running_later [OF ok(2), of h'] laterD(3) [OF n(3)] n(1,2) by auto
  then show ?thesis using platform.step_inv [OF BesideStep(3) ok(1)] BesideStep by (simp add: service_ok_def)
qed

interpretation orchestrating: machine "orchestrator_step parse cfg" service_ok for parse cfg
  by unfold_locales (rule orchestrator_step_ok)

lemma held_after:
  assumes "\<forall>(i, ms) \<in> set holds. least \<le> f ms" "sid \<in> fst ` set holds \<or> (\<exists>u. map_of al sid = Some u \<and> least \<le> u)"
  shows "\<exists>u. map_of (fold (\<lambda>(i, ms). AList.update i (f ms)) holds al) sid = Some u \<and> least \<le> u"
  using assms
proof (induction holds arbitrary: al)
  case (Cons x xs)
  obtain i ms where x: "x = (i, ms)" by (cases x)
  have "\<exists>u. map_of (fold (\<lambda>(i, ms). AList.update i (f ms)) xs (AList.update i (f ms) al)) sid = Some u \<and> least \<le> u"
    using Cons.prems x by (intro Cons.IH) (auto simp: update_conv')
  then show ?case by (simp add: x)
qed simp

lemma end_run_held [simp]: "or_heldUntil (end_run cfg c) = or_heldUntil c"
  by (simp add: end_run_def call_tick_def begin_run_def Let_def split: option.split)


section \<open>A concrete batch\<close>

fun run_orchestrator ::
  "(string \<Rightarrow> session_settings option) \<Rightarrow> orchestrator_config \<Rightarrow> orchestrator_happening list \<Rightarrow> orchestrator \<times> 'p db \<Rightarrow> orchestrator \<times> 'p db" where
  "run_orchestrator parse cfg [] w = w"
| "run_orchestrator parse cfg (e # es) w = run_orchestrator parse cfg es (orchestrator_event parse cfg e (fst w) (snd w))"

lemma run_orchestrator_reachable:
  "\<exists>h'. (orchestrator_step parse cfg)\<^sup>*\<^sup>* (d # h, c) (snd (run_orchestrator parse cfg es (c, d)) # h', fst (run_orchestrator parse cfg es (c, d)))"
proof (induction es arbitrary: c d h)
  case (Cons e es)
  obtain c' d' where e: "orchestrator_event parse cfg e c d = (c', d')" by (cases "orchestrator_event parse cfg e c d")
  have "orchestrator_step parse cfg (d # h, c) (d' # d # h, c')" by (rule OwnStep [OF e])
  then show ?case using Cons [of d' "d # h" c'] e by (auto intro: converse_rtranclp_into_rtranclp)
qed auto

definition demo_settings :: "string \<Rightarrow> session_settings option" where
  "demo_settings text = Some (SettingsV5 5 H1_EXPIRY_SEC 3
     \<lparr>strategy = Fixed, baseStake = Some ''2.50'', stakeScale = JInt 2, limits = NoLimits\<rparr>)"

definition demo_pairs :: pairs_outcome where
  "demo_pairs = PairsRead True [\<lparr>pv_id = 5, pv_minTimeframe = 5, pv_maxTimeframe = 3600, pv_scheduledUntil = 0,
     pv_payout = \<lparr>payout_finite = True, payout_string = ''80''\<rparr>\<rparr>]"

text \<open>The three sweeps, the scan, the read, the pairs, the stops, the marks.\<close>

definition demo_tick :: "orchestrator_happening list" where
  "demo_tick = TickCalled # replicate 8 (TickGoesOn take demo_pairs)"

lemma demo_tick_holds:
  "case or_running (fst (run_orchestrator demo_settings demo_orchestrator_config demo_tick (create_session_orchestrator 5, demo_started))) of
     None \<Rightarrow> False
   | Some tk \<Rightarrow> tk_phase tk = BatchHolding \<lparr>bw_stops = [], bw_marked = [10], bw_holds = [(10, 60000)]\<rparr>
       \<and> map s_id (tk_runnable tk) = [10] \<and> tk_at tk = 5"
  "\<not> or_stopped (fst (run_orchestrator demo_settings demo_orchestrator_config demo_tick (create_session_orchestrator 5, demo_started)))"
  "list_all (\<lambda>s. s_status s = SActive) (sessions (snd (run_orchestrator demo_settings demo_orchestrator_config demo_tick (create_session_orchestrator 5, demo_started))))"
  by code_simp+


end
