(* ===== verification/Spec2Isabelle.thy ===== *)
theory Spec2Isabelle
  imports Stake_Bounds Stake_Sizer Guarantees Session_Guarantees Fleet Rewards Deposit_Life Breaker Get_Budget Catchup Orchestrator_Safe
begin

text \<open>
  \<^bold>\<open>binarius: the trading core.\<close> The program is a Telegram trading platform: a bot and a web front talk
  to a backend, the backend writes trade intents and trading sessions into PostgreSQL, an outbox
  publisher hands them to a trading worker, and the worker places the trades at the broker and writes
  their outcomes back. Everything that decides about money happens in two places, and these are what
  is modelled: the pure arithmetic of \<^verbatim>\<open>packages/shared\<close> and \<^verbatim>\<open>packages/stake\<close>, and the database
  transactions of \<^verbatim>\<open>packages/db\<close>, through which the processes interact.

  \<^bold>\<open>The theories.\<close>

  \<^item> \<^theory_text>\<open>Prelude\<close>: the shared list, option, map and string lemmas; \<open>sql_first\<close>, \<open>sql_update\<close> and
    \<open>unique_on\<close>, the model of a \<open>SELECT \<dots> LIMIT 1\<close>, an \<open>UPDATE \<dots> WHERE\<close> and a (partial) unique index.
  \<^item> \<^theory_text>\<open>Money\<close>: \<^verbatim>\<open>packages/shared/src/money.ts\<close> and \<^verbatim>\<open>packages/stake/src/money.ts\<close>, decimal strings and
    scaled amounts. \<^theory_text>\<open>Stake_Bounds\<close>: \<^verbatim>\<open>packages/shared/src/stake.ts\<close>, the check of a stake, the presets,
    the stake a user types. \<^theory_text>\<open>Stake_Sizer\<close>: \<^verbatim>\<open>packages/stake\<close>, the decision on a session's next stake.
  \<^item> \<^theory_text>\<open>Trade_Types\<close>: the vocabulary of \<^verbatim>\<open>packages/shared/src/trading.ts\<close> and the transition table of an
    intent. \<^theory_text>\<open>Tables\<close> and \<^theory_text>\<open>Db\<close>: the rows the operations read and write, the unique indexes they can
    hit, the trading switch, and the state of the database as one record.
  \<^item> \<^theory_text>\<open>Intents\<close>: \<^verbatim>\<open>packages/db/src/trade-intent-ops.ts\<close>, one definition per operation, in the file's
    order. \<^theory_text>\<open>Operator\<close>: the two operator writes, \<^verbatim>\<open>token-adjustment-ops.ts\<close> and
    \<^verbatim>\<open>trading-switch-ops.ts\<close>. \<^theory_text>\<open>Sessions\<close>: \<^verbatim>\<open>trading-session-ops.ts\<close>.
  \<^item> What fills the balances the trading spends. \<^theory_text>\<open>Stars\<close>: \<^verbatim>\<open>packages/shared/src/stars.ts\<close>,
    \<^verbatim>\<open>star-payment-ops.ts\<close>, and \<^verbatim>\<open>apps/backend/src/payments\<close>, the shop's routes and the reconciler.
    \<^theory_text>\<open>Bonus\<close>: \<^verbatim>\<open>packages/shared/src/bonus.ts\<close>, \<^verbatim>\<open>bonus-rule-ops.ts\<close>, \<^verbatim>\<open>link-bonus-ops.ts\<close>,
    \<^verbatim>\<open>referral-reward-ops.ts\<close>. \<^theory_text>\<open>Linking\<close>: \<^verbatim>\<open>oauth-ops.ts\<close>, the login and the confirmation of a broker
    account. \<^theory_text>\<open>Deposits\<close>: \<^verbatim>\<open>user-ops.ts\<close>, \<^verbatim>\<open>referral-ops.ts\<close>, \<^verbatim>\<open>deposit-mode-switch-ops.ts\<close>,
    \<^verbatim>\<open>postback-ops.ts\<close> with \<^verbatim>\<open>packages/shared/src/postback.ts\<close>.
  \<^item> \<^theory_text>\<open>Treasury\<close>, \<^theory_text>\<open>Stars_Safe\<close>, \<^theory_text>\<open>Accounts_Safe\<close>: what the trading leaves of the payments and the grants,
    and what the payments and the accounts leave of the trading; \<^theory_text>\<open>Bonus_Safe\<close>: the invariant of the
    rules, the referrals, the grants and the deposits. \<^theory_text>\<open>Payments\<close>, \<^theory_text>\<open>Grants\<close>: both carried along the
    runs, as two more interpretations of the ordered machine; \<^theory_text>\<open>Payments\<close>, \<^theory_text>\<open>Rewards\<close> and
    \<^theory_text>\<open>Deposit_Life\<close> hold the properties.
  \<^item> \<^theory_text>\<open>Intents_Inv\<close>, \<^theory_text>\<open>Intents_Safe\<close>, \<^theory_text>\<open>Intents_Settle\<close>, \<^theory_text>\<open>Sessions_Safe\<close>: the invariant \<open>db_ok\<close> of the
    tables and its preservation by every operation, with how each operation can end.
    \<^theory_text>\<open>Progress\<close> and \<^theory_text>\<open>Later\<close>: what an operation keeps, as the order \<open>later\<close> between two states.
  \<^item> \<^theory_text>\<open>Machine\<close>: the interface of an ordered machine, a step relation with an invariant and an order
    that every step respects, as a locale; its lemmas carry both along runs. \<^theory_text>\<open>Platform\<close>: the
    database as such a machine, one step per committed transaction of any process, and the
    interpretation of the locale on it. \<^theory_text>\<open>Guarantees\<close> and \<^theory_text>\<open>Session_Guarantees\<close>: the properties of the
    runs. \<^theory_text>\<open>Outbox\<close>: the publisher of \<^verbatim>\<open>apps/backend/src/outbox\<close>; \<^theory_text>\<open>Delivery\<close>: what it owes the intents.
    \<^theory_text>\<open>Demo\<close>: a concrete database and its runs, for the witnesses.
  \<^item> The worker, \<^verbatim>\<open>apps/trading-worker/src/intents\<close>: \<^theory_text>\<open>Trade_Pages\<close>, the reader of the broker's trade
    pages; \<^theory_text>\<open>Matching\<close>, the reconciler that decides whether a trade is an intent's; \<^theory_text>\<open>Executor\<close>, the
    sending of the order; \<^theory_text>\<open>Worker\<close>, the processor, the sweeper and the reconciliation attempt as tasks,
    one transaction per step; \<^theory_text>\<open>Fleet\<close>, any number of such tasks beside everything else that writes. \<^theory_text>\<open>Breaker\<close>:
    \<^verbatim>\<open>apps/trading-worker/src/circuit-breaker\<close>, which pauses the trading when the broker goes silent;
    \<^theory_text>\<open>Get_Budget\<close>: \<^verbatim>\<open>apps/trading-worker/src/broker/get-budget.ts\<close>, the share of the broker's limit;
    \<^theory_text>\<open>Catchup\<close>: \<^verbatim>\<open>settlement-catchup.ts\<close>, the settlement of what the socket missed.
  \<^item> The sessions' plan and their orchestrator. \<^theory_text>\<open>Session_Plan\<close>: \<^verbatim>\<open>packages/shared/src/trading-session.ts\<close>
    and \<^verbatim>\<open>session-steps.ts\<close>, the versions of the settings, the progress and the blocks, the settings of a
    new session. \<^theory_text>\<open>Orchestrator\<close>: \<^verbatim>\<open>apps/trading-worker/src/trading-session/orchestrator.ts\<close>, the tick, its
    batch and the wakes, one transaction or one answer per step; \<^theory_text>\<open>Orchestrator_Safe\<close>: what a batch owes
    the sessions it takes, along the runs of the orchestrator beside everything else that writes.

  \<^bold>\<open>How the code corresponds.\<close> A transaction is a function from the state to its answer and the state it
  commits; an exception that rolls it back is a value of \<open>tx_error\<close> and leaves the state as it was. A
  statement on one row under its lock reads the state the lock finds. Where the code reads plainly
  before it takes its first lock, the reads are of an argument \<open>seen\<close>, any state that was committed
  earlier, so every interleaving of two transactions that the locks allow is a step of the machine:
  the platform's state is the list of the committed states. \<open>LIMIT\<close> without an order is an argument
  \<open>pick\<close>, bound only by what SQL promises of it. The clock \<open>now\<close> and the identifiers \<open>next_id\<close> are part of
  the state; identifiers are numbers, and one that is given out is never given out again. Money is the decimal text the code stores, read as the rational
  it denotes; the broker's prices are a type parameter, since nothing computes with them.

  \<^bold>\<open>What the lemmas show.\<close> \<^theory_text>\<open>Platform\<close>: the token columns are exact, at most one live intent per account,
  intents advance along the table, a take is a fence. \<^theory_text>\<open>Guarantees\<close>: how a creation ends and how its
  retry is answered, a trade settles once, the outbox owes each intent exactly its messages, the
  database's guards never fire. \<^theory_text>\<open>Session_Guarantees\<close>: one active session per account, a stop is
  final and a stopped session opens nothing, the kill switch's sweep, the scan's fairness, the start
  check against the creation, the batch read against the single reads, the summary's one claim.
  \<^theory_text>\<open>Delivery\<close>: no intent is stranded without a delivery, and giving one up is a rejection.
  \<^theory_text>\<open>Payments\<close>: a charge is credited once and refunded once, within the free tokens; an approved
  checkout is never held; the reconciler loses no payment. \<^theory_text>\<open>Rewards\<close>: one pack a user, one reward a
  referral, versions never rewritten, what a confirmation pays, what a login alone does not.
  \<^theory_text>\<open>Deposit_Life\<close>: a payment is one deposit, a deposit decides the mode once, a change of the mode stops
  the sessions. \<^theory_text>\<open>Breaker\<close>: the window forgets nothing that counts, and a trip pauses the trading.
  \<^theory_text>\<open>Get_Budget\<close>: no minute holds more GETs than the cap. \<^theory_text>\<open>Catchup\<close>: an overdue intent whose trade the
  broker lists as closed is settled, and the head of the queue starves nobody. \<^theory_text>\<open>Session_Plan\<close>: the plan,
  the messages and the sizer count one series, a session completes only between two, and the settings
  the start builds can trade. \<^theory_text>\<open>Orchestrator\<close>, \<^theory_text>\<open>Orchestrator_Safe\<close>: no wake is lost and a batch forgets
  no session.
  \<^theory_text>\<open>Fleet\<close>: every run of the workers is a run of the platform, an intent's order is sent at most
  once and only past the fence, and every task ends. \<^theory_text>\<open>Executor\<close>: the two-cases rule of the
  transports. \<^theory_text>\<open>Matching\<close> and \<^theory_text>\<open>Trade_Pages\<close>: the pages read are what the broker listed, a found trade
  is the intent's, an absence is real and a release rests on two of them.
  \<^theory_text>\<open>Stake_Sizer\<close>: no session loses more than its cap, a decided stake is within its limits and is the
  least that pays the streak back. \<^theory_text>\<open>Stake_Bounds\<close>: what the check decides, that every preset passes
  it, what the parser returns.

  \<^bold>\<open>Bounds.\<close> Nothing runs on fuel: every recursion of the model is structural or has a measure.
  JavaScript numbers appear where the code uses them as integers below \<open>2 ^ 53\<close>, with the check of
  the code that keeps them there; bigints are \<open>int\<close>.

  \<^bold>\<open>Not modelled.\<close> HTTP routes, the Telegram bot's conversations and texts, HTML, the broker's clients and
  the queue are input and output around these operations: what the broker, the queue and a token
  request answer are inputs of the worker's, the publisher's, the catch-up's and the orchestrator's
  steps. The backend's H1 driver appears as the transactions it calls, the creation of a session's
  intent, the stop and the recorded decision, at any moment and in any order; its own timers and flags
  do not. The indicators of the signal decider are floating point. The fleet registry, the session
  manager and the token provider are promises and timers around sockets; staff, mailing, notices and
  the admin's reads write tables of their own that nothing modelled reads. Columns no modelled
  operation reads are left out of the rows.
\<close>

end
